(* ===== verification/Json.thy ===== *)
theory Json
  imports Prelude
begin

text \<open>
  JSON values and the JSON-RPC predicates of \<^verbatim>\<open>src/shim/rpc.ts\<close>. An object is an
  association list with distinct keys in insertion order, so spreading, adding and deleting
  properties are \<^const>\<open>jm_set\<close> and \<^const>\<open>jm_del\<close>; an absent property reads \<open>None\<close>,
  which stands for \<open>undefined\<close>. A number is an integer, a finite non-integer (kept as its
  literal) or not finite.
\<close>

datatype json =
    JNull
  | JBool bool
  | JInt int
  | JFrac string
  | JNonFinite
  | JStr string
  | JArr "json list"
  | JObj "(string \<times> json) list"

type_synonym jobj = "(string, json) jsmap"

text \<open>\<open>isRecord(value)\<close>, as the object it narrows to.\<close>

fun is_record :: "json \<Rightarrow> jobj option" where
  "is_record (JObj o') = Some o'"
| "is_record _ = None"

text \<open>Property reads on an object whose value is tested with \<open>typeof\<close>.\<close>

definition oget :: "jobj \<Rightarrow> string \<Rightarrow> json option" where
  "oget ob k = jm_get ob k"

fun as_string :: "json option \<Rightarrow> string option" where
  "as_string (Some (JStr s)) = Some s"
| "as_string _ = None"

fun as_record :: "json option \<Rightarrow> jobj option" where
  "as_record (Some (JObj ob)) = Some ob"
| "as_record _ = None"

fun as_array :: "json option \<Rightarrow> json list option" where
  "as_array (Some (JArr xs)) = Some xs"
| "as_array _ = None"

fun as_integer :: "json option \<Rightarrow> int option" where
  "as_integer (Some (JInt i)) = Some i"
| "as_integer _ = None"

fun is_number :: "json option \<Rightarrow> bool" where
  "is_number (Some (JInt _)) = True"
| "is_number (Some (JFrac _)) = True"
| "is_number (Some JNonFinite) = True"
| "is_number _ = False"

fun is_finite_number :: "json option \<Rightarrow> bool" where
  "is_finite_number (Some (JInt _)) = True"
| "is_finite_number (Some (JFrac _)) = True"
| "is_finite_number _ = False"

abbreviation sprop :: "jobj \<Rightarrow> string \<Rightarrow> string option" where
  "sprop ob k \<equiv> as_string (oget ob k)"

abbreviation rprop :: "jobj \<Rightarrow> string \<Rightarrow> jobj option" where
  "rprop ob k \<equiv> as_record (oget ob k)"

lemma as_string_Some [simp]: "as_string v = Some s \<longleftrightarrow> v = Some (JStr s)"
  by (cases v rule: as_string.cases) auto

lemma as_record_Some [simp]: "as_record v = Some s \<longleftrightarrow> v = Some (JObj s)"
  by (cases v rule: as_record.cases) auto

lemma as_array_Some [simp]: "as_array v = Some s \<longleftrightarrow> v = Some (JArr s)"
  by (cases v rule: as_array.cases) auto

lemma as_integer_Some [simp]: "as_integer v = Some s \<longleftrightarrow> v = Some (JInt s)"
  by (cases v rule: as_integer.cases) auto

lemma is_record_Some [simp]: "is_record v = Some ob \<longleftrightarrow> v = JObj ob"
  by (cases v) auto

text \<open>\<open>oget\<close> through the updates of an object literal.\<close>

lemma oget_set [simp]: "oget (jm_set ob k v) k' = (if k' = k then Some v else oget ob k')"
  by (simp add: oget_def)

lemma oget_del [simp]: "oget (jm_del ob k) k' = (if k' = k then None else oget ob k')"
  by (simp add: oget_def)

text \<open>\<open>{ ...a, ...b }\<close>.\<close>

definition spread :: "jobj \<Rightarrow> jobj \<Rightarrow> jobj" where
  "spread a b = foldl (\<lambda>ob (k, v). jm_set ob k v) a b"

lemma oget_spread:
  "jm_ok b \<Longrightarrow> oget (spread a b) k = (case oget b k of None \<Rightarrow> oget a k | Some v \<Rightarrow> Some v)"
proof (induction b arbitrary: a)
  case Nil
  then show ?case by (simp add: spread_def oget_def)
next
  case (Cons p b)
  obtain k' v where p: "p = (k', v)" by (cases p)
  have IH: "oget (spread (jm_set a k' v) b) k =
      (case oget b k of None \<Rightarrow> oget (jm_set a k' v) k | Some v \<Rightarrow> Some v)"
    using Cons by (auto simp: jm_ok_def)
  have "oget b k' = None"
    using Cons.prems by (auto simp: jm_ok_def p oget_def jm_get_None)
  with IH show ?case
    by (auto simp: spread_def p oget_def jm_get_Cons split: option.splits)
qed

section \<open>Conversions\<close>

text \<open>\<open>ToBoolean\<close> and \<open>String(value)\<close>; an integer is printed in decimal, as JavaScript prints those below 10^21.\<close>

fun truthy :: "json option \<Rightarrow> bool" where
  "truthy None = False"
| "truthy (Some JNull) = False"
| "truthy (Some (JBool b)) = b"
| "truthy (Some (JInt i)) = (i \<noteq> 0)"
| "truthy (Some (JStr s)) = (s \<noteq> [])"
| "truthy _ = True"

fun nat_text :: "nat \<Rightarrow> string" where
  "nat_text n = (if n < 10 then [char_of (48 + n)] else nat_text (n div 10) @ [char_of (48 + n mod 10)])"

declare nat_text.simps [simp del]

definition int_text :: "int \<Rightarrow> string" where
  "int_text i = (if i < 0 then CHR ''-'' # nat_text (nat (- i)) else nat_text (nat i))"

fun js_string :: "json \<Rightarrow> string" where
  "js_string JNull = ''null''"
| "js_string (JBool b) = (if b then ''true'' else ''false'')"
| "js_string (JInt i) = int_text i"
| "js_string (JFrac f) = f"
| "js_string JNonFinite = ''Infinity''"
| "js_string (JStr s) = s"
| "js_string (JArr xs) = join_with '','' (map (\<lambda>x. if x = JNull then [] else js_string x) xs)"
| "js_string (JObj _) = ''[object Object]''"

definition js_string_of :: "json option \<Rightarrow> string" where
  "js_string_of v = (case v of None \<Rightarrow> ''undefined'' | Some x \<Rightarrow> js_string x)"

section \<open>Messages\<close>

text \<open>
  An \<open>RpcId\<close> is a string or a number. A message is the record it was parsed to; the three
  type guards say which kind it is.
\<close>

fun rpc_id :: "json option \<Rightarrow> json option" where
  "rpc_id (Some (JStr s)) = Some (JStr s)"
| "rpc_id (Some (JInt i)) = Some (JInt i)"
| "rpc_id (Some (JFrac f)) = Some (JFrac f)"
| "rpc_id (Some JNonFinite) = Some JNonFinite"
| "rpc_id _ = None"

definition is_rpc_request :: "jobj \<Rightarrow> bool" where
  "is_rpc_request m \<longleftrightarrow> rpc_id (oget m ''id'') \<noteq> None \<and> sprop m ''method'' \<noteq> None"

definition is_rpc_notification :: "jobj \<Rightarrow> bool" where
  "is_rpc_notification m \<longleftrightarrow> oget m ''id'' = None \<and> sprop m ''method'' \<noteq> None"

definition is_rpc_response :: "jobj \<Rightarrow> bool" where
  "is_rpc_response m \<longleftrightarrow>
     rpc_id (oget m ''id'') \<noteq> None \<and> oget m ''method'' = None \<and>
     (oget m ''result'' \<noteq> None \<or> oget m ''error'' \<noteq> None)"

text \<open>\<open>parseRpcLine\<close> after \<open>JSON.parse\<close>, which is the argument: \<open>None\<close> a syntax error.\<close>

definition parse_rpc_line :: "(string \<Rightarrow> json option) \<Rightarrow> string \<Rightarrow> string + jobj" where
  "parse_rpc_line parse line =
     (case parse line of
        None \<Rightarrow> Inl ''SyntaxError''
      | Some v \<Rightarrow> (case is_record v of
          None \<Rightarrow> Inl ''JSON-RPC message must be an object''
        | Some ob \<Rightarrow> Inr ob))"

lemma rpc_kinds_disjoint:
  "\<not> (is_rpc_request m \<and> is_rpc_notification m)"
  "\<not> (is_rpc_request m \<and> is_rpc_response m)"
  "\<not> (is_rpc_notification m \<and> is_rpc_response m)"
  by (auto simp: is_rpc_request_def is_rpc_notification_def is_rpc_response_def)

end
