(* ===== verification/Errors.thy ===== *)
theory Errors
  imports Json
begin

text \<open>
  \<^verbatim>\<open>src/core/types.ts\<close> (the bridge states and error codes) and
  \<^verbatim>\<open>src/core/errors.ts\<close>: \<open>BridgeError\<close>, its payload and the coercion of anything
  thrown into one. Every fallible operation of the other theories returns
  \<open>bridge_error + 'a\<close>.
\<close>

datatype bridge_state =
    Disabled | Configuring | Connecting | Ready | Busy | Degraded | Disconnected | Incompatible

datatype error_code =
    BRIDGE_NOT_READY | SSH_DISCONNECTED | HOST_KEY_MISMATCH | PATH_OUTSIDE_ROOT
  | FILE_CONFLICT | COMMAND_DENIED | LOCAL_EXECUTION_BLOCKED | TIMEOUT | CANCELLED
  | PROTOCOL_MISMATCH | OUTPUT_TRUNCATED | RESULT_UNKNOWN | INVALID_CONFIG
  | REMOTE_TRANSPORT_DISCONNECTED

datatype bridge_error =
  BridgeError (err_code: error_code) (err_message: string) (err_details: "jobj option")

abbreviation throw :: "error_code \<Rightarrow> string \<Rightarrow> bridge_error + 'a" where
  "throw c m \<equiv> Inl (BridgeError c m None)"

abbreviation throw_with :: "error_code \<Rightarrow> string \<Rightarrow> jobj \<Rightarrow> bridge_error + 'a" where
  "throw_with c m d \<equiv> Inl (BridgeError c m (Some d))"

text \<open>\<open>RETRYABLE_CODES\<close> and the \<open>retryable\<close> field the constructor derives.\<close>

definition retryable_codes :: "error_code list" where
  "retryable_codes = [SSH_DISCONNECTED, OUTPUT_TRUNCATED, REMOTE_TRANSPORT_DISCONNECTED]"

definition retryable :: "bridge_error \<Rightarrow> bool" where
  "retryable e \<longleftrightarrow> err_code e \<in> set retryable_codes"

record payload =
  pl_code :: error_code
  pl_message :: string
  pl_retryable :: bool
  pl_details :: "jobj option"

definition to_payload :: "bridge_error \<Rightarrow> payload" where
  "to_payload e = \<lparr>pl_code = err_code e, pl_message = err_message e,
     pl_retryable = retryable e, pl_details = err_details e\<rparr>"

text \<open>What a \<open>catch\<close> can receive: a bridge error, another \<open>Error\<close> with its message, or any
  other value with the text \<open>String(value)\<close> gives.\<close>

datatype thrown = ThrownBridge bridge_error | ThrownError string | ThrownValue string

fun as_bridge_error :: "thrown \<Rightarrow> error_code \<Rightarrow> bridge_error" where
  "as_bridge_error (ThrownBridge e) fallback = e"
| "as_bridge_error (ThrownError msg) fallback = BridgeError fallback msg None"
| "as_bridge_error (ThrownValue txt) fallback = BridgeError fallback txt None"

lemma retryable_iff:
  "retryable e \<longleftrightarrow>
     err_code e \<in> {SSH_DISCONNECTED, OUTPUT_TRUNCATED, REMOTE_TRANSPORT_DISCONNECTED}"
  by (auto simp: retryable_def retryable_codes_def)

lemma to_payload_simps [simp]:
  "pl_code (to_payload e) = err_code e"
  "pl_message (to_payload e) = err_message e"
  "pl_retryable (to_payload e) = retryable e"
  "pl_details (to_payload e) = err_details e"
  by (simp_all add: to_payload_def)

lemma as_bridge_error_bridge [simp]: "as_bridge_error (ThrownBridge e) c = e"
  by simp

end
