(* ===== verification/StateMachine.thy ===== *)
theory StateMachine
  imports Errors
begin

text \<open>
  \<^verbatim>\<open>src/core/state-machine.ts\<close>: the bridge's lifecycle. The state keeps the current bridge
  state and the registered listeners (a \<open>Set\<close>, in insertion order); a transition returns the
  calls it makes to them.
\<close>

fun transitions :: "bridge_state \<Rightarrow> bridge_state list" where
  "transitions Disabled = [Configuring, Connecting]"
| "transitions Configuring = [Disabled, Connecting, Disconnected, Incompatible]"
| "transitions Connecting = [Ready, Degraded, Disconnected, Incompatible, Disabled]"
| "transitions Ready = [Busy, Degraded, Disconnected, Incompatible, Disabled]"
| "transitions Busy = [Ready, Degraded, Disconnected, Incompatible, Disabled]"
| "transitions Degraded = [Connecting, Ready, Disconnected, Incompatible, Disabled]"
| "transitions Disconnected = [Connecting, Disabled, Incompatible]"
| "transitions Incompatible = [Configuring, Disabled, Connecting]"

fun state_name :: "bridge_state \<Rightarrow> string" where
  "state_name Disabled = ''disabled''"
| "state_name Configuring = ''configuring''"
| "state_name Connecting = ''connecting''"
| "state_name Ready = ''ready''"
| "state_name Busy = ''busy''"
| "state_name Degraded = ''degraded''"
| "state_name Disconnected = ''disconnected''"
| "state_name Incompatible = ''incompatible''"

record 'l machine =
  m_state :: bridge_state
  m_listeners :: "'l list"

text \<open>A state handed in at run time may be outside the enumeration: \<open>None\<close>.\<close>

definition new_machine :: "bridge_state option \<Rightarrow> 'l machine" where
  "new_machine initial =
     \<lparr>m_state = (case initial of Some s \<Rightarrow> s | None \<Rightarrow> Disconnected), m_listeners = []\<rparr>"

definition on_change :: "'l machine \<Rightarrow> 'l \<Rightarrow> 'l machine" where
  "on_change m l = m\<lparr>m_listeners := set_add (m_listeners m) l\<rparr>"

definition unsubscribe :: "'l machine \<Rightarrow> 'l \<Rightarrow> 'l machine" where
  "unsubscribe m l = m\<lparr>m_listeners := removeAll l (m_listeners m)\<rparr>"

definition transition ::
  "'l machine \<Rightarrow> bridge_state option \<Rightarrow>
   bridge_error + ('l machine \<times> ('l \<times> bridge_state \<times> bridge_state) list)" where
  "transition m requested =
     (let next = (case requested of Some s \<Rightarrow> s | None \<Rightarrow> Disconnected) in
      if next = m_state m then Inr (m, [])
      else if next \<notin> set (transitions (m_state m))
        then throw BRIDGE_NOT_READY
          (''Invalid bridge state transition: '' @ state_name (m_state m) @ '' -> '' @ state_name next)
      else let previous = m_state m in
        Inr (m\<lparr>m_state := next\<rparr>, map (\<lambda>l. (l, next, previous)) (m_listeners m)))"

definition assert_operational :: "'l machine \<Rightarrow> bool \<Rightarrow> bridge_error + unit" where
  "assert_operational m read_only =
     (let allowed = m_state m = Ready \<or> m_state m = Busy;
          degraded_read = read_only \<and> m_state m = Degraded
      in if \<not> allowed \<and> \<not> degraded_read then 
         throw BRIDGE_NOT_READY (''Bridge state is '' @ state_name (m_state m))
         else Inr ())"

text \<open>A client that requests transitions one after the other and ignores refusals.\<close>

definition request_step :: "'l machine \<Rightarrow> bridge_state \<Rightarrow> 'l machine" where
  "request_step m s = (case transition m (Some s) of Inl _ \<Rightarrow> m | Inr (m', _) \<Rightarrow> m')"

inductive moves :: "bridge_state \<Rightarrow> bridge_state \<Rightarrow> bool" where
  move: "t \<in> set (transitions s) \<Longrightarrow> moves s t"

inductive_simps moves_iff: "moves s t"

lemma moves_code [simp]: "moves s t \<longleftrightarrow> t \<in> set (transitions s)"
  by (auto simp: moves_iff)

lemma transition_Inr:
  "transition m (Some t) = Inr (m', calls) \<longleftrightarrow>
     (t = m_state m \<and> m' = m \<and> calls = []) \<or>
     (t \<noteq> m_state m \<and> moves (m_state m) t \<and> m' = m\<lparr>m_state := t\<rparr> \<and>
      calls = map (\<lambda>l. (l, t, m_state m)) (m_listeners m))"
  by (auto simp: transition_def Let_def)

lemma transition_state:
  "transition m (Some t) = Inr (m', calls) \<Longrightarrow> m_state m' = t"
  by (auto simp: transition_Inr)

lemma request_step_state:
  "m_state (request_step m t) = (if t = m_state m \<or> moves (m_state m) t then t else m_state m)"
  by (auto simp: request_step_def transition_def Let_def)

lemma request_step_listeners [simp]: "m_listeners (request_step m t) = m_listeners m"
  by (auto simp: request_step_def transition_def Let_def)

lemma busy_from_ready: "moves s Busy \<Longrightarrow> s = Ready"
  by (cases s) auto

lemma ready_sources: "moves s Ready \<Longrightarrow> s \<in> {Connecting, Busy, Degraded}"
  by (cases s) auto

text \<open>What one listener is told over a sequence of requests, and what it means for those
  notifications to be a path of legal moves.\<close>

fun delivered ::
  "'l \<Rightarrow> 'l machine \<Rightarrow> bridge_state list \<Rightarrow> (bridge_state \<times> bridge_state) list" where
  "delivered l m [] = []"
| "delivered l m (t # ts) =
     (case transition m (Some t) of
        Inl _ \<Rightarrow> delivered l m ts
      | Inr (m', calls) \<Rightarrow>
          map snd (filter (\<lambda>c. fst c = l) calls) @ delivered l m' ts)"

fun legal_path :: "bridge_state \<Rightarrow> (bridge_state \<times> bridge_state) list \<Rightarrow> bridge_state \<Rightarrow> bool" where
  "legal_path s [] s' \<longleftrightarrow> s = s'"
| "legal_path s ((next, previous) # ns) s' \<longleftrightarrow>
     previous = s \<and> next \<noteq> previous \<and> moves previous next \<and> legal_path next ns s'"

lemma filter_one: "distinct ls \<Longrightarrow> l \<in> set ls \<Longrightarrow> filter (\<lambda>x. x = l) ls = [l]"
  by (induction ls) (auto simp: filter_empty_conv)

text \<open>C18. A registered listener observes exactly the path the state takes: whatever sequence
  of transitions is requested, accepted or refused, the notifications it receives chain
  together, each a legal move to a different state, from the state at the start to the state
  at the end.\<close>

theorem listener_observes_path:
  assumes "l \<in> set (m_listeners m)" and "distinct (m_listeners m)"
  shows "legal_path (m_state m) (delivered l m ts) (m_state (run request_step m ts))"
  using assms
proof (induction ts arbitrary: m)
  case Nil
  then show ?case by simp
next
  case (Cons t ts)
  show ?case
  proof (cases "transition m (Some t)")
    case (Inl e)
    then have "request_step m t = m" by (simp add: request_step_def)
    with Inl Cons show ?thesis by simp
  next
    case (Inr r)
    obtain m' calls where r: "r = (m', calls)" by (cases r)
    have step: "request_step m t = m'" using Inr by (simp add: request_step_def r)
    have "map snd (filter (\<lambda>c. fst c = l) (map (\<lambda>l. (l, x)) (m_listeners m))) = [x]"
      for x :: "bridge_state \<times> bridge_state"
      using Cons.prems by (simp add: filter_map o_def filter_one)
    moreover have "delivered l m (t # ts) =
        map snd (filter (\<lambda>c. fst c = l) calls) @ delivered l m' ts"
      using Inr r by simp
    moreover have "(t = m_state m \<and> m' = m \<and> calls = []) \<or>
        (t \<noteq> m_state m \<and> moves (m_state m) t \<and> m' = m\<lparr>m_state := t\<rparr> \<and>
         calls = map (\<lambda>l. (l, t, m_state m)) (m_listeners m))"
      using Inr r by (simp only: transition_Inr [symmetric])
    ultimately show ?thesis
      using step Cons.IH [of m'] Cons.prems
      by (elim disjE conjE) (simp_all del: delivered.simps)
  qed
qed

theorem listener_observes_path_witness:
  "legal_path Disabled
     (delivered (7::nat) \<lparr>m_state = Disabled, m_listeners = [3, 7]\<rparr> [Connecting, Busy, Ready])
     Ready"
  using listener_observes_path
    [of 7 "\<lparr>m_state = Disabled, m_listeners = [3, 7]\<rparr>" "[Connecting, Busy, Ready]"]
  by (simp add: request_step_def transition_def)

text \<open>Every trace of requests that ends in \<open>busy\<close> passed through \<open>ready\<close>.\<close>

lemma run_busy_aux:
  "m_state (run request_step m ts) = Busy \<Longrightarrow>
     m_state m = Busy \<or> m_state m = Ready \<or>
     (\<exists>xs ys. ts = xs @ ys \<and> m_state (run request_step m xs) = Ready)"
proof (induction ts arbitrary: m)
  case Nil
  then show ?case by simp
next
  case (Cons t ts)
  have "m_state (run request_step (request_step m t) ts) = Busy"
    using Cons.prems by simp
  from Cons.IH [OF this] show ?case
  proof (elim disjE exE conjE)
    assume "m_state (request_step m t) = Busy"
    then have "m_state m = Busy \<or> m_state m = Ready"
      using busy_from_ready [of "m_state m"] by (auto simp: request_step_state split: if_splits)
    then show ?thesis by auto
  next
    assume "m_state (request_step m t) = Ready"
    then have "t # ts = [t] @ ts \<and> m_state (run request_step m [t]) = Ready" by simp
    then show ?thesis by blast
  next
    fix xs ys
    assume "ts = xs @ ys" "m_state (run request_step (request_step m t) xs) = Ready"
    then have "t # ts = (t # xs) @ ys \<and> m_state (run request_step m (t # xs)) = Ready" by simp
    then show ?thesis by blast
  qed
qed

text \<open>The bridge is busy only after it was ready: a run of requests from a state that is
  neither \<open>busy\<close> nor \<open>ready\<close> that ends in \<open>busy\<close> has a prefix that ends in
  \<open>ready\<close>.\<close>

theorem busy_only_through_ready:
  assumes "m_state (run request_step m ts) = Busy" and "m_state m \<notin> {Busy, Ready}"
  shows "\<exists>xs ys. ts = xs @ ys \<and> m_state (run request_step m xs) = Ready"
  using run_busy_aux [OF assms(1)] assms(2) by auto

theorem busy_only_through_ready_witness:
  "\<exists>xs ys. [Connecting, Ready, Busy] = xs @ ys \<and>
     m_state (run request_step (new_machine (Some Disabled) :: nat machine) xs) = Ready"
  by (rule busy_only_through_ready) (simp_all add: new_machine_def request_step_state)

text \<open>Paths back to service: from every state some sequence of legal moves reaches \<open>ready\<close>.\<close>

fun recovery_path :: "bridge_state \<Rightarrow> bridge_state list" where
  "recovery_path Ready = []"
| "recovery_path Connecting = [Ready]"
| "recovery_path Busy = [Ready]"
| "recovery_path Degraded = [Ready]"
| "recovery_path _ = [Connecting, Ready]"

lemma recovery_path_reaches: "m_state (run request_step m (recovery_path (m_state m))) = Ready"
  by (cases "m_state m") (simp_all add: request_step_state)

text \<open>Shutdown and recovery are always available: from every state the request for
  \<open>disabled\<close> is accepted, and some path of at most two accepted requests leads to
  \<open>ready\<close>, where operations are admitted again.\<close>

theorem shutdown_and_recovery:
  "(\<exists>m' calls. transition m (Some Disabled) = Inr (m', calls) \<and> m_state m' = Disabled) \<and>
   (\<exists>path. length path \<le> 2 \<and>
      assert_operational (run request_step m path) read_only = Inr ())"
proof
  show "\<exists>m' calls. transition m (Some Disabled) = Inr (m', calls) \<and> m_state m' = Disabled"
    by (cases "m_state m") (auto simp: transition_def)
  have "length (recovery_path (m_state m)) \<le> 2"
    by (cases "m_state m") simp_all
  moreover have "assert_operational (run request_step m (recovery_path (m_state m))) read_only = Inr ()"
    by (simp add: assert_operational_def recovery_path_reaches)
  ultimately show "\<exists>path. length path \<le> 2 \<and>
      assert_operational (run request_step m path) read_only = Inr ()" by blast
qed

end
