(* ===== verification/OperationLedger.thy ===== *)
theory OperationLedger
  imports Errors
begin

text \<open>
  \<^verbatim>\<open>src/core/operation-ledger.ts\<close>: the bounded idempotency ledger in front of every remote
  operation. Both maps of the class hold references to shared, mutable entry objects and
  compare them by identity, so entries live in a store and the maps hold addresses. A
  promise is either the one \<open>start\<close> made for the entry or the rejected one \<open>#settle\<close> puts in
  its place. \<open>Date.now()\<close> is an argument; the byte length of the serialised snapshot is the
  parameter \<open>sz\<close> (\<open>None\<close> when \<open>JSON.stringify\<close> throws).
\<close>

datatype op_status = Running | Completed | CancelledOp | FailedOp | UnknownOp

datatype op_outcome = Executed | Joined | Replayed

record 'a snapshot =
  sn_status :: op_status
  sn_result :: "'a option"
  sn_error :: "payload option"

datatype promise = OwnPromise nat | RejectedPromise bridge_error

record 'a op_entry =
  en_aborted :: bool
  en_id :: string
  en_fp :: string
  en_ops :: "string list"
  en_result :: promise
  en_size :: nat
  en_settled :: "int option"
  en_snap :: "'a snapshot"

record 'a ledger =
  lg_heap :: "nat \<Rightarrow> 'a op_entry option"
  lg_next :: nat
  lg_entries :: "(string, nat) jsmap"
  lg_operations :: "(string, nat) jsmap"
  lg_bytes :: nat
  lg_max_entries :: nat
  lg_retention :: int
  lg_max_bytes :: nat

definition terminal_state :: "bridge_error \<Rightarrow> op_status" where
  "terminal_state e =
     (if err_code e = CANCELLED then CancelledOp
      else if err_code e = RESULT_UNKNOWN then UnknownOp else FailedOp)"

text \<open>The constructor; the arguments are integers by their type, the checks are on their sign.\<close>

definition new_ledger :: "int \<Rightarrow> int \<Rightarrow> int \<Rightarrow> string + 'a ledger" where
  "new_ledger max_entries retention_ms max_bytes =
     (if max_entries < 1 then Inl ''Operation ledger maxEntries must be a positive integer''
      else if retention_ms < 1 then Inl ''Operation ledger retentionMs must be a positive integer''
      else if max_bytes < 1 then Inl ''Operation ledger maxBytes must be a positive integer''
      else Inr \<lparr>lg_heap = (\<lambda>_. None), lg_next = 0, lg_entries = [], lg_operations = [],
        lg_bytes = 0, lg_max_entries = nat max_entries, lg_retention = retention_ms,
        lg_max_bytes = nat max_bytes\<rparr>)"

definition upd_entry :: "nat \<Rightarrow> ('a op_entry \<Rightarrow> 'a op_entry) \<Rightarrow> 'a ledger \<Rightarrow> 'a ledger" where
  "upd_entry r f l = l\<lparr>lg_heap := (lg_heap l)(r := map_option f (lg_heap l r))\<rparr>"

definition bind_operation :: "string \<Rightarrow> nat \<Rightarrow> 'a ledger \<Rightarrow> bridge_error + 'a ledger" where
  "bind_operation op r l =
     (case jm_get (lg_operations l) op of
        Some r' \<Rightarrow>
          if r' \<noteq> r then throw_with PROTOCOL_MISMATCH
            ''Remote operation ID is already bound to another request'' [(''operationId'', JStr op)]
          else Inr (upd_entry r (\<lambda>e. e\<lparr>en_ops := set_add (en_ops e) op\<rparr>)
            (l\<lparr>lg_operations := jm_set (lg_operations l) op r\<rparr>))
      | None \<Rightarrow> Inr (upd_entry r (\<lambda>e. e\<lparr>en_ops := set_add (en_ops e) op\<rparr>)
            (l\<lparr>lg_operations := jm_set (lg_operations l) op r\<rparr>)))"

definition delete_entry :: "string \<Rightarrow> nat \<Rightarrow> 'a ledger \<Rightarrow> 'a ledger" where
  "delete_entry k r l =
     (if jm_get (lg_entries l) k \<noteq> Some r then l
      else l\<lparr>lg_entries := jm_del (lg_entries l) k,
             lg_bytes := lg_bytes l - (case lg_heap l r of None \<Rightarrow> 0 | Some e \<Rightarrow> en_size e)\<rparr>)"

definition expired :: "int \<Rightarrow> 'a ledger \<Rightarrow> nat \<Rightarrow> bool" where
  "expired now l r =
     (case lg_heap l r of None \<Rightarrow> False
      | Some e \<Rightarrow> (case en_settled e of None \<Rightarrow> False | Some t \<Rightarrow> t \<le> now - lg_retention l))"

definition prune_one :: "int \<Rightarrow> 'a ledger \<Rightarrow> string \<times> nat \<Rightarrow> 'a ledger" where
  "prune_one now l p = (if expired now l (snd p) then delete_entry (fst p) (snd p) l else l)"

definition prune :: "int \<Rightarrow> 'a ledger \<Rightarrow> 'a ledger" where
  "prune now l = foldl (prune_one now) l (lg_entries l)"

definition make_capacity :: "'a ledger \<Rightarrow> bridge_error + unit" where
  "make_capacity l =
     (if length (lg_entries l) < lg_max_entries l \<and> lg_bytes l < lg_max_bytes l then Inr ()
      else throw_with COMMAND_DENIED ''Remote operation ledger is at capacity''
        [(''maxBytes'', JInt (int (lg_max_bytes l))), (''maxEntries'', JInt (int (lg_max_entries l)))])"

definition fresh_entry :: "nat \<Rightarrow> string \<Rightarrow> string \<Rightarrow> 'a op_entry" where
  "fresh_entry r k fp =
     \<lparr>en_aborted = False, en_id = k, en_fp = fp, en_ops = [], en_result = OwnPromise r,
      en_size = 0, en_settled = None,
      en_snap = \<lparr>sn_status = Running, sn_result = None, sn_error = None\<rparr>\<rparr>"

text \<open>\<open>start\<close>. The pruning at its head stays done when a later check throws, so the state is
  returned beside the result.\<close>

definition start_op ::
  "int \<Rightarrow> string \<Rightarrow> string \<Rightarrow> string \<Rightarrow> 'a ledger \<Rightarrow>
   'a ledger \<times> (bridge_error + op_outcome \<times> promise)" where
  "start_op now k op fp l0 =
     (let l = prune now l0 in
      case jm_get (lg_entries l) k of
        Some r \<Rightarrow>
          (case lg_heap l r of
             None \<Rightarrow> (l, throw PROTOCOL_MISMATCH ''dangling entry'')
           | Some e \<Rightarrow>
               if en_fp e \<noteq> fp then
                 (l, throw PROTOCOL_MISMATCH
                    ''Idempotency key was reused with different operation parameters'')
               else if sn_status (en_snap e) = Running then
                 (case bind_operation op r l of
                    Inl err \<Rightarrow> (l, Inl err)
                  | Inr l' \<Rightarrow> (l', Inr (Joined, en_result e)))
               else (l, Inr (Replayed, en_result e)))
      | None \<Rightarrow>
          (case make_capacity l of
             Inl err \<Rightarrow> (l, Inl err)
           | Inr _ \<Rightarrow>
               if jm_get (lg_operations l) op \<noteq> None then
                 (l, throw_with PROTOCOL_MISMATCH
                    ''Remote operation ID is already bound to another request''
                    [(''operationId'', JStr op)])
               else
                 let r = lg_next l;
                     l1 = l\<lparr>lg_heap := (lg_heap l)(r \<mapsto> fresh_entry r k fp), lg_next := Suc r,
                             lg_entries := jm_set (lg_entries l) k r\<rparr>
                 in (case bind_operation op r l1 of
                       Inl err \<Rightarrow> (l1, Inl err)
                     | Inr l2 \<Rightarrow> (l2, Inr (Executed, OwnPromise r)))))"

definition snapshot_size :: "('a snapshot \<Rightarrow> nat option) \<Rightarrow> 'a ledger \<Rightarrow> 'a snapshot \<Rightarrow> nat" where
  "snapshot_size sz l s = (case sz s of Some n \<Rightarrow> n | None \<Rightarrow> lg_max_bytes l + 1)"

definition overflow_error :: "'a ledger \<Rightarrow> bridge_error" where
  "overflow_error l = BridgeError RESULT_UNKNOWN
     ''Remote operation result exceeded the bounded idempotency ledger''
     (Some [(''maxLedgerBytes'', JInt (int (lg_max_bytes l)))])"

definition unknown_snapshot :: "'a ledger \<Rightarrow> 'a snapshot" where
  "unknown_snapshot l =
     \<lparr>sn_status = UnknownOp, sn_result = None, sn_error = Some (to_payload (overflow_error l))\<rparr>"

definition unbind_ops :: "nat \<Rightarrow> (string, nat) jsmap \<Rightarrow> string list \<Rightarrow> (string, nat) jsmap" where
  "unbind_ops r = foldl (\<lambda>ops op. if jm_get ops op = Some r then jm_del ops op else ops)"

definition settle ::
  "('a snapshot \<Rightarrow> nat option) \<Rightarrow> int \<Rightarrow> nat \<Rightarrow> 'a snapshot \<Rightarrow> 'a ledger \<Rightarrow> 'a ledger" where
  "settle sz now r s l =
     (case lg_heap l r of
        None \<Rightarrow> l
      | Some e \<Rightarrow>
          let size = snapshot_size sz l s;
              e1 = (if size + lg_bytes l > lg_max_bytes l
                    then e\<lparr>en_result := RejectedPromise (overflow_error l),
                           en_snap := unknown_snapshot l,
                           en_size := snapshot_size sz l (unknown_snapshot l)\<rparr>
                    else e\<lparr>en_snap := s, en_size := size\<rparr>);
              ops = unbind_ops r (lg_operations l) (en_ops e1)
          in l\<lparr>lg_bytes := lg_bytes l + en_size e1,
               lg_heap := (lg_heap l)(r \<mapsto> e1\<lparr>en_settled := Some now, en_ops := []\<rparr>),
               lg_operations := ops\<rparr>)"

text \<open>The two continuations \<open>start\<close> attaches to the operation's promise.\<close>

definition fulfil ::
  "('a snapshot \<Rightarrow> nat option) \<Rightarrow> int \<Rightarrow> nat \<Rightarrow> thrown + 'a \<Rightarrow> 'a ledger \<Rightarrow> 'a ledger" where
  "fulfil sz now r outcome l =
     (case outcome of
        Inr v \<Rightarrow> settle sz now r \<lparr>sn_status = Completed, sn_result = Some v, sn_error = None\<rparr> l
      | Inl t \<Rightarrow>
          let e = as_bridge_error t REMOTE_TRANSPORT_DISCONNECTED in
          settle sz now r
            \<lparr>sn_status = terminal_state e, sn_result = None, sn_error = Some (to_payload e)\<rparr> l)"

definition status_op :: "int \<Rightarrow> string \<Rightarrow> 'a ledger \<Rightarrow> 'a ledger \<times> 'a snapshot" where
  "status_op now k l0 =
     (let l = prune now l0;
          unknown = \<lparr>sn_status = UnknownOp, sn_result = None, sn_error = None\<rparr>
      in (l, case jm_get (lg_entries l) k of
               None \<Rightarrow> unknown
             | Some r \<Rightarrow> (case lg_heap l r of None \<Rightarrow> unknown | Some e \<Rightarrow> en_snap e)))"

definition cancel_op :: "string \<Rightarrow> 'a ledger \<Rightarrow> 'a ledger \<times> bool" where
  "cancel_op op l =
     (case jm_get (lg_operations l) op of
        None \<Rightarrow> (l, False)
      | Some r \<Rightarrow>
          (case lg_heap l r of
             None \<Rightarrow> (l, False)
           | Some e \<Rightarrow>
               if sn_status (en_snap e) \<noteq> Running then (l, False)
               else (upd_entry r (\<lambda>e. e\<lparr>en_aborted := True\<rparr>) l, True)))"

definition abort_running :: "'a ledger \<Rightarrow> nat \<Rightarrow> 'a ledger" where
  "abort_running l r =
     upd_entry r (\<lambda>e. if sn_status (en_snap e) = Running then e\<lparr>en_aborted := True\<rparr> else e) l"

text \<open>\<open>clearPrefix\<close> up to its \<open>await\<close>, and what runs once every matched promise has settled.\<close>

definition clear_prefix_begin :: "string \<Rightarrow> 'a ledger \<Rightarrow> 'a ledger \<times> (string \<times> nat) list" where
  "clear_prefix_begin pre l =
     (let matches = filter (\<lambda>(k, r). starts_with k pre) (lg_entries l)
      in (foldl abort_running l (map snd matches), matches))"

definition unbind_entry :: "'a ledger \<Rightarrow> nat \<Rightarrow> 'a ledger" where
  "unbind_entry l r =
     (case lg_heap l r of
        None \<Rightarrow> l
      | Some e \<Rightarrow>
          upd_entry r (\<lambda>e. e\<lparr>en_ops := []\<rparr>)
            (l\<lparr>lg_operations := unbind_ops r (lg_operations l) (en_ops e)\<rparr>))"

definition clear_prefix_end :: "(string \<times> nat) list \<Rightarrow> 'a ledger \<Rightarrow> 'a ledger \<times> nat" where
  "clear_prefix_end matches l =
     (foldl (\<lambda>l (k, r). delete_entry k r (unbind_entry l r)) l matches, length matches)"

definition close_ledger :: "'a ledger \<Rightarrow> 'a ledger" where
  "close_ledger l =
     (foldl abort_running l (map snd (lg_entries l)))
       \<lparr>lg_operations := [], lg_entries := [], lg_bytes := 0\<rparr>"

section \<open>Invariant\<close>

definition is_running :: "'a ledger \<Rightarrow> nat \<Rightarrow> bool" where
  "is_running l r \<longleftrightarrow> (\<exists>e. lg_heap l r = Some e \<and> sn_status (en_snap e) = Running)"

definition entry_bytes :: "'a ledger \<Rightarrow> nat \<Rightarrow> nat" where
  "entry_bytes l r = (case lg_heap l r of None \<Rightarrow> 0 | Some e \<Rightarrow> en_size e)"

definition stored_bytes :: "'a ledger \<Rightarrow> nat" where
  "stored_bytes l = (\<Sum>p\<in>set (lg_entries l). entry_bytes l (snd p))"

text \<open>The shape of one entry, the registration of entries, the binding of operations and the
  accounting.\<close>

definition entry_ok :: "'a op_entry \<Rightarrow> bool" where
  "entry_ok e \<longleftrightarrow>
     (if sn_status (en_snap e) = Running then en_size e = 0 \<and> en_settled e = None
      else en_settled e \<noteq> None \<and> en_ops e = [])"

definition entries_ok :: "'a ledger \<Rightarrow> bool" where
  "entries_ok l \<longleftrightarrow>
     jm_ok (lg_entries l) \<and>
     (\<forall>k r. jm_get (lg_entries l) k = Some r \<longrightarrow> (\<exists>e. lg_heap l r = Some e \<and> en_id e = k)) \<and>
     (\<forall>r e. lg_heap l r = Some e \<longrightarrow> r < lg_next l \<and> entry_ok e \<and>
        (sn_status (en_snap e) = Running \<longrightarrow> jm_get (lg_entries l) (en_id e) = Some r))"

definition operations_ok :: "'a ledger \<Rightarrow> bool" where
  "operations_ok l \<longleftrightarrow>
     jm_ok (lg_operations l) \<and>
     (\<forall>op r. jm_get (lg_operations l) op = Some r \<longrightarrow>
        (\<exists>e. lg_heap l r = Some e \<and> sn_status (en_snap e) = Running \<and> op \<in> set (en_ops e)))"

definition ledger_inv :: "'a ledger \<Rightarrow> bool" where
  "ledger_inv l \<longleftrightarrow> entries_ok l \<and> operations_ok l \<and> lg_bytes l = stored_bytes l \<and>
     length (lg_entries l) \<le> lg_max_entries l"

lemma ledger_invI:
  "entries_ok l \<Longrightarrow> operations_ok l \<Longrightarrow> lg_bytes l = stored_bytes l \<Longrightarrow>
   length (lg_entries l) \<le> lg_max_entries l \<Longrightarrow> ledger_inv l"
  by (simp add: ledger_inv_def)

lemma new_ledger_inv: "new_ledger a b c = Inr l \<Longrightarrow> ledger_inv l"
  by (auto simp: new_ledger_def ledger_inv_def entries_ok_def operations_ok_def stored_bytes_def
      split: if_splits)

lemma entries_key_unique:
  "entries_ok l \<Longrightarrow> (k, r) \<in> set (lg_entries l) \<Longrightarrow> (k', r) \<in> set (lg_entries l) \<Longrightarrow> k = k'"
  by (metis entries_ok_def jm_get_in option.inject)

lemma entries_heap:
  "entries_ok l \<Longrightarrow> jm_get (lg_entries l) k = Some r \<Longrightarrow> \<exists>e. lg_heap l r = Some e \<and> en_id e = k"
  by (simp add: entries_ok_def)

lemma entries_below:
  "entries_ok l \<Longrightarrow> lg_heap l r = Some e \<Longrightarrow> r < lg_next l \<and> entry_ok e"
  by (simp add: entries_ok_def)

lemma entries_registered:
  "entries_ok l \<Longrightarrow> lg_heap l r = Some e \<Longrightarrow> sn_status (en_snap e) = Running \<Longrightarrow>
   (en_id e, r) \<in> set (lg_entries l)"
  by (metis entries_ok_def jm_get_in)

lemma settled_not_bound:
  "operations_ok l \<Longrightarrow> \<not> is_running l r \<Longrightarrow> jm_get (lg_operations l) op \<noteq> Some r"
  by (auto simp: operations_ok_def is_running_def)

subsection \<open>Deleting and pruning\<close>

lemma delete_entry_simps [simp]:
  "lg_heap (delete_entry k r l) = lg_heap l"
  "lg_next (delete_entry k r l) = lg_next l"
  "lg_operations (delete_entry k r l) = lg_operations l"
  "lg_max_entries (delete_entry k r l) = lg_max_entries l"
  "lg_max_bytes (delete_entry k r l) = lg_max_bytes l"
  "lg_retention (delete_entry k r l) = lg_retention l"
  by (simp_all add: delete_entry_def)

lemma delete_entry_get:
  "jm_get (lg_entries (delete_entry k r l)) k' =
     (if k' = k \<and> jm_get (lg_entries l) k = Some r then None else jm_get (lg_entries l) k')"
  by (auto simp: delete_entry_def)

lemma delete_entry_bytes:
  assumes "entries_ok l" and "lg_bytes l = stored_bytes l"
  shows "lg_bytes (delete_entry k r l) = stored_bytes (delete_entry k r l)"
proof (cases "jm_get (lg_entries l) k = Some r")
  case False
  with assms show ?thesis by (simp add: delete_entry_def)
next
  case True
  have ok: "jm_ok (lg_entries l)" using assms(1) by (simp add: entries_ok_def)
  have mem: "(k, r) \<in> set (lg_entries l)" using True by (rule jm_get_mem)
  have set: "set (jm_del (lg_entries l) k) = set (lg_entries l) - {(k, r)}"
    using ok mem by (auto simp: set_jm_del) (metis jm_get_in option.inject)
  have "stored_bytes l = entry_bytes l r + (\<Sum>p\<in>set (lg_entries l) - {(k, r)}. entry_bytes l (snd p))"
    using mem by (simp add: stored_bytes_def sum.remove)
  with True assms(2) show ?thesis
    by (simp add: delete_entry_def stored_bytes_def set entry_bytes_def)
qed

lemma delete_entry_inv:
  assumes "ledger_inv l" and "\<not> is_running l r"
  shows "ledger_inv (delete_entry k r l)"
proof (rule ledger_invI)
  have inv: "entries_ok l" "operations_ok l" "lg_bytes l = stored_bytes l"
    "length (lg_entries l) \<le> lg_max_entries l"
    using assms(1) by (simp_all add: ledger_inv_def)
  show "entries_ok (delete_entry k r l)"
    using inv(1) assms(2)
    by (auto simp: entries_ok_def delete_entry_get is_running_def delete_entry_def jm.ok_del)
  show "operations_ok (delete_entry k r l)"
    using inv(2) by (simp add: operations_ok_def)
  show "lg_bytes (delete_entry k r l) = stored_bytes (delete_entry k r l)"
    using inv(1,3) by (rule delete_entry_bytes)
  show "length (lg_entries (delete_entry k r l)) \<le> lg_max_entries (delete_entry k r l)"
    using inv(1,4) jm.size_del_le [of "lg_entries l" k]
    by (auto simp: delete_entry_def entries_ok_def)
qed

lemma expired_not_running: "entries_ok l \<Longrightarrow> expired now l r \<Longrightarrow> \<not> is_running l r"
  by (auto simp: expired_def entries_ok_def entry_ok_def is_running_def split: option.splits)

lemma prune_one_inv: "ledger_inv l \<Longrightarrow> ledger_inv (prune_one now l p)"
  using delete_entry_inv [of l "snd p" "fst p"] expired_not_running [of l now "snd p"]
  by (auto simp: prune_one_def ledger_inv_def)

lemma prune_one_frame [simp]:
  "lg_heap (prune_one now l p) = lg_heap l"
  "lg_next (prune_one now l p) = lg_next l"
  "lg_operations (prune_one now l p) = lg_operations l"
  "lg_max_entries (prune_one now l p) = lg_max_entries l"
  "lg_max_bytes (prune_one now l p) = lg_max_bytes l"
  "lg_retention (prune_one now l p) = lg_retention l"
  by (simp_all add: prune_one_def)

lemma prune_fold_inv: "ledger_inv l \<Longrightarrow> ledger_inv (foldl (prune_one now) l ps)"
  by (induction ps arbitrary: l) (auto intro: prune_one_inv)

lemma prune_fold_frame [simp]:
  "lg_heap (foldl (prune_one now) l ps) = lg_heap l"
  "lg_next (foldl (prune_one now) l ps) = lg_next l"
  "lg_operations (foldl (prune_one now) l ps) = lg_operations l"
  "lg_max_entries (foldl (prune_one now) l ps) = lg_max_entries l"
  "lg_max_bytes (foldl (prune_one now) l ps) = lg_max_bytes l"
  "lg_retention (foldl (prune_one now) l ps) = lg_retention l"
  by (induction ps arbitrary: l) auto

lemmas prune_frame = prune_fold_frame [where ps = "lg_entries l" and l = l for l, folded prune_def]

lemma prune_inv: "ledger_inv l \<Longrightarrow> ledger_inv (prune now l)"
  by (simp add: prune_def prune_fold_inv)

lemma expired_prune_one [simp]: "expired now (prune_one now' l p) r = expired now l r"
  by (simp add: expired_def split: option.splits)

lemma prune_one_get:
  "jm_get (lg_entries (prune_one now l p)) k =
     (if (\<exists>r. p = (k, r) \<and> jm_get (lg_entries l) k = Some r \<and> expired now l r)
      then None else jm_get (lg_entries l) k)"
  by (cases p) (auto simp: prune_one_def delete_entry_get)

lemma prune_fold_get:
  "jm_get (lg_entries (foldl (prune_one now) l ps)) k =
     (if (\<exists>r. (k, r) \<in> set ps \<and> jm_get (lg_entries l) k = Some r \<and> expired now l r)
      then None else jm_get (lg_entries l) k)"
proof (induction ps arbitrary: l)
  case Nil
  then show ?case by simp
next
  case (Cons p ps)
  show ?case
  proof (cases "\<exists>r. p = (k, r) \<and> jm_get (lg_entries l) k = Some r \<and> expired now l r")
    case True
    then show ?thesis by (auto simp: Cons.IH prune_one_get)
  next
    case False
    then have "jm_get (lg_entries (prune_one now l p)) k = jm_get (lg_entries l) k"
      unfolding prune_one_get by (rule if_not_P)
    with False show ?thesis by (simp add: Cons.IH) blast
  qed
qed

lemma prune_get:
  "jm_get (lg_entries (prune now l)) k =
     (case jm_get (lg_entries l) k of
        None \<Rightarrow> None | Some r \<Rightarrow> if expired now l r then None else Some r)"
  by (auto simp: prune_def prune_fold_get dest: jm_get_mem split: option.split)

subsection \<open>Binding, starting and settling\<close>

lemma unbind_ops_get:
  "jm_get (unbind_ops r ops os) op =
     (if op \<in> set os \<and> jm_get ops op = Some r then None else jm_get ops op)"
proof (induction os arbitrary: ops)
  case Nil
  then show ?case by (simp add: unbind_ops_def)
next
  case (Cons x os)
  show ?case
    using Cons.IH [of "if jm_get ops x = Some r then jm_del ops x else ops"]
    by (simp add: unbind_ops_def split: if_splits)
qed

lemma unbind_ops_ok: "jm_ok ops \<Longrightarrow> jm_ok (unbind_ops r ops os)"
  by (induction os arbitrary: ops) (auto simp: unbind_ops_def jm.ok_del)

lemma upd_entry_simps [simp]:
  "lg_heap (upd_entry r f l) r' = (if r' = r then map_option f (lg_heap l r) else lg_heap l r')"
  "lg_next (upd_entry r f l) = lg_next l"
  "lg_entries (upd_entry r f l) = lg_entries l"
  "lg_operations (upd_entry r f l) = lg_operations l"
  "lg_bytes (upd_entry r f l) = lg_bytes l"
  "lg_max_entries (upd_entry r f l) = lg_max_entries l"
  "lg_max_bytes (upd_entry r f l) = lg_max_bytes l"
  by (simp_all add: upd_entry_def)

text \<open>An update that touches neither identity, status, size nor settling time, and keeps the
  bindings, keeps the invariant.\<close>

lemma upd_entry_inv:
  assumes inv: "ledger_inv l"
    and same: "\<And>e. en_id (f e) = en_id e \<and> en_snap (f e) = en_snap e \<and> en_size (f e) = en_size e \<and>
      en_settled (f e) = en_settled e"
    and ops: "\<And>e. set (en_ops e) \<subseteq> set (en_ops (f e))"
    and settled: "\<And>e. lg_heap l r = Some e \<Longrightarrow> sn_status (en_snap e) \<noteq> Running \<Longrightarrow> en_ops (f e) = en_ops e"
  shows "ledger_inv (upd_entry r f l)"
proof (rule ledger_invI)
  have same' [simp]: "en_id (f e) = en_id e" "en_snap (f e) = en_snap e"
    "en_size (f e) = en_size e" "en_settled (f e) = en_settled e" for e
    using same by auto
  have ok: "entry_ok (f e)" if "lg_heap l r = Some e" "entry_ok e" for e
    using that settled [of e] by (auto simp: entry_ok_def)
  show "entries_ok (upd_entry r f l)"
    unfolding entries_ok_def
  proof (intro conjI allI impI)
    show "jm_ok (lg_entries (upd_entry r f l))"
      using inv by (simp add: ledger_inv_def entries_ok_def)
  next
    fix k r' assume "jm_get (lg_entries (upd_entry r f l)) k = Some r'"
    then obtain e where "lg_heap l r' = Some e" "en_id e = k"
      using inv by (auto simp: ledger_inv_def entries_ok_def)
    then show "\<exists>e. lg_heap (upd_entry r f l) r' = Some e \<and> en_id e = k" by auto
  next
    fix r' e assume e: "lg_heap (upd_entry r f l) r' = Some e"
    then obtain e0 where e0: "lg_heap l r' = Some e0" "e = (if r' = r then f e0 else e0)"
      by (auto split: if_splits)
    have inv0: "r' < lg_next l" "entry_ok e0"
      "sn_status (en_snap e0) = Running \<longrightarrow> jm_get (lg_entries l) (en_id e0) = Some r'"
      using inv e0(1) by (auto simp: ledger_inv_def entries_ok_def)
    show "r' < lg_next (upd_entry r f l)" using inv0 by simp
    show "entry_ok e" using inv0 e0 ok by auto
    show "jm_get (lg_entries (upd_entry r f l)) (en_id e) = Some r'"
      if "sn_status (en_snap e) = Running"
      using inv0 e0 that by (auto split: if_splits)
  qed
  show "operations_ok (upd_entry r f l)"
    using inv same ops
    by (fastforce simp: ledger_inv_def operations_ok_def)
  have "entry_bytes (upd_entry r f l) r' = entry_bytes l r'" for r'
    using same by (auto simp: entry_bytes_def split: option.split)
  then show "lg_bytes (upd_entry r f l) = stored_bytes (upd_entry r f l)"
    using inv by (simp add: ledger_inv_def stored_bytes_def)
  show "length (lg_entries (upd_entry r f l)) \<le> lg_max_entries (upd_entry r f l)"
    using inv by (simp add: ledger_inv_def)
qed

lemma bind_operation_inv:
  assumes inv: "ledger_inv l" and run: "is_running l r" and bind: "bind_operation op r l = Inr l'"
  shows "ledger_inv l'"
proof -
  let ?l1 = "upd_entry r (\<lambda>e. e\<lparr>en_ops := set_add (en_ops e) op\<rparr>) l"
  have inv1: "ledger_inv ?l1"
    using inv run by (intro upd_entry_inv) (auto simp: is_running_def)
  have l': "l' = ?l1\<lparr>lg_operations := jm_set (lg_operations ?l1) op r\<rparr>"
    using bind by (auto simp: bind_operation_def upd_entry_def split: option.splits if_splits)
  obtain e where e: "lg_heap l r = Some e" "sn_status (en_snap e) = Running"
    using run by (auto simp: is_running_def)
  have stored: "stored_bytes l' = stored_bytes ?l1"
    by (simp add: l' stored_bytes_def entry_bytes_def)
  have "operations_ok l'"
    using inv1 e by (auto simp: l' operations_ok_def ledger_inv_def jm.ok_put)
  then show ?thesis
    using inv1 stored by (simp add: ledger_inv_def l' entries_ok_def)
qed

definition register :: "string \<Rightarrow> string \<Rightarrow> string \<Rightarrow> 'a ledger \<Rightarrow> 'a ledger" where
  "register k op fp l =
     l\<lparr>lg_heap := (lg_heap l)(lg_next l \<mapsto> (fresh_entry (lg_next l) k fp)\<lparr>en_ops := [op]\<rparr>),
       lg_next := Suc (lg_next l),
       lg_entries := jm_set (lg_entries l) k (lg_next l),
       lg_operations := jm_set (lg_operations l) op (lg_next l)\<rparr>"

lemma bind_fresh:
  "jm_get (lg_operations l) op = None \<Longrightarrow>
   bind_operation op (lg_next l)
     (l\<lparr>lg_heap := (lg_heap l)(lg_next l \<mapsto> fresh_entry (lg_next l) k fp),
        lg_next := Suc (lg_next l), lg_entries := jm_set (lg_entries l) k (lg_next l)\<rparr>) =
   Inr (register k op fp l)"
  by (simp add: bind_operation_def upd_entry_def register_def fresh_entry_def set_add_def)

lemma register_inv:
  assumes inv: "ledger_inv l" and new: "jm_get (lg_entries l) k = None"
    and room: "length (lg_entries l) < lg_max_entries l"
    and free: "jm_get (lg_operations l) op = None"
  shows "ledger_inv (register k op fp l)"
proof (rule ledger_invI)
  let ?r = "lg_next l" and ?l' = "register k op fp l"
  have inv': "entries_ok l" "operations_ok l" "lg_bytes l = stored_bytes l"
    using inv by (simp_all add: ledger_inv_def)
  have fresh: "lg_heap l ?r = None"
    using inv'(1) by (metis entries_ok_def less_irrefl not_None_eq)
  show "entries_ok ?l'"
    using inv'(1) new fresh
    by (auto simp: entries_ok_def register_def fresh_entry_def entry_ok_def jm.ok_put less_Suc_eq)
  show "operations_ok ?l'"
    using inv'(2) fresh
    by (fastforce simp: operations_ok_def register_def fresh_entry_def jm.ok_put)
  have set: "set (lg_entries ?l') = insert (k, ?r) (set (lg_entries l))"
    and notin: "(k, ?r) \<notin> set (lg_entries l)"
    using new jm_get_None [of "lg_entries l" k] by (auto simp: register_def jm_set_new image_iff)
  have "entry_bytes ?l' r = entry_bytes l r" if "r \<noteq> ?r" for r
    using that by (simp add: entry_bytes_def register_def)
  moreover have "snd p \<noteq> ?r" if "p \<in> set (lg_entries l)" for p
  proof -
    have "jm_get (lg_entries l) (fst p) = Some (snd p)"
      using that inv'(1) by (simp add: entries_ok_def jm_get_in)
    then show ?thesis using entries_heap [OF inv'(1)] fresh by fastforce
  qed
  moreover have "entry_bytes ?l' ?r = 0"
    by (simp add: entry_bytes_def register_def fresh_entry_def)
  ultimately have "stored_bytes ?l' = stored_bytes l"
    using notin by (simp add: stored_bytes_def set cong: sum.cong)
  then show "lg_bytes ?l' = stored_bytes ?l'"
    using inv'(3) by (simp add: register_def)
  show "length (lg_entries ?l') \<le> lg_max_entries ?l'"
    using room new by (simp add: register_def jm.size_put)
qed

lemma bind_operation_frame:
  "bind_operation op r l = Inr l' \<Longrightarrow>
   lg_entries l' = lg_entries l \<and> lg_bytes l' = lg_bytes l \<and> lg_next l' = lg_next l \<and>
   lg_max_entries l' = lg_max_entries l \<and> lg_max_bytes l' = lg_max_bytes l \<and>
   lg_retention l' = lg_retention l"
  by (auto simp: bind_operation_def upd_entry_def split: option.splits if_splits)

text \<open>\<open>start\<close> by cases: the refusals leave the pruned ledger.\<close>

lemma start_op_cases:
  assumes inv: "ledger_inv l0" and start: "start_op now k op fp l0 = (l', res)"
  obtains (refused) err where "l' = prune now l0" "res = Inl err"
  | (joined) r e where "jm_get (lg_entries (prune now l0)) k = Some r" "lg_heap l0 r = Some e"
      "en_fp e = fp" "sn_status (en_snap e) = Running"
      "bind_operation op r (prune now l0) = Inr l'" "res = Inr (Joined, en_result e)"
  | (replayed) r e where "jm_get (lg_entries (prune now l0)) k = Some r" "lg_heap l0 r = Some e"
      "en_fp e = fp" "sn_status (en_snap e) \<noteq> Running" "l' = prune now l0"
      "res = Inr (Replayed, en_result e)"
  | (executed) "jm_get (lg_entries (prune now l0)) k = None"
      "length (lg_entries (prune now l0)) < lg_max_entries l0"
      "lg_bytes (prune now l0) < lg_max_bytes l0"
      "jm_get (lg_operations l0) op = None" "l' = register k op fp (prune now l0)"
      "res = Inr (Executed, OwnPromise (lg_next l0))"
proof (cases "jm_get (lg_entries (prune now l0)) k")
  case None
  show thesis
  proof (cases "length (lg_entries (prune now l0)) < lg_max_entries l0 \<and>
      lg_bytes (prune now l0) < lg_max_bytes l0 \<and> jm_get (lg_operations l0) op = None")
    case True
    then have "start_op now k op fp l0 =
        (register k op fp (prune now l0), Inr (Executed, OwnPromise (lg_next l0)))"
      using None bind_fresh [of "prune now l0" op k fp]
      by (simp add: start_op_def Let_def make_capacity_def prune_frame)
    with True None start show thesis by (intro executed) auto
  next
    case False
    then have "\<exists>err. start_op now k op fp l0 = (prune now l0, Inl err)"
      using None by (simp add: start_op_def Let_def make_capacity_def prune_frame)
    with start show thesis by (auto intro: refused)
  qed
next
  case (Some r)
  then obtain e where e: "lg_heap l0 r = Some e"
    using prune_inv [OF inv, of now] entries_heap [of "prune now l0" k r]
    by (auto simp: ledger_inv_def prune_frame)
  consider "en_fp e \<noteq> fp" | "en_fp e = fp" "sn_status (en_snap e) \<noteq> Running"
    | "en_fp e = fp" "sn_status (en_snap e) = Running" by blast
  then show thesis
  proof cases
    case 1
    then have "start_op now k op fp l0 = (prune now l0, throw PROTOCOL_MISMATCH
        ''Idempotency key was reused with different operation parameters'')"
      using Some e by (simp add: start_op_def Let_def prune_frame)
    with start show thesis by (intro refused) auto
  next
    case 2
    then have "start_op now k op fp l0 = (prune now l0, Inr (Replayed, en_result e))"
      using Some e by (simp add: start_op_def Let_def prune_frame)
    with start 2 Some e show thesis by (intro replayed) auto
  next
    case 3
    show thesis
    proof (cases "bind_operation op r (prune now l0)")
      case (Inl err)
      then have "start_op now k op fp l0 = (prune now l0, Inl err)"
        using Some e 3 by (simp add: start_op_def Let_def prune_frame)
      with start show thesis by (intro refused) auto
    next
      case (Inr l'')
      then have "start_op now k op fp l0 = (l'', Inr (Joined, en_result e))"
        using Some e 3 by (simp add: start_op_def Let_def prune_frame)
      with start 3 Some e Inr show thesis by (intro joined) auto
    qed
  qed
qed

lemma start_op_inv:
  assumes "ledger_inv l" and "start_op now k op fp l = (l', res)"
  shows "ledger_inv l'"
  using assms
proof (cases rule: start_op_cases)
  case (joined r e)
  then have "is_running (prune now l) r" by (simp add: is_running_def prune_frame)
  with joined show ?thesis by (rule_tac bind_operation_inv [OF prune_inv [OF assms(1)]])
next
  case executed
  then show ?thesis
    by (auto intro!: register_inv prune_inv [OF assms(1)] simp: prune_frame)
qed (use assms(1) prune_inv in auto)

lemma settle_frame [simp]:
  "lg_entries (settle sz now r s l) = lg_entries l"
  "lg_next (settle sz now r s l) = lg_next l"
  "lg_max_entries (settle sz now r s l) = lg_max_entries l"
  "lg_max_bytes (settle sz now r s l) = lg_max_bytes l"
  "lg_retention (settle sz now r s l) = lg_retention l"
  by (simp_all add: settle_def Let_def split: option.split)

text \<open>What \<open>#settle\<close> leaves in the entry.\<close>

definition settled_entry ::
  "('a snapshot \<Rightarrow> nat option) \<Rightarrow> int \<Rightarrow> 'a snapshot \<Rightarrow> 'a ledger \<Rightarrow> 'a op_entry \<Rightarrow> 'a op_entry" where
  "settled_entry sz now s l e =
     (if snapshot_size sz l s + lg_bytes l > lg_max_bytes l
      then e\<lparr>en_result := RejectedPromise (overflow_error l), en_snap := unknown_snapshot l,
             en_size := snapshot_size sz l (unknown_snapshot l), en_settled := Some now, en_ops := []\<rparr>
      else e\<lparr>en_snap := s, en_size := snapshot_size sz l s, en_settled := Some now, en_ops := []\<rparr>)"

lemma settle_Some:
  "lg_heap l r = Some e \<Longrightarrow>
   settle sz now r s l =
     l\<lparr>lg_bytes := lg_bytes l + en_size (settled_entry sz now s l e),
       lg_heap := (lg_heap l)(r \<mapsto> settled_entry sz now s l e),
       lg_operations := unbind_ops r (lg_operations l) (en_ops e)\<rparr>"
  by (simp add: settle_def settled_entry_def Let_def)

lemma settled_entry_simps [simp]:
  "en_id (settled_entry sz now s l e) = en_id e"
  "en_fp (settled_entry sz now s l e) = en_fp e"
  "en_ops (settled_entry sz now s l e) = []"
  "en_settled (settled_entry sz now s l e) = Some now"
  by (simp_all add: settled_entry_def)

lemma settled_entry_not_running [simp]:
  "sn_status s \<noteq> Running \<Longrightarrow> sn_status (en_snap (settled_entry sz now s l e)) \<noteq> Running"
  by (simp add: settled_entry_def unknown_snapshot_def)

lemma settle_inv:
  assumes inv: "ledger_inv l" and run: "is_running l r" and s: "sn_status s \<noteq> Running"
  shows "ledger_inv (settle sz now r s l)"
proof -
  obtain e where e: "lg_heap l r = Some e" "sn_status (en_snap e) = Running"
    using run by (auto simp: is_running_def)
  have inv': "entries_ok l" "operations_ok l" "lg_bytes l = stored_bytes l"
    "length (lg_entries l) \<le> lg_max_entries l"
    using inv by (simp_all add: ledger_inv_def)
  let ?e = "settled_entry sz now s l e" and ?l = "settle sz now r s l"
  have heap: "lg_heap ?l = (lg_heap l)(r \<mapsto> ?e)"
    and bytes: "lg_bytes ?l = lg_bytes l + en_size ?e"
    and ops: "lg_operations ?l = unbind_ops r (lg_operations l) (en_ops e)"
    using e by (simp_all add: settle_Some)
  show ?thesis
  proof (rule ledger_invI)
    have "en_id e = k" if "jm_get (lg_entries l) k = Some r" for k
      using entries_heap [OF inv'(1) that] e by simp
    then show "entries_ok ?l"
      using inv'(1) e s by (auto simp: entries_ok_def heap entry_ok_def)
    show "operations_ok ?l"
      unfolding operations_ok_def
    proof (intro conjI allI impI)
      show "jm_ok (lg_operations ?l)"
        using inv'(2) by (simp add: ops unbind_ops_ok operations_ok_def)
    next
      fix op r' assume "jm_get (lg_operations ?l) op = Some r'"
      then have get: "jm_get (lg_operations l) op = Some r'" and "r' = r \<longrightarrow> op \<notin> set (en_ops e)"
        by (auto simp: ops unbind_ops_get split: if_splits)
      moreover obtain e' where "lg_heap l r' = Some e'" "sn_status (en_snap e') = Running"
        "op \<in> set (en_ops e')"
        using inv'(2) get by (auto simp: operations_ok_def)
      ultimately show "\<exists>e. lg_heap ?l r' = Some e \<and> sn_status (en_snap e) = Running \<and>
          op \<in> set (en_ops e)"
        using e by (auto simp: heap)
    qed
    have mem: "(en_id e, r) \<in> set (lg_entries l)"
      using entries_registered [OF inv'(1) e] .
    have only: "snd p \<noteq> r" if "p \<in> set (lg_entries l) - {(en_id e, r)}" for p
      using that entries_key_unique [OF inv'(1) _ mem, of "fst p"] by (cases p) auto
    have zero: "entry_bytes l r = 0"
      using entries_below [OF inv'(1) e(1)] e by (simp add: entry_bytes_def entry_ok_def)
    have "stored_bytes ?l = entry_bytes ?l r +
        (\<Sum>p\<in>set (lg_entries l) - {(en_id e, r)}. entry_bytes ?l (snd p))"
      using mem by (simp add: stored_bytes_def sum.remove)
    also have "(\<Sum>p\<in>set (lg_entries l) - {(en_id e, r)}. entry_bytes ?l (snd p)) =
        (\<Sum>p\<in>set (lg_entries l) - {(en_id e, r)}. entry_bytes l (snd p))"
      using only by (intro sum.cong) (auto simp: entry_bytes_def heap)
    also have "\<dots> = stored_bytes l"
      using mem zero by (simp add: stored_bytes_def sum.remove)
    finally show "lg_bytes ?l = stored_bytes ?l"
      using inv'(3) by (simp add: bytes entry_bytes_def heap)
    show "length (lg_entries ?l) \<le> lg_max_entries ?l" using inv'(4) by simp
  qed
qed

lemma terminal_state_settled [simp]: "terminal_state e \<noteq> Running"
  by (simp add: terminal_state_def)

lemma fulfil_inv: "ledger_inv l \<Longrightarrow> is_running l r \<Longrightarrow> ledger_inv (fulfil sz now r v l)"
  by (auto simp: fulfil_def Let_def intro!: settle_inv split: sum.split)

subsection \<open>Cancelling and clearing\<close>

lemma status_op_inv: "ledger_inv l \<Longrightarrow> ledger_inv (fst (status_op now k l))"
  by (simp add: status_op_def Let_def prune_inv)

lemma cancel_op_inv: "ledger_inv l \<Longrightarrow> ledger_inv (fst (cancel_op op l))"
  by (auto simp: cancel_op_def intro!: upd_entry_inv split: option.split)

lemma abort_running_inv: "ledger_inv l \<Longrightarrow> ledger_inv (abort_running l r)"
  unfolding abort_running_def by (rule upd_entry_inv) auto

lemma abort_fold_inv: "ledger_inv l \<Longrightarrow> ledger_inv (foldl abort_running l rs)"
  by (induction rs arbitrary: l) (auto intro: abort_running_inv)

lemma abort_running_frame [simp]:
  "lg_entries (abort_running l r) = lg_entries l"
  "lg_operations (abort_running l r) = lg_operations l"
  "lg_bytes (abort_running l r) = lg_bytes l"
  "lg_max_entries (abort_running l r) = lg_max_entries l"
  "lg_max_bytes (abort_running l r) = lg_max_bytes l"
  by (simp_all add: abort_running_def)

lemma abort_fold_frame [simp]:
  "lg_entries (foldl abort_running l rs) = lg_entries l"
  "lg_operations (foldl abort_running l rs) = lg_operations l"
  "lg_bytes (foldl abort_running l rs) = lg_bytes l"
  "lg_max_entries (foldl abort_running l rs) = lg_max_entries l"
  "lg_max_bytes (foldl abort_running l rs) = lg_max_bytes l"
  by (induction rs arbitrary: l) auto

lemma abort_running_heap:
  "lg_heap (abort_running l r) r' =
     (if r' = r \<and> is_running l r then map_option (\<lambda>e. e\<lparr>en_aborted := True\<rparr>) (lg_heap l r)
      else lg_heap l r')"
  by (cases "lg_heap l r") (auto simp: abort_running_def is_running_def)

lemma is_running_abort [simp]: "is_running (abort_running l r) r' = is_running l r'"
  by (auto simp: is_running_def abort_running_def)

lemma is_running_abort_fold [simp]: "is_running (foldl abort_running l rs) r' = is_running l r'"
  by (induction rs arbitrary: l) auto

lemma abort_fold_heap:
  "lg_heap (foldl abort_running l rs) r =
     (if r \<in> set rs \<and> is_running l r then map_option (\<lambda>e. e\<lparr>en_aborted := True\<rparr>) (lg_heap l r)
      else lg_heap l r)"
proof (induction rs arbitrary: l)
  case Nil
  then show ?case by simp
next
  case (Cons x rs)
  then show ?case
    by (cases "lg_heap l r") (auto simp: abort_running_heap)
qed

lemma unbind_entry_settled:
  assumes "ledger_inv l" and "\<not> is_running l r"
  shows "unbind_entry l r = l"
proof (cases "lg_heap l r")
  case None
  then show ?thesis by (simp add: unbind_entry_def)
next
  case (Some e)
  then have "en_ops e = []"
    using assms by (auto simp: ledger_inv_def entries_ok_def entry_ok_def is_running_def)
  with Some show ?thesis
    by (simp add: unbind_entry_def upd_entry_def unbind_ops_def fun_upd_idem)
qed

definition clear_one :: "'a ledger \<Rightarrow> string \<times> nat \<Rightarrow> 'a ledger" where
  "clear_one l p = delete_entry (fst p) (snd p) (unbind_entry l (snd p))"

lemma clear_prefix_end_fold:
  "clear_prefix_end matches l = (foldl clear_one l matches, length matches)"
  by (simp add: clear_prefix_end_def clear_one_def [abs_def] split_def)

lemma is_running_delete [simp]: "is_running (delete_entry k r l) r' = is_running l r'"
  by (simp add: is_running_def)

lemma clear_one_settled:
  "ledger_inv l \<Longrightarrow> \<not> is_running l (snd p) \<Longrightarrow> clear_one l p = delete_entry (fst p) (snd p) l"
  by (simp add: clear_one_def unbind_entry_settled)

lemma clear_fold_inv:
  "ledger_inv l \<Longrightarrow> \<forall>p\<in>set ps. \<not> is_running l (snd p) \<Longrightarrow> ledger_inv (foldl clear_one l ps)"
  by (induction ps arbitrary: l) (simp_all add: clear_one_settled delete_entry_inv)

lemma clear_fold_frame:
  "ledger_inv l \<Longrightarrow> \<forall>p\<in>set ps. \<not> is_running l (snd p) \<Longrightarrow>
   lg_heap (foldl clear_one l ps) = lg_heap l \<and>
   lg_operations (foldl clear_one l ps) = lg_operations l \<and>
   lg_next (foldl clear_one l ps) = lg_next l \<and>
   lg_max_bytes (foldl clear_one l ps) = lg_max_bytes l \<and>
   lg_max_entries (foldl clear_one l ps) = lg_max_entries l \<and>
   lg_retention (foldl clear_one l ps) = lg_retention l"
  by (induction ps arbitrary: l) (simp_all add: clear_one_settled delete_entry_inv)

section \<open>The machine\<close>

text \<open>
  One event per way the ledger's state is touched. The environment's discipline is in the
  guards: a promise settles once, so \<open>Settles\<close> acts on a running entry; the second half of
  \<open>clearPrefix\<close> runs once every promise it waits for has settled. \<open>close\<close> is not an event of
  this machine, it ends it.
\<close>

datatype 'a ledger_event =
    Starts int string string string
  | Settles int nat "thrown + 'a"
  | Reads int string
  | Cancels string
  | ClearBegins string
  | ClearEnds "(string \<times> nat) list"

fun ledger_step :: "('a snapshot \<Rightarrow> nat option) \<Rightarrow> 'a ledger \<Rightarrow> 'a ledger_event \<Rightarrow> 'a ledger" where
  "ledger_step sz l (Starts now k op fp) = fst (start_op now k op fp l)"
| "ledger_step sz l (Settles now r v) = (if is_running l r then fulfil sz now r v l else l)"
| "ledger_step sz l (Reads now k) = fst (status_op now k l)"
| "ledger_step sz l (Cancels op) = fst (cancel_op op l)"
| "ledger_step sz l (ClearBegins pre) = fst (clear_prefix_begin pre l)"
| "ledger_step sz l (ClearEnds ms) =
     (if \<forall>p\<in>set ms. \<not> is_running l (snd p) then fst (clear_prefix_end ms l) else l)"

interpretation ledger: invariant_machine "ledger_step sz" ledger_inv
proof
  fix l :: "'a ledger" and e :: "'a ledger_event"
  assume inv: "ledger_inv l"
  show "ledger_inv (ledger_step sz l e)"
  proof (cases e)
    case (Starts now k op fp)
    then show ?thesis
      using start_op_inv [OF inv, of now k op fp] by (metis fst_conv ledger_step.simps(1) surj_pair)
  qed (use inv in \<open>auto simp: fulfil_inv status_op_inv cancel_op_inv clear_prefix_begin_def
      Let_def abort_fold_inv clear_prefix_end_fold clear_fold_inv\<close>)
qed

section \<open>Properties\<close>

text \<open>The entry registered under a key within the retention window of its start.\<close>

definition key_held :: "string \<Rightarrow> nat \<Rightarrow> string \<Rightarrow> int \<Rightarrow> 'a ledger \<Rightarrow> bool" where
  "key_held k r fp t0 l \<longleftrightarrow> ledger_inv l \<and> jm_get (lg_entries l) k = Some r \<and>
     (\<exists>e. lg_heap l r = Some e \<and> en_fp e = fp \<and> (\<forall>t. en_settled e = Some t \<longrightarrow> t0 \<le> t))"

fun event_within :: "int \<Rightarrow> int \<Rightarrow> 'a ledger_event \<Rightarrow> bool" where
  "event_within t0 t1 (Starts now _ _ _) \<longleftrightarrow> t0 \<le> now \<and> now < t1"
| "event_within t0 t1 (Settles now _ _) \<longleftrightarrow> t0 \<le> now \<and> now < t1"
| "event_within t0 t1 (Reads now _) \<longleftrightarrow> t0 \<le> now \<and> now < t1"
| "event_within t0 t1 (Cancels _) \<longleftrightarrow> True"
| "event_within t0 t1 (ClearBegins _) \<longleftrightarrow> True"
| "event_within t0 t1 (ClearEnds _) \<longleftrightarrow> False"

lemma key_held_inv: "key_held k r fp t0 l \<Longrightarrow> ledger_inv l"
  by (simp add: key_held_def)

lemma key_held_prune:
  assumes "key_held k r fp t0 l" and "now < t0 + lg_retention l"
  shows "key_held k r fp t0 (prune now l)"
  using assms
  by (auto simp: key_held_def prune_inv prune_frame prune_get expired_def split: option.split)

lemma bind_operation_heap:
  "bind_operation op r l = Inr l' \<Longrightarrow>
   lg_heap l' = (lg_heap l)(r := map_option (\<lambda>e. e\<lparr>en_ops := set_add (en_ops e) op\<rparr>) (lg_heap l r))"
  by (auto simp: bind_operation_def upd_entry_def split: option.splits if_splits)

lemma key_held_start:
  assumes held: "key_held k r fp t0 l" and now: "now < t0 + lg_retention l"
    and start: "start_op now k' op fp' l = (l', res)"
  shows "key_held k r fp t0 l'"
proof -
  have inv: "ledger_inv l" using held by (rule key_held_inv)
  have inv': "ledger_inv l'" using start_op_inv [OF inv start] .
  have pruned: "key_held k r fp t0 (prune now l)" using held now by (rule key_held_prune)
  show ?thesis
    using inv start
  proof (cases rule: start_op_cases)
    case (joined r' e)
    from joined(5) inv' pruned show ?thesis
      by (auto simp: key_held_def bind_operation_heap dest: bind_operation_frame)
  next
    case executed
    have "r \<noteq> lg_next l"
      using inv held entries_below [of l r] by (auto simp: key_held_def ledger_inv_def)
    with executed inv' pruned show ?thesis
      by (auto simp: key_held_def register_def prune_frame)
  qed (use pruned in auto)
qed

lemma settle_retention [simp]: "lg_retention (fulfil sz now r v l) = lg_retention l"
  by (simp add: fulfil_def Let_def split: sum.split)

lemma abort_running_retention [simp]: "lg_retention (abort_running l r) = lg_retention l"
  by (simp add: abort_running_def upd_entry_def)

lemma abort_fold_retention [simp]: "lg_retention (foldl abort_running l rs) = lg_retention l"
  by (induction rs arbitrary: l) auto

lemma fulfil_entries [simp]: "lg_entries (fulfil sz now r v l) = lg_entries l"
  by (simp add: fulfil_def Let_def split: sum.split)

definition outcome_snapshot :: "thrown + 'a \<Rightarrow> 'a snapshot" where
  "outcome_snapshot v =
     (case v of
        Inr x \<Rightarrow> \<lparr>sn_status = Completed, sn_result = Some x, sn_error = None\<rparr>
      | Inl t \<Rightarrow> let e = as_bridge_error t REMOTE_TRANSPORT_DISCONNECTED in
          \<lparr>sn_status = terminal_state e, sn_result = None, sn_error = Some (to_payload e)\<rparr>)"

lemma fulfil_settle: "fulfil sz now r v l = settle sz now r (outcome_snapshot v) l"
  by (simp add: fulfil_def outcome_snapshot_def Let_def split: sum.split)

lemma outcome_settled [simp]: "sn_status (outcome_snapshot v) \<noteq> Running"
  by (simp add: outcome_snapshot_def Let_def split: sum.split)

lemma fulfil_heap:
  "lg_heap l r = Some e \<Longrightarrow>
   lg_heap (fulfil sz now r v l) = (lg_heap l)(r \<mapsto> settled_entry sz now (outcome_snapshot v) l e)"
  by (simp add: fulfil_settle settle_Some)

lemma key_held_settle:
  assumes held: "key_held k r fp t0 l" and "t0 \<le> now" and run: "is_running l r'"
  shows "key_held k r fp t0 (fulfil sz now r' v l)"
proof -
  obtain e' s where "lg_heap l r' = Some e'"
    "lg_heap (fulfil sz now r' v l) = (lg_heap l)(r' \<mapsto> settled_entry sz now s l e')"
    using run fulfil_heap [of l r'] by (fastforce simp: is_running_def)
  then show ?thesis
    using assms fulfil_inv [of l r'] by (auto simp: key_held_def)
qed

lemma key_held_abort: "key_held k r fp t0 l \<Longrightarrow> key_held k r fp t0 (foldl abort_running l rs)"
  by (auto simp: key_held_def abort_fold_inv abort_fold_heap)

lemma key_held_cancel: "key_held k r fp t0 l \<Longrightarrow> key_held k r fp t0 (fst (cancel_op op l))"
  using cancel_op_inv [of l op]
  by (auto simp: key_held_def cancel_op_def split: option.splits if_splits)

lemma ledger_step_retention: "ledger_inv l \<Longrightarrow> lg_retention (ledger_step sz l ev) = lg_retention l"
proof (cases ev)
  case (Starts now k op fp)
  assume inv: "ledger_inv l"
  obtain l' res where start: "start_op now k op fp l = (l', res)" by fastforce
  have "lg_retention l' = lg_retention l"
    using inv start
    by (cases rule: start_op_cases) (auto simp: prune_frame register_def dest: bind_operation_frame)
  with Starts start show ?thesis by simp
qed (auto simp: status_op_def Let_def prune_frame cancel_op_def upd_entry_def clear_prefix_begin_def
    clear_prefix_end_fold clear_fold_frame split: option.split)

lemma key_held_step:
  assumes held: "key_held k r fp t0 l" and within: "event_within t0 (t0 + lg_retention l) ev"
  shows "key_held k r fp t0 (ledger_step sz l ev)"
proof (cases ev)
  case (Starts now k' op fp')
  obtain l' res where start: "start_op now k' op fp' l = (l', res)" by fastforce
  with Starts within key_held_start [OF held _ start] show ?thesis by simp
next
  case (Settles now r' v)
  with held within show ?thesis by (auto simp: key_held_settle)
next
  case (Reads now k')
  with held within show ?thesis by (simp add: status_op_def Let_def key_held_prune)
qed (use held within in \<open>auto simp: key_held_cancel clear_prefix_begin_def Let_def key_held_abort\<close>)

lemma key_held_run:
  "key_held k r fp t0 l \<Longrightarrow> \<forall>ev\<in>set evs. event_within t0 (t0 + lg_retention l) ev \<Longrightarrow>
   key_held k r fp t0 (run (ledger_step sz) l evs) \<and>
   lg_retention (run (ledger_step sz) l evs) = lg_retention l"
proof (induction evs arbitrary: l)
  case (Cons ev evs)
  then show ?case
    using Cons.IH [of "ledger_step sz l ev"] by (simp add: key_held_step ledger_step_retention key_held_inv)
qed simp

lemma executed_held:
  assumes inv: "ledger_inv l" and start: "start_op now k op fp l = (l', Inr (Executed, p))"
  shows "key_held k (lg_next l) fp t0 l' \<and> p = OwnPromise (lg_next l) \<and> lg_retention l' = lg_retention l"
  using inv start
proof (cases rule: start_op_cases)
  case executed
  then show ?thesis
    using start_op_inv [OF inv start]
    by (simp add: key_held_def register_def fresh_entry_def prune_frame)
qed auto

text \<open>Once executed, a key is joined, replayed or refused within the window.\<close>

lemma executed_once:
  assumes "ledger_inv l" and "start_op t0 k op fp l = (l1, Inr (Executed, p))"
    and "\<forall>ev\<in>set evs. event_within t0 (t0 + lg_retention l) ev"
    and "t0 \<le> now" and "now < t0 + lg_retention l"
    and "start_op now k op' fp' (run (ledger_step sz) l1 evs) = (l2, res)"
  shows "(\<forall>p'. res \<noteq> Inr (Executed, p')) \<and>
    (fp' \<noteq> fp \<longrightarrow> (\<exists>err. res = Inl err \<and> err_code err = PROTOCOL_MISMATCH)) \<and>
    (\<forall>out p'. res = Inr (out, p') \<longrightarrow>
       (\<exists>e. lg_heap l2 (lg_next l) = Some e \<and> p' = en_result e \<and>
            (out = Joined \<longleftrightarrow> sn_status (en_snap e) = Running)))"
proof -
  let ?r = "lg_next l" and ?l = "run (ledger_step sz) l1 evs"
  have "key_held k ?r fp t0 l1" and ret: "lg_retention l1 = lg_retention l"
    using executed_held [OF assms(1,2)] by auto
  then have held: "key_held k ?r fp t0 ?l" and "lg_retention ?l = lg_retention l"
    using key_held_run [of k ?r fp t0 l1 evs sz] assms(3) by auto
  then have "key_held k ?r fp t0 (prune now ?l)"
    using assms(5) by (simp add: key_held_prune)
  then obtain e where e: "jm_get (lg_entries (prune now ?l)) k = Some ?r" "lg_heap ?l ?r = Some e"
    "en_fp e = fp"
    by (auto simp: key_held_def prune_frame)
  show ?thesis
  proof (cases "fp' = fp")
    case False
    then have "res = throw PROTOCOL_MISMATCH
        ''Idempotency key was reused with different operation parameters''"
      using assms(6) e by (simp add: start_op_def Let_def prune_frame)
    with False show ?thesis by simp
  next
    case True
    from key_held_inv [OF held] assms(6) show ?thesis
    proof (cases rule: start_op_cases)
      case (joined r e')
      then show ?thesis using e True bind_operation_heap [OF joined(5)] by (auto simp: prune_frame)
    next
      case (replayed r e')
      then show ?thesis using e True by (auto simp: prune_frame)
    qed (use e True in auto)
  qed
qed

text \<open>C6. Within the retention window an operation runs at most once. After \<open>start\<close> executed
  a key, and whatever starts, settlements, status reads, cancellations and abort requests
  follow, no later \<open>start\<close> of the same key within the window executes it again; with other
  parameters it is refused, and with the same parameters it hands out the promise kept for
  the first execution or refuses the operation id.\<close>

theorem at_most_once:
  assumes "ledger_inv l" and "start_op t0 k op fp l = (l1, Inr (Executed, p))"
    and "\<forall>ev\<in>set evs. event_within t0 (t0 + lg_retention l) ev"
    and "t0 \<le> now" and "now < t0 + lg_retention l"
    and "start_op now k op' fp' (run (ledger_step sz) l1 evs) = (l2, res)"
  shows "(\<forall>p'. res \<noteq> Inr (Executed, p')) \<and>
    (fp' \<noteq> fp \<longrightarrow> (\<exists>err. res = Inl err \<and> err_code err = PROTOCOL_MISMATCH)) \<and>
    (\<forall>out p'. res = Inr (out, p') \<longrightarrow>
       (\<exists>e. lg_heap l2 (lg_next l) = Some e \<and> p' = en_result e \<and>
            (out = Joined \<longleftrightarrow> sn_status (en_snap e) = Running)))"
  by (rule executed_once [OF assms])

text \<open>A ledger of two entries, one second and a hundred bytes, for the concrete runs.\<close>

definition small_ledger :: "nat ledger" where
  "small_ledger = \<lparr>lg_heap = (\<lambda>_. None), lg_next = 0, lg_entries = [], lg_operations = [],
     lg_bytes = 0, lg_max_entries = 2, lg_retention = 1000, lg_max_bytes = 100\<rparr>"

lemma small_ledger_new: "new_ledger 2 1000 100 = Inr small_ledger"
  by (simp add: new_ledger_def small_ledger_def)

lemma small_ledger_inv: "ledger_inv small_ledger"
  using small_ledger_new by (rule new_ledger_inv)

lemmas ledger_eval = small_ledger_def start_op_def prune_def make_capacity_def Let_def
  bind_operation_def upd_entry_def fresh_entry_def jm_set_def jm_get_def jm_del_def set_add_def
  fulfil_def settle_def snapshot_size_def unbind_ops_def prune_one_def expired_def is_running_def

theorem at_most_once_witness:
  "\<exists>l1 p. start_op 0 ''k'' ''op'' ''f'' small_ledger = (l1, Inr (Executed, p)) \<and>
     (\<forall>p'. snd (start_op 10 ''k'' ''op2'' ''f''
        (run (ledger_step (\<lambda>_. Some 8)) l1 [Settles 5 0 (Inr 7)])) \<noteq> Inr (Executed, p'))"
proof -
  obtain l1 p where start: "start_op 0 ''k'' ''op'' ''f'' small_ledger = (l1, Inr (Executed, p))"
    by (simp add: ledger_eval)
  obtain l2 res where again: "start_op 10 ''k'' ''op2'' ''f''
      (run (ledger_step (\<lambda>_. Some 8)) l1 [Settles 5 0 (Inr 7)]) = (l2, res)"
    by (rule prod.exhaust)
  have ret: "lg_retention small_ledger = 1000" by (simp add: small_ledger_def)
  show ?thesis
    using at_most_once [OF small_ledger_inv start _ _ _ again] start again by (simp add: ret)
qed

text \<open>\<open>start\<close> decides exactly as documented. A key whose unexpired entry has another
  fingerprint is refused with PROTOCOL_MISMATCH; one whose entry still runs joins it unless the
  operation id belongs to another request; a settled one is replayed without binding the id. A
  fresh key is refused with COMMAND_DENIED when the entries or the bytes are at capacity, then
  with PROTOCOL_MISMATCH when the operation id is bound, and otherwise runs, registered under
  both its key and its operation id.\<close>

theorem start_decides:
  assumes "ledger_inv l0"
  shows "let l = prune now l0; (l', res) = start_op now k op fp l0 in
    case jm_get (lg_entries l) k of
      Some r \<Rightarrow>
        (\<exists>e. lg_heap l r = Some e \<and>
          (if en_fp e \<noteq> fp \<or>
              sn_status (en_snap e) = Running \<and> jm_get (lg_operations l) op \<notin> {None, Some r}
           then (\<exists>err. res = Inl err \<and> err_code err = PROTOCOL_MISMATCH) \<and> l' = l
           else if sn_status (en_snap e) = Running
           then res = Inr (Joined, en_result e) \<and> jm_get (lg_operations l') op = Some r
           else res = Inr (Replayed, en_result e) \<and> l' = l))
    | None \<Rightarrow>
        if lg_max_entries l \<le> length (lg_entries l) \<or> lg_max_bytes l \<le> lg_bytes l
        then (\<exists>err. res = Inl err \<and> err_code err = COMMAND_DENIED) \<and> l' = l
        else if jm_get (lg_operations l) op \<noteq> None
        then (\<exists>err. res = Inl err \<and> err_code err = PROTOCOL_MISMATCH) \<and> l' = l
        else (\<exists>p. res = Inr (Executed, p)) \<and>
          jm_get (lg_entries l') k = Some (lg_next l) \<and>
          jm_get (lg_operations l') op = Some (lg_next l) \<and> is_running l' (lg_next l)"
proof (cases "jm_get (lg_entries (prune now l0)) k")
  case None
  then show ?thesis
    using bind_fresh [of "prune now l0" op k fp]
    by (auto simp: start_op_def Let_def make_capacity_def is_running_def register_def
        fresh_entry_def not_le split: option.split)
next
  case (Some r)
  then obtain e where "lg_heap (prune now l0) r = Some e"
    using entries_heap prune_inv [OF assms, of now] by (fastforce simp: ledger_inv_def)
  with Some show ?thesis
    by (auto simp: start_op_def Let_def bind_operation_def upd_entry_def split: option.split)
qed

theorem start_decides_witness:
  "\<exists>l' p. start_op 0 ''k'' ''op'' ''f'' small_ledger = (l', Inr (Executed, p)) \<and>
     jm_get (lg_operations l') ''op'' = Some 0"
  using start_decides [OF small_ledger_inv, of 0 "''k''" "''op''" "''f''"]
  by (simp add: ledger_eval)

text \<open>A settled entry is final: no event changes its snapshot, its promise or its stored
  size again, so every status read and every replay of the key until it expires reports the
  first outcome.\<close>

theorem settled_final:
  assumes "ledger_inv l" and "lg_heap l r = Some e" and "sn_status (en_snap e) \<noteq> Running"
  shows "lg_heap (run (ledger_step sz) l evs) r = Some e"
  using assms
proof (induction evs arbitrary: l)
  case (Cons ev evs)
  have step: "lg_heap (ledger_step sz l ev) r = Some e"
    using Cons.prems
  proof (cases ev)
    case (Starts now k op fp)
    obtain l' res where start: "start_op now k op fp l = (l', res)" by fastforce
    have "r \<noteq> lg_next l"
      using Cons.prems entries_below [of l r e] by (auto simp: ledger_inv_def)
    with Cons.prems(1) start have "lg_heap l' r = Some e"
      using Cons.prems
      by (cases rule: start_op_cases)
        (auto simp: prune_frame bind_operation_heap register_def)
    with Starts start show ?thesis by simp
  qed (auto simp: is_running_def fulfil_heap status_op_def Let_def prune_frame cancel_op_def
      clear_prefix_begin_def abort_fold_heap clear_prefix_end_fold clear_fold_frame
      split: option.split)
  from Cons.IH [OF ledger.step_inv [OF Cons.prems(1)] step Cons.prems(3)]
  show ?case by simp
qed simp

theorem settled_final_witness:
  "\<exists>e. sn_result (en_snap e) = Some 7 \<and>
     lg_heap (run (ledger_step (\<lambda>_. Some 8))
       (ledger_step (\<lambda>_. Some 8) (ledger_step (\<lambda>_. Some 8) small_ledger (Starts 0 ''k'' ''op'' ''f''))
          (Settles 5 0 (Inr 7))) [Cancels ''op'', Settles 6 0 (Inr 9)]) 0 = Some e"
    (is "\<exists>e. _ \<and> lg_heap (run ?step ?l ?evs) 0 = Some e")
proof -
  have inv: "ledger_inv ?l" by (intro ledger.step_inv small_ledger_inv)
  obtain e where "lg_heap ?l 0 = Some e" "sn_status (en_snap e) = Completed"
      "sn_result (en_snap e) = Some 7"
    by (simp add: ledger_eval)
  with settled_final [OF inv, of 0 e "\<lambda>_. Some 8" ?evs] show ?thesis by auto
qed

subsection \<open>The byte bound\<close>

definition running_count :: "'a ledger \<Rightarrow> nat" where
  "running_count l = card {r. is_running l r}"

text \<open>Every result that does not fit is replaced by the overflow marker, of constant size, so
  the bytes can pass the bound only by the markers of entries no longer running.\<close>

definition marker :: "('a snapshot \<Rightarrow> nat option) \<Rightarrow> nat \<Rightarrow> nat" where
  "marker sz b = (case sz \<lparr>sn_status = UnknownOp, sn_result = None,
       sn_error = Some (to_payload (BridgeError RESULT_UNKNOWN
         ''Remote operation result exceeded the bounded idempotency ledger''
         (Some [(''maxLedgerBytes'', JInt (int b))])))\<rparr> of Some n \<Rightarrow> n | None \<Rightarrow> b + 1)"

lemma snapshot_size_marker: "snapshot_size sz l (unknown_snapshot l) = marker sz (lg_max_bytes l)"
  by (simp add: snapshot_size_def unknown_snapshot_def overflow_error_def marker_def)

definition bytes_bounded :: "('a snapshot \<Rightarrow> nat option) \<Rightarrow> 'a ledger \<Rightarrow> bool" where
  "bytes_bounded sz l \<longleftrightarrow>
     lg_bytes l + running_count l * marker sz (lg_max_bytes l) \<le>
     lg_max_bytes l + lg_max_entries l * marker sz (lg_max_bytes l)"

lemma running_registered: "entries_ok l \<Longrightarrow> {r. is_running l r} \<subseteq> snd ` set (lg_entries l)"
  by (force simp: is_running_def dest: entries_registered)

lemma running_finite: "entries_ok l \<Longrightarrow> finite {r. is_running l r}"
  by (rule finite_subset [OF running_registered]) auto

lemma running_le: "entries_ok l \<Longrightarrow> running_count l \<le> length (lg_entries l)"
  unfolding running_count_def
  by (rule order_trans [OF card_mono [OF _ running_registered]])
    (auto intro: order_trans [OF card_image_le card_length])

lemma bytes_bounded_less:
  "bytes_bounded sz l \<Longrightarrow> lg_bytes l' \<le> lg_bytes l \<Longrightarrow> running_count l' = running_count l \<Longrightarrow>
   lg_max_bytes l' = lg_max_bytes l \<Longrightarrow> lg_max_entries l' = lg_max_entries l \<Longrightarrow> bytes_bounded sz l'"
  by (simp add: bytes_bounded_def)

lemma bytes_boundedI:
  "lg_bytes l \<le> lg_max_bytes l \<Longrightarrow> running_count l \<le> lg_max_entries l \<Longrightarrow> bytes_bounded sz l"
  unfolding bytes_bounded_def by (intro add_mono mult_le_mono1)

lemma running_count_heap: "lg_heap l' = lg_heap l \<Longrightarrow> running_count l' = running_count l"
  by (simp add: running_count_def is_running_def)

lemma delete_entry_bytes_le: "lg_bytes (delete_entry k r l) \<le> lg_bytes l"
  by (simp add: delete_entry_def)

lemma prune_fold_bytes: "lg_bytes (foldl (prune_one now) l ps) \<le> lg_bytes l"
proof (induction ps arbitrary: l)
  case (Cons p ps)
  have "lg_bytes (prune_one now l p) \<le> lg_bytes l"
    by (simp add: prune_one_def delete_entry_bytes_le)
  with Cons [of "prune_one now l p"] show ?case by simp
qed simp

lemma prune_bytes: "lg_bytes (prune now l) \<le> lg_bytes l"
  by (simp add: prune_def prune_fold_bytes)

lemma clear_fold_bytes:
  "ledger_inv l \<Longrightarrow> \<forall>p\<in>set ps. \<not> is_running l (snd p) \<Longrightarrow>
   lg_bytes (foldl clear_one l ps) \<le> lg_bytes l"
proof (induction ps arbitrary: l)
  case (Cons p ps)
  have "lg_bytes (foldl clear_one (clear_one l p) ps) \<le> lg_bytes (clear_one l p)"
    using Cons by (simp add: clear_one_settled delete_entry_inv)
  also have "\<dots> \<le> lg_bytes l"
    using Cons.prems by (simp add: clear_one_settled delete_entry_bytes_le)
  finally show ?case by simp
qed simp

lemma prune_bounded: "bytes_bounded sz l \<Longrightarrow> bytes_bounded sz (prune now l)"
  by (rule bytes_bounded_less [of sz l])
    (simp_all add: prune_bytes prune_frame running_count_heap [of "prune now l" l])

lemma is_running_bind:
  "bind_operation op r l = Inr l' \<Longrightarrow> is_running l' r' = is_running l r'"
  by (auto simp: is_running_def bind_operation_heap)

lemma register_bounded:
  assumes inv: "ledger_inv l" and room: "length (lg_entries l) < lg_max_entries l"
    and bytes: "lg_bytes l < lg_max_bytes l"
  shows "bytes_bounded sz (register k op fp l)"
proof -
  have "{r. is_running (register k op fp l) r} = insert (lg_next l) {r. is_running l r}"
    by (auto simp: is_running_def register_def fresh_entry_def)
  then have "running_count (register k op fp l) \<le> Suc (running_count l)"
    using running_finite [of l] inv by (simp add: running_count_def ledger_inv_def card_insert_if)
  also have "\<dots> \<le> lg_max_entries l"
    using running_le [of l] inv room by (simp add: ledger_inv_def)
  finally show ?thesis
    using bytes by (intro bytes_boundedI) (simp_all add: register_def)
qed

lemma fulfil_bounded:
  assumes inv: "ledger_inv l" and b: "bytes_bounded sz l" and run: "is_running l r"
  shows "bytes_bounded sz (fulfil sz now r v l)"
proof -
  let ?U = "marker sz (lg_max_bytes l)" and ?l = "fulfil sz now r v l"
  obtain e where e: "lg_heap l r = Some e" using run by (auto simp: is_running_def)
  have fin: "finite {r. is_running l r}" using inv by (simp add: running_finite ledger_inv_def)
  have "{r. is_running ?l r} = {r. is_running l r} - {r}"
    using e by (auto simp: is_running_def fulfil_heap)
  then have count: "Suc (running_count ?l) = running_count l"
    using run fin card_Suc_Diff1 [OF fin, of r] by (simp add: running_count_def)
  have le: "running_count l \<le> lg_max_entries l"
    using running_le [of l] inv by (simp add: ledger_inv_def)
  have frame: "lg_max_bytes ?l = lg_max_bytes l" "lg_max_entries ?l = lg_max_entries l"
    by (simp_all add: fulfil_settle)
  have "lg_bytes ?l \<le> lg_max_bytes l \<or> lg_bytes ?l = lg_bytes l + ?U"
    using e by (auto simp: fulfil_settle settle_Some settled_entry_def snapshot_size_marker)
  then show ?thesis
  proof
    assume "lg_bytes ?l \<le> lg_max_bytes l"
    then show ?thesis using count le frame by (intro bytes_boundedI) simp_all
  next
    assume "lg_bytes ?l = lg_bytes l + ?U"
    moreover have "running_count l * ?U = ?U + running_count ?l * ?U"
      by (simp flip: count)
    ultimately show ?thesis using b frame by (simp add: bytes_bounded_def)
  qed
qed

lemma ledger_step_bounded:
  assumes inv: "ledger_inv l" and b: "bytes_bounded sz l"
  shows "bytes_bounded sz (ledger_step sz l ev)"
proof (cases ev)
  case (Starts now k op fp)
  obtain l' res where start: "start_op now k op fp l = (l', res)" by fastforce
  have "bytes_bounded sz l'"
    using inv start
  proof (cases rule: start_op_cases)
    case (joined r e)
    then have "running_count l' = running_count (prune now l)"
      by (simp add: running_count_def is_running_bind)
    with joined show ?thesis
      using prune_bounded [OF b, of now] bytes_bounded_less [of sz "prune now l" l']
        bind_operation_frame [OF joined(5)] by simp
  next
    case executed
    then show ?thesis
      using register_bounded [OF prune_inv [OF inv]] by (simp add: prune_frame)
  qed (use prune_bounded [OF b] in auto)
  with Starts start show ?thesis by simp
next
  case (Settles now r v)
  then show ?thesis using assms by (simp add: fulfil_bounded)
next
  case (Reads now k)
  then show ?thesis using b by (simp add: status_op_def Let_def prune_bounded)
next
  case (Cancels op)
  have "running_count (fst (cancel_op op l)) = running_count l"
    by (auto simp: running_count_def is_running_def cancel_op_def split: option.split
        intro!: arg_cong [where f = card])
  with Cancels show ?thesis
    using b bytes_bounded_less [OF b, of "fst (cancel_op op l)"]
    by (simp add: cancel_op_def split: option.split)
next
  case (ClearBegins pre)
  then show ?thesis
    using bytes_bounded_less [OF b, of "ledger_step sz l ev"]
    by (simp add: clear_prefix_begin_def Let_def running_count_def)
next
  case (ClearEnds ms)
  then show ?thesis
    using b bytes_bounded_less [OF b, of "foldl clear_one l ms"] inv
    by (simp add: clear_prefix_end_fold clear_fold_bytes clear_fold_frame
        running_count_heap [of "foldl clear_one l ms" l])
qed

definition ledger_sized :: "('a snapshot \<Rightarrow> nat option) \<Rightarrow> nat \<Rightarrow> nat \<Rightarrow> 'a ledger \<Rightarrow> bool" where
  "ledger_sized sz m b l \<longleftrightarrow>
     ledger_inv l \<and> bytes_bounded sz l \<and> lg_max_entries l = m \<and> lg_max_bytes l = b"

lemma start_op_limits:
  assumes "ledger_inv l" and "start_op now k op fp l = (l', res)"
  shows "lg_max_entries l' = lg_max_entries l \<and> lg_max_bytes l' = lg_max_bytes l"
  using assms
  by (cases rule: start_op_cases) (auto simp: prune_frame register_def dest: bind_operation_frame)

lemma ledger_step_limits:
  assumes "ledger_inv l"
  shows "lg_max_entries (ledger_step sz l ev) = lg_max_entries l \<and>
    lg_max_bytes (ledger_step sz l ev) = lg_max_bytes l"
proof (cases ev)
  case (Starts now k op fp)
  obtain l' res where "start_op now k op fp l = (l', res)" by fastforce
  with Starts start_op_limits [OF assms] show ?thesis by fastforce
qed (use assms in \<open>auto simp: fulfil_settle status_op_def Let_def prune_frame cancel_op_def
    clear_prefix_begin_def clear_prefix_end_fold clear_fold_frame split: option.split\<close>)

interpretation ledger_size: invariant_machine "ledger_step sz" "ledger_sized sz m b"
  by unfold_locales
    (simp add: ledger_sized_def ledger.step_inv ledger_step_bounded ledger_step_limits)

text \<open>The ledger is bounded in every reachable state: never more entries than
  \<open>maxEntries\<close>; the byte count is exactly the sum over the registered entries; it passes
  \<open>maxBytes\<close> by at most the constant overflow marker of each entry; and an operation id is
  only bound to a running entry that lists it.\<close>

theorem ledger_bounded:
  assumes new: "new_ledger max_entries retention max_bytes = Inr l0"
  shows "let l = run (ledger_step sz) l0 evs in
    length (lg_entries l) \<le> nat max_entries \<and>
    lg_bytes l = (\<Sum>p\<in>set (lg_entries l). entry_bytes l (snd p)) \<and>
    lg_bytes l \<le> nat max_bytes + nat max_entries * snapshot_size sz l (unknown_snapshot l) \<and>
    (\<forall>op r. jm_get (lg_operations l) op = Some r \<longrightarrow>
       (\<exists>e. lg_heap l r = Some e \<and> sn_status (en_snap e) = Running \<and> op \<in> set (en_ops e)))"
proof -
  have inv: "ledger_inv l0" using new by (rule new_ledger_inv)
  moreover have "lg_max_entries l0 = nat max_entries" "lg_max_bytes l0 = nat max_bytes"
      "lg_bytes l0 = 0" "running_count l0 = 0"
    using new by (auto simp: new_ledger_def running_count_def is_running_def split: if_splits)
  ultimately have "ledger_sized sz (nat max_entries) (nat max_bytes) l0"
    by (simp add: ledger_sized_def bytes_bounded_def)
  then have "ledger_sized sz (nat max_entries) (nat max_bytes) (run (ledger_step sz) l0 evs)"
    by (rule ledger_size.run_inv)
  then show ?thesis
    by (auto simp: Let_def ledger_sized_def ledger_inv_def bytes_bounded_def stored_bytes_def
        snapshot_size_marker operations_ok_def)
qed

theorem ledger_bounded_witness:
  "lg_bytes (run (ledger_step (\<lambda>_. Some 60)) small_ledger
     [Starts 0 ''a'' ''x'' ''f'', Starts 1 ''b'' ''y'' ''f'', Settles 2 0 (Inr 1), Settles 3 1 (Inr 2)])
   \<le> 220"
  using ledger_bounded [OF small_ledger_new, of "\<lambda>_. Some 60"
    "[Starts 0 ''a'' ''x'' ''f'', Starts 1 ''b'' ''y'' ''f'', Settles 2 0 (Inr 1), Settles 3 1 (Inr 2)]"]
  by (simp only: Let_def snapshot_size_def) simp

text \<open>\<open>cancel\<close> is exact. It answers true precisely when the operation id is bound, the
  entry it is bound to then has its abort signal raised, and no other entry and nothing else of
  the ledger changes.\<close>

theorem cancel_exact:
  assumes "ledger_inv l"
  shows "let (l', done) = cancel_op op l in
    (done \<longleftrightarrow> jm_get (lg_operations l) op \<noteq> None) \<and>
    (\<forall>r. lg_heap l' r =
       (if jm_get (lg_operations l) op = Some r
        then map_option (\<lambda>e. e\<lparr>en_aborted := True\<rparr>) (lg_heap l r) else lg_heap l r)) \<and>
    lg_entries l' = lg_entries l \<and> lg_operations l' = lg_operations l \<and> lg_bytes l' = lg_bytes l"
proof (cases "jm_get (lg_operations l) op")
  case None
  then show ?thesis by (simp add: cancel_op_def)
next
  case (Some r)
  then obtain e where "lg_heap l r = Some e" "sn_status (en_snap e) = Running"
    using assms by (auto simp: ledger_inv_def operations_ok_def)
  with Some show ?thesis by (auto simp: cancel_op_def)
qed

theorem cancel_exact_witness:
  "snd (cancel_op ''x'' (ledger_step (\<lambda>_. Some 8) small_ledger (Starts 0 ''a'' ''x'' ''f'')))"
  using cancel_exact [OF ledger.step_inv [OF small_ledger_inv], of "''x''" "\<lambda>_. Some 8"
    "Starts 0 ''a'' ''x'' ''f''"]
  by (simp add: ledger_eval split_def)

end
