(* ===== verification/NodePath.thy ===== *)
theory NodePath
  imports Prelude
begin

text \<open>
  The part of Node's \<open>path.posix\<close> the sources use: \<open>isAbsolute\<close>, \<open>normalize\<close>, \<open>resolve\<close>,
  \<open>relative\<close>, \<open>join\<close>, \<open>basename\<close> and \<open>dirname\<close>, as functions on strings over lists of segments. This is the
  language's standard library; the components built on it are in the theories that import
  this one.
\<close>

abbreviation SLASH :: char where
  "SLASH \<equiv> CHR ''/''"

definition is_absolute :: "string \<Rightarrow> bool" where
  "is_absolute p \<longleftrightarrow> starts_with p ''/''"

text \<open>One step of \<open>normalizeString\<close>; the segments kept so far are in reverse order.\<close>

definition seg_step :: "bool \<Rightarrow> string list \<Rightarrow> string \<Rightarrow> string list" where
  "seg_step up acc s =
     (if s = [] \<or> s = ''.'' then acc
      else if s = ''..'' then
        (case acc of
           [] \<Rightarrow> if up then [''..''] else []
         | x # xs \<Rightarrow> if x = ''..'' then (if up then ''..'' # acc else acc) else xs)
      else s # acc)"

definition norm_segs :: "bool \<Rightarrow> string list \<Rightarrow> string list" where
  "norm_segs up ss = rev (foldl (seg_step up) [] ss)"

definition path_join :: "string list \<Rightarrow> string" where
  "path_join = join_with ''/''"

definition segs :: "bool \<Rightarrow> string \<Rightarrow> string list" where
  "segs up p = norm_segs up (split_on SLASH p)"

definition normalize :: "string \<Rightarrow> string" where
  "normalize p =
     (if p = [] then ''.''
      else
        let trailing = last p = SLASH; body = path_join (segs (\<not> is_absolute p) p) in
        if body = [] then
          (if is_absolute p then ''/'' else if trailing then ''./'' else ''.'')
        else
          let body' = (if trailing then body @ ''/'' else body) in
          if is_absolute p then ''/'' @ body' else body')"

fun resolve_loop :: "string list \<Rightarrow> string \<Rightarrow> string \<times> bool" where
  "resolve_loop [] acc = (acc, False)"
| "resolve_loop (p # ps) acc =
     (if p = [] then resolve_loop ps acc
      else if is_absolute p then (p @ ''/'' @ acc, True)
      else resolve_loop ps (p @ ''/'' @ acc))"

text \<open>\<open>path.posix.resolve(...args)\<close>, with the working directory as an argument.\<close>

definition resolve :: "string \<Rightarrow> string list \<Rightarrow> string" where
  "resolve cwd args =
     (let (s, abs) = resolve_loop (rev args @ [cwd]) []; body = path_join (segs (\<not> abs) s)
      in if abs then ''/'' @ body else if body = [] then ''.'' else body)"

fun common_prefix :: "string list \<Rightarrow> string list \<Rightarrow> nat" where
  "common_prefix (x # xs) (y # ys) = (if x = y then Suc (common_prefix xs ys) else 0)"
| "common_prefix _ _ = 0"

definition relative :: "string \<Rightarrow> string \<Rightarrow> string \<Rightarrow> string" where
  "relative cwd from to =
     (if from = to then []
      else let f = resolve cwd [from]; t = resolve cwd [to] in
        if f = t then []
        else
          let fs = segs False f; ts = segs False t; k = common_prefix fs ts in
          path_join (replicate (length fs - k) ''..'' @ drop k ts))"

definition path_of_join :: "string list \<Rightarrow> string" where
  "path_of_join ps = (let qs = filter (\<lambda>p. p \<noteq> []) ps in
     if qs = [] then ''.'' else normalize (path_join qs))"

definition basename :: "string \<Rightarrow> string" where
  "basename p = last ([] # filter (\<lambda>s. s \<noteq> []) (split_on SLASH p))"

definition dirname :: "string \<Rightarrow> string" where
  "dirname p =
     (let q = rev (dropWhile (\<lambda>c. c = SLASH) (rev p));
          d = rev (dropWhile (\<lambda>c. c = SLASH) (dropWhile (\<lambda>c. c \<noteq> SLASH) (rev q)))
      in if p = [] then ''.''
         else if q = [] then ''/''
         else if SLASH \<notin> set q then ''.''
         else if d = [] then ''/'' else d)"

section \<open>Clean paths\<close>

text \<open>A clean segment list has no empty, dot or dot-dot segment and no slash in a segment; an
  absolute clean path is a slash followed by its joined segments.\<close>

definition clean_seg :: "string \<Rightarrow> bool" where
  "clean_seg s \<longleftrightarrow> s \<noteq> [] \<and> s \<noteq> ''.'' \<and> s \<noteq> ''..'' \<and> SLASH \<notin> set s"

definition abs_path :: "string list \<Rightarrow> string" where
  "abs_path ss = ''/'' @ path_join ss"

lemma is_absolute_Cons: "is_absolute p \<longleftrightarrow> (\<exists>q. p = SLASH # q)"
  by (cases p) (auto simp: is_absolute_def starts_with_def)

lemma split_on_app: "split_on c (a @ c # b) = split_on c a @ split_on c b"
  by (induction a) (auto split: list.splits)

lemma split_path_join:
  "ss \<noteq> [] \<Longrightarrow> \<forall>s\<in>set ss. clean_seg s \<Longrightarrow> split_on SLASH (path_join ss) = ss"
  unfolding path_join_def by (rule split_join) (auto simp: clean_seg_def)

lemma path_join_nonempty: "ss \<noteq> [] \<Longrightarrow> \<forall>s\<in>set ss. clean_seg s \<Longrightarrow> path_join ss \<noteq> []"
  by (cases ss rule: list.exhaust; cases "tl ss") (auto simp: path_join_def clean_seg_def)

lemma path_join_eq_Nil: "\<forall>s\<in>set ss. clean_seg s \<Longrightarrow> path_join ss = [] \<longleftrightarrow> ss = []"
  using path_join_nonempty by (auto simp: path_join_def)

lemma path_join_append:
  "xs \<noteq> [] \<Longrightarrow> ys \<noteq> [] \<Longrightarrow> path_join (xs @ ys) = path_join xs @ ''/'' @ path_join ys"
  by (simp add: path_join_def join_with_append)

lemma foldl_clean:
  "\<forall>s\<in>set ss. clean_seg s \<Longrightarrow> foldl (seg_step up) acc ss = rev ss @ acc"
  by (induction ss arbitrary: acc) (auto simp: seg_step_def clean_seg_def)

lemma norm_segs_id: "\<forall>s\<in>set ss. clean_seg s \<Longrightarrow> norm_segs up ss = ss"
  by (simp add: norm_segs_def foldl_clean)

lemma foldl_seg_clean:
  "\<forall>s\<in>set acc. clean_seg s \<Longrightarrow> \<forall>s\<in>set ss. SLASH \<notin> set s \<Longrightarrow>
   \<forall>s\<in>set (foldl (seg_step False) acc ss). clean_seg s"
proof (induction ss arbitrary: acc)
  case (Cons s ss)
  have "\<forall>x\<in>set (seg_step False acc s). clean_seg x"
    using Cons.prems by (auto simp: seg_step_def clean_seg_def split: list.split)
  with Cons show ?case by simp
qed simp

lemma segs_clean: "\<forall>s\<in>set (segs False p). clean_seg s"
  using foldl_seg_clean [of "[]" "split_on SLASH p"] split_on_no_sep [of _ SLASH p]
  by (auto simp: segs_def norm_segs_def)

lemma foldl_seg_chars:
  "c \<noteq> CHR ''.'' \<Longrightarrow> \<forall>s\<in>set acc. c \<notin> set s \<Longrightarrow> \<forall>s\<in>set ss. c \<notin> set s \<Longrightarrow>
   \<forall>s\<in>set (foldl (seg_step up) acc ss). c \<notin> set s"
proof (induction ss arbitrary: acc)
  case (Cons s ss)
  have "\<forall>x\<in>set (seg_step up acc s). c \<notin> set x"
    using Cons.prems by (auto simp: seg_step_def split: list.split)
  with Cons show ?case by simp
qed simp

lemma set_split_on: "\<forall>x\<in>set (split_on c s). set x \<subseteq> set s"
proof (induction s)
  case (Cons a s)
  obtain y ys where "split_on c s = y # ys" by (cases "split_on c s") simp_all
  with Cons show ?case by auto
qed simp

lemma set_join_with: "set (join_with c ss) \<subseteq> set c \<union> (\<Union>s\<in>set ss. set s)"
  by (induction c ss rule: join_with.induct) auto

lemma set_path_join: "c \<noteq> SLASH \<Longrightarrow> \<forall>s\<in>set ss. c \<notin> set s \<Longrightarrow> c \<notin> set (path_join ss)"
  using set_join_with [of "''/''" ss] by (auto simp: path_join_def)

lemma last_path_join:
  "ss \<noteq> [] \<Longrightarrow> \<forall>s\<in>set ss. clean_seg s \<Longrightarrow> last (path_join ss) \<noteq> SLASH"
proof (induction ss)
  case (Cons s ss)
  show ?case
  proof (cases "ss = []")
    case True
    moreover have "last s \<noteq> SLASH"
      using Cons.prems by (metis clean_seg_def last_in_set list.set_intros(1))
    ultimately show ?thesis using Cons.prems by (auto simp: path_join_def clean_seg_def)
  next
    case False
    then have "path_join (s # ss) = s @ ''/'' @ path_join ss"
      using path_join_append [of "[s]" ss] by (simp add: path_join_def)
    with False Cons path_join_nonempty [OF False] show ?thesis by simp
  qed
qed simp

lemma hd_path_join:
  "\<forall>s\<in>set ss. clean_seg s \<Longrightarrow> \<not> is_absolute (path_join ss)"
  by (cases ss rule: list.exhaust; cases "tl ss"; cases "hd ss")
    (auto simp: path_join_def clean_seg_def is_absolute_Cons)

lemma segs_Cons_slash [simp]: "segs up (SLASH # p) = segs up p"
  by (simp add: segs_def norm_segs_def seg_step_def)

lemma segs_trailing [simp]: "segs up (p @ [SLASH]) = segs up p"
  using split_on_app [of SLASH p "[]"] by (simp add: segs_def norm_segs_def seg_step_def)

lemma segs_Nil [simp]: "segs up [] = []"
  by (simp add: segs_def norm_segs_def seg_step_def)

lemma segs_path_join: "\<forall>s\<in>set ss. clean_seg s \<Longrightarrow> segs up (path_join ss) = ss"
  by (cases "ss = []") (simp_all add: segs_def split_path_join norm_segs_id, simp add: path_join_def norm_segs_def seg_step_def)

lemma segs_abs_path [simp]: "\<forall>s\<in>set ss. clean_seg s \<Longrightarrow> segs up (abs_path ss) = ss"
  by (simp add: abs_path_def segs_path_join)

lemma is_absolute_abs_path [simp]: "is_absolute (abs_path ss)"
  by (simp add: is_absolute_def abs_path_def starts_with_def)

lemma abs_path_inj:
  "\<forall>s\<in>set xs. clean_seg s \<Longrightarrow> \<forall>s\<in>set ys. clean_seg s \<Longrightarrow> abs_path xs = abs_path ys \<longleftrightarrow> xs = ys"
  by (metis segs_abs_path)

text \<open>Normalising an absolute path gives a clean one, with a slash behind it when the input
  had one.\<close>

lemma normalize_abs:
  assumes "is_absolute p"
  shows "normalize p = abs_path (segs False p) @
    (if segs False p \<noteq> [] \<and> last p = SLASH then ''/'' else [])"
  using assms path_join_eq_Nil [OF segs_clean, of p]
  by (auto simp: normalize_def abs_path_def Let_def is_absolute_Cons path_join_def)

lemma resolve_abs: "is_absolute p \<Longrightarrow> resolve cwd [p] = abs_path (segs False p)"
  by (auto simp: resolve_def abs_path_def is_absolute_Cons)

lemma resolve_root:
  assumes "is_absolute root" and "\<not> is_absolute p" and "p \<noteq> []"
  shows "resolve cwd [root, p] = abs_path (segs False (root @ ''/'' @ p))"
proof -
  have "root @ ''/'' @ p @ ''/'' = (root @ ''/'' @ p) @ [SLASH]" by simp
  then have "segs False (root @ ''/'' @ p @ ''/'') = segs False (root @ ''/'' @ p)"
    by (metis segs_trailing)
  moreover have "root \<noteq> []" using assms(1) by (auto simp: is_absolute_Cons)
  ultimately show ?thesis using assms by (simp add: resolve_def abs_path_def)
qed

lemma segs_append:
  "segs False (a @ SLASH # b) = rev (foldl (seg_step False) (rev (segs False a)) (split_on SLASH b))"
  by (simp add: segs_def norm_segs_def split_on_app)

lemma common_prefix_append: "common_prefix xs (xs @ ys) = length xs"
  by (induction xs) auto

lemma relative_below:
  assumes "\<forall>s\<in>set xs. clean_seg s" and "\<forall>s\<in>set ys. clean_seg s" and "is_absolute p"
    and "segs False p = xs @ ys"
  shows "relative cwd (abs_path xs) p = path_join ys"
proof (cases "ys = []")
  case True
  then have "resolve cwd [p] = abs_path xs"
    using assms by (simp add: resolve_abs)
  moreover have "resolve cwd [abs_path xs] = abs_path xs"
    using assms by (simp add: resolve_abs)
  ultimately show ?thesis using True by (simp add: relative_def path_join_def)
next
  case False
  have f: "resolve cwd [abs_path xs] = abs_path xs" and t: "resolve cwd [p] = abs_path (xs @ ys)"
    using assms by (simp_all add: resolve_abs)
  have "abs_path xs \<noteq> p"
    using False assms by (metis append_self_conv segs_abs_path)
  moreover have "abs_path xs \<noteq> abs_path (xs @ ys)"
    using False assms abs_path_inj [of xs "xs @ ys"] by auto
  moreover have "segs False (abs_path (xs @ ys)) = xs @ ys"
    using assms by (intro segs_abs_path) auto
  ultimately show ?thesis
    using assms by (simp add: relative_def f t common_prefix_append)
qed

end
