(* ===== verification/PathPolicy.thy ===== *)
theory PathPolicy
  imports Errors NodePath
begin

text \<open>
  \<^verbatim>\<open>src/core/path-policy.ts\<close> and \<^verbatim>\<open>src/remote-extension/workspace.ts\<close>: the lexical
  containment test of every remote path, and which execution root a request gets.
\<close>

record remote_path =
  rp_absolute :: string
  rp_relative :: string

definition is_path_inside :: "string \<Rightarrow> string \<Rightarrow> bool" where
  "is_path_inside root candidate \<longleftrightarrow> candidate = root \<or> starts_with candidate (root @ ''/'')"

text \<open>\<open>normalizeRemotePath\<close>; the working directory \<open>posix.resolve\<close> would fall back on is an
  argument.\<close>

definition normalize_remote_path :: "string \<Rightarrow> string \<Rightarrow> string \<Rightarrow> bridge_error + remote_path" where
  "normalize_remote_path cwd root input =
     (if NUL \<in> set input then throw PATH_OUTSIDE_ROOT ''Remote path must be a NUL-free string''
      else
        let absolute = (if is_absolute input then normalize input
                        else resolve cwd [root, if input = [] then ''.'' else input])
        in
          if \<not> is_path_inside root absolute then
            throw_with PATH_OUTSIDE_ROOT ''Remote path escapes the configured workspace''
              [(''root'', JStr root), (''path'', JStr input)]
          else
            let rel = relative cwd root absolute in
            Inr \<lparr>rp_absolute = absolute, rp_relative = (if rel = [] then ''.'' else rel)\<rparr>)"

definition remote_workspace_schemes :: "string list" where
  "remote_workspace_schemes = [''file'', ''vscode-remote'']"

definition strip_trailing_slashes :: "string \<Rightarrow> string" where
  "strip_trailing_slashes p = rev (dropWhile (\<lambda>c. c = SLASH) (rev p))"

definition normalize_absolute_remote_path :: "string \<Rightarrow> string option" where
  "normalize_absolute_remote_path v =
     (if \<not> is_absolute v then None
      else let n = normalize v in
        Some (if length n > 1 then strip_trailing_slashes n else n))"

definition matches_remote_workspace_root :: "string \<Rightarrow> string \<Rightarrow> string \<Rightarrow> bool" where
  "matches_remote_workspace_root folder_scheme folder_path workspace_root =
     (if folder_scheme \<notin> set remote_workspace_schemes then False
      else
        let folder = normalize_absolute_remote_path folder_path;
            requested = normalize_absolute_remote_path workspace_root
        in folder \<noteq> None \<and> requested \<noteq> None \<and> folder = requested)"

text \<open>\<open>scopeRoot\<close> is untyped input: absent, a string or anything else.\<close>

definition remote_execution_root :: "string \<Rightarrow> json option \<Rightarrow> string \<Rightarrow> bridge_error + string" where
  "remote_execution_root workspace_root scope_root home =
     (case scope_root of
        None \<Rightarrow> Inr workspace_root
      | Some scope \<Rightarrow>
          if scope \<noteq> JStr home \<or> home = ''/'' then
            throw PATH_OUTSIDE_ROOT
              ''Remote execution scope does not match the remote user's home directory''
          else Inr home)"

section \<open>Containment\<close>

text \<open>A configured root: absolute, clean, NUL-free and not the file system root.\<close>

definition clean_root :: "string list \<Rightarrow> bool" where
  "clean_root rs \<longleftrightarrow> rs \<noteq> [] \<and> (\<forall>s\<in>set rs. clean_seg s \<and> NUL \<notin> set s)"

definition slash_end :: "string \<Rightarrow> string" where
  "slash_end input = (if last input = SLASH then ''/'' else [])"

lemma split_abs_path:
  "ss \<noteq> [] \<Longrightarrow> \<forall>s\<in>set ss. clean_seg s \<Longrightarrow> split_on SLASH (abs_path ss) = [] # ss"
  by (simp add: abs_path_def split_path_join)

lemma abs_path_append:
  "rs \<noteq> [] \<Longrightarrow> ss \<noteq> [] \<Longrightarrow> abs_path (rs @ ss) = abs_path rs @ ''/'' @ path_join ss"
  by (simp add: abs_path_def path_join_append)

text \<open>The string test is the segment prefix test.\<close>

lemma is_path_inside_abs:
  assumes root: "clean_root rs" and ss: "\<forall>s\<in>set ss. clean_seg s" "ss = [] \<longrightarrow> tr = []"
    and tr: "tr = [] \<or> tr = ''/''"
  shows "is_path_inside (abs_path rs) (abs_path ss @ tr) \<longleftrightarrow> (\<exists>rest. ss = rs @ rest)"
proof
  assume "\<exists>rest. ss = rs @ rest"
  then obtain rest where rest: "ss = rs @ rest" by blast
  show "is_path_inside (abs_path rs) (abs_path ss @ tr)"
  proof (cases "rest = []")
    case True
    with rest tr show ?thesis by (auto simp: is_path_inside_def starts_with_iff)
  next
    case False
    with root have "abs_path ss = abs_path rs @ ''/'' @ path_join rest"
      unfolding rest by (intro abs_path_append) (auto simp: clean_root_def)
    then show ?thesis by (auto simp: is_path_inside_def starts_with_iff)
  qed
next
  assume inside: "is_path_inside (abs_path rs) (abs_path ss @ tr)"
  have clean_rs: "\<forall>s\<in>set rs. clean_seg s" "rs \<noteq> []" using root by (auto simp: clean_root_def)
  show "\<exists>rest. ss = rs @ rest"
  proof (cases "ss = []")
    case True
    then have "abs_path ss @ tr = ''/''" using ss by (simp add: abs_path_def path_join_def)
    moreover have "path_join rs \<noteq> []" using clean_rs by (simp add: path_join_nonempty)
    ultimately show ?thesis using inside
      by (auto simp: is_path_inside_def abs_path_def starts_with_iff)
  next
    case False
    have "split_on SLASH (abs_path ss @ tr) = [] # ss @ (if tr = [] then [] else [[]])"
      using tr False ss split_on_app [of SLASH "abs_path ss" "[]"] by (auto simp: split_abs_path)
    moreover have "abs_path ss @ tr = abs_path rs \<or>
        (\<exists>t. abs_path ss @ tr = abs_path rs @ SLASH # t)"
      using inside by (auto simp: is_path_inside_def starts_with_iff)
    ultimately obtain us where
      us: "rs @ us = ss @ (if tr = [] then [] else [[]])"
      using clean_rs by (auto simp: split_on_app split_abs_path)
    have "length rs \<le> length ss"
    proof (rule ccontr)
      assume "\<not> ?thesis"
      then have "[] \<in> set rs"
        using us by (auto simp: append_eq_append_conv2 append_eq_Cons_conv split: if_splits)
      with clean_rs show False by (auto simp: clean_seg_def)
    qed
    with us show ?thesis by (auto simp: append_eq_append_conv2 append_eq_Cons_conv split: if_splits)
  qed
qed

text \<open>The segments an input denotes: its own when absolute, else those reached by walking it
  from the root.\<close>

definition target :: "string list \<Rightarrow> string \<Rightarrow> string list" where
  "target rs input =
     (if is_absolute input then segs False input
      else rev (foldl (seg_step False) (rev rs) (split_on SLASH input)))"

lemma target_clean: "clean_root rs \<Longrightarrow> \<forall>s\<in>set (target rs input). clean_seg s"
  using segs_clean [of input] foldl_seg_clean [of "rev rs" "split_on SLASH input"]
    split_on_no_sep [of _ SLASH input]
  by (auto simp: target_def clean_root_def)

lemma target_nul:
  assumes root: "clean_root rs" and nul: "NUL \<notin> set input"
  shows "\<forall>s\<in>set (target rs input). NUL \<notin> set s"
proof -
  have split: "\<forall>s\<in>set (split_on SLASH input). NUL \<notin> set s"
    using nul set_split_on [of SLASH input] by (meson subsetD)
  have "\<forall>s\<in>set (rev rs). NUL \<notin> set s" using root by (simp add: clean_root_def)
  then have "\<forall>s\<in>set (foldl (seg_step False) (rev rs) (split_on SLASH input)). NUL \<notin> set s"
    using split by (intro foldl_seg_chars) simp_all
  moreover have "\<forall>s\<in>set (foldl (seg_step False) [] (split_on SLASH input)). NUL \<notin> set s"
    using split by (intro foldl_seg_chars) simp_all
  ultimately show ?thesis by (simp add: target_def segs_def norm_segs_def)
qed

definition trailing :: "string list \<Rightarrow> string \<Rightarrow> string" where
  "trailing ss input = (if is_absolute input \<and> ss \<noteq> [] \<and> last input = SLASH then ''/'' else [])"

lemma absolute_of_input:
  assumes "clean_root rs"
  shows "(if is_absolute input then normalize input
      else resolve cwd [abs_path rs, if input = [] then ''.'' else input]) =
    abs_path (target rs input) @ trailing (target rs input) input"
proof (cases "is_absolute input")
  case True
  then show ?thesis by (simp add: normalize_abs target_def trailing_def)
next
  case False
  let ?in = "if input = [] then ''.'' else input"
  have seg: "segs False (abs_path rs) = rs"
    using assms by (simp add: clean_root_def)
  have "\<not> is_absolute ?in" "?in \<noteq> []" using False by (auto simp: is_absolute_Cons)
  then have "resolve cwd [abs_path rs, ?in] = abs_path (segs False (abs_path rs @ SLASH # ?in))"
    using resolve_root [OF is_absolute_abs_path] by simp
  also have "segs False (abs_path rs @ SLASH # ?in) =
      rev (foldl (seg_step False) (rev rs) (split_on SLASH ?in))"
    by (simp add: segs_append seg)
  also have "\<dots> = target rs input"
    using False by (simp add: target_def seg_step_def)
  finally show ?thesis using False by (simp add: trailing_def)
qed

lemma segs_target:
  assumes "clean_root rs"
  shows "segs False (abs_path (target rs input) @ trailing (target rs input) input) = target rs input"
  using target_clean [OF assms, of input] segs_trailing [of False "abs_path (target rs input)"]
  by (auto simp: trailing_def)

lemma normalize_remote_path_eq:
  assumes root: "clean_root rs" and nul: "NUL \<notin> set input"
  shows "normalize_remote_path cwd (abs_path rs) input =
    (if take (length rs) (target rs input) = rs
     then Inr \<lparr>rp_absolute = abs_path (target rs input) @ trailing (target rs input) input,
       rp_relative = (let rest = drop (length rs) (target rs input) in
         if rest = [] then ''.'' else path_join rest)\<rparr>
     else throw_with PATH_OUTSIDE_ROOT ''Remote path escapes the configured workspace''
       [(''root'', JStr (abs_path rs)), (''path'', JStr input)])"
proof -
  let ?t = "target rs input" let ?abs = "abs_path ?t @ trailing ?t input"
  have "is_path_inside (abs_path rs) ?abs \<longleftrightarrow> (\<exists>rest. ?t = rs @ rest)"
    using target_clean [OF root] by (intro is_path_inside_abs [OF root]) (auto simp: trailing_def)
  also have "\<dots> \<longleftrightarrow> take (length rs) ?t = rs"
    by (metis append_eq_conv_conj append_take_drop_id)
  finally have inside: "is_path_inside (abs_path rs) ?abs \<longleftrightarrow> take (length rs) ?t = rs" .
  have rel: "relative cwd (abs_path rs) ?abs = path_join (drop (length rs) ?t)"
    if "take (length rs) ?t = rs"
  proof (rule relative_below)
    show "is_absolute ?abs" by (simp add: is_absolute_Cons abs_path_def)
    show "segs False ?abs = rs @ drop (length rs) ?t"
      using that segs_target [OF root] by (metis append_take_drop_id)
    show "\<forall>s\<in>set rs. clean_seg s" using root by (simp add: clean_root_def)
    show "\<forall>s\<in>set (drop (length rs) ?t). clean_seg s"
      using target_clean [OF root] by (auto dest: in_set_dropD)
  qed
  have rest: "\<forall>s\<in>set (drop (length rs) ?t). clean_seg s"
    using target_clean [OF root] by (auto dest: in_set_dropD)
  show ?thesis
    using nul inside rel path_join_eq_Nil [OF rest]
    by (simp add: normalize_remote_path_def absolute_of_input [OF root] Let_def)
qed

text \<open>C7. A remote path is confined to the workspace, lexically and exactly. Under a clean
  absolute root, \<open>normalizeRemotePath\<close> accepts an input precisely when walking it segment by
  segment (dot segments dropped, dot-dot popping one level, an absolute input starting over)
  ends at or below the root; the absolute path it then returns consists of the root's segments
  and further clean ones, so no dot-dot can leave the root again, and the relative path
  names exactly those further segments. A sibling that merely shares the root's text is outside.\<close>

theorem normalize_contained:
  assumes "clean_root rs" and "NUL \<notin> set input"
  shows "case normalize_remote_path cwd (abs_path rs) input of
      Inr p \<Rightarrow> \<exists>rest. (\<forall>s\<in>set rest. clean_seg s) \<and> target rs input = rs @ rest \<and>
        (rp_absolute p = abs_path (rs @ rest) \<or> rp_absolute p = abs_path (rs @ rest) @ ''/'') \<and>
        rp_relative p = (if rest = [] then ''.'' else path_join rest)
    | Inl e \<Rightarrow> err_code e = PATH_OUTSIDE_ROOT \<and> (\<nexists>rest. target rs input = rs @ rest)"
proof (cases "take (length rs) (target rs input) = rs")
  case True
  then obtain rest where t: "target rs input = rs @ rest"
    by (metis append_take_drop_id)
  then have "\<forall>s\<in>set rest. clean_seg s"
    using target_clean [OF assms(1), of input] by simp
  with t show ?thesis
    by (simp add: normalize_remote_path_eq [OF assms] trailing_def)
next
  case False
  then have "\<nexists>rest. target rs input = rs @ rest" by auto
  with False show ?thesis by (simp add: normalize_remote_path_eq [OF assms])
qed

lemma segs_example: "clean_root [''home'', ''u'', ''ws'']"
  by (simp add: clean_root_def clean_seg_def)

lemmas path_eval = normalize_remote_path_def is_absolute_def starts_with_def normalize_def Let_def
  segs_def norm_segs_def seg_step_def path_join_def resolve_def is_path_inside_def relative_def
  abs_path_def

theorem normalize_contained_witness:
  "\<exists>p. normalize_remote_path ''/'' (abs_path [''home'', ''u'', ''ws'']) ''src/../lib//a.ts'' = Inr p \<and>
     rp_relative p = ''lib/a.ts''"
  using normalize_contained [OF segs_example, of "''src/../lib//a.ts''" "''/''"]
  by (simp add: path_eval target_def split: sum.splits)

text \<open>Normalising is idempotent and the relative path round-trips: feeding either path of
  an accepted result back, under the same root, is accepted again and returns the same relative
  path, with the same absolute path up to a trailing slash.\<close>

theorem normalize_idempotent:
  assumes root: "clean_root rs" and ok: "normalize_remote_path cwd (abs_path rs) input = Inr p"
  shows "normalize_remote_path cwd (abs_path rs) (rp_absolute p) = Inr p \<and>
    (\<exists>q. normalize_remote_path cwd (abs_path rs) (rp_relative p) = Inr q \<and>
       rp_relative q = rp_relative p \<and>
       (rp_absolute p = rp_absolute q \<or> rp_absolute p = rp_absolute q @ ''/''))"
proof -
  have nul: "NUL \<notin> set input" using ok by (auto simp: normalize_remote_path_def split: if_splits)
  have "take (length rs) (target rs input) = rs"
    using ok by (simp add: normalize_remote_path_eq [OF root nul] split: if_splits)
  then obtain rest where t: "target rs input = rs @ rest" by (metis append_take_drop_id)
  then have rest: "\<forall>s\<in>set rest. clean_seg s" using target_clean [OF root, of input] by simp
  let ?abs = "abs_path (rs @ rest) @ trailing (rs @ rest) input"
  have p: "p = \<lparr>rp_absolute = ?abs, rp_relative = (if rest = [] then ''.'' else path_join rest)\<rparr>"
    using ok by (simp add: normalize_remote_path_eq [OF root nul] t Let_def)
  have nul_abs: "NUL \<notin> set ?abs" and nul_rel: "NUL \<notin> set (rp_relative p)"
  proof -
    have "\<forall>s\<in>set (rs @ rest). NUL \<notin> set s" using target_nul [OF root nul] t by simp
    then show "NUL \<notin> set ?abs" "NUL \<notin> set (rp_relative p)"
      using set_path_join [of NUL "rs @ rest"] set_path_join [of NUL rest]
      by (auto simp: p abs_path_def trailing_def)
  qed
  have abs: "is_absolute ?abs" by (simp add: is_absolute_Cons abs_path_def)
  have "target rs ?abs = rs @ rest"
    using segs_target [OF root, of input] abs unfolding t by (simp add: target_def)
  moreover have "trailing (rs @ rest) ?abs = trailing (rs @ rest) input"
    using rest root last_path_join [of "rs @ rest"] path_join_nonempty [of "rs @ rest"]
    by (auto simp: trailing_def is_absolute_Cons abs_path_def clean_root_def)
  ultimately have first: "normalize_remote_path cwd (abs_path rs) ?abs = Inr p"
    using nul_abs by (simp add: normalize_remote_path_eq [OF root] p)
  have "\<not> is_absolute (rp_relative p)"
    using rest hd_path_join [of rest] by (auto simp: p is_absolute_Cons)
  moreover from this have "target rs (rp_relative p) = rs @ rest"
    using rest split_path_join [of rest] by (auto simp: p target_def foldl_clean seg_step_def)
  ultimately have "normalize_remote_path cwd (abs_path rs) (rp_relative p) =
      Inr (p\<lparr>rp_absolute := abs_path (rs @ rest)\<rparr>)"
    using nul_rel by (simp add: normalize_remote_path_eq [OF root] p trailing_def)
  with first show ?thesis by (auto simp: p trailing_def)
qed

theorem normalize_idempotent_witness:
  "\<exists>q. normalize_remote_path ''/'' (abs_path [''home'', ''u'', ''ws'']) ''lib/a.ts'' = Inr q \<and>
     rp_relative q = ''lib/a.ts''"
proof -
  obtain p where "normalize_remote_path ''/'' (abs_path [''home'', ''u'', ''ws'']) ''src/../lib//a.ts'' = Inr p"
      "rp_relative p = ''lib/a.ts''"
    by (simp add: path_eval)
  with normalize_idempotent [OF segs_example this(1)] show ?thesis by auto
qed

text \<open>A request executes in the workspace root or, when it carries a scope, in the remote
  user's home directory and nowhere else: every other scope, a scope of another type, and a
  home that is the file system root are refused.\<close>

theorem execution_root_closed:
  "remote_execution_root ws scope home = Inr root \<longleftrightarrow>
     scope = None \<and> root = ws \<or> scope = Some (JStr home) \<and> home \<noteq> ''/'' \<and> root = home"
  by (auto simp: remote_execution_root_def split: option.split)

end
