(* ===== verification/Bytes.thy ===== *)
theory Bytes
  imports Prelude "HOL-Library.Word"
begin

text \<open>
  Buffers as lists of bytes, and the standard library's base64 codec
  (\<open>buffer.toString("base64")\<close> and \<open>Buffer.from(text, "base64")\<close> on well-formed text), with
  the round trip the clients rely on.
\<close>

type_synonym byte = "8 word"

definition b64_char :: "nat \<Rightarrow> char" where
  "b64_char n =
     (if n < 26 then char_of (65 + n)
      else if n < 52 then char_of (71 + n)
      else if n < 62 then char_of (n - 4)
      else if n = 62 then CHR ''+'' else CHR ''/'')"

definition b64_val :: "char \<Rightarrow> nat" where
  "b64_val c =
     (if is_upper c then of_char c - 65
      else if is_lower c then of_char c - 71
      else if is_digit c then of_char c + 4
      else if c = CHR ''+'' then 62 else 63)"

definition b64_alphabet :: "char \<Rightarrow> bool" where
  "b64_alphabet c \<longleftrightarrow> is_alnum c \<or> c = CHR ''+'' \<or> c = CHR ''/''"

fun base64 :: "byte list \<Rightarrow> string" where
  "base64 (a # b # c # bs) =
     [b64_char (unat a div 4), b64_char (unat a mod 4 * 16 + unat b div 16),
      b64_char (unat b mod 16 * 4 + unat c div 64), b64_char (unat c mod 64)] @ base64 bs"
| "base64 [a, b] =
     [b64_char (unat a div 4), b64_char (unat a mod 4 * 16 + unat b div 16),
      b64_char (unat b mod 16 * 4), CHR ''='']"
| "base64 [a] =
     [b64_char (unat a div 4), b64_char (unat a mod 4 * 16), CHR ''='', CHR ''='']"
| "base64 [] = []"

text \<open>The regular expression the sources test before decoding.\<close>

fun valid_base64 :: "string \<Rightarrow> bool" where
  "valid_base64 [] = True"
| "valid_base64 (a # b # c # d # s) =
     (b64_alphabet a \<and> b64_alphabet b \<and>
      (b64_alphabet c \<and> b64_alphabet d \<and> valid_base64 s \<or>
       b64_alphabet c \<and> d = CHR ''='' \<and> s = [] \<or>
       c = CHR ''='' \<and> d = CHR ''='' \<and> s = []))"
| "valid_base64 _ = False"

fun unbase64 :: "string \<Rightarrow> byte list" where
  "unbase64 (a # b # c # d # s) =
     (if c = CHR ''='' then [of_nat (b64_val a * 4 + b64_val b div 16)]
      else if d = CHR ''='' then
        [of_nat (b64_val a * 4 + b64_val b div 16),
         of_nat (b64_val b mod 16 * 16 + b64_val c div 4)]
      else
        [of_nat (b64_val a * 4 + b64_val b div 16),
         of_nat (b64_val b mod 16 * 16 + b64_val c div 4),
         of_nat (b64_val c mod 4 * 64 + b64_val d)] @ unbase64 s)"
| "unbase64 _ = []"

lemma b64_roundtrip [simp]:
  assumes "n < 64"
  shows "b64_val (b64_char n) = n" "b64_alphabet (b64_char n)" "b64_char n \<noteq> CHR ''=''"
proof -
  have code: "of_char (char_of m :: char) = m" if "m < 256" for m :: nat
    using that by simp
  have cls: "is_upper c \<longleftrightarrow> 65 \<le> (of_char c :: nat) \<and> of_char c \<le> (90 :: nat)"
    "is_lower c \<longleftrightarrow> 97 \<le> (of_char c :: nat) \<and> of_char c \<le> (122 :: nat)"
    "is_digit c \<longleftrightarrow> 48 \<le> (of_char c :: nat) \<and> of_char c \<le> (57 :: nat)" for c
    by (simp_all add: is_upper_def is_lower_def is_digit_def less_eq_char_def)
  consider "n < 26" | "26 \<le> n" "n < 52" | "52 \<le> n" "n < 62" | "n = 62" | "n = 63"
    using assms by linarith
  then have "b64_val (b64_char n) = n \<and> b64_alphabet (b64_char n) \<and>
      (of_char (b64_char n) :: nat) \<noteq> 61"
    by cases (auto simp: b64_char_def b64_val_def b64_alphabet_def is_alnum_def is_alpha_def cls code)
  then show "b64_val (b64_char n) = n" "b64_alphabet (b64_char n)" "b64_char n \<noteq> CHR ''=''"
    by auto
qed

lemma unat_byte [simp]: "unat (b :: byte) < 256"
  using unsigned_less [of b] by simp

lemma digit_bounds:
  fixes a b :: nat
  assumes "a < 256" and "b < 256"
  shows "a div 4 < 64" "a mod 4 * 16 + b div 16 < 64" "a mod 16 * 4 + b div 64 < 64"
    "a mod 64 < 64" "a mod 4 * 16 < 64" "a mod 16 * 4 < 64"
  using assms by linarith+

lemma small: "b < m * k \<Longrightarrow> b div k < m" for b m k :: nat
  by (simp add: less_mult_imp_div_less)

lemma digits_back:
  fixes a b :: nat
  assumes "a < 256" and "b < 256"
  shows "a div 4 * 4 + (a mod 4 * 16 + b div 16) div 16 = a"
    "a div 4 * 4 + (a mod 4 * 16) div 16 = a"
    "(a mod 4 * 16 + b div 16) mod 16 * 16 + (b mod 16 * 4) div 4 = b"
    "(a mod 16 * 4 + b div 64) mod 4 * 64 + b mod 64 = b"
proof -
  have "(a mod 4 * 16 + b div 16) div 16 = a mod 4" "(a mod 4 * 16 + b div 16) mod 16 = b div 16"
    using assms small [of b 16 16] by simp_all
  then show "a div 4 * 4 + (a mod 4 * 16 + b div 16) div 16 = a"
    "(a mod 4 * 16 + b div 16) mod 16 * 16 + (b mod 16 * 4) div 4 = b"
    by simp_all
  show "a div 4 * 4 + (a mod 4 * 16) div 16 = a" by simp
  have "(a mod 16 * 4 + b div 64) mod 4 = b div 64" using small [of b 4 64] assms by simp
  then show "(a mod 16 * 4 + b div 64) mod 4 * 64 + b mod 64 = b" by simp
qed

lemma digit_mid:
  fixes a b c :: nat
  assumes "b < 256" and "c < 256"
  shows "(a mod 4 * 16 + b div 16) mod 16 * 16 + (b mod 16 * 4 + c div 64) div 4 = b"
proof -
  have "(a mod 4 * 16 + b div 16) mod 16 = b div 16" "(b mod 16 * 4 + c div 64) div 4 = b mod 16"
    using assms small [of b 16 16] small [of c 4 64] by simp_all
  then show ?thesis by simp
qed

lemma unbase64_base64: "unbase64 (base64 bs) = bs \<and> valid_base64 (base64 bs)"
proof (induction bs rule: base64.induct)
  case (1 a b c bs)
  then show ?case
    using digit_bounds [OF unat_byte unat_byte] digits_back [OF unat_byte unat_byte]
      digit_mid [OF unat_byte unat_byte] by simp
next
  case (2 a b)
  then show ?case
    using digit_bounds [OF unat_byte unat_byte] digits_back [OF unat_byte unat_byte] by simp
next
  case (3 a)
  then show ?case
    using digit_bounds [OF unat_byte unat_byte] digits_back [OF unat_byte unat_byte] by simp
qed simp

lemmas base64_roundtrip [simp] = unbase64_base64 [THEN conjunct1]
  and base64_valid [simp] = unbase64_base64 [THEN conjunct2]

end
