(* ===== verification/TaskLog.thy ===== *)
theory TaskLog
  imports Bytes
begin

text \<open>
  \<open>BoundedTaskLog\<close> of \<^verbatim>\<open>src/remote-extension/background-tasks.ts\<close>: the last \<open>limit\<close>
  bytes of a task's two output streams, addressed by absolute cursors. The abstract
  specification is the whole stream of bytes ever appended, each with its channel; the log
  represents its tail.
\<close>

datatype log_channel = Stderr | Stdout

record log_segment =
  sg_channel :: log_channel
  sg_content :: "byte list"
  sg_end :: nat
  sg_start :: nat

record task_log =
  tl_limit :: nat
  tl_segments :: "log_segment list"
  tl_base :: nat
  tl_next :: nat

record log_event =
  ev_channel :: log_channel
  ev_content :: string
  ev_cursor :: nat

record log_page =
  pg_events :: "log_event list"
  pg_more :: bool
  pg_next :: nat
  pg_truncated :: bool

definition max_log_read_bytes :: int where
  "max_log_read_bytes = 256 * 1024"

definition new_log :: "nat \<Rightarrow> task_log" where
  "new_log limit = \<lparr>tl_limit = limit, tl_segments = [], tl_base = 0, tl_next = 0\<rparr>"

definition trim_first :: "nat \<Rightarrow> log_segment list \<Rightarrow> log_segment list" where
  "trim_first m ss =
     (case ss of
        [] \<Rightarrow> []
      | s # ss' \<Rightarrow>
          if sg_start s < m
          then s\<lparr>sg_content := drop (m - sg_start s) (sg_content s), sg_start := m\<rparr> # ss'
          else ss)"

definition prune_log :: "task_log \<Rightarrow> task_log" where
  "prune_log l =
     (let m = tl_next l - tl_limit l in
      l\<lparr>tl_segments := trim_first m (dropWhile (\<lambda>s. sg_end s \<le> m) (tl_segments l)), tl_base := m\<rparr>)"

definition append_log :: "task_log \<Rightarrow> log_channel \<Rightarrow> byte list \<Rightarrow> task_log" where
  "append_log l ch content =
     (if content = [] then l
      else
        let start = tl_next l; next = tl_next l + length content in
        prune_log (l\<lparr>tl_next := next,
          tl_segments := tl_segments l @
            [\<lparr>sg_channel = ch, sg_content = content, sg_end = next, sg_start = start\<rparr>]\<rparr>))"

text \<open>The loop of \<open>read\<close>: the events and the position reached.\<close>

fun read_segments :: "log_segment list \<Rightarrow> nat \<Rightarrow> nat \<Rightarrow> log_event list \<times> nat" where
  "read_segments [] position remaining = ([], position)"
| "read_segments (s # ss) position remaining =
     (if sg_end s \<le> position \<or> remaining = 0 then read_segments ss position remaining
      else
        let offset = position - sg_start s;
            n = min (length (sg_content s) - offset) remaining
        in
          if n = 0 then read_segments ss position remaining
          else
            let (events, p) = read_segments ss (sg_start s + offset + n) (remaining - n) in
            (\<lparr>ev_channel = sg_channel s,
              ev_content = base64 (take n (drop offset (sg_content s))),
              ev_cursor = sg_start s + offset\<rparr> # events, p))"

definition page_size :: "int \<Rightarrow> nat" where
  "page_size limit_bytes = nat (max 1 (min limit_bytes max_log_read_bytes))"

definition read_log :: "task_log \<Rightarrow> int \<Rightarrow> int \<Rightarrow> log_page" where
  "read_log l cursor limit_bytes =
     (let requested = nat cursor;
          (events, position) =
            read_segments (tl_segments l) (max (tl_base l) requested) (page_size limit_bytes)
      in \<lparr>pg_events = events, pg_more = position < tl_next l, pg_next = position,
          pg_truncated = requested < tl_base l\<rparr>)"

section \<open>The byte stream behind a log\<close>

type_synonym stream = "(log_channel \<times> byte) list"

definition tag :: "log_channel \<Rightarrow> byte list \<Rightarrow> stream" where
  "tag ch bs = map (Pair ch) bs"

definition seg_bytes :: "log_segment \<Rightarrow> stream" where
  "seg_bytes s = tag (sg_channel s) (sg_content s)"

definition segs_bytes :: "log_segment list \<Rightarrow> stream" where
  "segs_bytes ss = concat (map seg_bytes ss)"

text \<open>What a client gets by decoding the events of a page.\<close>

definition page_bytes :: "log_event list \<Rightarrow> stream" where
  "page_bytes evs = concat (map (\<lambda>e. tag (ev_channel e) (unbase64 (ev_content e))) evs)"

fun chain :: "nat \<Rightarrow> log_segment list \<Rightarrow> nat \<Rightarrow> bool" where
  "chain b [] n \<longleftrightarrow> b = n"
| "chain b (s # ss) n \<longleftrightarrow>
     sg_start s = b \<and> sg_content s \<noteq> [] \<and> sg_end s = b + length (sg_content s) \<and> chain (sg_end s) ss n"

fun event_chain :: "nat \<Rightarrow> log_event list \<Rightarrow> nat \<Rightarrow> bool" where
  "event_chain b [] n \<longleftrightarrow> b = n"
| "event_chain b (e # es) n \<longleftrightarrow>
     ev_cursor e = b \<and> ev_content e \<noteq> [] \<and> event_chain (b + length (unbase64 (ev_content e))) es n"

definition log_rep :: "stream \<Rightarrow> task_log \<Rightarrow> bool" where
  "log_rep s l \<longleftrightarrow> tl_next l = length s \<and> tl_base l = length s - tl_limit l \<and>
     chain (tl_base l) (tl_segments l) (tl_next l) \<and>
     segs_bytes (tl_segments l) = drop (tl_base l) s"

lemma length_tag [simp]: "length (tag ch bs) = length bs"
  by (simp add: tag_def)

lemma tag_simps [simp]: "tag ch [] = []" "tag ch (drop n bs) = drop n (tag ch bs)"
  "tag ch (take n bs) = take n (tag ch bs)" "tag ch bs = [] \<longleftrightarrow> bs = []"
  by (simp_all add: tag_def drop_map take_map)

lemma segs_bytes_simps [simp]:
  "segs_bytes [] = []" "segs_bytes (s # ss) = seg_bytes s @ segs_bytes ss"
  "segs_bytes (ss @ ss') = segs_bytes ss @ segs_bytes ss'"
  by (simp_all add: segs_bytes_def)

lemma length_seg_bytes [simp]: "length (seg_bytes s) = length (sg_content s)"
  by (simp add: seg_bytes_def)

lemma chain_le: "chain b ss n \<Longrightarrow> b \<le> n"
  by (induction b ss n rule: chain.induct) auto

lemma chain_append:
  "chain b ss m \<Longrightarrow> chain m ss' n \<Longrightarrow> chain b (ss @ ss') n"
  by (induction b ss m rule: chain.induct) auto

lemma chain_length: "chain b ss n \<Longrightarrow> length (segs_bytes ss) = n - b"
proof (induction b ss n rule: chain.induct)
  case (2 b s ss n)
  then have "sg_end s \<le> n" using chain_le by auto
  with 2 show ?case by auto
qed simp

lemma prune_chain:
  assumes "chain b ss n" and "b \<le> m" and "m \<le> n"
  shows "chain m (trim_first m (dropWhile (\<lambda>s. sg_end s \<le> m) ss)) n \<and>
    segs_bytes (trim_first m (dropWhile (\<lambda>s. sg_end s \<le> m) ss)) = drop (m - b) (segs_bytes ss)"
  using assms
proof (induction b ss n rule: chain.induct)
  case (1 b n)
  then show ?case by (simp add: trim_first_def)
next
  case (2 b s ss n)
  show ?case
  proof (cases "sg_end s \<le> m")
    case True
    with 2 show ?thesis by (auto simp: drop_append)
  next
    case False
    with 2 show ?thesis by (auto simp: trim_first_def seg_bytes_def)
  qed
qed

lemma log_rep_new: "log_rep [] (new_log limit)"
  by (simp add: log_rep_def new_log_def)

lemma append_limit [simp]: "tl_limit (append_log l ch bs) = tl_limit l"
  by (simp add: append_log_def prune_log_def Let_def)

text \<open>Appending to the log is appending to the stream.\<close>

lemma log_rep_append:
  assumes rep: "log_rep s l"
  shows "log_rep (s @ tag ch bs) (append_log l ch bs)"
proof (cases "bs = []")
  case True
  with rep show ?thesis by (simp add: append_log_def)
next
  case False
  let ?seg = "\<lparr>sg_channel = ch, sg_content = bs, sg_end = tl_next l + length bs, sg_start = tl_next l\<rparr>"
  let ?n = "tl_next l + length bs" and ?ss = "tl_segments l @ [?seg]"
  let ?m = "?n - tl_limit l"
  have chain: "chain (tl_base l) ?ss ?n"
    using rep False by (intro chain_append [of _ _ "tl_next l"]) (auto simp: log_rep_def)
  have bytes: "segs_bytes ?ss = drop (tl_base l) (s @ tag ch bs)"
    using rep by (simp add: log_rep_def seg_bytes_def)
  have "tl_base l \<le> ?m" "?m \<le> ?n"
    using rep by (auto simp: log_rep_def)
  moreover from this have "tl_base l + (?m - tl_base l) = ?m" by simp
  ultimately show ?thesis
    using prune_chain [OF chain] bytes False rep
    by (simp del: drop_append add: append_log_def prune_log_def Let_def log_rep_def add.commute)
qed

lemma read_none: "read_segments ss p 0 = ([], p)"
  by (induction ss) auto

lemma page_bytes_simps [simp]:
  "page_bytes [] = []"
  "page_bytes (e # es) = tag (ev_channel e) (unbase64 (ev_content e)) @ page_bytes es"
  by (simp_all add: page_bytes_def)

lemma base64_Nil [simp]: "base64 bs = [] \<longleftrightarrow> bs = []"
  by (cases bs rule: base64.cases) auto

lemma read_chain:
  assumes "chain b ss n" and "b \<le> p" and "read_segments ss p k = (evs, p')"
  shows "page_bytes evs = take k (drop (p - b) (segs_bytes ss)) \<and>
    event_chain p evs p' \<and> p' = p + length (page_bytes evs)"
  using assms
proof (induction b ss n arbitrary: p k evs p' rule: chain.induct)
  case (1 b n)
  then show ?case by auto
next
  case (2 b s ss n)
  show ?case
  proof (cases "sg_end s \<le> p \<or> k = 0")
    case True
    then show ?thesis
    proof
      assume le: "sg_end s \<le> p"
      then have eq: "drop (p - b) (segs_bytes (s # ss)) = drop (p - sg_end s) (segs_bytes ss)"
        using 2(2) by (auto simp: drop_append)
      have "chain (sg_end s) ss n" "read_segments ss p k = (evs, p')"
        using 2(2,4) le by auto
      from 2(1) [OF this(1) le this(2)] show ?thesis unfolding eq .
    next
      assume "k = 0"
      with 2 show ?thesis by (auto simp: read_none)
    qed
  next
    case False
    let ?off = "p - b" and ?c = "sg_content s"
    let ?n = "min (length ?c - ?off) k"
    have len: "?off < length ?c" "?n \<noteq> 0" "b + ?off = p" and start: "sg_start s = b"
      using False 2 by auto
    have "sg_start s + ?off = p" "p - sg_start s = ?off" using len start by simp_all
    then have "read_segments (s # ss) p k =
        (let (events, p') = read_segments ss (p + ?n) (k - ?n) in
         (\<lparr>ev_channel = sg_channel s, ev_content = base64 (take ?n (drop ?off ?c)),
           ev_cursor = p\<rparr> # events, p'))"
      using False len(2) by (simp del: min_less_iff_conj add: Let_def)
    with 2(4) obtain evs1 where rest: "read_segments ss (p + ?n) (k - ?n) = (evs1, p')"
      and evs: "evs = \<lparr>ev_channel = sg_channel s, ev_content = base64 (take ?n (drop ?off ?c)),
        ev_cursor = p\<rparr> # evs1"
      by (simp split: prod.splits)
    define m where "m = ?n"
    define q where "q = take m (drop ?off ?c)"
    have q: "length q = m" "q \<noteq> []" "m \<le> k" "m \<le> length ?c - ?off"
      using len by (auto simp: q_def m_def)
    have rest': "read_segments ss (p + m) (k - m) = (evs1, p')"
      and evs': "evs = \<lparr>ev_channel = sg_channel s, ev_content = base64 q, ev_cursor = p\<rparr> # evs1"
      using rest evs by (simp_all add: q_def m_def)
    have here: "tag (sg_channel s) q = take m (drop ?off (seg_bytes s))"
      by (simp add: q_def seg_bytes_def)
    have later: "page_bytes evs1 = take (k - m) (drop (?off + m) (segs_bytes (s # ss))) \<and>
        event_chain (p + m) evs1 p' \<and> p' = p + m + length (page_bytes evs1)"
    proof (cases "k = m")
      case True
      then show ?thesis using rest' by (auto simp: read_none)
    next
      case False
      then have m: "m = length ?c - ?off" by (auto simp: m_def)
      then have e: "sg_end s = p + m" "?off + m = length ?c" using len 2(2) by auto
      have "chain (sg_end s) ss n" using 2(2) by auto
      moreover have "drop (?off + m) (segs_bytes (s # ss)) = drop (p + m - sg_end s) (segs_bytes ss)"
        using e by simp
      ultimately show ?thesis using 2(1) [OF _ _ rest'] e(1) by (metis order_refl)
    qed
    have "drop ?off (segs_bytes (s # ss)) = drop ?off (seg_bytes s) @ segs_bytes ss"
      using len by simp
    then have "take m (drop ?off (segs_bytes (s # ss))) = tag (sg_channel s) q"
      using q here by simp
    then have "take k (drop ?off (segs_bytes (s # ss))) =
        tag (sg_channel s) q @ take (k - m) (drop (?off + m) (segs_bytes (s # ss)))"
      using q(3) take_add [of m "k - m" "drop ?off (segs_bytes (s # ss))"]
      by (simp add: add.commute del: segs_bytes_simps)
    with later have "page_bytes evs = take k (drop ?off (segs_bytes (s # ss)))"
      unfolding evs' by simp
    moreover have "event_chain p evs p'"
      using later [THEN conjunct2, THEN conjunct1] q(1,2) unfolding evs' by simp
    moreover have "p' = p + length (page_bytes evs)"
      using later q(1) unfolding evs' by (metis add.assoc base64_roundtrip length_append length_tag
          log_event.select_convs(1,2) page_bytes_simps(2))
    ultimately show ?thesis by blast
  qed
qed

lemma read_log_rep:
  assumes "log_rep s l"
  shows "let p = read_log l c k; start = max (tl_base l) (nat c) in
    page_bytes (pg_events p) = take (page_size k) (drop start s) \<and>
    event_chain start (pg_events p) (pg_next p) \<and>
    pg_next p = start + length (page_bytes (pg_events p)) \<and>
    (pg_more p \<longleftrightarrow> pg_next p < length s) \<and> (pg_truncated p \<longleftrightarrow> nat c < tl_base l)"
proof -
  let ?start = "max (tl_base l) (nat c)"
  obtain evs p' where read: "read_segments (tl_segments l) ?start (page_size k) = (evs, p')"
    by fastforce
  have rep: "chain (tl_base l) (tl_segments l) (tl_next l)" "tl_next l = length s"
    "segs_bytes (tl_segments l) = drop (tl_base l) s"
    using assms unfolding log_rep_def by blast+
  have "drop (?start - tl_base l) (drop (tl_base l) s) = drop ?start s" by simp
  with read_chain [OF rep(1) _ read] rep(3)
  have "page_bytes evs = take (page_size k) (drop ?start s) \<and> event_chain ?start evs p' \<and>
      p' = ?start + length (page_bytes evs)"
    by (metis max.cobounded1)
  moreover have "read_log l c k = \<lparr>pg_events = evs, pg_more = p' < length s, pg_next = p',
      pg_truncated = nat c < tl_base l\<rparr>"
    by (simp add: read_log_def read rep(2))
  ultimately show ?thesis unfolding Let_def by (metis log_page.select_convs)
qed

section \<open>Properties\<close>

fun append_all :: "task_log \<Rightarrow> (log_channel \<times> byte list) list \<Rightarrow> task_log" where
  "append_all l [] = l"
| "append_all l ((ch, bs) # cs) = append_all (append_log l ch bs) cs"

definition chunks_bytes :: "(log_channel \<times> byte list) list \<Rightarrow> stream" where
  "chunks_bytes cs = concat (map (\<lambda>(ch, bs). tag ch bs) cs)"

lemma append_all_rep: "log_rep s l \<Longrightarrow> log_rep (s @ chunks_bytes cs) (append_all l cs)"
proof (induction cs arbitrary: s l)
  case (Cons c cs)
  obtain ch bs where c: "c = (ch, bs)" by (cases c)
  from Cons.IH [OF log_rep_append [OF Cons.prems, of ch bs]] show ?case
    by (simp add: c chunks_bytes_def)
qed (simp add: chunks_bytes_def)

lemma append_all_limit [simp]: "tl_limit (append_all l cs) = tl_limit l"
  by (induction l cs rule: append_all.induct) auto

lemma append_all_new: "log_rep (chunks_bytes cs) (append_all (new_log limit) cs)"
  using append_all_rep [OF log_rep_new] by simp

text \<open>The log is the bounded tail of the byte stream. Whatever chunks the two channels
  append and however they are split, a page read at a cursor decodes to the stream's bytes from
  that cursor, or from the oldest retained byte when the cursor is older, up to the page size;
  its events are consecutive from that position, \<open>nextCursor\<close> is the position behind them,
  \<open>hasMore\<close> says whether the stream goes on and \<open>truncated\<close> whether bytes at the cursor are
  gone, which are all but the last \<open>limit\<close> bytes.\<close>

theorem log_reads_stream:
  "let s = chunks_bytes cs; p = read_log (append_all (new_log limit) cs) cursor lim;
       oldest = length s - limit; start = max oldest (nat cursor) in
   page_bytes (pg_events p) = take (page_size lim) (drop start s) \<and>
   event_chain start (pg_events p) (pg_next p) \<and>
   pg_next p = start + length (page_bytes (pg_events p)) \<and>
   (pg_more p \<longleftrightarrow> pg_next p < length s) \<and> (pg_truncated p \<longleftrightarrow> nat cursor < oldest)"
proof -
  have "tl_base (append_all (new_log limit) cs) = length (chunks_bytes cs) - limit"
    using append_all_new [of cs limit] by (auto simp: log_rep_def new_log_def)
  then show ?thesis
    using read_log_rep [OF append_all_new [of cs limit], of cursor lim] unfolding Let_def by metis
qed

text \<open>A client that carries \<open>nextCursor\<close> from page to page while the task goes on writing:
  the bytes it collected, whether a page was truncated, and its cursor.\<close>

fun follow ::
  "task_log \<Rightarrow> nat \<Rightarrow> ((log_channel \<times> byte list) list \<times> int) list \<Rightarrow> stream \<times> bool \<times> nat" where
  "follow l c [] = ([], False, c)"
| "follow l c ((chunks, lim) # rounds) =
     (let l' = append_all l chunks; p = read_log l' (int c) lim;
          (bs, tr, c') = follow l' (pg_next p) rounds
      in (page_bytes (pg_events p) @ bs, pg_truncated p \<or> tr, c'))"

lemma take_length_take: "take (length (take n xs)) xs = take n xs"
  by (simp add: min_def)

lemma follow_rep:
  assumes "log_rep s l" and "c \<le> length s" and "follow l c rounds = (bs, tr, c')" and "\<not> tr"
  shows "c' = c + length bs \<and>
    c' \<le> length (s @ chunks_bytes (concat (map fst rounds))) \<and>
    bs = take (length bs) (drop c (s @ chunks_bytes (concat (map fst rounds))))"
  using assms
proof (induction l c rounds arbitrary: s bs tr c' rule: follow.induct)
  case (1 l c)
  then show ?case by simp
next
  case (2 l c chunks lim rounds)
  let ?l = "append_all l chunks" and ?s = "s @ chunks_bytes chunks"
  let ?p = "read_log ?l (int c) lim"
  let ?all = "?s @ chunks_bytes (concat (map fst rounds))"
  obtain bs1 tr1 where rest: "follow ?l (pg_next ?p) rounds = (bs1, tr1, c')"
    and bs: "bs = page_bytes (pg_events ?p) @ bs1" and nt: "\<not> pg_truncated ?p" "\<not> tr1"
    using 2(4,5) by (auto simp: Let_def split: prod.splits)
  have rep: "log_rep ?s ?l" using 2(2) by (rule append_all_rep)
  let ?q = "page_bytes (pg_events ?p)"
  have start: "max (tl_base ?l) (nat (int c)) = c"
    using read_log_rep [OF rep, of "int c" lim] nt(1) unfolding Let_def by linarith
  have page: "?q = take (page_size lim) (drop c ?s)" and nxt: "pg_next ?p = c + length ?q"
    using read_log_rep [OF rep, of "int c" lim] unfolding Let_def start by blast+
  have "length ?q \<le> length ?s - c" unfolding page by (simp only: length_take length_drop)
  then have le: "pg_next ?p \<le> length ?s" using 2(3) nxt by simp
  have split: "chunks_bytes (concat (map fst ((chunks, lim) # rounds))) =
      chunks_bytes chunks @ chunks_bytes (concat (map fst rounds))"
    by (simp add: chunks_bytes_def)
  from 2(1) [OF refl refl rep le rest nt(2)]
  have IH: "c' = pg_next ?p + length bs1" "c' \<le> length ?all"
    "bs1 = take (length bs1) (drop (pg_next ?p) ?all)" by blast+
  have "take (length ?q) (drop c ?s) = ?q"
    unfolding page by (rule take_length_take)
  moreover have "take (length ?q) (drop c ?all) = take (length ?q) (drop c ?s)"
    using le nxt by simp
  ultimately have "?q = take (length ?q) (drop c ?all)" by metis
  moreover have "drop (pg_next ?p) ?all = drop (length ?q) (drop c ?all)"
    by (simp only: nxt drop_drop add.commute)
  ultimately have "take (length ?q + length bs1) (drop c ?all) = ?q @ bs1"
    using IH(3) by (simp only: take_add)
  then have "bs = take (length bs) (drop c ?all)"
    by (simp only: bs length_append)
  moreover have "c' = c + length bs" using IH(1) nxt bs by simp
  moreover have "s @ chunks_bytes (concat (map fst ((chunks, lim) # rounds))) = ?all"
    unfolding split by (rule append_assoc [symmetric])
  ultimately show ?case using IH(2) by metis
qed

text \<open>C19. A follower loses and repeats nothing. A client that keeps reading from the cursor of
  the previous page, while the task writes arbitrary chunks in between and with any page
  limits, has, unless some page was marked truncated, collected exactly the bytes of the stream
  between its first and its last cursor.\<close>

theorem log_follower_exact:
  assumes "c \<le> length (chunks_bytes cs)"
    and "follow (append_all (new_log limit) cs) c rounds = (bs, False, c')"
  shows "c' = c + length bs \<and>
    bs = take (c' - c) (drop c (chunks_bytes (cs @ concat (map fst rounds))))"
  using follow_rep [OF append_all_new assms] by (auto simp: chunks_bytes_def)

theorem log_follower_exact_witness:
  "\<exists>bs c'. follow (append_all (new_log 4) [(Stdout, [1, 2, 3])]) 1 [([(Stderr, [4])], 2), ([], 9)] =
      (bs, False, c') \<and> c' = 1 + length bs"
proof -
  have f: "follow (append_all (new_log 4) [(Stdout, [1, 2, 3])]) 1 [([(Stderr, [4])], 2), ([], 9)] =
      ([(Stdout, 2), (Stdout, 3), (Stderr, 4)], False, 4)"
    by code_simp
  from log_follower_exact [OF _ f] show ?thesis using f by (simp add: chunks_bytes_def)
qed

text \<open>Reading page after page until nothing is left, with a bound on the number of pages.\<close>

fun drain :: "nat \<Rightarrow> task_log \<Rightarrow> nat \<Rightarrow> int \<Rightarrow> stream option" where
  "drain 0 l c lim = None"
| "drain (Suc fuel) l c lim =
     (let p = read_log l (int c) lim in
      if pg_more p then map_option (\<lambda>bs. page_bytes (pg_events p) @ bs) (drain fuel l (pg_next p) lim)
      else Some (page_bytes (pg_events p)))"

lemma page_size_pos: "0 < page_size k"
  by (simp add: page_size_def max_log_read_bytes_def)

lemma drain_rep:
  assumes "log_rep s l" and "tl_base l \<le> c" and "length s - c < fuel"
  shows "drain fuel l c lim = Some (drop c s)"
  using assms
proof (induction fuel l c lim rule: drain.induct)
  case (2 fuel l c lim)
  let ?p = "read_log l (int c) lim" let ?q = "page_bytes (pg_events ?p)"
  have start: "max (tl_base l) (nat (int c)) = c" using 2(3) by simp
  have page: "?q = take (page_size lim) (drop c s)" and nxt: "pg_next ?p = c + length ?q"
    and more: "pg_more ?p \<longleftrightarrow> pg_next ?p < length s"
    using read_log_rep [OF 2(2), of "int c" lim] unfolding Let_def start by blast+
  have len: "length ?q = min (length s - c) (page_size lim)" unfolding page by simp
  show ?case
  proof (cases "pg_more ?p")
    case True
    have "length s - pg_next ?p < fuel"
      using True more nxt len page_size_pos [of lim] 2(4) by simp
    moreover have "tl_base l \<le> pg_next ?p" using 2(3) nxt by simp
    ultimately have "drain fuel l (pg_next ?p) lim = Some (drop (pg_next ?p) s)"
      using 2(1) [OF refl True 2(2)] by simp
    moreover have "?q = take (length ?q) (drop c s)"
      unfolding page by (rule take_length_take [symmetric])
    then have "?q @ drop (pg_next ?p) s = drop c s"
      by (metis append_take_drop_id nxt add.commute drop_drop)
    ultimately show ?thesis using True by (simp add: Let_def)
  next
    case False
    then have "length (drop c s) \<le> page_size lim" using more nxt len by simp
    then have "?q = drop c s" unfolding page by simp
    then show ?thesis using False by (simp add: Let_def)
  qed
qed simp

text \<open>Reading to the end terminates and misses nothing: from any retained cursor and for
  every page limit, even zero or negative, as many pages as there are bytes left, plus one, suffice
  to reach a page without \<open>hasMore\<close>, and the pages together are all bytes from the cursor on.\<close>

theorem log_drains:
  assumes "length (chunks_bytes cs) - limit \<le> c"
  shows "drain (Suc (length (chunks_bytes cs) - c)) (append_all (new_log limit) cs) c lim =
    Some (drop c (chunks_bytes cs))"
  using assms append_all_new [of cs limit]
  by (intro drain_rep) (auto simp: log_rep_def new_log_def)

theorem log_drains_witness:
  "drain 4 (append_all (new_log 3) [(Stdout, [1, 2, 3]), (Stderr, [4])]) 1 0 =
     Some [(Stdout, 2), (Stdout, 3), (Stderr, 4)]"
  using log_drains [of "[(Stdout, [1, 2, 3]), (Stderr, [4])]" 3 1 0]
  by (simp add: chunks_bytes_def tag_def numeral_eq_Suc)

end
