(* ===== verification/BackgroundTasks.thy ===== *)
theory BackgroundTasks
  imports PathPolicy TaskLog
begin

text \<open>
  \<open>RemoteBackgroundTasks\<close> of \<^verbatim>\<open>src/remote-extension/background-tasks.ts\<close>. Task objects are
  shared between the map and the callbacks of their child process, so they live in a store and
  the map holds addresses. \<open>start\<close> is split at its first \<open>await\<close>: \<open>begin_start\<close> runs up to the
  \<open>realpath\<close> calls, \<open>commit_start\<close> from their results on; other calls may come between. The
  clock, the digest, the locale comparison and the file system are arguments. A signal
  sent to the process tree is appended to the task's \<open>bt_signals\<close>; an armed timer is a flag.
\<close>

datatype task_status = TRunning | TCompleted | TFailed | TCancelled | TTimedOut

datatype start_outcome = TaskExecuted | TaskJoined | TaskReplayed

record task_request =
  rq_argv :: "string list"
  rq_cwd :: "string option"
  rq_env :: "jobj option"
  rq_id :: string
  rq_timeout :: "int option"
  rq_root :: string

record task =
  bt_cwd :: string
  bt_cancel :: bool
  bt_completed :: "int option"
  bt_exit :: "int option"
  bt_fp :: string
  bt_log :: task_log
  bt_signal :: "string option"
  bt_started :: int
  bt_status :: task_status
  bt_id :: string
  bt_timed_out :: bool
  bt_root :: string
  bt_timer :: "int option"
  bt_force :: bool
  bt_signals :: "string list"

record tasks =
  tk_heap :: "nat \<Rightarrow> task option"
  tk_next :: nat
  tk_map :: "(string, nat) jsmap"
  tk_max :: nat
  tk_retention :: int
  tk_log_bytes :: nat

definition new_tasks :: "nat \<Rightarrow> nat \<Rightarrow> int \<Rightarrow> tasks" where
  "new_tasks max_log max_tasks retention =
     \<lparr>tk_heap = (\<lambda>_. None), tk_next = 0, tk_map = [], tk_max = max_tasks,
      tk_retention = retention, tk_log_bytes = max_log\<rparr>"

section \<open>Fingerprints and validation\<close>

fun insert_entry :: "(string \<Rightarrow> string \<Rightarrow> bool) \<Rightarrow> string \<times> json \<Rightarrow> jobj \<Rightarrow> jobj" where
  "insert_entry le e [] = [e]"
| "insert_entry le e (x # xs) = (if le (fst e) (fst x) then e # x # xs else x # insert_entry le e xs)"

fun canonical_value :: "(string \<Rightarrow> string \<Rightarrow> bool) \<Rightarrow> json \<Rightarrow> json" where
  "canonical_value le (JArr xs) = JArr (map (canonical_value le) xs)"
| "canonical_value le (JObj ob) =
     JObj (foldr (insert_entry le) (map (\<lambda>(k, v). (k, canonical_value le v)) ob) [])"
| "canonical_value le v = v"

definition request_fingerprint ::
  "(json \<Rightarrow> string) \<Rightarrow> (string \<Rightarrow> string \<Rightarrow> bool) \<Rightarrow> task_request \<Rightarrow> string" where
  "request_fingerprint digest le rq =
     digest (canonical_value le (JObj
       [(''argv'', JArr (map JStr (rq_argv rq))),
        (''cwd'', case rq_cwd rq of None \<Rightarrow> JNull | Some s \<Rightarrow> JStr s),
        (''env'', case rq_env rq of None \<Rightarrow> JNull | Some ob \<Rightarrow> JObj ob),
        (''timeoutMs'', case rq_timeout rq of None \<Rightarrow> JNull | Some i \<Rightarrow> JInt i),
        (''workspaceRoot'', JStr (rq_root rq))]))"

definition id_char :: "char \<Rightarrow> bool" where
  "id_char c \<longleftrightarrow> is_alnum c \<or> c = CHR ''.'' \<or> c = CHR ''_'' \<or> c = CHR ''-''"

definition valid_task_id :: "string \<Rightarrow> bool" where
  "valid_task_id s \<longleftrightarrow> s \<noteq> [] \<and> is_alnum (hd s) \<and> list_all id_char (tl s) \<and> length s \<le> 64"

definition validate_task_id :: "string \<Rightarrow> bridge_error + unit" where
  "validate_task_id s =
     ensure (valid_task_id s) (BridgeError PROTOCOL_MISMATCH
       ''Background taskId must contain 1 to 64 safe characters'' None)"

definition validate_argv :: "string list \<Rightarrow> bridge_error + unit" where
  "validate_argv argv =
     ensure (1 \<le> length argv \<and> length argv \<le> 256 \<and> list_all (\<lambda>a. NUL \<notin> set a) argv)
       (BridgeError PROTOCOL_MISMATCH ''Background argv must contain 1 to 256 NUL-free strings'' None)"

definition task_key :: "string \<Rightarrow> string \<Rightarrow> string" where
  "task_key root tid = root @ [NUL] @ tid"

section \<open>Operations\<close>

record task_summary =
  sm_id :: string
  sm_status :: "task_status option"
  sm_cwd :: "string option"
  sm_started :: "int option"
  sm_completed :: "int option"
  sm_exit :: "int option"
  sm_signal :: "string option"
  sm_cancel :: bool
  sm_base :: nat
  sm_cursor :: nat

definition summary :: "task \<Rightarrow> task_summary" where
  "summary t = \<lparr>sm_id = bt_id t, sm_status = Some (bt_status t), sm_cwd = Some (bt_cwd t),
     sm_started = Some (bt_started t), sm_completed = bt_completed t, sm_exit = bt_exit t,
     sm_signal = bt_signal t, sm_cancel = bt_cancel t, sm_base = tl_base (bt_log t),
     sm_cursor = tl_next (bt_log t)\<rparr>"

definition unknown_summary :: "string \<Rightarrow> task_summary" where
  "unknown_summary tid = \<lparr>sm_id = tid, sm_status = None, sm_cwd = None, sm_started = None,
     sm_completed = None, sm_exit = None, sm_signal = None, sm_cancel = False, sm_base = 0,
     sm_cursor = 0\<rparr>"

definition upd_task :: "nat \<Rightarrow> (task \<Rightarrow> task) \<Rightarrow> tasks \<Rightarrow> tasks" where
  "upd_task r f st = st\<lparr>tk_heap := (tk_heap st)(r := map_option f (tk_heap st r))\<rparr>"

definition prunable :: "int \<Rightarrow> tasks \<Rightarrow> nat \<Rightarrow> bool" where
  "prunable now st r =
     (case tk_heap st r of None \<Rightarrow> False
      | Some t \<Rightarrow> bt_status t \<noteq> TRunning \<and>
          (case bt_completed t of None \<Rightarrow> False | Some c \<Rightarrow> c \<le> now - tk_retention st))"

definition prune_tasks :: "int \<Rightarrow> tasks \<Rightarrow> tasks" where
  "prune_tasks now st =
     foldl (\<lambda>st' (k, r). if prunable now st r then st'\<lparr>tk_map := jm_del (tk_map st') k\<rparr> else st')
       st (tk_map st)"

definition settled_age :: "tasks \<Rightarrow> nat \<Rightarrow> int" where
  "settled_age st r =
     (case tk_heap st r of None \<Rightarrow> 0
      | Some t \<Rightarrow> (case bt_completed t of Some c \<Rightarrow> c | None \<Rightarrow> bt_started t))"

definition task_settled :: "tasks \<Rightarrow> nat \<Rightarrow> bool" where
  "task_settled st r = (case tk_heap st r of None \<Rightarrow> False | Some t \<Rightarrow> bt_status t \<noteq> TRunning)"

fun evict :: "tasks \<Rightarrow> nat list \<Rightarrow> tasks" where
  "evict st [] = st"
| "evict st (r # rs) =
     (if length (tk_map st) < tk_max st then st
      else evict (case tk_heap st r of None \<Rightarrow> st
        | Some t \<Rightarrow> st\<lparr>tk_map := jm_del (tk_map st) (task_key (bt_root t) (bt_id t))\<rparr>) rs)"

definition make_task_capacity :: "tasks \<Rightarrow> tasks \<times> (bridge_error + unit)" where
  "make_task_capacity st =
     (if length (tk_map st) < tk_max st then (st, Inr ())
      else
        let settled = sort_key (settled_age st) (filter (task_settled st) (map snd (tk_map st)));
            st' = evict st settled
        in if length (tk_map st') \<ge> tk_max st' then
             (st', throw_with COMMAND_DENIED ''Background task capacity is full''
                [(''maxTasks'', JInt (int (tk_max st)))])
           else (st', Inr ()))"

record pending_start =
  pn_request :: task_request
  pn_fp :: string
  pn_key :: string
  pn_lexical :: string

datatype start_step =
    Refused bridge_error
  | Answered start_outcome task_summary
  | Awaits pending_start

definition begin_start ::
  "(json \<Rightarrow> string) \<Rightarrow> (string \<Rightarrow> string \<Rightarrow> bool) \<Rightarrow> string \<Rightarrow> int \<Rightarrow> task_request \<Rightarrow> tasks \<Rightarrow>
   tasks \<times> start_step" where
  "begin_start digest le cwd now rq st0 =
     (let st = prune_tasks now st0 in
      case validate_task_id (rq_id rq) of Inl e \<Rightarrow> (st, Refused e) | Inr _ \<Rightarrow>
      case validate_argv (rq_argv rq) of Inl e \<Rightarrow> (st, Refused e) | Inr _ \<Rightarrow>
      let fp = request_fingerprint digest le rq; key = task_key (rq_root rq) (rq_id rq) in
      case Option.bind (jm_get (tk_map st) key) (tk_heap st) of
        Some t \<Rightarrow>
          if bt_fp t \<noteq> fp then
            (st, Refused (BridgeError PROTOCOL_MISMATCH
               ''Background taskId was reused with different parameters'' None))
          else (st, Answered (if bt_status t = TRunning then TaskJoined else TaskReplayed) (summary t))
      | None \<Rightarrow>
          (case make_task_capacity st of
             (st', Inl e) \<Rightarrow> (st', Refused e)
           | (st', Inr _) \<Rightarrow>
               (case normalize_remote_path cwd (rq_root rq)
                       (case rq_cwd rq of None \<Rightarrow> rq_root rq | Some c \<Rightarrow> c) of
                  Inl e \<Rightarrow> (st', Refused e)
                | Inr p \<Rightarrow> (st', Awaits \<lparr>pn_request = rq, pn_fp = fp, pn_key = key,
                                        pn_lexical = rp_absolute p\<rparr>))))"

definition timeout_of :: "task_request \<Rightarrow> int" where
  "timeout_of rq =
     max 1000 (min (case rq_timeout rq of Some t \<Rightarrow> t | None \<Rightarrow> 60 * 60000) (24 * 60 * 60000))"

definition fresh_task :: "nat \<Rightarrow> int \<Rightarrow> string \<Rightarrow> pending_start \<Rightarrow> task" where
  "fresh_task log_bytes now actual p =
     \<lparr>bt_cwd = actual, bt_cancel = False, bt_completed = None, bt_exit = None, bt_fp = pn_fp p,
      bt_log = new_log log_bytes, bt_signal = None, bt_started = now, bt_status = TRunning,
      bt_id = rq_id (pn_request p), bt_timed_out = False, bt_root = rq_root (pn_request p),
      bt_timer = Some (timeout_of (pn_request p)), bt_force = False, bt_signals = []\<rparr>"

text \<open>From the results of the two \<open>realpath\<close> calls on, \<open>None\<close> when one rejects; the child is
  spawned and the task registered.\<close>

definition commit_start ::
  "int \<Rightarrow> (string \<times> string) option \<Rightarrow> pending_start \<Rightarrow> tasks \<Rightarrow> tasks \<times> (bridge_error + nat)" where
  "commit_start now paths p st =
     (case paths of
        None \<Rightarrow> (st, throw_with PATH_OUTSIDE_ROOT ''Background task working directory does not exist''
          [(''cwd'', JStr (pn_lexical p))])
      | Some (canonical_root, actual) \<Rightarrow>
          if \<not> is_path_inside canonical_root actual then
            (st, throw_with PATH_OUTSIDE_ROOT
               ''Resolved background task directory escapes the workspace''
               [(''cwd'', JStr (pn_lexical p))])
          else
            let r = tk_next st in
            (st\<lparr>tk_heap := (tk_heap st)(r \<mapsto> fresh_task (tk_log_bytes st) now actual p),
                tk_next := Suc r, tk_map := jm_set (tk_map st) (pn_key p) r\<rparr>, Inr r))"

definition finish_task :: "int \<Rightarrow> int option \<Rightarrow> string option \<Rightarrow> task \<Rightarrow> task" where
  "finish_task now code sig t =
     (if bt_status t \<noteq> TRunning then t
      else t\<lparr>bt_timer := None, bt_force := False, bt_completed := Some now, bt_exit := code,
             bt_signal := sig,
             bt_status := (if bt_timed_out t then TTimedOut
                           else if bt_cancel t then TCancelled
                           else if code = Some 0 then TCompleted else TFailed)\<rparr>)"

definition terminate :: "bool \<Rightarrow> task \<Rightarrow> task" where
  "terminate immediate t =
     (let t1 = t\<lparr>bt_timer := None, bt_signals := bt_signals t @ [''SIGTERM'']\<rparr> in
      if immediate then t1\<lparr>bt_force := False, bt_signals := bt_signals t1 @ [''SIGKILL'']\<rparr>
      else t1\<lparr>bt_force := True\<rparr>)"

text \<open>The child's and the timers' callbacks.\<close>

definition on_data :: "nat \<Rightarrow> log_channel \<Rightarrow> byte list \<Rightarrow> tasks \<Rightarrow> tasks" where
  "on_data r ch bs = upd_task r (\<lambda>t. t\<lparr>bt_log := append_log (bt_log t) ch bs\<rparr>)"

definition on_close :: "int \<Rightarrow> nat \<Rightarrow> int option \<Rightarrow> string option \<Rightarrow> tasks \<Rightarrow> tasks" where
  "on_close now r code sig = upd_task r (finish_task now code sig)"

definition on_spawn_error :: "int \<Rightarrow> nat \<Rightarrow> string \<Rightarrow> tasks \<Rightarrow> tasks" where
  "on_spawn_error now r key st =
     (let st' = upd_task r (finish_task now None None) st
      in st'\<lparr>tk_map := jm_del (tk_map st') key\<rparr>)"

definition on_timeout :: "nat \<Rightarrow> tasks \<Rightarrow> tasks" where
  "on_timeout r = upd_task r (\<lambda>t.
     if bt_timer t = None \<or> bt_status t \<noteq> TRunning then t
     else terminate False (t\<lparr>bt_timed_out := True\<rparr>))"

definition on_force :: "nat \<Rightarrow> tasks \<Rightarrow> tasks" where
  "on_force r = upd_task r (\<lambda>t.
     if bt_force t \<and> bt_status t = TRunning then t\<lparr>bt_signals := bt_signals t @ [''SIGKILL'']\<rparr> else t)"

definition find_task :: "tasks \<Rightarrow> string \<Rightarrow> string \<Rightarrow> (nat \<times> task) option" where
  "find_task st root tid =
     (case jm_get (tk_map st) (task_key root tid) of
        None \<Rightarrow> None
      | Some r \<Rightarrow> map_option (Pair r) (tk_heap st r))"

definition status_of :: "int \<Rightarrow> string \<Rightarrow> string \<Rightarrow> tasks \<Rightarrow> tasks \<times> (bridge_error + task_summary)" where
  "status_of now root tid st0 =
     (let st = prune_tasks now st0 in
      case validate_task_id tid of Inl e \<Rightarrow> (st, Inl e)
      | Inr _ \<Rightarrow> (st, Inr (case find_task st root tid of
          Some (_, t) \<Rightarrow> summary t | None \<Rightarrow> unknown_summary tid)))"

definition empty_page :: log_page where
  "empty_page = \<lparr>pg_events = [], pg_more = False, pg_next = 0, pg_truncated = False\<rparr>"

definition log_of ::
  "int \<Rightarrow> string \<Rightarrow> string \<Rightarrow> int \<Rightarrow> int \<Rightarrow> tasks \<Rightarrow> tasks \<times> (bridge_error + task_summary \<times> log_page)" where
  "log_of now root tid cursor lim st0 =
     (let st = prune_tasks now st0 in
      case validate_task_id tid of Inl e \<Rightarrow> (st, Inl e)
      | Inr _ \<Rightarrow>
          (case find_task st root tid of
             None \<Rightarrow> (let (st', res) = status_of now root tid st
               in (st', map_sum id (\<lambda>s. (s, empty_page)) res))
           | Some (_, t) \<Rightarrow> (st, Inr (summary t, read_log (bt_log t) cursor lim))))"

text \<open>\<open>cancel\<close> up to its wait; the summary it returns afterwards is read then.\<close>

definition cancel_begin :: "int \<Rightarrow> string \<Rightarrow> string \<Rightarrow> tasks \<Rightarrow> tasks \<times> (bridge_error + bool)" where
  "cancel_begin now root tid st0 =
     (let st = prune_tasks now st0 in
      case validate_task_id tid of Inl e \<Rightarrow> (st, Inl e)
      | Inr _ \<Rightarrow>
          (case find_task st root tid of
             None \<Rightarrow> (st, Inr False)
           | Some (r, t) \<Rightarrow>
               if bt_status t \<noteq> TRunning then (st, Inr False)
               else (upd_task r (\<lambda>t. terminate False (t\<lparr>bt_cancel := True\<rparr>)) st, Inr True)))"

definition kill_running :: "tasks \<Rightarrow> nat \<Rightarrow> tasks" where
  "kill_running st r = upd_task r (\<lambda>t.
     if bt_status t = TRunning then terminate True (t\<lparr>bt_cancel := True\<rparr>) else t) st"

definition in_workspace :: "string \<Rightarrow> tasks \<Rightarrow> nat \<Rightarrow> bool" where
  "in_workspace root st r = (case tk_heap st r of None \<Rightarrow> False | Some t \<Rightarrow> bt_root t = root)"

definition stop_begin :: "string \<Rightarrow> tasks \<Rightarrow> tasks \<times> (string \<times> nat) list" where
  "stop_begin root st =
     (let ms = filter (\<lambda>p. in_workspace root st (snd p)) (tk_map st)
      in (foldl kill_running st (map snd ms), ms))"

definition stop_end :: "(string \<times> nat) list \<Rightarrow> tasks \<Rightarrow> tasks \<times> nat" where
  "stop_end ms st =
     (foldl (\<lambda>st (k, r). if jm_get (tk_map st) k = Some r then st\<lparr>tk_map := jm_del (tk_map st) k\<rparr> else st)
        st ms, length ms)"

definition close_tasks :: "tasks \<Rightarrow> tasks" where
  "close_tasks st = foldl kill_running st (map snd (tk_map st))"

section \<open>Invariant\<close>

definition classify :: "task \<Rightarrow> task_status" where
  "classify t =
     (if bt_timed_out t then TTimedOut else if bt_cancel t then TCancelled
      else if bt_exit t = Some 0 then TCompleted else TFailed)"

definition key_of :: "task \<Rightarrow> string" where
  "key_of t = task_key (bt_root t) (bt_id t)"

definition task_ok :: "task \<Rightarrow> bool" where
  "task_ok t \<longleftrightarrow>
     (if bt_status t = TRunning then bt_completed t = None
      else bt_completed t \<noteq> None \<and> bt_status t = classify t \<and> bt_timer t = None \<and> \<not> bt_force t)"

definition tasks_inv :: "tasks \<Rightarrow> bool" where
  "tasks_inv st \<longleftrightarrow> jm_ok (tk_map st) \<and>
     (\<forall>k r. jm_get (tk_map st) k = Some r \<longrightarrow> (\<exists>t. tk_heap st r = Some t \<and> k = key_of t)) \<and>
     (\<forall>r t. tk_heap st r = Some t \<longrightarrow> r < tk_next st \<and> task_ok t)"

lemma tasks_inv_get:
  "tasks_inv st \<Longrightarrow> jm_get (tk_map st) k = Some r \<Longrightarrow> \<exists>t. tk_heap st r = Some t \<and> k = key_of t"
  by (simp add: tasks_inv_def)

lemma tasks_inv_heap: "tasks_inv st \<Longrightarrow> tk_heap st r = Some t \<Longrightarrow> r < tk_next st \<and> task_ok t"
  by (simp add: tasks_inv_def)

lemma tasks_inv_ok: "tasks_inv st \<Longrightarrow> jm_ok (tk_map st)"
  by (simp add: tasks_inv_def)

lemma tasks_inv_del:
  "tasks_inv st \<Longrightarrow> tasks_inv (st\<lparr>tk_map := jm_del (tk_map st) k\<rparr>)"
  by (simp add: tasks_inv_def jm.ok_del)

lemma upd_task_simps [simp]:
  "tk_heap (upd_task r f st) r' = (if r' = r then map_option f (tk_heap st r) else tk_heap st r')"
  "tk_next (upd_task r f st) = tk_next st" "tk_map (upd_task r f st) = tk_map st"
  "tk_max (upd_task r f st) = tk_max st" "tk_retention (upd_task r f st) = tk_retention st"
  "tk_log_bytes (upd_task r f st) = tk_log_bytes st"
  by (simp_all add: upd_task_def)

lemma upd_task_inv:
  assumes inv: "tasks_inv st"
    and f: "\<And>t. task_ok t \<Longrightarrow> key_of (f t) = key_of t \<and> task_ok (f t)"
  shows "tasks_inv (upd_task r f st)"
  unfolding tasks_inv_def
proof (intro conjI allI impI)
  show "jm_ok (tk_map (upd_task r f st))" using inv by (simp add: tasks_inv_def)
next
  fix k r' assume "jm_get (tk_map (upd_task r f st)) k = Some r'"
  then obtain t where "tk_heap st r' = Some t" "k = key_of t"
    using tasks_inv_get [OF inv] by fastforce
  then show "\<exists>t. tk_heap (upd_task r f st) r' = Some t \<and> k = key_of t"
    using f tasks_inv_heap [OF inv] by auto
next
  fix r' t assume "tk_heap (upd_task r f st) r' = Some t"
  then show "r' < tk_next (upd_task r f st)" "task_ok t"
    using f tasks_inv_heap [OF inv] by (auto split: if_splits)
qed

text \<open>What a callback or a cancellation may do to a task: nothing but append to its log once it
  has settled, and keep its identity.\<close>

definition lawful :: "(task \<Rightarrow> task) \<Rightarrow> bool" where
  "lawful f \<longleftrightarrow> (\<forall>t. task_ok t \<longrightarrow>
     key_of (f t) = key_of t \<and> bt_fp (f t) = bt_fp t \<and> task_ok (f t) \<and>
     (bt_status t \<noteq> TRunning \<longrightarrow> (\<exists>l. f t = t\<lparr>bt_log := l\<rparr>)))"

lemma lawful_inv: "lawful f \<Longrightarrow> tasks_inv st \<Longrightarrow> tasks_inv (upd_task r f st)"
  by (rule upd_task_inv) (auto simp: lawful_def)

lemma terminate_simps [simp]:
  "bt_status (terminate b t) = bt_status t" "bt_completed (terminate b t) = bt_completed t"
  "bt_cancel (terminate b t) = bt_cancel t" "bt_timed_out (terminate b t) = bt_timed_out t"
  "bt_root (terminate b t) = bt_root t" "bt_id (terminate b t) = bt_id t"
  "bt_fp (terminate b t) = bt_fp t"
  by (simp_all add: terminate_def Let_def)

lemma same_log: "t = t\<lparr>bt_log := bt_log t\<rparr>"
  by simp

lemma lawful_data: "lawful (\<lambda>t. t\<lparr>bt_log := append_log (bt_log t) ch bs\<rparr>)"
  by (auto simp: lawful_def key_of_def task_ok_def classify_def)

lemma lawful_finish: "lawful (finish_task now code sig)"
  unfolding lawful_def finish_task_def
  by (auto simp: key_of_def task_ok_def classify_def intro: same_log)

lemma lawful_timeout: "lawful (\<lambda>t. if bt_timer t = None \<or> bt_status t \<noteq> TRunning then t
     else terminate False (t\<lparr>bt_timed_out := True\<rparr>))"
  by (auto simp: lawful_def key_of_def task_ok_def classify_def intro: same_log)

lemma lawful_force: "lawful (\<lambda>t.
     if bt_force t \<and> bt_status t = TRunning then t\<lparr>bt_signals := bt_signals t @ [''SIGKILL'']\<rparr> else t)"
  by (auto simp: lawful_def key_of_def task_ok_def classify_def intro: same_log)

lemma lawful_kill: "lawful (\<lambda>t.
     if bt_status t = TRunning then terminate b (t\<lparr>bt_cancel := True\<rparr>) else t)"
  by (auto simp: lawful_def key_of_def task_ok_def classify_def intro: same_log)

lemmas lawful_rules = lawful_data lawful_finish lawful_timeout lawful_force lawful_kill

subsection \<open>Pruning and eviction\<close>

definition del_keys :: "tasks \<Rightarrow> string list \<Rightarrow> tasks" where
  "del_keys st ks = st\<lparr>tk_map := foldl jm_del (tk_map st) ks\<rparr>"

lemma del_keys_simps [simp]:
  "del_keys st [] = st"
  "tk_heap (del_keys st ks) = tk_heap st" "tk_next (del_keys st ks) = tk_next st"
  "tk_max (del_keys st ks) = tk_max st" "tk_retention (del_keys st ks) = tk_retention st"
  "tk_log_bytes (del_keys st ks) = tk_log_bytes st"
  "del_keys (del_keys st ks) ks' = del_keys st (ks @ ks')"
  by (simp_all add: del_keys_def)

lemma del_key_one: "st\<lparr>tk_map := jm_del (tk_map st) k\<rparr> = del_keys st [k]"
  by (simp add: del_keys_def)

lemma foldl_del_get:
  "jm_get (foldl jm_del m ks) k = (if k \<in> set ks then None else jm_get m k)"
  by (induction ks arbitrary: m) auto

lemma del_keys_get [simp]:
  "jm_get (tk_map (del_keys st ks)) k = (if k \<in> set ks then None else jm_get (tk_map st) k)"
  by (simp add: del_keys_def foldl_del_get)

lemma del_keys_inv: "tasks_inv st \<Longrightarrow> tasks_inv (del_keys st ks)"
proof (induction ks arbitrary: st)
  case (Cons k ks)
  have "tasks_inv (del_keys st [k])"
    using tasks_inv_del [OF Cons.prems, of k] by (simp add: del_key_one)
  from Cons.IH [OF this] show ?case by simp
qed simp

lemma prune_tasks_del:
  "prune_tasks now st = del_keys st (map fst (filter (\<lambda>p. prunable now st (snd p)) (tk_map st)))"
proof -
  have "foldl (\<lambda>st' (k, r). if prunable now st r then st'\<lparr>tk_map := jm_del (tk_map st') k\<rparr> else st') st0 ps =
      del_keys st0 (map fst (filter (\<lambda>p. prunable now st (snd p)) ps))" for st0 ps
  proof (induction ps arbitrary: st0)
    case (Cons p ps)
    then show ?case by (cases p) (simp add: del_key_one)
  qed simp
  then show ?thesis by (simp add: prune_tasks_def)
qed

lemma prune_tasks_get:
  assumes "tasks_inv st"
  shows "jm_get (tk_map (prune_tasks now st)) k =
    (case jm_get (tk_map st) k of None \<Rightarrow> None | Some r \<Rightarrow> if prunable now st r then None else Some r)"
proof (cases "jm_get (tk_map st) k")
  case None
  then show ?thesis by (simp add: prune_tasks_del)
next
  case (Some r)
  then have "k \<in> fst ` {p \<in> set (tk_map st). prunable now st (snd p)} \<longleftrightarrow> prunable now st r"
  proof -
    have "k \<in> fst ` {p \<in> set (tk_map st). prunable now st (snd p)} \<longleftrightarrow>
        (\<exists>v. (k, v) \<in> set (tk_map st) \<and> prunable now st v)" by force
    also have "\<dots> \<longleftrightarrow> (\<exists>v. jm_get (tk_map st) k = Some v \<and> prunable now st v)"
      by (simp add: jm_get_in [OF tasks_inv_ok [OF assms]])
    finally show ?thesis using Some by simp
  qed
  with Some show ?thesis by (simp add: prune_tasks_del)
qed

lemma prune_tasks_inv: "tasks_inv st \<Longrightarrow> tasks_inv (prune_tasks now st)"
  by (simp add: prune_tasks_del del_keys_inv)

lemma prune_tasks_frame [simp]:
  "tk_heap (prune_tasks now st) = tk_heap st" "tk_next (prune_tasks now st) = tk_next st"
  "tk_max (prune_tasks now st) = tk_max st" "tk_log_bytes (prune_tasks now st) = tk_log_bytes st"
  by (simp_all add: prune_tasks_del)

lemma prunable_settled: "prunable now st r \<Longrightarrow> task_settled st r"
  by (auto simp: prunable_def task_settled_def split: option.splits)

definition ref_key :: "tasks \<Rightarrow> nat \<Rightarrow> string" where
  "ref_key st r = (case tk_heap st r of None \<Rightarrow> [] | Some t \<Rightarrow> key_of t)"

lemma ref_key_upd [simp]:
  "ref_key (st\<lparr>tk_map := m\<rparr>) = ref_key st" "task_settled (st\<lparr>tk_map := m\<rparr>) = task_settled st"
  "ref_key (del_keys st ks) = ref_key st" "task_settled (del_keys st ks) = task_settled st"
  by (simp_all add: ref_key_def task_settled_def fun_eq_iff)

lemma evict_prefix:
  assumes "\<forall>r\<in>set rs. tk_heap st r \<noteq> None"
  shows "\<exists>n\<le>length rs. evict st rs = del_keys st (map (ref_key st) (take n rs)) \<and>
    (n < length rs \<longrightarrow> length (tk_map (evict st rs)) < tk_max st)"
  using assms
proof (induction rs arbitrary: st)
  case (Cons r rs)
  show ?case
  proof (cases "length (tk_map st) < tk_max st")
    case True
    then show ?thesis by (intro exI [of _ 0]) simp
  next
    case False
    obtain t where t: "tk_heap st r = Some t" using Cons.prems by auto
    let ?st = "del_keys st [ref_key st r]"
    have step: "evict st (r # rs) = evict ?st rs"
      using False t by (simp add: del_key_one ref_key_def key_of_def)
    obtain n where "n \<le> length rs" "evict ?st rs = del_keys ?st (map (ref_key ?st) (take n rs))"
      "n < length rs \<longrightarrow> length (tk_map (evict ?st rs)) < tk_max ?st"
      using Cons.IH [of ?st] Cons.prems by auto
    then show ?thesis unfolding step by (intro exI [of _ "Suc n"]) simp
  qed
qed simp

definition running_refs :: "tasks \<Rightarrow> nat list" where
  "running_refs st = filter (\<lambda>r. \<not> task_settled st r) (map snd (tk_map st))"

lemma mem_refs: "tasks_inv st \<Longrightarrow> (k, r) \<in> set (tk_map st) \<Longrightarrow> k = ref_key st r \<and> tk_heap st r \<noteq> None"
  using jm_get_in [OF tasks_inv_ok] tasks_inv_get [of st k r] by (fastforce simp: ref_key_def)

lemma registered: "tasks_inv st \<Longrightarrow> r \<in> snd ` set (tk_map st) \<Longrightarrow> jm_get (tk_map st) (ref_key st r) = Some r"
  using mem_refs jm_get_in [OF tasks_inv_ok] by fastforce

lemma refs_distinct: "tasks_inv st \<Longrightarrow> distinct (map snd (tk_map st))"
proof -
  assume inv: "tasks_inv st"
  have "map fst (tk_map st) = map (ref_key st) (map snd (tk_map st))"
    using mem_refs [OF inv] by (auto intro!: map_cong simp del: not_None_eq)
  with tasks_inv_ok [OF inv] show ?thesis
    by (metis distinct_map jm_ok_def)
qed

lemma foldl_del_length:
  "jm_ok m \<Longrightarrow> distinct ks \<Longrightarrow> set ks \<subseteq> fst ` set m \<Longrightarrow> length (foldl jm_del m ks) = length m - length ks"
proof (induction ks arbitrary: m)
  case (Cons k ks)
  obtain v where "jm_get m k = Some v" using Cons.prems jm_get_None [of m k] by auto
  then have "length (jm_del m k) = length m - 1"
    using Cons.prems(1) by (simp add: jm.size_del)
  moreover have "set ks \<subseteq> fst ` set (jm_del m k)"
    using Cons.prems by (force simp: set_jm_del)
  ultimately show ?case using Cons by (simp add: jm.ok_del)
qed simp

text \<open>What \<open>#makeCapacity\<close> promises: the running tasks stay registered; nothing is added; it
  succeeds exactly when they leave room; on success there is room; whatever it evicts has
  settled no later than any settled task it keeps.\<close>

definition capacity_contract :: "tasks \<Rightarrow> tasks \<Rightarrow> (bridge_error + unit) \<Rightarrow> bool" where
  "capacity_contract st st' res \<longleftrightarrow>
     (\<forall>k r. jm_get (tk_map st) k = Some r \<and> \<not> task_settled st r \<longrightarrow> jm_get (tk_map st') k = Some r) \<and>
     (\<forall>k r. jm_get (tk_map st') k = Some r \<longrightarrow> jm_get (tk_map st) k = Some r) \<and>
     (res = Inr () \<longleftrightarrow> length (running_refs st) < tk_max st) \<and>
     (res = Inr () \<longrightarrow> length (tk_map st') < tk_max st) \<and>
     (\<forall>k r k' r'. jm_get (tk_map st) k = Some r \<and> jm_get (tk_map st') k = None \<and>
        jm_get (tk_map st') k' = Some r' \<and> task_settled st r' \<longrightarrow> settled_age st r \<le> settled_age st r')"

lemma contract_keeps:
  "capacity_contract st st' res \<Longrightarrow> jm_get (tk_map st) k = Some r \<Longrightarrow> \<not> task_settled st r \<Longrightarrow>
   jm_get (tk_map st') k = Some r"
  unfolding capacity_contract_def by blast

lemma contract_adds_none:
  "capacity_contract st st' res \<Longrightarrow> jm_get (tk_map st') k = Some r \<Longrightarrow> jm_get (tk_map st) k = Some r"
  unfolding capacity_contract_def by blast

lemma contract_room:
  "capacity_contract st st' (Inr ()) \<Longrightarrow> length (tk_map st') < tk_max st"
  unfolding capacity_contract_def by blast

lemma sorted_take_drop:
  "sorted (map f xs) \<Longrightarrow> x \<in> set (take n xs) \<Longrightarrow> y \<in> set (drop n xs) \<Longrightarrow> f x \<le> f y"
proof -
  assume sorted: "sorted (map f xs)" and mem: "x \<in> set (take n xs)" "y \<in> set (drop n xs)"
  have "sorted (map f (take n xs) @ map f (drop n xs))"
    using sorted by (metis append_take_drop_id map_append)
  with mem show ?thesis by (simp add: sorted_append)
qed

lemma make_task_capacity_contract:
  assumes inv: "tasks_inv st" and mk: "make_task_capacity st = (st', res)"
  shows "capacity_contract st st' res \<and> tasks_inv st' \<and> tk_heap st' = tk_heap st \<and>
    tk_next st' = tk_next st \<and> tk_max st' = tk_max st \<and> tk_log_bytes st' = tk_log_bytes st"
proof (cases "length (tk_map st) < tk_max st")
  case True
  then have "length (running_refs st) < tk_max st"
    by (metis running_refs_def length_filter_le length_map order_le_less_trans)
  with True mk inv show ?thesis
    by (auto simp: make_task_capacity_def capacity_contract_def)
next
  case False
  let ?rs = "sort_key (settled_age st) (filter (task_settled st) (map snd (tk_map st)))"
  have rs: "set ?rs = {r \<in> snd ` set (tk_map st). task_settled st r}" "distinct ?rs"
    using refs_distinct [OF inv] by auto
  have "\<forall>r\<in>set ?rs. tk_heap st r \<noteq> None"
    using mem_refs [OF inv] by fastforce
  from evict_prefix [OF this] obtain n where n: "n \<le> length ?rs"
    and ev: "evict st ?rs = del_keys st (map (ref_key st) (take n ?rs))"
    and room: "n < length ?rs \<longrightarrow> length (tk_map (evict st ?rs)) < tk_max st" by blast
  define gone where "gone = take n ?rs"
  define ks where "ks = map (ref_key st) gone"
  have gone: "set gone \<subseteq> snd ` set (tk_map st)" "\<forall>r\<in>set gone. task_settled st r" "distinct gone"
    using rs by (auto simp: gone_def dest: in_set_takeD)
  have key: "jm_get (tk_map st) (ref_key st r) = Some r" if "r \<in> set gone" for r
    using gone registered [OF inv] that by blast
  have st': "st' = del_keys st ks"
    and res: "res = Inr () \<longleftrightarrow> length (tk_map st') < tk_max st"
    using mk False ev by (auto simp: make_task_capacity_def Let_def ks_def gone_def split: if_splits)
  have "inj_on (ref_key st) (set gone)"
    using key by (metis inj_onI option.inject)
  then have ks: "distinct ks" using gone(3) by (simp add: ks_def distinct_map)
  have keys: "set ks \<subseteq> fst ` set (tk_map st)"
    using key jm_get_mem [of "tk_map st"] by (force simp: ks_def)
  have len': "length (tk_map st') = length (tk_map st) - length gone"
    using foldl_del_length [OF tasks_inv_ok [OF inv] ks keys] by (simp add: st' del_keys_def ks_def)
  have count: "length (tk_map st) = length ?rs + length (running_refs st)"
    using sum_length_filter_compl [of "task_settled st" "map snd (tk_map st)"]
    by (simp add: running_refs_def)
  have get': "jm_get (tk_map st') k = (if k \<in> set ks then None else jm_get (tk_map st) k)" for k
    by (simp add: st')
  have in_ks: "k \<in> set ks \<longleftrightarrow> r \<in> set gone" if "jm_get (tk_map st) k = Some r" for k r
  proof -
    have "k = ref_key st r" using mem_refs [OF inv jm_get_mem [OF that]] by simp
    then show ?thesis using key that by (auto simp: ks_def)
  qed
  have exact: "res = Inr () \<longleftrightarrow> length (running_refs st) < tk_max st"
  proof (cases "n < length ?rs")
    case True
    then have "length (tk_map st') < tk_max st" using room ev st' by (simp add: ks_def gone_def)
    moreover have "length (running_refs st) \<le> length (tk_map st')"
      using len' count n by (simp add: gone_def)
    ultimately show ?thesis using res by simp
  next
    case False
    then have "length gone = length ?rs" using n by (simp add: gone_def)
    with res len' count show ?thesis by simp
  qed
  have old: "settled_age st r \<le> settled_age st r'"
    if "jm_get (tk_map st) k = Some r" "jm_get (tk_map st') k = None"
      "jm_get (tk_map st') k' = Some r'" "task_settled st r'" for k r k' r'
  proof -
    have "r \<in> set (take n ?rs)" using that in_ks by (auto simp: get' gone_def split: if_splits)
    moreover have "r' \<in> set ?rs - set (take n ?rs)"
      using that in_ks [of k' r'] rs(1) jm_get_mem [of "tk_map st" k' r']
      by (force simp: get' gone_def split: if_splits)
    then have "r' \<in> set (drop n ?rs)" by (metis DiffE Un_iff append_take_drop_id set_append)
    ultimately show ?thesis by (intro sorted_take_drop [of _ ?rs]) auto
  qed
  have "capacity_contract st st' res"
    unfolding capacity_contract_def
  proof (intro conjI allI impI)
    show "jm_get (tk_map st') k = Some r"
      if "jm_get (tk_map st) k = Some r \<and> \<not> task_settled st r" for k r
      using that in_ks gone(2) by (auto simp: get')
    show "jm_get (tk_map st) k = Some r" if "jm_get (tk_map st') k = Some r" for k r
      using that by (simp add: get' split: if_splits)
  qed (use exact res old in blast)+
  then show ?thesis using del_keys_inv [OF inv] by (simp add: st')
qed

section \<open>The machine\<close>

text \<open>
  One event per way the state is touched. The guards are the discipline of the caller: a commit
  takes a pending start \<open>begin_start\<close> made, so its key is the key of its request; a spawn error
  names the key of its task; the second half of \<open>stopWorkspace\<close> runs once the tasks it waits for
  have settled.
\<close>

datatype task_event =
    Begins string int task_request
  | Commits int "(string \<times> string) option" pending_start
  | Writes nat log_channel "byte list"
  | Closes int nat "int option" "string option"
  | SpawnFails int nat
  | TimesOut nat
  | Forces nat
  | AsksStatus int string string
  | AsksLog int string string int int
  | AsksCancel int string string
  | StopBegins string
  | StopEnds "(string \<times> nat) list"
  | ClosesAll

fun task_step ::
  "(json \<Rightarrow> string) \<Rightarrow> (string \<Rightarrow> string \<Rightarrow> bool) \<Rightarrow> tasks \<Rightarrow> task_event \<Rightarrow> tasks" where
  "task_step digest le st (Begins cwd now rq) = fst (begin_start digest le cwd now rq st)"
| "task_step digest le st (Commits now paths p) =
     (if pn_key p = task_key (rq_root (pn_request p)) (rq_id (pn_request p))
      then fst (commit_start now paths p st) else st)"
| "task_step digest le st (Writes r ch bs) = on_data r ch bs st"
| "task_step digest le st (Closes now r code sig) = on_close now r code sig st"
| "task_step digest le st (SpawnFails now r) =
     (case tk_heap st r of None \<Rightarrow> st | Some t \<Rightarrow> on_spawn_error now r (key_of t) st)"
| "task_step digest le st (TimesOut r) = on_timeout r st"
| "task_step digest le st (Forces r) = on_force r st"
| "task_step digest le st (AsksStatus now root tid) = fst (status_of now root tid st)"
| "task_step digest le st (AsksLog now root tid c lim) = fst (log_of now root tid c lim st)"
| "task_step digest le st (AsksCancel now root tid) = fst (cancel_begin now root tid st)"
| "task_step digest le st (StopBegins root) = fst (stop_begin root st)"
| "task_step digest le st (StopEnds ms) =
     (if \<forall>p\<in>set ms. task_settled st (snd p) then fst (stop_end ms st) else st)"
| "task_step digest le st ClosesAll = close_tasks st"

lemma status_of_state: "fst (status_of now root tid st) = prune_tasks now st"
  by (simp add: status_of_def Let_def split: sum.split)

lemma log_of_state:
  "fst (log_of now root tid c lim st) \<in> {prune_tasks now st, prune_tasks now (prune_tasks now st)}"
  by (simp add: log_of_def Let_def split_def status_of_state split: sum.split option.split)

lemma cancel_begin_state:
  "fst (cancel_begin now root tid st) = prune_tasks now st \<or>
   (\<exists>r t. tk_heap st r = Some t \<and> bt_status t = TRunning \<and>
     fst (cancel_begin now root tid st) =
       upd_task r (\<lambda>t. if bt_status t = TRunning then terminate False (t\<lparr>bt_cancel := True\<rparr>) else t)
         (prune_tasks now st))"
proof (cases "validate_task_id tid")
  case (Inl e)
  then show ?thesis by (simp add: cancel_begin_def Let_def)
next
  case ok: (Inr u)
  show ?thesis
  proof (cases "find_task (prune_tasks now st) root tid")
    case None
    with ok show ?thesis by (simp add: cancel_begin_def Let_def)
  next
    case (Some rt)
    obtain r t where rt: "rt = (r, t)" by (cases rt)
    then have t: "tk_heap st r = Some t"
      using Some by (auto simp: find_task_def split: option.splits)
    show ?thesis
    proof (cases "bt_status t = TRunning")
      case True
      then have "fst (cancel_begin now root tid st) =
          upd_task r (\<lambda>t. if bt_status t = TRunning then terminate False (t\<lparr>bt_cancel := True\<rparr>) else t)
            (prune_tasks now st)"
        using ok Some rt t by (simp add: cancel_begin_def Let_def upd_task_def)
      with t True show ?thesis by blast
    next
      case False
      with ok Some rt show ?thesis by (simp add: cancel_begin_def Let_def)
    qed
  qed
qed

lemma kill_fold_frame [simp]:
  "tk_next (foldl kill_running st rs) = tk_next st" "tk_map (foldl kill_running st rs) = tk_map st"
  "tk_max (foldl kill_running st rs) = tk_max st"
  by (induction rs arbitrary: st) (auto simp: kill_running_def)

lemma kill_fold_inv: "tasks_inv st \<Longrightarrow> tasks_inv (foldl kill_running st rs)"
  by (induction rs arbitrary: st) (auto simp: kill_running_def intro!: lawful_inv lawful_kill)

lemma stop_fold_del:
  "\<exists>ks. set ks \<subseteq> {k. \<exists>r. (k, r) \<in> set ms \<and> jm_get (tk_map st) k = Some r} \<and>
     foldl (\<lambda>st (k, r). if jm_get (tk_map st) k = Some r then st\<lparr>tk_map := jm_del (tk_map st) k\<rparr> else st)
       st ms = del_keys st ks"
proof (induction ms arbitrary: st)
  case Nil
  show ?case by (intro exI [of _ "[]"]) simp
next
  case (Cons m ms)
  obtain k r where m: "m = (k, r)" by (cases m)
  show ?case
  proof (cases "jm_get (tk_map st) k = Some r")
    case True
    obtain ks where "set ks \<subseteq> {k'. \<exists>r. (k', r) \<in> set ms \<and> jm_get (tk_map (del_keys st [k])) k' = Some r}"
      "foldl (\<lambda>st (k, r). if jm_get (tk_map st) k = Some r then st\<lparr>tk_map := jm_del (tk_map st) k\<rparr> else st)
        (del_keys st [k]) ms = del_keys (del_keys st [k]) ks"
      using Cons.IH [of "del_keys st [k]"] by blast
    with True show ?thesis
      by (intro exI [of _ "k # ks"]) (auto simp: m del_key_one split: if_splits)
  next
    case False
    obtain ks where "set ks \<subseteq> {k'. \<exists>r. (k', r) \<in> set ms \<and> jm_get (tk_map st) k' = Some r}"
      "foldl (\<lambda>st (k, r). if jm_get (tk_map st) k = Some r then st\<lparr>tk_map := jm_del (tk_map st) k\<rparr> else st)
        st ms = del_keys st ks"
      using Cons.IH [of st] by blast
    with False show ?thesis by (intro exI [of _ ks]) (auto simp: m)
  qed
qed

lemma begin_start_cases:
  assumes "begin_start digest le cwd now rq st = (st', out)"
  shows "st' = prune_tasks now st \<or> (\<exists>res. make_task_capacity (prune_tasks now st) = (st', res))"
  using assms
  by (auto simp: begin_start_def Let_def split: sum.splits option.splits prod.splits if_splits)

lemma begin_start_inv:
  assumes "tasks_inv st" and "begin_start digest le cwd now rq st = (st', out)"
  shows "tasks_inv st' \<and> tk_heap st' = tk_heap st \<and> tk_next st' = tk_next st \<and> tk_max st' = tk_max st"
  using begin_start_cases [OF assms(2)] make_task_capacity_contract [of "prune_tasks now st" st']
    prune_tasks_inv [OF assms(1), of now] by auto

lemma fresh_task_simps [simp]:
  "task_ok (fresh_task n now actual p)" "bt_status (fresh_task n now actual p) = TRunning"
  "key_of (fresh_task n now actual p) = task_key (rq_root (pn_request p)) (rq_id (pn_request p))"
  "bt_fp (fresh_task n now actual p) = pn_fp p" "bt_signals (fresh_task n now actual p) = []"
  "bt_root (fresh_task n now actual p) = rq_root (pn_request p)"
  by (simp_all add: fresh_task_def task_ok_def key_of_def)

lemma commit_start_inv:
  assumes inv: "tasks_inv st"
    and key: "pn_key p = task_key (rq_root (pn_request p)) (rq_id (pn_request p))"
  shows "tasks_inv (fst (commit_start now paths p st))"
proof -
  have fresh: "tk_heap st (tk_next st) = None"
    using inv by (metis tasks_inv_heap less_irrefl not_None_eq)
  have get: "\<exists>t. tk_heap st r = Some t \<and> k = key_of t \<and> r \<noteq> tk_next st"
    if "jm_get (tk_map st) k = Some r" for k r
    using tasks_inv_get [OF inv that] fresh by auto
  show ?thesis
    using inv get key
    by (auto simp: commit_start_def Let_def tasks_inv_def jm.ok_put less_Suc_eq split: option.split)
qed

lemma on_spawn_error_inv: "tasks_inv st \<Longrightarrow> tasks_inv (on_spawn_error now r key st)"
  using tasks_inv_del [OF lawful_inv [OF lawful_finish]] by (simp add: on_spawn_error_def Let_def)

lemma task_step_inv: "tasks_inv st \<Longrightarrow> tasks_inv (task_step digest le st ev)"
proof (cases ev)
  case (Begins cwd now rq)
  assume inv: "tasks_inv st"
  obtain st' out where b: "begin_start digest le cwd now rq st = (st', out)" by fastforce
  with Begins begin_start_inv [OF inv b] show ?thesis by simp
next
  case (AsksLog now root tid c lim)
  assume "tasks_inv st"
  with AsksLog log_of_state [of now root tid c lim st] show ?thesis
    by (auto intro!: prune_tasks_inv)
next
  case (AsksCancel now root tid)
  assume "tasks_inv st"
  with AsksCancel cancel_begin_state [of now root tid st] show ?thesis
    by (auto intro!: prune_tasks_inv lawful_inv lawful_kill)
next
  case (StopEnds ms)
  assume "tasks_inv st"
  with StopEnds stop_fold_del [of ms st] show ?thesis
    by (auto simp: stop_end_def del_keys_inv)
qed (auto simp: commit_start_inv on_data_def on_close_def on_timeout_def on_force_def
    on_spawn_error_inv Let_def status_of_state prune_tasks_inv stop_begin_def close_tasks_def
    kill_fold_inv intro!: lawful_inv lawful_rules split: option.split)

interpretation task_machine: invariant_machine "task_step digest le" tasks_inv
  by unfold_locales (rule task_step_inv)

section \<open>Properties\<close>

text \<open>Two stages of one task: settled as \<open>t\<close>, with whatever was logged since.\<close>

definition same_outcome :: "task \<Rightarrow> tasks \<Rightarrow> nat \<Rightarrow> bool" where
  "same_outcome t st r \<longleftrightarrow> (\<exists>l. tk_heap st r = Some (t\<lparr>bt_log := l\<rparr>))"

lemma settled_log [simp]: "bt_status (t\<lparr>bt_log := l\<rparr>) = bt_status t"
  by simp

lemma same_outcome_upd:
  assumes inv: "tasks_inv st" and law: "lawful f" and st: "same_outcome t st r"
    and settled: "bt_status t \<noteq> TRunning"
  shows "same_outcome t (upd_task r' f st) r"
proof -
  obtain l where l: "tk_heap st r = Some (t\<lparr>bt_log := l\<rparr>)" using st by (auto simp: same_outcome_def)
  then have "task_ok (t\<lparr>bt_log := l\<rparr>)" using tasks_inv_heap [OF inv] by blast
  then obtain l' where "f (t\<lparr>bt_log := l\<rparr>) = t\<lparr>bt_log := l'\<rparr>"
    using law settled by (fastforce simp: lawful_def)
  with l show ?thesis by (auto simp: same_outcome_def)
qed

lemma same_outcome_heap: "tk_heap st' = tk_heap st \<Longrightarrow> same_outcome t st' r = same_outcome t st r"
  by (simp add: same_outcome_def)

lemma same_outcome_kills:
  "tasks_inv st \<Longrightarrow> same_outcome t st r \<Longrightarrow> bt_status t \<noteq> TRunning \<Longrightarrow>
   same_outcome t (foldl kill_running st rs) r"
proof (induction rs arbitrary: st)
  case (Cons r' rs)
  have "tasks_inv (kill_running st r')" "same_outcome t (kill_running st r') r"
    using Cons.prems by (auto simp: kill_running_def intro!: lawful_inv same_outcome_upd lawful_kill)
  with Cons show ?case by simp
qed simp

lemma same_outcome_step:
  assumes inv: "tasks_inv st" and st: "same_outcome t st r" and settled: "bt_status t \<noteq> TRunning"
  shows "same_outcome t (task_step digest le st ev) r"
proof (cases ev)
  case (Begins cwd now rq)
  obtain st' out where "begin_start digest le cwd now rq st = (st', out)" by fastforce
  with Begins begin_start_inv [OF inv this] st same_outcome_heap [of st' st] show ?thesis by simp
next
  case (Commits now paths p)
  have "r \<noteq> tk_next st"
    using st tasks_inv_heap [OF inv] by (fastforce simp: same_outcome_def)
  with Commits st show ?thesis
    by (auto simp: commit_start_def Let_def same_outcome_def split: option.split)
next
  case (SpawnFails now r')
  have "same_outcome t (upd_task r' (finish_task now None None) st) r"
    using assms by (intro same_outcome_upd lawful_finish)
  with SpawnFails st show ?thesis
    by (auto simp: on_spawn_error_def Let_def same_outcome_def split: option.split)
next
  case (AsksLog now root tid c lim)
  with st log_of_state [of now root tid c lim st] show ?thesis
    by (auto simp: same_outcome_def)
next
  case (AsksCancel now root tid)
  have "same_outcome t (prune_tasks now st) r" using st by (simp add: same_outcome_def)
  with AsksCancel cancel_begin_state [of now root tid st] inv settled show ?thesis
    by (auto intro!: same_outcome_upd prune_tasks_inv lawful_kill)
next
  case (StopEnds ms)
  with st stop_fold_del [of ms st] show ?thesis by (auto simp: stop_end_def same_outcome_def)
next
  case (AsksStatus now root tid)
  with st show ?thesis by (simp add: status_of_state same_outcome_def)
qed (use assms in \<open>auto simp: on_data_def on_close_def on_timeout_def on_force_def stop_begin_def
    close_tasks_def Let_def intro!: same_outcome_upd lawful_rules same_outcome_kills\<close>)

text \<open>C21. A background task settles once. From the first moment its status is not running, no
  close, spawn error, timer, cancellation, workspace stop or shutdown changes anything of it but
  its log; and the status it settled with is the one its history calls for: timed out if its timer
  had fired, else cancelled if that was asked, else completed on exit code 0, else failed.\<close>

theorem task_settles_once:
  assumes "tasks_inv st" and "tk_heap st r = Some t" and "bt_status t \<noteq> TRunning"
  shows "(\<exists>l. tk_heap (run (task_step digest le) st evs) r = Some (t\<lparr>bt_log := l\<rparr>)) \<and>
    bt_status t = classify t \<and> bt_completed t \<noteq> None"
proof -
  have "same_outcome t st r"
    using assms(2) by (auto simp: same_outcome_def intro: exI [of _ "bt_log t"])
  then have "same_outcome t (run (task_step digest le) st evs) r"
    using assms(1,3)
    by (induction evs arbitrary: st) (auto intro: same_outcome_step task_step_inv)
  then show ?thesis
    using tasks_inv_heap [OF assms(1,2)] assms(3) by (auto simp: same_outcome_def task_ok_def)
qed

definition demo_request :: task_request where
  "demo_request = \<lparr>rq_argv = [''make''], rq_cwd = None, rq_env = None, rq_id = ''build'',
     rq_timeout = None, rq_root = ''/ws''\<rparr>"

definition demo_pending :: pending_start where
  "demo_pending = \<lparr>pn_request = demo_request, pn_fp = ''f'', pn_key = task_key ''/ws'' ''build'',
     pn_lexical = ''/ws''\<rparr>"

lemma new_tasks_inv: "tasks_inv (new_tasks a b c)"
  by (simp add: tasks_inv_def new_tasks_def)

lemmas demo_task_eval = demo_request_def demo_pending_def new_tasks_def commit_start_def Let_def
  is_path_inside_def on_close_def upd_task_def finish_task_def on_timeout_def terminate_def
  fresh_task_def timeout_of_def starts_with_def

theorem task_settles_once_witness:
  "\<exists>t l. bt_status t = TTimedOut \<and>
     tk_heap (run (task_step (\<lambda>_. ''f'') (\<lambda>_ _. True))
       (run (task_step (\<lambda>_. ''f'') (\<lambda>_ _. True)) (new_tasks 10 2 1000)
          [Commits 0 (Some (''/ws'', ''/ws'')) demo_pending, TimesOut 0, Closes 5 0 (Some 0) None])
       [Closes 6 0 (Some 1) None, ClosesAll]) 0 = Some (t\<lparr>bt_log := l\<rparr>)"
    (is "\<exists>t l. _ \<and> tk_heap (run ?step ?st ?evs) 0 = _")
proof -
  have inv: "tasks_inv ?st" by (intro task_machine.run_inv new_tasks_inv)
  obtain t where t: "tk_heap ?st 0 = Some t" "bt_status t = TTimedOut"
    by (simp add: demo_task_eval)
  then have "bt_status t \<noteq> TRunning" by simp
  from task_settles_once [OF inv t(1) this] t(2) show ?thesis by blast
qed

text \<open>Making room evicts only history. When \<open>start\<close> needs capacity, the running tasks all
  stay registered, nothing else is registered, it is refused exactly when the running tasks
  fill the limit, success leaves a free place, and an evicted task never completed later than a
  settled task that was kept.\<close>

theorem capacity_evicts_history:
  assumes "tasks_inv st" and "make_task_capacity st = (st', res)"
  shows "(\<forall>k r. jm_get (tk_map st) k = Some r \<and> \<not> task_settled st r \<longrightarrow> jm_get (tk_map st') k = Some r) \<and>
    (\<forall>k r. jm_get (tk_map st') k = Some r \<longrightarrow> jm_get (tk_map st) k = Some r) \<and>
    (res = Inr () \<longleftrightarrow> length (filter (\<lambda>r. \<not> task_settled st r) (map snd (tk_map st))) < tk_max st) \<and>
    (res = Inr () \<longrightarrow> length (tk_map st') < tk_max st) \<and>
    (\<forall>k r k' r'. jm_get (tk_map st) k = Some r \<and> jm_get (tk_map st') k = None \<and>
       jm_get (tk_map st') k' = Some r' \<and> task_settled st r' \<longrightarrow> settled_age st r \<le> settled_age st r')"
  by (rule make_task_capacity_contract [OF assms, THEN conjunct1,
      unfolded capacity_contract_def running_refs_def])

theorem capacity_evicts_history_witness:
  "\<exists>st' res. make_task_capacity (fst (commit_start 0 (Some (''/ws'', ''/ws'')) demo_pending
     (new_tasks 10 1 1000))) = (st', res) \<and> res \<noteq> Inr ()"
proof -
  let ?st = "fst (commit_start 0 (Some (''/ws'', ''/ws'')) demo_pending (new_tasks 10 1 1000))"
  have inv: "tasks_inv ?st"
    by (intro commit_start_inv new_tasks_inv) (simp add: demo_pending_def demo_request_def)
  obtain st' res where mk: "make_task_capacity ?st = (st', res)" by fastforce
  have "\<not> length (filter (\<lambda>r. \<not> task_settled ?st r) (map snd (tk_map ?st))) < tk_max ?st"
    by (simp add: demo_task_eval task_settled_def jm_set_def)
  with capacity_evicts_history [OF inv mk] mk show ?thesis by blast
qed

subsection \<open>Starts that do and do not overlap\<close>

text \<open>\<open>start\<close> when nothing comes between its two halves.\<close>

definition start_at_once ::
  "(json \<Rightarrow> string) \<Rightarrow> (string \<Rightarrow> string \<Rightarrow> bool) \<Rightarrow> string \<Rightarrow> int \<Rightarrow> (string \<times> string) option \<Rightarrow>
   task_request \<Rightarrow> tasks \<Rightarrow> tasks" where
  "start_at_once digest le cwd now paths rq st =
     (case begin_start digest le cwd now rq st of
        (st', Awaits p) \<Rightarrow> fst (commit_start now paths p st')
      | (st', _) \<Rightarrow> st')"

datatype serial_event =
    StartsAtOnce string int "(string \<times> string) option" task_request
  | Other task_event

fun serial_step ::
  "(json \<Rightarrow> string) \<Rightarrow> (string \<Rightarrow> string \<Rightarrow> bool) \<Rightarrow> tasks \<Rightarrow> serial_event \<Rightarrow> tasks" where
  "serial_step digest le st (StartsAtOnce cwd now paths rq) = start_at_once digest le cwd now paths rq st"
| "serial_step digest le st (Other (Begins cwd now rq)) = st"
| "serial_step digest le st (Other (Commits now paths p)) = st"
| "serial_step digest le st (Other (SpawnFails now r)) =
     (if task_settled st r then st else task_step digest le st (SpawnFails now r))"
| "serial_step digest le st (Other ev) = task_step digest le st ev"

definition no_orphans :: "tasks \<Rightarrow> bool" where
  "no_orphans st \<longleftrightarrow> tasks_inv st \<and> length (tk_map st) \<le> tk_max st \<and>
     (\<forall>r t. tk_heap st r = Some t \<and> bt_status t = TRunning \<longrightarrow> jm_get (tk_map st) (key_of t) = Some r)"

lemma no_orphansD:
  "no_orphans st \<Longrightarrow> tk_heap st r = Some t \<Longrightarrow> bt_status t = TRunning \<Longrightarrow>
   jm_get (tk_map st) (key_of t) = Some r"
  by (simp add: no_orphans_def)

lemma no_orphans_inv: "no_orphans st \<Longrightarrow> tasks_inv st"
  by (simp add: no_orphans_def)

lemma begin_start_Awaits:
  assumes inv: "tasks_inv st" and b: "begin_start digest le cwd now rq st = (st', Awaits p)"
  shows "make_task_capacity (prune_tasks now st) = (st', Inr ()) \<and>
    jm_get (tk_map (prune_tasks now st)) (pn_key p) = None \<and> pn_request p = rq \<and>
    pn_key p = task_key (rq_root rq) (rq_id rq) \<and> pn_fp p = request_fingerprint digest le rq"
proof -
  let ?st = "prune_tasks now st" and ?k = "task_key (rq_root rq) (rq_id rq)"
  have "Option.bind (jm_get (tk_map ?st) ?k) (tk_heap ?st) = None"
    using b by (auto simp: begin_start_def Let_def split: sum.splits option.splits prod.splits if_splits)
  then have "jm_get (tk_map ?st) ?k = None"
    using tasks_inv_get [OF prune_tasks_inv [OF inv], of now ?k]
    by (cases "jm_get (tk_map ?st) ?k") auto
  with b show ?thesis
    by (auto simp: begin_start_def Let_def split: sum.splits option.splits prod.splits if_splits)
qed

lemma no_orphans_subset:
  assumes "no_orphans st" and "tasks_inv st'" and "length (tk_map st') \<le> tk_max st'"
    and "\<And>r t. tk_heap st' r = Some t \<Longrightarrow> bt_status t = TRunning \<Longrightarrow>
      \<exists>t0. tk_heap st r = Some t0 \<and> bt_status t0 = TRunning \<and> key_of t0 = key_of t"
    and "\<And>k r. jm_get (tk_map st) k = Some r \<Longrightarrow> \<not> task_settled st r \<Longrightarrow> \<not> task_settled st' r \<Longrightarrow>
      jm_get (tk_map st') k = Some r"
  shows "no_orphans st'"
proof -
  have "jm_get (tk_map st') (key_of t) = Some r"
    if t: "tk_heap st' r = Some t" "bt_status t = TRunning" for r t
  proof -
    obtain t0 where t0: "tk_heap st r = Some t0" "bt_status t0 = TRunning" "key_of t0 = key_of t"
      using assms(4) [OF t] by blast
    have "jm_get (tk_map st) (key_of t) = Some r"
      using no_orphansD [OF assms(1) t0(1,2)] t0(3) by simp
    moreover have "\<not> task_settled st r" "\<not> task_settled st' r"
      using t t0 by (simp_all add: task_settled_def)
    ultimately show ?thesis by (rule assms(5))
  qed
  with assms(2,3) show ?thesis by (auto simp: no_orphans_def)
qed

lemma no_orphans_upd:
  assumes st: "no_orphans st" and law: "lawful f"
  shows "no_orphans (upd_task r f st)"
proof (rule no_orphans_subset [OF st])
  have inv: "tasks_inv st" using st by (rule no_orphans_inv)
  show "tasks_inv (upd_task r f st)" using law inv by (rule lawful_inv)
  show "length (tk_map (upd_task r f st)) \<le> tk_max (upd_task r f st)"
    using st by (simp add: no_orphans_def)
  fix r' t assume t: "tk_heap (upd_task r f st) r' = Some t" "bt_status t = TRunning"
  show "\<exists>t0. tk_heap st r' = Some t0 \<and> bt_status t0 = TRunning \<and> key_of t0 = key_of t"
  proof (cases "r' = r")
    case True
    with t obtain t0 where t0: "tk_heap st r = Some t0" "t = f t0" by auto
    then have "task_ok t0" using tasks_inv_heap [OF inv] by blast
    with law t0 t(2) have "bt_status t0 = TRunning" "key_of t0 = key_of t"
      by (fastforce simp: lawful_def)+
    with t0 True show ?thesis by blast
  next
    case False
    with t show ?thesis by auto
  qed
qed simp

lemma no_orphans_del:
  assumes st: "no_orphans st"
    and settled: "\<And>k r. k \<in> set ks \<Longrightarrow> jm_get (tk_map st) k = Some r \<Longrightarrow> task_settled st r"
  shows "no_orphans (del_keys st ks)"
proof (rule no_orphans_subset [OF st])
  have inv: "tasks_inv st" using st by (rule no_orphans_inv)
  show "tasks_inv (del_keys st ks)" using inv by (rule del_keys_inv)
  have "length (foldl jm_del m ks) \<le> length m" if "jm_ok m" for m :: "(string, nat) jsmap"
    using that
  proof (induction ks arbitrary: m)
    case (Cons k ks)
    from Cons.IH [of "jm_del m k"] Cons.prems jm.size_del_le [of m k] show ?case
      by (simp add: jm.ok_del)
  qed simp
  then show "length (tk_map (del_keys st ks)) \<le> tk_max (del_keys st ks)"
    using st tasks_inv_ok [OF inv] by (fastforce simp: no_orphans_def del_keys_def)
qed (use settled in auto)

lemma no_orphans_prune: "no_orphans st \<Longrightarrow> no_orphans (prune_tasks now st)"
  unfolding prune_tasks_del
proof (rule no_orphans_del)
  fix k r assume st: "no_orphans st" and k: "k \<in> set (map fst (filter (\<lambda>p. prunable now st (snd p)) (tk_map st)))"
    and get: "jm_get (tk_map st) k = Some r"
  then obtain r' where "(k, r') \<in> set (tk_map st)" "prunable now st r'" by auto
  moreover have "jm_ok (tk_map st)" using st by (simp add: no_orphans_def tasks_inv_ok)
  ultimately show "task_settled st r"
    using get prunable_settled by (metis jm_get_in option.inject)
qed

lemma no_orphans_kills: "no_orphans st \<Longrightarrow> no_orphans (foldl kill_running st rs)"
  by (induction rs arbitrary: st) (auto simp: kill_running_def intro!: no_orphans_upd lawful_kill)

lemma no_orphans_capacity:
  assumes st: "no_orphans st" and mk: "make_task_capacity st = (st', res)"
  shows "no_orphans st'"
proof -
  have inv: "tasks_inv st" using st by (rule no_orphans_inv)
  have c: "capacity_contract st st' res" and frame: "tasks_inv st'" "tk_heap st' = tk_heap st"
    "tk_max st' = tk_max st"
    using make_task_capacity_contract [OF inv mk] by auto
  have sub: "set (tk_map st') \<subseteq> set (tk_map st)"
  proof (rule subrelI)
    fix k r assume "(k, r) \<in> set (tk_map st')"
    then have "jm_get (tk_map st') k = Some r"
      using jm_get_in [OF tasks_inv_ok [OF frame(1)]] by blast
    then have "jm_get (tk_map st) k = Some r" by (rule contract_adds_none [OF c])
    then show "(k, r) \<in> set (tk_map st)" by (rule jm_get_mem)
  qed
  have "length (tk_map st') \<le> length (tk_map st)"
    using card_mono [OF _ sub] jm_ok_card [OF tasks_inv_ok [OF inv]]
      jm_ok_card [OF tasks_inv_ok [OF frame(1)]] by simp
  then have "length (tk_map st') \<le> tk_max st'"
    using st frame(3) by (simp add: no_orphans_def)
  then show ?thesis
    using frame(1,2) contract_keeps [OF c] by (intro no_orphans_subset [OF st]) auto
qed

lemma no_orphans_commit:
  assumes st: "no_orphans st" and room: "length (tk_map st) < tk_max st"
    and free: "jm_get (tk_map st) (pn_key p) = None"
    and key: "pn_key p = task_key (rq_root (pn_request p)) (rq_id (pn_request p))"
  shows "no_orphans (fst (commit_start now paths p st))"
proof -
  have inv: "tasks_inv st" using st by (rule no_orphans_inv)
  have inv': "tasks_inv (fst (commit_start now paths p st))"
    using inv key by (rule commit_start_inv)
  have other: "key_of t \<noteq> pn_key p" if "tk_heap st r = Some t" "bt_status t = TRunning" for r t
    using no_orphansD [OF st that] free by auto
  show ?thesis
    using inv' st room free other key
    by (auto simp: no_orphans_def commit_start_def Let_def jm.size_put split: option.split)
qed

lemma no_orphans_start:
  assumes st: "no_orphans st"
  shows "no_orphans (start_at_once digest le cwd now paths rq st)"
proof -
  have inv: "tasks_inv st" using st by (rule no_orphans_inv)
  let ?p = "prune_tasks now st"
  have pr: "no_orphans ?p" "tasks_inv ?p" using st inv by (simp_all add: no_orphans_prune prune_tasks_inv)
  obtain st' out where b: "begin_start digest le cwd now rq st = (st', out)" by fastforce
  have st': "no_orphans st'"
    using begin_start_cases [OF b] pr(1) no_orphans_capacity [OF pr(1)] by metis
  show ?thesis
  proof (cases out)
    case (Awaits p)
    from begin_start_Awaits [OF inv b [unfolded Awaits]]
    have mk: "make_task_capacity ?p = (st', Inr ())" and free: "jm_get (tk_map ?p) (pn_key p) = None"
      and p: "pn_request p = rq" "pn_key p = task_key (rq_root rq) (rq_id rq)" by auto
    have c: "capacity_contract ?p st' (Inr ())" "tk_max st' = tk_max ?p"
      using make_task_capacity_contract [OF pr(2) mk] by auto
    have "no_orphans (fst (commit_start now paths p st'))"
    proof (rule no_orphans_commit [OF st'])
      show "length (tk_map st') < tk_max st'" using contract_room [OF c(1)] c(2) by simp
      show "jm_get (tk_map st') (pn_key p) = None"
        using contract_adds_none [OF c(1), of "pn_key p"] free
        by (cases "jm_get (tk_map st') (pn_key p)") auto
      show "pn_key p = task_key (rq_root (pn_request p)) (rq_id (pn_request p))" using p by simp
    qed
    then show ?thesis by (simp add: start_at_once_def b Awaits)
  qed (use st' in \<open>simp_all add: start_at_once_def b\<close>)
qed

lemma no_orphans_spawn_error:
  assumes st: "no_orphans st" and t: "tk_heap st r = Some t" "bt_status t = TRunning"
  shows "no_orphans (on_spawn_error now r (key_of t) st)"
proof -
  let ?st = "upd_task r (finish_task now None None) st"
  have "no_orphans ?st" using st by (intro no_orphans_upd lawful_finish)
  moreover have "jm_get (tk_map st) (key_of t) = Some r"
    using st t by (simp add: no_orphans_def)
  moreover have "task_settled ?st r" using t by (simp add: task_settled_def finish_task_def)
  ultimately have "no_orphans (del_keys ?st [key_of t])"
    by (intro no_orphans_del) auto
  then show ?thesis by (simp add: on_spawn_error_def Let_def del_keys_def)
qed

lemma no_orphans_stop_end:
  assumes st: "no_orphans st" and settled: "\<forall>p\<in>set ms. task_settled st (snd p)"
  shows "no_orphans (fst (stop_end ms st))"
proof -
  obtain ks where ks: "set ks \<subseteq> {k. \<exists>r. (k, r) \<in> set ms \<and> jm_get (tk_map st) k = Some r}"
    and fin: "fst (stop_end ms st) = del_keys st ks"
    using stop_fold_del [of ms st] by (auto simp: stop_end_def)
  show ?thesis
    unfolding fin by (rule no_orphans_del [OF st]) (use ks settled in fastforce)
qed

lemma no_orphans_step:
  assumes st: "no_orphans st"
  shows "no_orphans (serial_step digest le st ev)"
proof (cases ev)
  case (StartsAtOnce cwd now paths rq)
  with st show ?thesis by (simp add: no_orphans_start)
next
  case (Other e)
  show ?thesis
  proof (cases e)
    case (SpawnFails now r)
    show ?thesis
    proof (cases "tk_heap st r")
      case (Some t)
      with Other SpawnFails st no_orphans_spawn_error [OF st Some] show ?thesis
        by (auto simp: task_settled_def)
    qed (use Other SpawnFails st in simp)
  next
    case (AsksLog now root tid c lim)
    with Other st log_of_state [of now root tid c lim st] show ?thesis
      by (auto intro!: no_orphans_prune)
  next
    case (AsksCancel now root tid)
    with Other st cancel_begin_state [of now root tid st] show ?thesis
      by (auto intro!: no_orphans_prune no_orphans_upd lawful_kill)
  next
    case (StopEnds ms)
    with Other st show ?thesis by (simp add: no_orphans_stop_end)
  qed (use Other st in \<open>auto simp: on_data_def on_close_def on_timeout_def on_force_def stop_begin_def
      close_tasks_def Let_def status_of_state no_orphans_kills
      intro!: no_orphans_upd no_orphans_prune lawful_rules\<close>)
qed

lemma commit_start_max [simp]: "tk_max (fst (commit_start now paths p st)) = tk_max st"
  by (simp add: commit_start_def Let_def split: option.split)

lemma task_step_max: "tasks_inv st \<Longrightarrow> tk_max (task_step digest le st ev) = tk_max st"
proof (cases ev)
  case (Begins cwd now rq)
  assume inv: "tasks_inv st"
  obtain st' out where "begin_start digest le cwd now rq st = (st', out)" by fastforce
  with Begins begin_start_inv [OF inv this] show ?thesis by simp
next
  case (AsksLog now root tid c lim)
  then show ?thesis using log_of_state [of now root tid c lim st] by auto
next
  case (AsksCancel now root tid)
  then show ?thesis using cancel_begin_state [of now root tid st] by auto
next
  case (StopEnds ms)
  then show ?thesis using stop_fold_del [of ms st] by (auto simp: stop_end_def)
qed (auto simp: on_data_def on_close_def on_timeout_def on_force_def on_spawn_error_def Let_def
    status_of_state stop_begin_def close_tasks_def split: option.split)

lemma start_at_once_max:
  assumes inv: "tasks_inv st"
  shows "tk_max (start_at_once digest le cwd now paths rq st) = tk_max st"
proof -
  obtain st' out where b: "begin_start digest le cwd now rq st = (st', out)" by fastforce
  with begin_start_inv [OF inv b] show ?thesis by (cases out) (simp_all add: start_at_once_def)
qed

lemma serial_step_max: "tasks_inv st \<Longrightarrow> tk_max (serial_step digest le st ev) = tk_max st"
  by (induction digest le st ev rule: serial_step.induct)
    (simp_all add: start_at_once_max task_step_max del: task_step.simps)

definition bounded_tasks :: "nat \<Rightarrow> tasks \<Rightarrow> bool" where
  "bounded_tasks m st \<longleftrightarrow> no_orphans st \<and> tk_max st = m"

interpretation serial: invariant_machine "serial_step digest le" "bounded_tasks m"
  by unfold_locales (simp add: bounded_tasks_def no_orphans_step serial_step_max no_orphans_inv)

text \<open>As long as no other call comes between the two halves of a \<open>start\<close>, the limit holds
  and no process is lost: at any time at most \<open>maxTasks\<close> tasks are registered, and every running
  task is registered under its own workspace and id, where status, cancellation and a workspace
  stop find it.\<close>

theorem serial_starts_bounded:
  "let st = run (serial_step digest le) (new_tasks max_log max_tasks retention) evs in
   length (tk_map st) \<le> max_tasks \<and>
   (\<forall>r t. tk_heap st r = Some t \<and> bt_status t = TRunning \<longrightarrow>
      find_task st (bt_root t) (bt_id t) = Some (r, t))"
proof -
  have "no_orphans (new_tasks max_log max_tasks retention)"
    by (simp add: no_orphans_def new_tasks_inv) (simp add: new_tasks_def)
  then have "bounded_tasks max_tasks (new_tasks max_log max_tasks retention)"
    by (simp add: bounded_tasks_def new_tasks_def)
  then have "bounded_tasks max_tasks
      (run (serial_step digest le) (new_tasks max_log max_tasks retention) evs)"
    by (rule serial.run_inv)
  then show ?thesis
    by (auto simp: Let_def find_task_def bounded_tasks_def no_orphans_def key_of_def)
qed

theorem serial_starts_bounded_witness:
  "\<exists>t. find_task (run (serial_step (\<lambda>_. ''f'') (\<lambda>_ _. True)) (new_tasks 10 2 1000)
     [StartsAtOnce ''/'' 0 (Some (''/ws'', ''/ws'')) demo_request]) ''/ws'' ''build'' = Some (0, t)"
proof -
  let ?st = "run (serial_step (\<lambda>_. ''f'') (\<lambda>_ _. True)) (new_tasks 10 2 1000)
     [StartsAtOnce ''/'' 0 (Some (''/ws'', ''/ws'')) demo_request]"
  obtain t where "tk_heap ?st 0 = Some t" "bt_status t = TRunning" "bt_root t = ''/ws''" "bt_id t = ''build''"
    by (simp add: start_at_once_def begin_start_def prune_tasks_def Let_def new_tasks_def demo_request_def
        make_task_capacity_def validate_task_id_def valid_task_id_def validate_argv_def ensure_def
        path_eval is_alnum_def is_alpha_def id_char_def is_lower_def is_upper_def is_digit_def
        commit_start_def fresh_task_def)
  with serial_starts_bounded [of "\<lambda>_. ''f''" "\<lambda>_ _. True" 10 2 1000
      "[StartsAtOnce ''/'' 0 (Some (''/ws'', ''/ws'')) demo_request]"]
  show ?thesis unfolding Let_def by metis
qed

text \<open>Overlapping starts lose a process. When a second \<open>start\<close> of the same request runs its
  checks before the first one has come back from its \<open>realpath\<close> calls, both pass, both spawn:
  two tasks run under one id, the first is no longer registered, and neither a cancellation of
  that id, nor stopping its workspace, nor the shutdown sends it a signal.\<close>

theorem overlapping_starts_orphan:
  assumes inv: "tasks_inv st"
    and first: "begin_start digest le cwd now rq st = (st1, Awaits p1)"
    and second: "begin_start digest le cwd now rq st1 = (st2, Awaits p2)"
    and inside: "is_path_inside root actual"
    and c1: "commit_start t1 (Some (root, actual)) p1 st2 = (st3, Inr r1)"
    and c2: "commit_start t2 (Some (root, actual)) p2 st3 = (st4, Inr r2)"
  shows "\<exists>a b. r1 \<noteq> r2 \<and> tk_heap st4 r1 = Some a \<and> tk_heap st4 r2 = Some b \<and>
    bt_status a = TRunning \<and> bt_status b = TRunning \<and> key_of a = key_of b \<and> bt_fp a = bt_fp b \<and>
    jm_get (tk_map st4) (key_of a) = Some r2 \<and>
    tk_heap (fst (cancel_begin t3 (rq_root rq) (rq_id rq) st4)) r1 = Some a \<and>
    tk_heap (fst (stop_begin (rq_root rq) st4)) r1 = Some a \<and>
    tk_heap (close_tasks st4) r1 = Some a"
proof -
  let ?k = "task_key (rq_root rq) (rq_id rq)"
  let ?a = "fresh_task (tk_log_bytes st2) t1 actual p1" let ?b = "fresh_task (tk_log_bytes st3) t2 actual p2"
  have inv1: "tasks_inv st1" using begin_start_inv [OF inv first] by simp
  have inv2: "tasks_inv st2" using begin_start_inv [OF inv1 second] by simp
  have p: "pn_request p1 = rq" "pn_key p1 = ?k" "pn_request p2 = rq" "pn_key p2 = ?k" "pn_fp p1 = pn_fp p2"
    using begin_start_Awaits [OF inv first] begin_start_Awaits [OF inv1 second] by auto
  have r: "r1 = tk_next st2" "r2 = Suc (tk_next st2)"
    and heap: "tk_heap st4 = (tk_heap st2)(r1 \<mapsto> ?a, r2 \<mapsto> ?b)"
    and map4: "tk_map st4 = jm_set (jm_set (tk_map st2) ?k r1) ?k r2" and next4: "tk_next st4 = Suc r2"
    using c1 c2 inside p by (auto simp: commit_start_def Let_def)
  have inv3: "tasks_inv st3" using commit_start_inv [OF inv2, of p1 t1 "Some (root, actual)"] c1 p by simp
  have inv4: "tasks_inv st4" using commit_start_inv [OF inv3, of p2 t2 "Some (root, actual)"] c2 p by simp
  have get: "jm_get (tk_map st4) ?k = Some r2" by (simp add: map4)
  have a: "tk_heap st4 r1 = Some ?a" and b: "tk_heap st4 r2 = Some ?b" and ne: "r1 \<noteq> r2"
    using r by (simp_all add: heap)
  have lost: "r1 \<notin> snd ` set (tk_map st4)"
    using registered [OF inv4, of r1] get a ne p by (auto simp: ref_key_def)
  have kills: "tk_heap (foldl kill_running st' rs) r1 = tk_heap st' r1" if "r1 \<notin> set rs" for st' rs
    using that by (induction rs arbitrary: st') (simp_all add: kill_running_def)
  have stop: "tk_heap (fst (stop_begin (rq_root rq) st4)) r1 = Some ?a"
    using lost a kills [of "map snd (filter (\<lambda>p. in_workspace (rq_root rq) st4 (snd p)) (tk_map st4))" st4]
    by (auto simp: stop_begin_def Let_def)
  have close: "tk_heap (close_tasks st4) r1 = Some ?a"
    using lost a kills [of "map snd (tk_map st4)" st4] by (simp add: close_tasks_def)
  have "tk_heap (fst (cancel_begin t3 (rq_root rq) (rq_id rq) st4)) r1 = Some ?a"
  proof -
    have "find_task (prune_tasks t3 st4) (rq_root rq) (rq_id rq) \<noteq> Some (r1, t)" for t
      using prune_tasks_get [OF inv4, of t3 ?k] get ne
      by (auto simp: find_task_def split: option.splits)
    then show ?thesis
      using a by (auto simp: cancel_begin_def Let_def split: sum.split option.split)
  qed
  with stop close a b ne get p show ?thesis by (intro exI [of _ ?a] exI [of _ ?b]) simp
qed

theorem overlapping_starts_orphan_witness:
  "\<exists>st1 p1 st2 p2 st3 st4 a.
     begin_start (\<lambda>_. ''f'') (\<lambda>_ _. True) ''/'' 0 demo_request (new_tasks 10 2 1000) = (st1, Awaits p1) \<and>
     begin_start (\<lambda>_. ''f'') (\<lambda>_ _. True) ''/'' 1 demo_request st1 = (st2, Awaits p2) \<and>
     commit_start 2 (Some (''/ws'', ''/ws'')) p1 st2 = (st3, Inr 0) \<and>
     commit_start 3 (Some (''/ws'', ''/ws'')) p2 st3 = (st4, Inr 1) \<and>
     tk_heap (close_tasks st4) 0 = Some a \<and> bt_status a = TRunning"
proof -
  let ?st = "new_tasks 10 2 1000"
  have prune: "prune_tasks now ?st = ?st" for now by (simp add: prune_tasks_def new_tasks_def)
  obtain p where b: "begin_start (\<lambda>_. ''f'') (\<lambda>_ _. True) ''/'' now demo_request ?st = (?st, Awaits p)" for now
    unfolding begin_start_def prune
    by (simp add: Let_def new_tasks_def demo_request_def make_task_capacity_def validate_task_id_def
        valid_task_id_def validate_argv_def ensure_def path_eval is_alnum_def is_alpha_def id_char_def
        is_lower_def is_upper_def is_digit_def)
  have inside: "is_path_inside ''/ws'' ''/ws''" by (simp add: is_path_inside_def)
  obtain st3 where c1: "commit_start 2 (Some (''/ws'', ''/ws'')) p ?st = (st3, Inr 0)"
    and "tk_next st3 = 1" by (simp add: commit_start_def inside Let_def new_tasks_def)
  then obtain st4 where c2: "commit_start 3 (Some (''/ws'', ''/ws'')) p st3 = (st4, Inr 1)"
    by (simp add: commit_start_def inside Let_def)
  from overlapping_starts_orphan [OF new_tasks_inv b b inside c1 c2, of 4] b c1 c2
  show ?thesis by blast
qed

end
