(* ===== verification/RemoteMcp.thy ===== *)
theory RemoteMcp
  imports Errors NodePath
begin

text \<open>
  \<^verbatim>\<open>src/core/remote-mcp-policy.ts\<close> and \<^verbatim>\<open>src/core/remote-mcp-adapters.ts\<close>: which MCP
  servers may be launched on the remote host, with which arguments and environment. The
  regular expressions are written out as functions on strings.
\<close>

definition local_launchers :: "string list" where
  "local_launchers = [''bash'', ''bun'', ''cmd'', ''docker'', ''node'', ''npx'', ''powershell'',
     ''pwsh'', ''python'', ''python3'', ''sh'', ''ssh'', ''uv'', ''uvx'']"

definition name_char :: "char \<Rightarrow> bool" where
  "name_char c \<longleftrightarrow> is_alnum c \<or> c \<in> set ''._+-''"

fun drop_dashes :: "nat \<Rightarrow> string \<Rightarrow> string" where
  "drop_dashes (Suc n) (c # s) = (if c = CHR ''-'' then drop_dashes n s else c # s)"
| "drop_dashes _ s = s"

text \<open>\<open>/^-{0,2}[A-Za-z0-9][A-Za-z0-9._+-]*$/\<close>; taking as many dashes as there are is right,
  since the next character must not be one.\<close>

definition safe_remote_argument :: "string \<Rightarrow> bool" where
  "safe_remote_argument s =
     (case drop_dashes 2 s of [] \<Rightarrow> False | c # t \<Rightarrow> is_alnum c \<and> list_all name_char t)"

definition lower_char :: "char \<Rightarrow> char" where
  "lower_char c = (if is_upper c then char_of ((of_char c :: nat) + 32) else c)"

definition sensitive_words :: "string list" where
  "sensitive_words = [''apikey'', ''api-key'', ''api_key'', ''auth'', ''credential'', ''password'',
     ''secret'', ''token'']"

text \<open>\<open>/(^|[-_])(api[-_]?key|auth|...|token)([-_=]|$)/i\<close>: a word at a place where it may start,
  followed by one where it may end.\<close>

definition word_here :: "string \<Rightarrow> string \<Rightarrow> bool" where
  "word_here w s \<longleftrightarrow> starts_with (map lower_char s) w \<and>
     (case drop (length w) s of [] \<Rightarrow> True | c # _ \<Rightarrow> c \<in> set ''-_='')"

fun sensitive_from :: "bool \<Rightarrow> string \<Rightarrow> bool" where
  "sensitive_from may_start [] = False"
| "sensitive_from may_start (c # s) =
     (may_start \<and> list_ex (\<lambda>w. word_here w (c # s)) sensitive_words \<or>
      sensitive_from (c \<in> set ''-_'') s)"

definition sensitive_argument :: "string \<Rightarrow> bool" where
  "sensitive_argument s = sensitive_from True s"

definition remote_mcp_executable_name :: "string \<Rightarrow> string option" where
  "remote_mcp_executable_name command =
     (let executable = basename command in
      if executable \<noteq> [] \<and> list_all name_char executable \<and> executable \<notin> set local_launchers
      then Some executable else None)"

definition remote_mcp_arguments_safe :: "string list \<Rightarrow> bool" where
  "remote_mcp_arguments_safe args =
     list_all (\<lambda>a. safe_remote_argument a \<and> \<not> sensitive_argument a) args"

definition assert_remote_mcp_launch :: "string \<Rightarrow> string list \<Rightarrow> string \<Rightarrow> bridge_error + unit" where
  "assert_remote_mcp_launch executable args root =
     (if remote_mcp_executable_name executable \<noteq> Some executable then
        throw COMMAND_DENIED ''Remote MCP executable is not eligible for routing''
      else if \<not> list_all (\<lambda>a. a = root \<or> safe_remote_argument a \<and> \<not> sensitive_argument a) args then
        throw COMMAND_DENIED ''Remote MCP arguments are not eligible for routing''
      else Inr ())"

text \<open>\<open>resolveRemoteMcpExecutable\<close>: the first candidate that is executable and resolves. The file
  system is the argument \<open>probe\<close>.\<close>

definition resolve_remote_mcp_executable ::
  "(string \<Rightarrow> string option) \<Rightarrow> string option \<Rightarrow> string \<Rightarrow> string \<Rightarrow> string option" where
  "resolve_remote_mcp_executable probe path_var home executable =
     (if remote_mcp_executable_name executable \<noteq> Some executable then None
      else
        let candidates =
          map (\<lambda>d. path_of_join [d, executable])
            (filter (\<lambda>d. d \<noteq> []) (split_on CHR '':'' (case path_var of None \<Rightarrow> [] | Some p \<Rightarrow> p))) @
          [path_of_join [home, ''.local'', ''bin'', executable],
           path_of_join [''/usr/local/bin'', executable]]
        in case List.find (\<lambda>c. probe c \<noteq> None) candidates of None \<Rightarrow> None | Some c \<Rightarrow> probe c)"

section \<open>Adapters\<close>

datatype mcp_access = AccessAll | AccessEnabled

record mcp_selection =
  ms_access :: mcp_access
  ms_executable :: string
  ms_server :: string

record mcp_launch =
  ml_args :: "string list"
  ml_env :: "(string \<times> string) list"

record mcp_request =
  mr_adapter :: "string option"
  mr_args :: "string list"
  mr_executable :: string
  mr_server :: "string option"
  mr_root :: string

definition codegraph_all_tools :: "(string \<times> string) list" where
  "codegraph_all_tools =
     [(''CODEGRAPH_MCP_TOOLS'', ''search,callers,callees,impact,node,explore,status,files'')]"

definition ident_start :: "char \<Rightarrow> bool" where
  "ident_start c \<longleftrightarrow> is_alpha c \<or> c = CHR ''_''"

definition safe_env_name :: "string \<Rightarrow> bool" where
  "safe_env_name s = (case s of [] \<Rightarrow> False
     | c # t \<Rightarrow> ident_start c \<and> list_all (\<lambda>c. ident_start c \<or> is_digit c) t)"

definition safe_env_value :: "string \<Rightarrow> bool" where
  "safe_env_value s = (case s of [] \<Rightarrow> False
     | c # t \<Rightarrow> is_alnum c \<and> length t \<le> 4095 \<and> list_all (\<lambda>c. is_alnum c \<or> c \<in> set '',._+:/-'') t)"

definition sensitive_env_words :: "string list" where
  "sensitive_env_words = [''apikey'', ''api_key'', ''auth'', ''credential'', ''password'', ''secret'', ''token'']"

definition sensitive_env_prefixes :: "string list" where
  "sensitive_env_prefixes = [''chatgpt_'', ''codex_'', ''electron_'', ''openai_'', ''vscode_'']"

definition env_word_here :: "string \<Rightarrow> string \<Rightarrow> bool" where
  "env_word_here w s \<longleftrightarrow> starts_with (map lower_char s) w \<and>
     (case drop (length w) s of [] \<Rightarrow> True | c # _ \<Rightarrow> c = CHR ''_'')"

fun sensitive_env_from :: "bool \<Rightarrow> string \<Rightarrow> bool" where
  "sensitive_env_from may_start [] = False"
| "sensitive_env_from may_start (c # s) =
     (may_start \<and> list_ex (\<lambda>w. env_word_here w (c # s)) sensitive_env_words \<or>
      sensitive_env_from (c = CHR ''_'') s)"

definition sensitive_env_name :: "string \<Rightarrow> bool" where
  "sensitive_env_name s \<longleftrightarrow> sensitive_env_from True s \<or>
     list_ex (\<lambda>p. starts_with (map lower_char s) p) sensitive_env_prefixes"

definition assert_adapter_environment :: "(string \<times> string) list \<Rightarrow> bridge_error + unit" where
  "assert_adapter_environment env =
     (if length env > 16 then
        throw COMMAND_DENIED ''Remote MCP adapter environment is too large''
      else
        foldl (\<lambda>acc (name, v). bind_res acc (\<lambda>_.
          if \<not> safe_env_name name \<or> sensitive_env_name name then
            throw COMMAND_DENIED (''Remote MCP adapter environment name is not eligible: '' @ name)
          else if \<not> safe_env_value v then
            throw COMMAND_DENIED (''Remote MCP adapter environment value is not eligible: '' @ name)
          else Inr ())) (Inr ()) env)"

definition codegraph_id :: string where
  "codegraph_id = ''codegraph-all-tools-v1''"

definition codegraph_matches :: "mcp_selection \<Rightarrow> bool" where
  "codegraph_matches s \<longleftrightarrow> ms_access s = AccessAll \<and> ms_server s = ''codegraph'' \<and>
     ms_executable s = ''codegraph''"

fun path_option :: "string \<Rightarrow> string list \<Rightarrow> bool" where
  "path_option root (a # b # rest) =
     ((a = ''--path'' \<or> a = ''-p'') \<and> b = root \<or> path_option root (b # rest))"
| "path_option root _ = False"

definition codegraph_resolve :: "mcp_request \<Rightarrow> bridge_error + mcp_launch" where
  "codegraph_resolve rq =
     (if mr_server rq \<noteq> Some ''codegraph'' \<or> mr_executable rq \<noteq> ''codegraph'' \<or>
         \<not> path_option (mr_root rq) (mr_args rq) then
        throw COMMAND_DENIED ''Remote MCP adapter does not match the launch''
      else Inr \<lparr>ml_args = mr_args rq, ml_env = codegraph_all_tools\<rparr>)"

definition select_remote_mcp_adapter :: "mcp_selection \<Rightarrow> string option" where
  "select_remote_mcp_adapter s = (if codegraph_matches s then Some codegraph_id else None)"

definition resolve_remote_mcp_launch :: "mcp_request \<Rightarrow> bridge_error + mcp_launch" where
  "resolve_remote_mcp_launch rq =
     (case mr_adapter rq of
        None \<Rightarrow> Inr \<lparr>ml_args = mr_args rq, ml_env = []\<rparr>
      | Some a \<Rightarrow>
          if a \<noteq> codegraph_id then throw COMMAND_DENIED ''Remote MCP adapter is not registered''
          else bind_res (codegraph_resolve rq) (\<lambda>launch.
            bind_res (assert_adapter_environment (ml_env launch)) (\<lambda>_. Inr launch)))"

section \<open>Properties\<close>

lemma basename_no_slash: "SLASH \<notin> set (basename p)"
proof -
  have "basename p \<in> set ([] # split_on SLASH p)"
    using last_in_set [of "[] # filter (\<lambda>s. s \<noteq> []) (split_on SLASH p)"] by (auto simp: basename_def)
  then show ?thesis using split_on_no_sep [of "basename p" SLASH p] by auto
qed

lemma safe_argument_chars:
  assumes "safe_remote_argument a"
  shows "a \<noteq> [] \<and> list_all name_char a"
proof -
  have "list_all name_char s" if "list_all name_char (drop_dashes n s)" for n s
    using that by (induction n s rule: drop_dashes.induct) (auto simp: name_char_def split: if_splits)
  moreover have "drop_dashes 2 a \<noteq> [] \<and> list_all name_char (drop_dashes 2 a)"
    using assms by (auto simp: safe_remote_argument_def name_char_def split: list.splits)
  ultimately show ?thesis by auto
qed

text \<open>What can be launched through the MCP route is a plain program name with plain
  arguments: an accepted executable has no directory part and is none of the interpreters and
  launchers, every accepted argument is the workspace root itself or a non-empty word of
  letters, digits, dots, underscores, plus and minus signs, so that it can hold no path
  separator, blank, quote, equals sign or shell metacharacter, and names no credential; and
  every argument list the client finds safe is accepted, whatever the root.\<close>

theorem mcp_launch_is_plain:
  "(assert_remote_mcp_launch executable args root = Inr () \<longleftrightarrow>
      SLASH \<notin> set executable \<and> executable \<noteq> [] \<and> list_all name_char executable \<and>
      executable \<notin> set local_launchers \<and>
      (\<forall>a\<in>set args. a = root \<or> safe_remote_argument a \<and> \<not> sensitive_argument a)) \<and>
   (\<forall>a. safe_remote_argument a \<longrightarrow> a \<noteq> [] \<and> (\<forall>c\<in>set a. name_char c) \<and> SLASH \<notin> set a) \<and>
   (remote_mcp_arguments_safe args \<and> remote_mcp_executable_name executable = Some executable \<longrightarrow>
      assert_remote_mcp_launch executable args root = Inr ())"
proof (intro conjI)
  have slash: "\<not> name_char SLASH"
    by (simp add: name_char_def is_alnum_def is_alpha_def is_lower_def is_upper_def is_digit_def)
  have base: "basename e = e" if "e \<noteq> []" "SLASH \<notin> set e" for e
    using that by (simp add: basename_def split_on_single)
  have name: "remote_mcp_executable_name executable = Some executable \<longleftrightarrow>
      SLASH \<notin> set executable \<and> executable \<noteq> [] \<and> list_all name_char executable \<and>
      executable \<notin> set local_launchers"
  proof (cases "executable \<noteq> [] \<and> SLASH \<notin> set executable")
    case True
    with base [of executable] show ?thesis by (simp add: remote_mcp_executable_name_def Let_def)
  next
    case False
    then show ?thesis
      using basename_no_slash [of executable]
      by (auto simp: remote_mcp_executable_name_def Let_def basename_def)
  qed
  show "assert_remote_mcp_launch executable args root = Inr () \<longleftrightarrow>
      SLASH \<notin> set executable \<and> executable \<noteq> [] \<and> list_all name_char executable \<and>
      executable \<notin> set local_launchers \<and>
      (\<forall>a\<in>set args. a = root \<or> safe_remote_argument a \<and> \<not> sensitive_argument a)"
    using name by (simp add: assert_remote_mcp_launch_def list_all_iff [of _ args]) blast
  show "\<forall>a. safe_remote_argument a \<longrightarrow> a \<noteq> [] \<and> (\<forall>c\<in>set a. name_char c) \<and> SLASH \<notin> set a"
    using safe_argument_chars slash by (fastforce simp: list_all_iff)
  show "remote_mcp_arguments_safe args \<and> remote_mcp_executable_name executable = Some executable \<longrightarrow>
      assert_remote_mcp_launch executable args root = Inr ()"
    by (auto simp: assert_remote_mcp_launch_def remote_mcp_arguments_safe_def list_all_iff)
qed

lemmas char_classes = is_alnum_def is_alpha_def is_lower_def is_upper_def is_digit_def

theorem mcp_launch_is_plain_witness:
  "assert_remote_mcp_launch ''codegraph'' [''serve'', ''--mcp''] ''/ws'' = Inr ()"
proof -
  have "remote_mcp_arguments_safe [''serve'', ''--mcp'']" "remote_mcp_executable_name ''codegraph'' = Some ''codegraph''"
    by code_simp+
  then show ?thesis using mcp_launch_is_plain [of "''codegraph''" "[''serve'', ''--mcp'']" "''/ws''"] by simp
qed

lemma codegraph_environment_accepted: "assert_adapter_environment codegraph_all_tools = Inr ()"
  by code_simp

text \<open>The adapter registry is consistent. Its environment passes the environment check, so
  a launch with an adapter is refused only for not matching it; a launch that resolves
  keeps its arguments, carries an environment only for the registered adapter, and then names
  the workspace root behind its path option.\<close>

theorem adapter_launches:
  "resolve_remote_mcp_launch rq = Inr launch \<longleftrightarrow>
     ml_args launch = mr_args rq \<and>
     (mr_adapter rq = None \<and> ml_env launch = [] \<or>
      mr_adapter rq = Some codegraph_id \<and> ml_env launch = codegraph_all_tools \<and>
      mr_server rq = Some ''codegraph'' \<and> mr_executable rq = ''codegraph'' \<and>
      (\<exists>pre flag rest. mr_args rq = pre @ [flag, mr_root rq] @ rest \<and> flag \<in> {''--path'', ''-p''}))"
proof -
  have path: "path_option root args \<longleftrightarrow>
      (\<exists>pre flag rest. args = pre @ [flag, root] @ rest \<and> flag \<in> {''--path'', ''-p''})" for root args
  proof (induction root args rule: path_option.induct)
    case (1 root a b rest)
    show ?case (is "_ \<longleftrightarrow> (\<exists>pre flag r. ?P pre flag r)")
    proof
      assume "path_option root (a # b # rest)"
      then consider "a \<in> {''--path'', ''-p''}" "b = root" | "path_option root (b # rest)" by auto
      then show "\<exists>pre flag r. ?P pre flag r"
      proof cases
        case 1
        then have "?P [] a rest" by simp
        then show ?thesis by blast
      next
        case 2
        then obtain pre flag r where "b # rest = pre @ [flag, root] @ r" "flag \<in> {''--path'', ''-p''}"
          using 1 by blast
        then have "?P (a # pre) flag r" by simp
        then show ?thesis by blast
      qed
    next
      assume "\<exists>pre flag r. ?P pre flag r"
      then obtain pre flag r where p: "a # b # rest = pre @ [flag, root] @ r" "flag \<in> {''--path'', ''-p''}"
        by blast
      show "path_option root (a # b # rest)"
      proof (cases pre)
        case Nil
        with p show ?thesis by auto
      next
        case (Cons x pre')
        with p have "b # rest = pre' @ [flag, root] @ r" by simp
        then have "path_option root (b # rest)" using 1 p(2) by blast
        then show ?thesis by simp
      qed
    qed
  qed (auto simp: append_eq_Cons_conv Cons_eq_append_conv)
  show ?thesis
    using codegraph_environment_accepted path [of "mr_root rq" "mr_args rq"]
    by (cases launch)
      (auto simp: resolve_remote_mcp_launch_def codegraph_resolve_def split: option.splits if_splits)
qed

end
