(* ===== verification/StdioSessions.thy ===== *)
theory StdioSessions
  imports RemoteMcp TaskLog
begin

text \<open>
  \<^verbatim>\<open>src/remote-extension/stdio-sessions.ts\<close>: the MCP server processes the remote extension
  keeps for the controller. Session objects are shared between the map and the callbacks
  of their child, so they live in a store. \<open>start\<close> is split at its first \<open>await\<close>. Events are
  emitted through one promise chain per session, hence in the order they are queued: the
  queue is the list \<open>ss_out\<close>. What is written to a child's standard input is \<open>ss_in\<close>.
\<close>

datatype stdio_event =
    StdioData log_channel string
  | StdioExit "int option" "string option"

record session =
  ss_signals :: "string list"
  ss_force :: bool
  ss_out :: "stdio_event list"
  ss_in :: "byte list list"
  ss_ended :: bool
  ss_settled :: bool
  ss_root :: string
  ss_id :: string
  ss_frame :: int

record sessions =
  sn_heap :: "nat \<Rightarrow> session option"
  sn_next :: nat
  sn_map :: "(string, nat) jsmap"

record stdio_start =
  st_adapter :: "string option"
  st_args :: "string list"
  st_executable :: string
  st_id :: string
  st_frame :: int
  st_server :: "string option"
  st_root :: string

definition no_sessions :: sessions where
  "no_sessions = \<lparr>sn_heap = (\<lambda>_. None), sn_next = 0, sn_map = []\<rparr>"

definition begin_session :: "stdio_start \<Rightarrow> sessions \<Rightarrow> bridge_error + mcp_launch" where
  "begin_session rq st =
     (if jm_get (sn_map st) (st_id rq) \<noteq> None then
        throw PROTOCOL_MISMATCH ''Duplicate remote stdio session id''
      else
        bind_res (resolve_remote_mcp_launch
          \<lparr>mr_adapter = st_adapter rq, mr_args = st_args rq, mr_executable = st_executable rq,
           mr_server = st_server rq, mr_root = st_root rq\<rparr>) (\<lambda>launch.
        bind_res (assert_remote_mcp_launch (st_executable rq) (ml_args launch) (st_root rq)) (\<lambda>_.
        Inr launch)))"

text \<open>From the results of \<open>realpath\<close> and the executable search on.\<close>

definition commit_session ::
  "string option \<Rightarrow> stdio_start \<Rightarrow> sessions \<Rightarrow> sessions \<times> (bridge_error + nat)" where
  "commit_session executable rq st =
     (case executable of
        None \<Rightarrow> (st, throw REMOTE_TRANSPORT_DISCONNECTED
          (''Remote MCP executable was not found: '' @ st_executable rq))
      | Some _ \<Rightarrow>
          let r = sn_next st in
          (st\<lparr>sn_heap := (sn_heap st)(r \<mapsto>
                \<lparr>ss_signals = [], ss_force = False, ss_out = [], ss_in = [], ss_ended = False,
                 ss_settled = False, ss_root = st_root rq, ss_id = st_id rq, ss_frame = st_frame rq\<rparr>),
              sn_next := Suc r, sn_map := jm_set (sn_map st) (st_id rq) r\<rparr>, Inr r))"

definition upd_session :: "nat \<Rightarrow> (session \<Rightarrow> session) \<Rightarrow> sessions \<Rightarrow> sessions" where
  "upd_session r f st = st\<lparr>sn_heap := (sn_heap st)(r := map_option f (sn_heap st r))\<rparr>"

text \<open>\<open>queueData\<close>: frames of at most \<open>max(1, maxFrameBytes)\<close> bytes.\<close>

function frames :: "nat \<Rightarrow> byte list \<Rightarrow> byte list list" where
  "frames limit bs =
     (if bs = [] then [] else take (max 1 limit) bs # frames limit (drop (max 1 limit) bs))"
  by auto
termination by (relation "measure (\<lambda>(l, bs). length bs)") auto

declare frames.simps [simp del]

lemma frames_Nil [simp]: "frames limit [] = []"
  by (simp add: frames.simps)

definition frame_limit :: "int \<Rightarrow> nat" where
  "frame_limit max_frame_bytes = nat (max 1 max_frame_bytes)"

definition on_session_data :: "nat \<Rightarrow> log_channel \<Rightarrow> byte list \<Rightarrow> sessions \<Rightarrow> sessions" where
  "on_session_data r ch bs = upd_session r (\<lambda>s. s\<lparr>ss_out := ss_out s @
     map (\<lambda>f. StdioData ch (base64 f)) (frames (frame_limit (ss_frame s)) bs)\<rparr>)"

definition on_session_close :: "nat \<Rightarrow> int option \<Rightarrow> string option \<Rightarrow> sessions \<Rightarrow> sessions" where
  "on_session_close r code sig st =
     (case sn_heap st r of
        None \<Rightarrow> st
      | Some s \<Rightarrow>
          upd_session r (\<lambda>s. s\<lparr>ss_force := False, ss_settled := True,
              ss_out := ss_out s @ [StdioExit code sig]\<rparr>)
            (st\<lparr>sn_map := jm_del (sn_map st) (ss_id s)\<rparr>))"

definition on_session_error :: "nat \<Rightarrow> sessions \<Rightarrow> sessions" where
  "on_session_error r st =
     (case sn_heap st r of
        None \<Rightarrow> st
      | Some s \<Rightarrow> upd_session r (\<lambda>s. s\<lparr>ss_settled := True\<rparr>)
          (st\<lparr>sn_map := jm_del (sn_map st) (ss_id s)\<rparr>))"

definition unavailable :: "bridge_error + 'a" where
  "unavailable = throw REMOTE_TRANSPORT_DISCONNECTED ''Remote stdio session is unavailable''"

definition write_session :: "string \<Rightarrow> string \<Rightarrow> int \<Rightarrow> sessions \<Rightarrow> sessions \<times> (bridge_error + unit)" where
  "write_session sid encoded max_frame st =
     (case jm_get (sn_map st) sid of
        None \<Rightarrow> (st, unavailable)
      | Some r \<Rightarrow>
          if \<not> valid_base64 encoded then
            (st, throw PROTOCOL_MISMATCH ''Remote stdio input is not valid base64'')
          else
            let chunk = unbase64 encoded in
            if int (length chunk) > max_frame then
              (st, throw OUTPUT_TRUNCATED ''Remote stdio input frame exceeds the limit'')
            else (upd_session r (\<lambda>s. s\<lparr>ss_in := ss_in s @ [chunk]\<rparr>) st, Inr ()))"

definition end_session :: "string \<Rightarrow> sessions \<Rightarrow> sessions \<times> (bridge_error + unit)" where
  "end_session sid st =
     (case jm_get (sn_map st) sid of
        None \<Rightarrow> (st, unavailable)
      | Some r \<Rightarrow> (upd_session r (\<lambda>s. s\<lparr>ss_ended := True\<rparr>) st, Inr ()))"

definition stop_session :: "string \<Rightarrow> sessions \<Rightarrow> sessions" where
  "stop_session sid st =
     (case jm_get (sn_map st) sid of
        None \<Rightarrow> st
      | Some r \<Rightarrow>
          upd_session r (\<lambda>s. s\<lparr>ss_signals := ss_signals s @ [''SIGTERM''], ss_force := True\<rparr>)
            (st\<lparr>sn_map := jm_del (sn_map st) sid\<rparr>))"

definition on_session_force :: "nat \<Rightarrow> sessions \<Rightarrow> sessions" where
  "on_session_force r = upd_session r (\<lambda>s.
     if ss_force s then s\<lparr>ss_signals := ss_signals s @ [''SIGKILL'']\<rparr> else s)"

text \<open>\<open>stopWorkspace\<close> up to its wait, and \<open>close\<close>.\<close>

definition session_in :: "string \<Rightarrow> sessions \<Rightarrow> nat \<Rightarrow> bool" where
  "session_in root st r = (case sn_heap st r of None \<Rightarrow> False | Some s \<Rightarrow> ss_root s = root)"

definition stop_sessions :: "string \<Rightarrow> sessions \<Rightarrow> sessions \<times> nat" where
  "stop_sessions root st =
     (let ms = filter (\<lambda>p. session_in root st (snd p)) (sn_map st)
      in (foldl (\<lambda>st sid. stop_session sid st) st (map fst ms), length ms))"

definition close_sessions :: "sessions \<Rightarrow> sessions" where
  "close_sessions st = foldl (\<lambda>st sid. stop_session sid st) st (map fst (sn_map st))"

section \<open>Properties\<close>

lemma concat_frames: "concat (frames limit bs) = bs"
proof (induction limit bs rule: frames.induct)
  case (1 limit bs)
  then show ?case by (cases "bs = []") (simp_all add: frames.simps [of limit bs])
qed

lemma frames_bounded:
  "f \<in> set (frames limit bs) \<Longrightarrow> f \<noteq> [] \<and> length f \<le> max 1 limit"
proof (induction limit bs rule: frames.induct)
  case (1 limit bs)
  then show ?case
    by (cases "bs = []") (auto simp: frames.simps [of limit bs])
qed

text \<open>What the controller gets from a session's events: the bytes of the two channels.\<close>

fun event_bytes :: "stdio_event \<Rightarrow> stream" where
  "event_bytes (StdioData ch text) = tag ch (unbase64 text)"
| "event_bytes (StdioExit code sig) = []"

definition out_bytes :: "session \<Rightarrow> stream" where
  "out_bytes s = concat (map event_bytes (ss_out s))"

datatype session_event =
    SessionCommits "string option" stdio_start
  | SessionWrites nat log_channel "byte list"
  | SessionCloses nat "int option" "string option"
  | SessionFails nat
  | SessionInput string string int
  | SessionEnds string
  | SessionStops string
  | SessionForces nat
  | SessionsStop string
  | SessionsClose

fun session_step :: "sessions \<Rightarrow> session_event \<Rightarrow> sessions" where
  "session_step st (SessionCommits executable rq) = fst (commit_session executable rq st)"
| "session_step st (SessionWrites r ch bs) = on_session_data r ch bs st"
| "session_step st (SessionCloses r code sig) = on_session_close r code sig st"
| "session_step st (SessionFails r) = on_session_error r st"
| "session_step st (SessionInput sid text lim) = fst (write_session sid text lim st)"
| "session_step st (SessionEnds sid) = fst (end_session sid st)"
| "session_step st (SessionStops sid) = stop_session sid st"
| "session_step st (SessionForces r) = on_session_force r st"
| "session_step st (SessionsStop root) = fst (stop_sessions root st)"
| "session_step st SessionsClose = close_sessions st"

definition sessions_inv :: "sessions \<Rightarrow> bool" where
  "sessions_inv st \<longleftrightarrow>
     (\<forall>r s. sn_heap st r = Some s \<longrightarrow> r < sn_next st) \<and>
     (\<forall>k r. jm_get (sn_map st) k = Some r \<longrightarrow> (\<exists>s. sn_heap st r = Some s \<and> ss_id s = k))"

lemma sessions_inv_get:
  "sessions_inv st \<Longrightarrow> jm_get (sn_map st) k = Some r \<Longrightarrow>
   \<exists>s. sn_heap st r = Some s \<and> ss_id s = k \<and> r < sn_next st"
  unfolding sessions_inv_def by blast

lemma upd_session_simps [simp]:
  "sn_heap (upd_session r f st) r' = (if r' = r then map_option f (sn_heap st r) else sn_heap st r')"
  "sn_next (upd_session r f st) = sn_next st" "sn_map (upd_session r f st) = sn_map st"
  by (simp_all add: upd_session_def)

text \<open>What one event adds to the stream of session \<open>r\<close>.\<close>

fun session_chunk :: "nat \<Rightarrow> session_event \<Rightarrow> (log_channel \<times> byte list) list" where
  "session_chunk r (SessionWrites r' ch bs) = (if r' = r then [(ch, bs)] else [])"
| "session_chunk r _ = []"

definition frame_events :: "session \<Rightarrow> log_channel \<Rightarrow> byte list \<Rightarrow> stdio_event list" where
  "frame_events s ch bs = map (\<lambda>f. StdioData ch (base64 f)) (frames (frame_limit (ss_frame s)) bs)"

lemma frame_events_bytes: "concat (map event_bytes (frame_events s ch bs)) = tag ch bs"
proof -
  have "concat (map (\<lambda>f. tag ch f) fs) = tag ch (concat fs)" for fs
    by (induction fs) (auto simp: tag_def)
  then show ?thesis by (simp add: frame_events_def concat_frames comp_def)
qed

lemma frame_limit_max [simp]: "max (Suc 0) (frame_limit k) = frame_limit k"
  by (simp add: frame_limit_def)

lemma stop_session_heap:
  "sn_heap (stop_session sid st) r =
     (if jm_get (sn_map st) sid = Some r
      then map_option (\<lambda>s. s\<lparr>ss_signals := ss_signals s @ [''SIGTERM''], ss_force := True\<rparr>) (sn_heap st r)
      else sn_heap st r)"
  by (auto simp: stop_session_def split: option.split)

lemma stop_session_next [simp]: "sn_next (stop_session sid st) = sn_next st"
  by (auto simp: stop_session_def split: option.split)

lemma stop_session_map:
  "jm_get (sn_map (stop_session sid st)) k = (if k = sid then None else jm_get (sn_map st) k)"
  by (auto simp: stop_session_def split: option.split)

text \<open>What no event but the child's own output changes: the frames queued and the limits.\<close>

definition same_output :: "session option \<Rightarrow> session option \<Rightarrow> bool" where
  "same_output a b \<longleftrightarrow> map_option (\<lambda>s. (ss_out s, ss_frame s, ss_id s)) a =
     map_option (\<lambda>s. (ss_out s, ss_frame s, ss_id s)) b"

lemma same_output_refl [simp]: "same_output a a"
  by (simp add: same_output_def)

lemma same_output_trans: "same_output a b \<Longrightarrow> same_output b c \<Longrightarrow> same_output a c"
  by (simp add: same_output_def)

lemma stop_session_output: "same_output (sn_heap (stop_session sid st) r) (sn_heap st r)"
  by (cases "sn_heap st r") (auto simp: stop_session_heap same_output_def)

lemma stop_fold_output: "same_output (sn_heap (foldl (\<lambda>st sid. stop_session sid st) st ids) r) (sn_heap st r)"
  by (induction ids arbitrary: st) (auto intro: same_output_trans stop_session_output)

lemma stop_fold_next [simp]: "sn_next (foldl (\<lambda>st sid. stop_session sid st) st ids) = sn_next st"
  by (induction ids arbitrary: st) auto

lemma same_outputE:
  "same_output a b \<Longrightarrow> b = Some s \<Longrightarrow> \<exists>s'. a = Some s' \<and> ss_out s' = ss_out s \<and> ss_frame s' = ss_frame s"
  by (auto simp: same_output_def)

lemma session_step_output:
  assumes s: "sn_heap st r = Some s" and below: "r < sn_next st"
  shows "\<exists>s'. sn_heap (session_step st ev) r = Some s' \<and> ss_frame s' = ss_frame s \<and>
    out_bytes s' = out_bytes s @ chunks_bytes (session_chunk r ev) \<and> r < sn_next (session_step st ev)"
proof (cases ev)
  case (SessionCommits executable rq)
  with assms show ?thesis
    by (auto simp: commit_session_def Let_def chunks_bytes_def split: option.split)
next
  case (SessionWrites r' ch bs)
  with assms show ?thesis
    using frame_events_bytes [of s ch bs]
    by (auto simp: on_session_data_def out_bytes_def chunks_bytes_def frame_events_def)
next
  case (SessionStops sid)
  with assms same_outputE [OF stop_session_output s, of sid] show ?thesis
    by (auto simp: out_bytes_def chunks_bytes_def)
next
  case (SessionsStop root)
  obtain s' where "sn_heap (session_step st ev) r = Some s'" "ss_out s' = ss_out s" "ss_frame s' = ss_frame s"
    using SessionsStop same_outputE [OF stop_fold_output s] by (auto simp: stop_sessions_def Let_def)
  with SessionsStop below show ?thesis
    by (auto simp: stop_sessions_def Let_def out_bytes_def chunks_bytes_def)
next
  case SessionsClose
  obtain s' where "sn_heap (session_step st ev) r = Some s'" "ss_out s' = ss_out s" "ss_frame s' = ss_frame s"
    using SessionsClose same_outputE [OF stop_fold_output s] by (auto simp: close_sessions_def)
  with SessionsClose below show ?thesis
    by (auto simp: close_sessions_def out_bytes_def chunks_bytes_def)
next
  case (SessionCloses r' code sig)
  with assms show ?thesis
    by (auto simp: on_session_close_def out_bytes_def chunks_bytes_def split: option.split)
next
  case (SessionFails r')
  with assms show ?thesis
    by (auto simp: on_session_error_def out_bytes_def chunks_bytes_def split: option.split)
next
  case (SessionForces r')
  have "sn_heap (session_step st ev) r =
      Some (if r' = r \<and> ss_force s then s\<lparr>ss_signals := ss_signals s @ [''SIGKILL'']\<rparr> else s)"
    using SessionForces s by (cases "r' = r") (simp_all add: on_session_force_def upd_session_def)
  with SessionForces below show ?thesis
    by (simp add: on_session_force_def out_bytes_def chunks_bytes_def)
qed (use assms in \<open>auto simp: write_session_def end_session_def out_bytes_def
    chunks_bytes_def unavailable_def Let_def split: option.split\<close>)

text \<open>C20. The output of a remote MCP process arrives complete, in order and per channel. Whatever
  starts, inputs, stops and exits of this and other sessions come between, decoding the events
  queued for a session gives exactly the chunks its child has written, in the order
  written; and each chunk is cut into non-empty frames within the frame limit.\<close>

theorem stdio_lossless:
  assumes "sn_heap st r = Some s" and "r < sn_next st"
  shows "(\<exists>s'. sn_heap (run session_step st evs) r = Some s' \<and>
      out_bytes s' = out_bytes s @ chunks_bytes (concat (map (session_chunk r) evs))) \<and>
    (\<forall>f\<in>set (frames (frame_limit (ss_frame s)) bs). f \<noteq> [] \<and> length f \<le> frame_limit (ss_frame s))"
proof
  show "\<exists>s'. sn_heap (run session_step st evs) r = Some s' \<and>
      out_bytes s' = out_bytes s @ chunks_bytes (concat (map (session_chunk r) evs))"
    using assms
  proof (induction evs arbitrary: st s)
    case Nil
    then show ?case by (simp add: chunks_bytes_def)
  next
    case (Cons ev evs)
    obtain s1 where s1: "sn_heap (session_step st ev) r = Some s1"
      "out_bytes s1 = out_bytes s @ chunks_bytes (session_chunk r ev)"
      "r < sn_next (session_step st ev)"
      using session_step_output [OF Cons.prems] by blast
    from Cons.IH [OF s1(1,3)] s1(2) show ?case by (auto simp: chunks_bytes_def)
  qed
  show "\<forall>f\<in>set (frames (frame_limit (ss_frame s)) bs). f \<noteq> [] \<and> length f \<le> frame_limit (ss_frame s)"
    using frames_bounded [of _ "frame_limit (ss_frame s)" bs] by (auto simp: frame_limit_def)
qed

definition demo_session :: stdio_start where
  "demo_session = \<lparr>st_adapter = None, st_args = [], st_executable = ''srv'', st_id = ''s1'',
     st_frame = 2, st_server = None, st_root = ''/ws''\<rparr>"

theorem stdio_lossless_witness:
  "\<exists>s. sn_heap (run session_step (fst (commit_session (Some ''/bin/srv'') demo_session no_sessions))
      [SessionWrites 0 Stdout [1, 2, 3], SessionStops ''s1'', SessionWrites 0 Stderr [4]]) 0 = Some s \<and>
     out_bytes s = [(Stdout, 1), (Stdout, 2), (Stdout, 3), (Stderr, 4)]"
proof -
  let ?st = "fst (commit_session (Some ''/bin/srv'') demo_session no_sessions)"
  obtain s where s: "sn_heap ?st 0 = Some s" "out_bytes s = []"
    by (simp add: commit_session_def no_sessions_def Let_def out_bytes_def)
  have "0 < sn_next ?st" by (simp add: commit_session_def Let_def)
  from stdio_lossless [OF s(1) this, of "[SessionWrites 0 Stdout [1, 2, 3], SessionStops ''s1'', SessionWrites 0 Stderr [4]]"] s(2)
  show ?thesis by (auto simp: chunks_bytes_def tag_def)
qed

lemma stop_fold_map:
  "jm_get (sn_map (foldl (\<lambda>st sid. stop_session sid st) st ids)) k =
     (if k \<in> set ids then None else jm_get (sn_map st) k)"
  by (induction ids arbitrary: st) (auto simp: stop_session_map)

lemma sessions_inv_weaken:
  assumes inv: "sessions_inv st" and "sn_next st \<le> sn_next st'"
    and heap: "\<And>r. map_option ss_id (sn_heap st' r) = map_option ss_id (sn_heap st r)"
    and map: "\<And>k r. jm_get (sn_map st') k = Some r \<Longrightarrow> jm_get (sn_map st) k = Some r"
  shows "sessions_inv st'"
  unfolding sessions_inv_def
proof (intro conjI allI impI)
  fix r s assume "sn_heap st' r = Some s"
  then have "map_option ss_id (sn_heap st r) = Some (ss_id s)" using heap [of r] by simp
  then show "r < sn_next st'" using inv assms(2) by (fastforce simp: sessions_inv_def)
next
  fix k r assume "jm_get (sn_map st') k = Some r"
  from sessions_inv_get [OF inv map [OF this]] obtain s where "sn_heap st r = Some s" "ss_id s = k"
    by blast
  then have "map_option ss_id (sn_heap st' r) = Some k" using heap [of r] by simp
  then show "\<exists>s. sn_heap st' r = Some s \<and> ss_id s = k" by auto
qed

lemma stop_fold_ids: "map_option ss_id (sn_heap (foldl (\<lambda>st sid. stop_session sid st) st ids) r) =
    map_option ss_id (sn_heap st r)"
  using stop_fold_output [of st ids r]
  by (cases "sn_heap st r") (auto simp: same_output_def)

lemma session_step_inv: "sessions_inv st \<Longrightarrow> sessions_inv (session_step st ev)"
proof (cases ev)
  case (SessionCommits executable rq)
  assume inv: "sessions_inv st"
  then have "sn_heap st (sn_next st) = None"
    by (metis sessions_inv_def less_irrefl not_None_eq)
  with SessionCommits inv show ?thesis
    by (fastforce simp: commit_session_def Let_def sessions_inv_def less_Suc_eq split: option.split)
next
  case (SessionStops sid)
  assume inv: "sessions_inv st"
  show ?thesis
    unfolding SessionStops session_step.simps
    using stop_fold_ids [of st "[sid]"]
    by (intro sessions_inv_weaken [OF inv]) (auto simp: stop_session_map split: if_splits)
next
  case (SessionsStop root)
  assume inv: "sessions_inv st"
  show ?thesis
    unfolding SessionsStop session_step.simps stop_sessions_def Let_def fst_conv
    by (intro sessions_inv_weaken [OF inv] stop_fold_ids) (auto simp: stop_fold_map split: if_splits)
next
  case SessionsClose
  assume inv: "sessions_inv st"
  show ?thesis
    unfolding SessionsClose session_step.simps close_sessions_def
    by (intro sessions_inv_weaken [OF inv] stop_fold_ids) (auto simp: stop_fold_map split: if_splits)
next
  case (SessionCloses r code sig)
  assume inv: "sessions_inv st"
  show ?thesis
    unfolding SessionCloses session_step.simps
    by (rule sessions_inv_weaken [OF inv])
      (auto simp: on_session_close_def option.map_comp comp_def split: option.splits if_splits)
next
  case (SessionFails r)
  assume inv: "sessions_inv st"
  show ?thesis
    unfolding SessionFails session_step.simps
    by (rule sessions_inv_weaken [OF inv])
      (auto simp: on_session_error_def option.map_comp comp_def split: option.splits if_splits)
next
  case (SessionWrites r ch bs)
  assume inv: "sessions_inv st"
  show ?thesis
    unfolding SessionWrites session_step.simps
    by (rule sessions_inv_weaken [OF inv]) (auto simp: on_session_data_def option.map_comp comp_def)
next
  case (SessionInput sid t lim)
  assume inv: "sessions_inv st"
  show ?thesis
    unfolding SessionInput session_step.simps
    by (rule sessions_inv_weaken [OF inv])
      (auto simp: write_session_def Let_def option.map_comp comp_def split: option.splits if_splits)
next
  case (SessionEnds sid)
  assume inv: "sessions_inv st"
  show ?thesis
    unfolding SessionEnds session_step.simps
    by (rule sessions_inv_weaken [OF inv])
      (auto simp: end_session_def option.map_comp comp_def split: option.splits if_splits)
next
  case (SessionForces r)
  assume inv: "sessions_inv st"
  have id: "ss_id (if ss_force s then s\<lparr>ss_signals := ss_signals s @ [''SIGKILL'']\<rparr> else s) = ss_id s" for s
    by simp
  show ?thesis
    unfolding SessionForces session_step.simps
    by (rule sessions_inv_weaken [OF inv]) (auto simp: on_session_force_def option.map_comp comp_def id)
qed

interpretation session_machine: invariant_machine session_step sessions_inv
  by unfold_locales (rule session_step_inv)

text \<open>A close that arrives late removes a stranger. When a session is stopped and its id is
  started again before the old process has exited, the exit of the old process takes the new
  session out of the map: its process goes on running, but input for the id is refused, and stopping
  the id, its workspace or everything sends it no signal.\<close>

theorem stale_close_drops_session:
  assumes inv: "sessions_inv st" and old: "jm_get (sn_map st) (st_id rq) = Some r1"
    and st2: "st2 = session_step (session_step (session_step st (SessionStops (st_id rq)))
      (SessionCommits (Some exe) rq)) (SessionCloses r1 code sig)"
  shows "\<exists>s2. sn_heap st2 (sn_next st) = Some s2 \<and> \<not> ss_settled s2 \<and> ss_signals s2 = [] \<and>
    jm_get (sn_map st2) (st_id rq) = None \<and>
    snd (write_session (st_id rq) text lim st2) = unavailable \<and>
    sn_heap (stop_session (st_id rq) st2) (sn_next st) = Some s2 \<and>
    sn_heap (fst (stop_sessions (st_root rq) st2)) (sn_next st) = Some s2 \<and>
    sn_heap (close_sessions st2) (sn_next st) = Some s2"
proof -
  obtain s1 where s1: "sn_heap st r1 = Some s1" "ss_id s1 = st_id rq" "r1 < sn_next st"
    using sessions_inv_get [OF inv old] by blast
  let ?n = "sn_next st"
  obtain s2 where s2: "sn_heap st2 ?n = Some s2" "\<not> ss_settled s2" "ss_signals s2 = []"
    using s1 old by (auto simp: st2 commit_session_def Let_def on_session_close_def stop_session_heap)
  have gone: "jm_get (sn_map st2) (st_id rq) = None"
    and other: "jm_get (sn_map st2) k = Some ?n \<longrightarrow> False" for k
    using s1 old inv
    by (auto simp: st2 commit_session_def Let_def on_session_close_def stop_session_heap
        stop_session_map dest: sessions_inv_get [OF inv])
  have stops: "sn_heap (foldl (\<lambda>st sid. stop_session sid st) st' ids) ?n = sn_heap st' ?n"
    if "\<And>k. jm_get (sn_map st') k \<noteq> Some ?n" for st' ids
    using that
    by (induction ids arbitrary: st') (auto simp: stop_session_heap stop_session_map)
  show ?thesis
    using s2 gone other stops [of st2]
    by (auto simp: write_session_def stop_session_heap stop_sessions_def close_sessions_def Let_def)
qed

theorem stale_close_drops_session_witness:
  "\<exists>s2. sn_heap (run session_step (fst (commit_session (Some ''/bin/srv'') demo_session no_sessions))
      [SessionStops ''s1'', SessionCommits (Some ''/bin/srv'') demo_session, SessionCloses 0 (Some 0) None,
       SessionsClose]) 1 = Some s2 \<and> \<not> ss_settled s2 \<and> ss_signals s2 = []"
proof -
  let ?st = "fst (commit_session (Some ''/bin/srv'') demo_session no_sessions)"
  have "sessions_inv no_sessions" by (simp add: sessions_inv_def no_sessions_def)
  from session_step_inv [OF this, of "SessionCommits (Some ''/bin/srv'') demo_session"]
  have inv: "sessions_inv ?st" by simp
  have old: "jm_get (sn_map ?st) (st_id demo_session) = Some 0" and n: "sn_next ?st = 1"
    by (simp_all add: commit_session_def no_sessions_def Let_def)
  have "st_id demo_session = ''s1''" by (simp add: demo_session_def)
  with stale_close_drops_session [OF inv old refl, of "''/bin/srv''" "Some 0" None] n
  show ?thesis by auto
qed

end
