(* ===== verification/Mutations.thy ===== *)
theory Mutations
  imports Errors Bytes
begin

text \<open>
  \<^verbatim>\<open>src/core/workspace-mutations.ts\<close>: the checks and the text patch behind every workspace
  write. A text is its list of Unicode code points; the UTF-8 codec of the standard library
  (\<open>TextDecoder\<close> in fatal mode, \<open>Buffer.from(text, "utf8")\<close>) is modelled on those, the
  digest function is an argument. Texts are well-formed, they hold no lone surrogates.
\<close>

section \<open>UTF-8\<close>

type_synonym ctext = "nat list"

definition scalar :: "nat \<Rightarrow> bool" where
  "scalar c \<longleftrightarrow> c < 0xD800 \<or> 0xE000 \<le> c \<and> c < 0x110000"

definition byte_of :: "nat \<Rightarrow> byte" where
  "byte_of n = of_nat n"

definition utf8_char :: "nat \<Rightarrow> byte list" where
  "utf8_char c =
     (if c < 0x80 then [byte_of c]
      else if c < 0x800 then [byte_of (0xC0 + c div 64), byte_of (0x80 + c mod 64)]
      else if c < 0x10000 then
        [byte_of (0xE0 + c div 4096), byte_of (0x80 + c div 64 mod 64), byte_of (0x80 + c mod 64)]
      else
        [byte_of (0xF0 + c div 262144), byte_of (0x80 + c div 4096 mod 64),
         byte_of (0x80 + c div 64 mod 64), byte_of (0x80 + c mod 64)])"

definition utf8 :: "ctext \<Rightarrow> byte list" where
  "utf8 t = concat (map utf8_char t)"

definition continuation :: "byte \<Rightarrow> bool" where
  "continuation b \<longleftrightarrow> 0x80 \<le> unat b \<and> unat b < 0xC0"

text \<open>The strict decoder: no stray, missing or overlong bytes, no surrogates.\<close>

definition check_char :: "nat \<Rightarrow> nat \<Rightarrow> nat option" where
  "check_char least c = (if least \<le> c \<and> scalar c then Some c else None)"

fun utf8_decode :: "byte list \<Rightarrow> ctext option" where
  "utf8_decode [] = Some []"
| "utf8_decode (a # bs) =
     (if unat a < 0x80 then map_option ((#) (unat a)) (utf8_decode bs)
      else if unat a < 0xC0 then None
      else if unat a < 0xE0 then
        (case bs of
           b # bs' \<Rightarrow>
             if continuation b then
               (case check_char 0x80 ((unat a - 0xC0) * 64 + (unat b - 0x80)) of
                  None \<Rightarrow> None | Some c \<Rightarrow> map_option ((#) c) (utf8_decode bs'))
             else None
         | _ \<Rightarrow> None)
      else if unat a < 0xF0 then
        (case bs of
           b # c # bs' \<Rightarrow>
             if continuation b \<and> continuation c then
               (case check_char 0x800 ((unat a - 0xE0) * 4096 + (unat b - 0x80) * 64 + (unat c - 0x80)) of
                  None \<Rightarrow> None | Some d \<Rightarrow> map_option ((#) d) (utf8_decode bs'))
             else None
         | _ \<Rightarrow> None)
      else if unat a < 0xF8 then
        (case bs of
           b # c # d # bs' \<Rightarrow>
             if continuation b \<and> continuation c \<and> continuation d then
               (case check_char 0x10000 ((unat a - 0xF0) * 262144 + (unat b - 0x80) * 4096 +
                   (unat c - 0x80) * 64 + (unat d - 0x80)) of
                  None \<Rightarrow> None | Some e \<Rightarrow> map_option ((#) e) (utf8_decode bs'))
             else None
         | _ \<Rightarrow> None)
      else None)"

lemma byte_val [simp]: "n < 256 \<Longrightarrow> unat (byte_of n) = n"
  by (simp add: byte_of_def unat_of_nat take_bit_eq_mod)

lemma continuation_byte [simp]: "n < 64 \<Longrightarrow> continuation (byte_of (0x80 + n))"
  by (simp add: continuation_def)

lemma check_char_Some: "least \<le> c \<Longrightarrow> scalar c \<Longrightarrow> check_char least c = Some c"
  by (simp add: check_char_def)

declare utf8_decode.simps(2) [simp del]

lemma decode_two:
  assumes "a < 32" and "b < 64" and "0x80 \<le> a * 64 + b" and "scalar (a * 64 + b)"
  shows "utf8_decode (byte_of (0xC0 + a) # byte_of (0x80 + b) # bs) =
    map_option ((#) (a * 64 + b)) (utf8_decode bs)"
  using assms check_char_Some [OF assms(3,4)] by (simp add: utf8_decode.simps)

lemma decode_three:
  assumes "a < 16" and "b < 64" and "c < 64" and "0x800 \<le> a * 4096 + b * 64 + c"
    and "scalar (a * 4096 + b * 64 + c)"
  shows "utf8_decode (byte_of (0xE0 + a) # byte_of (0x80 + b) # byte_of (0x80 + c) # bs) =
    map_option ((#) (a * 4096 + b * 64 + c)) (utf8_decode bs)"
  using assms check_char_Some [OF assms(4,5)] by (simp add: utf8_decode.simps)

lemma decode_four:
  assumes "a < 8" and "b < 64" and "c < 64" and "d < 64"
    and "0x10000 \<le> a * 262144 + b * 4096 + c * 64 + d" and "scalar (a * 262144 + b * 4096 + c * 64 + d)"
  shows "utf8_decode (byte_of (0xF0 + a) # byte_of (0x80 + b) # byte_of (0x80 + c) # byte_of (0x80 + d) # bs) =
    map_option ((#) (a * 262144 + b * 4096 + c * 64 + d)) (utf8_decode bs)"
  using assms check_char_Some [OF assms(5,6)] by (simp add: utf8_decode.simps)

lemma base64_digits:
  fixes c :: nat
  shows "c div 64 * 64 + c mod 64 = c"
    "c div 4096 * 4096 + c div 64 mod 64 * 64 + c mod 64 = c"
    "c div 262144 * 262144 + c div 4096 mod 64 * 4096 + c div 64 mod 64 * 64 + c mod 64 = c"
proof -
  have two: "c div 64 div 64 = c div 4096" and three: "c div 4096 div 64 = c div 262144"
    by (simp_all add: div_mult2_eq [symmetric])
  have e: "c div 64 * 64 + c mod 64 = c" "c div 4096 * 64 + c div 64 mod 64 = c div 64"
    "c div 262144 * 64 + c div 4096 mod 64 = c div 4096"
    using div_mult_mod_eq [of c 64] div_mult_mod_eq [of "c div 64" 64]
      div_mult_mod_eq [of "c div 4096" 64] unfolding two three by simp_all
  then show "c div 64 * 64 + c mod 64 = c"
    "c div 4096 * 4096 + c div 64 mod 64 * 64 + c mod 64 = c"
    "c div 262144 * 262144 + c div 4096 mod 64 * 4096 + c div 64 mod 64 * 64 + c mod 64 = c"
    by linarith+
qed

lemma utf8_decode_char:
  assumes "scalar c"
  shows "utf8_decode (utf8_char c @ bs) = map_option ((#) c) (utf8_decode bs)"
proof -
  have lt: "c < 0x110000" using assms by (auto simp: scalar_def)
  consider "c < 0x80" | "0x80 \<le> c" "c < 0x800" | "0x800 \<le> c" "c < 0x10000" | "0x10000 \<le> c"
    by linarith
  then show ?thesis
  proof cases
    case 1
    then show ?thesis by (simp add: utf8_char_def utf8_decode.simps)
  next
    case 2
    then have "c div 64 < 32" by (simp add: less_mult_imp_div_less)
    with 2 assms show ?thesis
      using decode_two [of "c div 64" "c mod 64" bs] unfolding base64_digits
      by (simp add: utf8_char_def)
  next
    case 3
    then have "c div 4096 < 16" by (simp add: less_mult_imp_div_less)
    with 3 assms show ?thesis
      using decode_three [of "c div 4096" "c div 64 mod 64" "c mod 64" bs] unfolding base64_digits
      by (simp add: utf8_char_def)
  next
    case 4
    have "c div 262144 < 8" using lt by (simp add: less_mult_imp_div_less)
    with 4 assms show ?thesis
      using decode_four [of "c div 262144" "c div 4096 mod 64" "c div 64 mod 64" "c mod 64" bs]
      unfolding base64_digits by (simp add: utf8_char_def)
  qed
qed

lemma utf8_append [simp]: "utf8 (s @ t) = utf8 s @ utf8 t"
  by (simp add: utf8_def)

lemma utf8_roundtrip: "\<forall>c\<in>set t. scalar c \<Longrightarrow> utf8_decode (utf8 t) = Some t"
  by (induction t) (simp_all add: utf8_def utf8_decode_char)

lemma byte_of_unat [simp]: "byte_of (unat b) = b"
  by (simp add: byte_of_def)

lemma byte_of_diff: "k \<le> unat b \<Longrightarrow> byte_of (k + (unat b - k)) = b"
  by simp

lemma check_charD: "check_char least c = Some d \<Longrightarrow> d = c \<and> least \<le> c \<and> scalar c"
  by (auto simp: check_char_def split: if_splits)

lemma utf8_two:
  assumes "a < 32" and "b < 64" and "0x80 \<le> a * 64 + b"
  shows "utf8_char (a * 64 + b) = [byte_of (0xC0 + a), byte_of (0x80 + b)]"
proof -
  have "(a * 64 + b) div 64 = a" "(a * 64 + b) mod 64 = b" "a * 64 + b < 0x800"
    using assms by simp_all
  then show ?thesis using assms by (simp add: utf8_char_def)
qed

lemma digit_split: "b < 64 \<Longrightarrow> (q * 64 + b) div 64 = q \<and> (q * 64 + b) mod 64 = b" for b q :: nat
  by simp

lemma utf8_three:
  assumes "a < 16" and "b < 64" and "c < 64" and "0x800 \<le> a * 4096 + b * 64 + c"
  shows "utf8_char (a * 4096 + b * 64 + c) = [byte_of (0xE0 + a), byte_of (0x80 + b), byte_of (0x80 + c)]"
proof -
  let ?n = "a * 4096 + b * 64 + c"
  have n: "?n = (a * 64 + b) * 64 + c" by simp
  have "?n div 64 = a * 64 + b" "?n mod 64 = c"
    using digit_split [OF assms(3), of "a * 64 + b"] unfolding n by blast+
  moreover have "?n div 4096 = a" "?n < 0x10000" using assms by (linarith, simp)
  moreover have "(a * 64 + b) mod 64 = b" using assms by simp
  ultimately show ?thesis using assms by (simp add: utf8_char_def)
qed

lemma utf8_four:
  assumes "a < 8" and "b < 64" and "c < 64" and "d < 64"
    and "0x10000 \<le> a * 262144 + b * 4096 + c * 64 + d"
  shows "utf8_char (a * 262144 + b * 4096 + c * 64 + d) =
    [byte_of (0xF0 + a), byte_of (0x80 + b), byte_of (0x80 + c), byte_of (0x80 + d)]"
proof -
  let ?n = "a * 262144 + b * 4096 + c * 64 + d"
  have n: "?n = (a * 4096 + b * 64 + c) * 64 + d" and m: "a * 4096 + b * 64 + c = (a * 64 + b) * 64 + c"
    by simp_all
  have "?n div 64 = a * 4096 + b * 64 + c" "?n mod 64 = d"
    using digit_split [OF assms(4), of "a * 4096 + b * 64 + c"] unfolding n by blast+
  moreover have "(a * 4096 + b * 64 + c) mod 64 = c"
    using digit_split [OF assms(3), of "a * 64 + b"] unfolding m by blast
  moreover have "?n div 4096 = a * 64 + b" using assms by linarith
  moreover have "?n div 262144 = a" using assms by linarith
  moreover have "(a * 64 + b) mod 64 = b" using assms by simp
  ultimately show ?thesis using assms by (simp add: utf8_char_def)
qed

lemma continuation_bounds: "continuation b \<Longrightarrow> 0x80 \<le> unat b \<and> unat b - 0x80 < 64"
  by (auto simp: continuation_def)

lemma utf8_Cons: "utf8 (c # t) = utf8_char c @ utf8 t"
  by (simp add: utf8_def)

lemma decode_utf8: "utf8_decode bs = Some t \<Longrightarrow> utf8 t = bs \<and> (\<forall>c\<in>set t. scalar c)"
proof (induction bs arbitrary: t rule: utf8_decode.induct)
  case 1
  then show ?case by (simp add: utf8_def)
next
  case (2 a bs)
  consider "unat a < 0x80" | "0x80 \<le> unat a" "unat a < 0xC0" | "0xC0 \<le> unat a" "unat a < 0xE0"
    | "0xE0 \<le> unat a" "unat a < 0xF0" | "0xF0 \<le> unat a" "unat a < 0xF8" | "0xF8 \<le> unat a"
    by linarith
  then show ?case
  proof cases
    case 1
    then obtain t' where "utf8_decode bs = Some t'" "t = unat a # t'"
      using 2(5) by (auto simp: utf8_decode.simps)
    with 1 2(1) show ?thesis by (auto simp: utf8_Cons utf8_char_def scalar_def)
  next
    case range: 3
    with 2(5) obtain b bs' c t' where bs: "bs = b # bs'" "continuation b"
      and c: "check_char 0x80 ((unat a - 0xC0) * 64 + (unat b - 0x80)) = Some c"
      and t: "utf8_decode bs' = Some t'" "t = c # t'"
      by (auto simp: utf8_decode.simps split: list.splits if_splits option.splits)
    have "utf8_char c = [a, b]"
      using check_charD [OF c] utf8_two [of "unat a - 0xC0" "unat b - 0x80"] range
        continuation_bounds [OF bs(2)] by (simp add: byte_of_diff)
    with 2(2) [OF _ _ _ bs c t(1)] check_charD [OF c] range t show ?thesis
      by (auto simp: utf8_Cons bs)
  next
    case range: 4
    with 2(5) obtain b c bs' d t' where bs: "bs = b # c # bs'" "continuation b" "continuation c"
      and d: "check_char 0x800 ((unat a - 0xE0) * 4096 + (unat b - 0x80) * 64 + (unat c - 0x80)) = Some d"
      and t: "utf8_decode bs' = Some t'" "t = d # t'"
      by (auto simp: utf8_decode.simps split: list.splits if_splits option.splits)
    have "utf8_char d = [a, b, c]"
      using check_charD [OF d] utf8_three [of "unat a - 0xE0" "unat b - 0x80" "unat c - 0x80"] range
        continuation_bounds [OF bs(2)] continuation_bounds [OF bs(3)] by (simp add: byte_of_diff)
    moreover have "utf8 t' = bs' \<and> (\<forall>c\<in>set t'. scalar c)"
      using 2(3) [OF _ _ _ _ bs(1) refl _ d t(1)] range bs by auto
    ultimately show ?thesis using check_charD [OF d] t by (auto simp: utf8_Cons bs)
  next
    case range: 5
    with 2(5) obtain b c d bs' e t' where bs: "bs = b # c # d # bs'" "continuation b" "continuation c" "continuation d"
      and e: "check_char 0x10000 ((unat a - 0xF0) * 262144 + (unat b - 0x80) * 4096 +
          (unat c - 0x80) * 64 + (unat d - 0x80)) = Some e"
      and t: "utf8_decode bs' = Some t'" "t = e # t'"
      by (auto simp: utf8_decode.simps split: list.splits if_splits option.splits)
    have "utf8_char e = [a, b, c, d]"
      using check_charD [OF e] utf8_four [of "unat a - 0xF0" "unat b - 0x80" "unat c - 0x80" "unat d - 0x80"] range
        continuation_bounds [OF bs(2)] continuation_bounds [OF bs(3)] continuation_bounds [OF bs(4)]
      by (simp add: byte_of_diff)
    moreover have "utf8 t' = bs' \<and> (\<forall>c\<in>set t'. scalar c)"
      using 2(4) [OF _ _ _ _ _ bs(1) refl refl _ e t(1)] range bs by auto
    ultimately show ?thesis using check_charD [OF e] t by (auto simp: utf8_Cons bs)
  qed (use 2(5) in \<open>simp_all add: utf8_decode.simps\<close>)
qed

section \<open>Checks\<close>

definition max_workspace_write_bytes :: nat where
  "max_workspace_write_bytes = 1024 * 1024"

definition max_workspace_patch_replacements :: nat where
  "max_workspace_patch_replacements = 64"

definition is_sha256 :: "string \<Rightarrow> bool" where
  "is_sha256 s \<longleftrightarrow> length s = 64 \<and>
     list_all (\<lambda>c. is_digit c \<or> CHR ''a'' \<le> c \<and> c \<le> CHR ''f'') s"

definition validate_expected_hash :: "string option \<Rightarrow> bool \<Rightarrow> bridge_error + string option" where
  "validate_expected_hash v required =
     (case v of
        None \<Rightarrow>
          if required then throw FILE_CONFLICT ''expectedHash is required for an existing file''
          else Inr None
      | Some h \<Rightarrow>
          if \<not> is_sha256 h then
            throw PROTOCOL_MISMATCH ''expectedHash must be a lowercase SHA-256 digest''
          else Inr (Some h))"

text \<open>\<open>decodeWorkspaceContent\<close>; a value that is no string is \<open>None\<close>.\<close>

definition decode_workspace_content :: "string option \<Rightarrow> nat \<Rightarrow> bridge_error + byte list" where
  "decode_workspace_content text max_bytes =
     (case text of
        None \<Rightarrow> throw PROTOCOL_MISMATCH ''contentBase64 must be valid base64''
      | Some s \<Rightarrow>
          if \<not> valid_base64 s then throw PROTOCOL_MISMATCH ''contentBase64 must be valid base64''
          else let content = unbase64 s in
            if length content > max_bytes then
              throw_with OUTPUT_TRUNCATED ''Workspace write exceeds the configured byte limit''
                [(''limitBytes'', JInt (int max_bytes)), (''size'', JInt (int (length content)))]
            else Inr content)"

section \<open>Patches\<close>

text \<open>A replacement is untyped input: \<open>Malformed\<close> stands for every value that is not an object
  with two strings.\<close>

datatype replacement = Malformed | Replace ctext ctext

text \<open>\<open>new TextDecoder("utf-8", { fatal: true })\<close> drops a leading byte order mark.\<close>

definition text_decoder :: "byte list \<Rightarrow> ctext option" where
  "text_decoder bs =
     (case utf8_decode bs of
        Some (c # t) \<Rightarrow> if c = 0xFEFF then Some t else Some (c # t)
      | r \<Rightarrow> r)"

fun apply_replacement :: "ctext \<Rightarrow> replacement \<Rightarrow> bridge_error + ctext" where
  "apply_replacement t Malformed =
     throw PROTOCOL_MISMATCH ''Each replacement requires non-empty oldText and string newText''"
| "apply_replacement t (Replace old new) =
     (if old = [] then
        throw PROTOCOL_MISMATCH ''Each replacement requires non-empty oldText and string newText''
      else
        case index_of t old of
          None \<Rightarrow> throw FILE_CONFLICT ''Patch source text was not found in the current file''
        | Some i \<Rightarrow>
            if index_of_from t old (i + length old) \<noteq> None then
              throw FILE_CONFLICT ''Patch source text is ambiguous in the current file''
            else Inr (take i t @ new @ drop (i + length old) t))"

fun apply_replacements :: "ctext \<Rightarrow> replacement list \<Rightarrow> bridge_error + ctext" where
  "apply_replacements t [] = Inr t"
| "apply_replacements t (r # rs) = bind_res (apply_replacement t r) (\<lambda>t'. apply_replacements t' rs)"

definition apply_workspace_patch :: "byte list \<Rightarrow> replacement list \<Rightarrow> bridge_error + byte list" where
  "apply_workspace_patch content replacements =
     (if length replacements < 1 \<or> length replacements > max_workspace_patch_replacements then
        throw PROTOCOL_MISMATCH ''replacements must contain 1 to 64 entries''
      else
        case text_decoder content of
          None \<Rightarrow> throw COMMAND_DENIED ''Workspace patches require a valid UTF-8 text file''
        | Some t \<Rightarrow> bind_res (apply_replacements t replacements) (\<lambda>t'. Inr (utf8 t')))"

section \<open>Properties\<close>

text \<open>An accepted replacement rewrites the first occurrence, and there is no further one behind it.\<close>

lemma apply_replacement_Inr:
  "apply_replacement t (Replace old new) = Inr t' \<longleftrightarrow>
     (\<exists>i. index_of t old = Some i \<and> old \<noteq> [] \<and> t' = take i t @ new @ drop (i + length old) t \<and>
        (\<forall>j\<ge>i + length old. \<not> (j \<le> length t \<and> starts_with (drop j t) old)))"
proof -
  have later: "index_of_from t old k = None \<longleftrightarrow> (\<forall>j\<ge>k. \<not> (j \<le> length t \<and> starts_with (drop j t) old))"
    if "k \<le> length t" for k
  proof -
    have "index_of_from t old k = None \<longleftrightarrow> (\<forall>j\<le>length t - k. \<not> starts_with (drop (k + j) t) old)"
      by (simp add: index_of_from_def index_of_None add.commute)
    also have "\<dots> \<longleftrightarrow> (\<forall>j\<ge>k. \<not> (j \<le> length t \<and> starts_with (drop j t) old))"
      using that by (metis add_diff_inverse_nat diff_le_mono le_add1 le_add_diff_inverse
          nat_add_left_cancel_le not_le)
    finally show ?thesis .
  qed
  have "i + length old \<le> length t" if "index_of t old = Some i" for i
  proof -
    have "t = take i t @ old @ drop (i + length old) t" "i \<le> length t"
      using index_of_Some [OF that] by auto
    then have "length t = i + length old + (length t - (i + length old))"
      by (metis length_append length_drop length_take min.absorb2 add.assoc)
    then show ?thesis by linarith
  qed
  then show ?thesis
    using later by (auto split: option.splits)
qed

definition bom :: "byte list" where
  "bom = utf8_char 0xFEFF"

definition well_formed :: "replacement \<Rightarrow> bool" where
  "well_formed r = (case r of Malformed \<Rightarrow> True
     | Replace old new \<Rightarrow> (\<forall>c\<in>set old. scalar c) \<and> (\<forall>c\<in>set new. scalar c))"

lemma text_decoder_bytes:
  "text_decoder bs = Some t \<Longrightarrow> (bs = utf8 t \<or> bs = bom @ utf8 t) \<and> (\<forall>c\<in>set t. scalar c)"
  using decode_utf8 [of bs]
  by (auto simp: text_decoder_def bom_def utf8_Cons split: option.splits list.splits if_splits)

lemma text_decoder_utf8:
  "\<forall>c\<in>set t. scalar c \<Longrightarrow> t = [] \<or> hd t \<noteq> 0xFEFF \<Longrightarrow> text_decoder (utf8 t) = Some t"
  using utf8_roundtrip [of t] by (cases t) (simp_all add: text_decoder_def)

lemma text_decoder_bom: "\<forall>c\<in>set t. scalar c \<Longrightarrow> text_decoder (bom @ utf8 t) = Some t"
  using utf8_roundtrip [of "0xFEFF # t"] by (simp add: text_decoder_def scalar_def bom_def utf8_Cons)

lemmas patch_eval = apply_workspace_patch_def max_workspace_patch_replacements_def
  text_decoder_utf8 text_decoder_bom scalar_def index_of_from_def starts_with_def

lemma utf8_starts_bom: "t = 0xFEFF # t' \<Longrightarrow> utf8 t = bom @ utf8 t'"
  by (simp add: utf8_Cons bom_def)

text \<open>A patch changes exactly what it names. When a patch of one replacement is applied to
  a file without a byte order mark, the file is valid UTF-8, it is the text before, the old text
  and the text behind, the result is the same with the new text in between, byte for byte, the old
  text does not occur again in what follows it, and its first occurrence is the one replaced.\<close>

theorem patch_is_local:
  assumes "apply_workspace_patch content [Replace old new] = Inr result"
    and "\<not> starts_with content bom"
  shows "\<exists>pre post. content = utf8 pre @ utf8 old @ utf8 post \<and>
    result = utf8 pre @ utf8 new @ utf8 post \<and> old \<noteq> [] \<and>
    index_of (pre @ old @ post) old = Some (length pre) \<and> index_of post old = None"
proof -
  obtain t t' where t: "text_decoder content = Some t" and t': "apply_replacement t (Replace old new) = Inr t'"
    and result: "result = utf8 t'"
    using assms(1) by (auto simp: apply_workspace_patch_def split: option.splits if_splits)
  have content: "content = utf8 t"
    using text_decoder_bytes [OF t] assms(2) by auto
  obtain i where i: "index_of t old = Some i" "old \<noteq> []" "t' = take i t @ new @ drop (i + length old) t"
    and none: "\<forall>j\<ge>i + length old. \<not> (j \<le> length t \<and> starts_with (drop j t) old)"
    using t' unfolding apply_replacement_Inr by blast
  let ?pre = "take i t" and ?post = "drop (i + length old) t"
  have split: "t = ?pre @ old @ ?post" and le: "i \<le> length t" using index_of_Some [OF i(1)] by auto
  have "index_of ?post old = None"
    unfolding index_of_None
  proof (intro allI impI)
    fix j assume "j \<le> length ?post"
    moreover have "i + length old \<le> length t"
      using arg_cong [OF split, of length] le by simp
    ultimately have "i + length old + j \<le> length t" by simp
    with none show "\<not> starts_with (drop j ?post) old" by (simp add: add.commute)
  qed
  moreover have "content = utf8 ?pre @ utf8 old @ utf8 ?post"
    by (metis content split utf8_append)
  moreover have "result = utf8 ?pre @ utf8 new @ utf8 ?post"
    by (simp add: result i(3))
  moreover have "index_of (?pre @ old @ ?post) old = Some (length ?pre)"
    using i(1) le split by (metis length_take min.absorb2)
  ultimately show ?thesis using i(2) by blast
qed

theorem patch_is_local_witness:
  "\<exists>pre post. utf8 [104, 228, 111] = utf8 pre @ utf8 [228] @ utf8 post \<and> index_of post [228 :: nat] = None"
proof -
  have "apply_workspace_patch (utf8 [104, 228, 111]) [Replace [228] [97, 101]] = Inr (utf8 [104, 97, 101, 111])"
    by (simp add: patch_eval)
  moreover have "\<not> starts_with (utf8 [104, 228, 111]) bom"
    by (simp add: utf8_def bom_def utf8_char_def byte_of_def starts_with_def)
  ultimately show ?thesis using patch_is_local by blast
qed

text \<open>A patch also strips a byte order mark. For every file that starts with one and every
  patch that applies, the result is the result for the file without it, so three bytes no
  replacement names are lost and the file's encoding signature with them.\<close>

theorem patch_strips_bom:
  assumes "apply_workspace_patch (bom @ utf8 t) rs = Inr result" and "\<forall>c\<in>set t. scalar c"
    and "t = [] \<or> hd t \<noteq> 0xFEFF"
  shows "apply_workspace_patch (utf8 t) rs = Inr result"
proof -
  have "text_decoder (bom @ utf8 t) = Some t" using assms(2) by (rule text_decoder_bom)
  moreover have "text_decoder (utf8 t) = Some t" using assms(2,3) by (rule text_decoder_utf8)
  ultimately have "apply_workspace_patch (utf8 t) rs = apply_workspace_patch (bom @ utf8 t) rs"
    by (simp only: apply_workspace_patch_def)
  with assms(1) show ?thesis by simp
qed

theorem patch_strips_bom_witness:
  "apply_workspace_patch (bom @ utf8 [97, 98]) [Replace [98] [99]] = Inr (utf8 [97, 99]) \<and>
   apply_workspace_patch (utf8 [97, 98]) [Replace [98] [99]] = Inr (utf8 [97, 99])"
proof -
  have with_bom: "apply_workspace_patch (bom @ utf8 [97, 98]) [Replace [98] [99]] = Inr (utf8 [97, 99])"
    by (simp add: patch_eval)
  have "\<forall>c\<in>set [97, 98 :: nat]. scalar c" "[97, 98] = [] \<or> hd [97, 98 :: nat] \<noteq> 0xFEFF"
    by (simp_all add: scalar_def)
  from with_bom patch_strips_bom [OF with_bom this] show ?thesis by blast
qed

end
