(* ===== verification/Memento.thy ===== *)
theory Memento
  imports Errors NodePath
begin

text \<open>
  What the authorities of the extension share: the editor's persistent key-value store
  (\<open>vscode.Memento\<close>: \<open>get\<close> returns the last value \<open>update\<close> gave the key, and an update to
  \<open>undefined\<close> removes it), its laws as an interface, and what \<open>realpath\<close> and \<open>stat\<close> tell
  about a path, which is an argument of the operations that ask.
\<close>

type_synonym memento = jobj

definition mem_get :: "memento \<Rightarrow> string \<Rightarrow> json option" where
  "mem_get m k = oget m k"

definition mem_update :: "memento \<Rightarrow> string \<Rightarrow> json option \<Rightarrow> memento" where
  "mem_update m k v = (case v of None \<Rightarrow> jm_del m k | Some x \<Rightarrow> jm_set m k x)"

locale key_value_store =
  fixes get :: "'m \<Rightarrow> 'k \<Rightarrow> 'v option"
    and update :: "'m \<Rightarrow> 'k \<Rightarrow> 'v option \<Rightarrow> 'm"
  assumes get_update: "get (update m k v) k' = (if k' = k then v else get m k')"
begin

lemma get_update_same: "get (update m k v) k = v"
  by (simp add: get_update)

lemma get_update_other: "k' \<noteq> k \<Longrightarrow> get (update m k v) k' = get m k'"
  by (simp add: get_update)

lemma update_twice: "get (update (update m k v) k w) k' = get (update m k w) k'"
  by (simp add: get_update)

lemma update_same: "get m k = v \<Longrightarrow> get (update m k v) k' = get m k'"
  by (simp add: get_update)

end

interpretation memento: key_value_store mem_get mem_update
  by unfold_locales (auto simp: mem_get_def mem_update_def split: option.split)

datatype fs_kind = FsDirectory | FsFile | FsOther

text \<open>\<open>realpath\<close> followed by \<open>stat\<close>: the canonical path and its kind, \<open>None\<close> when either fails.\<close>

type_synonym file_system = "string \<Rightarrow> (string \<times> fs_kind) option"

definition canonical_path :: "string \<Rightarrow> bool" where
  "canonical_path p \<longleftrightarrow> is_absolute p \<and> normalize p = p"

definition file_system_root :: "string \<Rightarrow> bool" where
  "file_system_root p \<longleftrightarrow> p = ''/''"

section \<open>Containment by relative path\<close>

text \<open>\<open>isWithinRoot\<close> of the authorities decides containment on the relative path.\<close>

definition is_within_root :: "string \<Rightarrow> string \<Rightarrow> string \<Rightarrow> bool" where
  "is_within_root cwd root candidate =
     (let child = relative cwd root candidate in
      child = [] \<or> child \<noteq> ''..'' \<and> \<not> starts_with child ''../'' \<and> \<not> is_absolute child)"

lemma common_prefix_take: "take (common_prefix xs ys) xs = take (common_prefix xs ys) ys"
  by (induction xs ys rule: common_prefix.induct) auto

lemma common_prefix_le: "common_prefix xs ys \<le> length xs \<and> common_prefix xs ys \<le> length ys"
  by (induction xs ys rule: common_prefix.induct) auto

lemma common_prefix_full:
  "common_prefix xs ys = length xs \<longleftrightarrow> (\<exists>rest. ys = xs @ rest)"
proof
  assume full: "common_prefix xs ys = length xs"
  have "take (length xs) ys = xs" using common_prefix_take [of xs ys] by (simp add: full)
  then show "\<exists>rest. ys = xs @ rest" by (metis append_take_drop_id)
qed (auto simp: common_prefix_append)

lemma path_join_dots:
  "path_join (replicate (Suc n) ''..'' @ xs) = ''..'' \<or>
   starts_with (path_join (replicate (Suc n) ''..'' @ xs)) ''../''"
proof (cases "replicate n ''..'' @ xs")
  case Nil
  then show ?thesis by (simp add: path_join_def)
next
  case (Cons y ys)
  have "path_join (''..'' # y # ys) = ''..'' @ ''/'' @ path_join (y # ys)"
    using path_join_append [of "[''..'']" "y # ys"] by (simp add: path_join_def)
  with Cons show ?thesis by (simp add: starts_with_def)
qed

lemma clean_join_plain:
  assumes "\<forall>s\<in>set ss. clean_seg s"
  shows "path_join ss \<noteq> ''..'' \<and> \<not> starts_with (path_join ss) ''../''"
proof (cases ss)
  case Nil
  then show ?thesis by (simp add: path_join_def starts_with_def)
next
  case (Cons s ss')
  have split: "split_on SLASH (path_join ss) = ss" using split_path_join [of ss] assms Cons by simp
  have "split_on SLASH ''..'' = [''..'']" by (simp add: split_on_single)
  moreover have "hd (split_on SLASH (''../'' @ t)) = ''..''" for t
    using split_on_append [of SLASH "''..''" t] by simp
  moreover have "s \<noteq> ''..''" using assms Cons by (simp add: clean_seg_def)
  ultimately show ?thesis using split Cons by (metis list.sel(1) starts_with_iff)
qed

lemma is_within_root_clean:
  assumes rs: "\<forall>s\<in>set rs. clean_seg s" and cs: "\<forall>s\<in>set cs. clean_seg s"
  shows "is_within_root cwd (abs_path rs) (abs_path cs) \<longleftrightarrow> (\<exists>rest. cs = rs @ rest)"
proof (cases "\<exists>rest. cs = rs @ rest")
  case True
  then obtain rest where rest: "cs = rs @ rest" by blast
  then have clean: "\<forall>s\<in>set rest. clean_seg s" using cs by simp
  have "relative cwd (abs_path rs) (abs_path cs) = path_join rest"
    using rs clean cs by (intro relative_below) (simp_all add: rest)
  with True clean_join_plain [OF clean] hd_path_join [OF clean] show ?thesis
    by (simp add: is_within_root_def Let_def)
next
  case False
  let ?k = "common_prefix rs cs"
  have "?k \<noteq> length rs" using False by (simp add: common_prefix_full)
  then obtain n where n: "length rs - ?k = Suc n"
    using common_prefix_le [of rs cs] by (metis Suc_diff_Suc diff_is_0_eq le_neq_implies_less)
  have f: "resolve cwd [abs_path rs] = abs_path rs" and t: "resolve cwd [abs_path cs] = abs_path cs"
    using rs cs by (simp_all add: resolve_abs)
  have ne: "abs_path rs \<noteq> abs_path cs"
    using False abs_path_inj [OF rs cs] by auto
  have "relative cwd (abs_path rs) (abs_path cs) =
      path_join (replicate (Suc n) ''..'' @ drop ?k cs)"
    using ne rs cs by (simp add: relative_def f t n Let_def)
  moreover have "path_join (replicate (Suc n) ''..'' @ drop ?k cs) \<noteq> []"
    using path_join_dots [of n "drop ?k cs"] by (auto simp: starts_with_def)
  ultimately show ?thesis
    using False path_join_dots [of n "drop ?k cs"] by (auto simp: is_within_root_def Let_def)
qed

end
