(* ===== verification/LocalRoots.thy ===== *)
theory LocalRoots
  imports Memento
begin

text \<open>
  \<^verbatim>\<open>src/extension/local-root-authority.ts\<close>: the local directories the user authorised, kept
  in the extension's persistent state. Paths are POSIX paths; the digest (64 hexadecimal
  digits of a path), the file system and the working directory are arguments. The state
  survives restarts, so \<open>roots\<close> parses whatever it holds.
\<close>

definition local_roots_key :: string where
  "local_roots_key = ''codexRemoteBridge.localRoots.v1''"

definition automatic_drop_key :: string where
  "automatic_drop_key = ''codexRemoteBridge.automaticLocalDropAuthorization.v1''"

definition max_local_roots :: nat where
  "max_local_roots = 15"

text \<open>A \<open>WorkspaceRootConfig\<close> of this module: its target is local, its role secondary.\<close>

record local_root =
  lr_id :: string
  lr_path :: string
  lr_name :: string

definition root_json :: "local_root \<Rightarrow> json" where
  "root_json r = JObj [(''id'', JStr (lr_id r)), (''target'', JStr ''local''),
     (''role'', JStr ''secondary''), (''path'', JStr (lr_path r)), (''displayName'', JStr (lr_name r))]"

definition root_id_char :: "char \<Rightarrow> bool" where
  "root_id_char c \<longleftrightarrow> is_alnum c \<or> c \<in> set ''._-''"

definition valid_root_id :: "string \<Rightarrow> bool" where
  "valid_root_id s \<longleftrightarrow> s \<noteq> [] \<and> is_alnum (hd s) \<and> list_all root_id_char (tl s) \<and> length s \<le> 64"

definition parse_stored_root :: "json \<Rightarrow> bridge_error + local_root" where
  "parse_stored_root v =
     (case is_record v of
        None \<Rightarrow> throw INVALID_CONFIG ''Stored local root must be an object''
      | Some ob \<Rightarrow>
          (case (sprop ob ''id'', sprop ob ''path'', sprop ob ''displayName'') of
             (Some i, Some p, Some d) \<Rightarrow>
               if \<not> valid_root_id i \<or> oget ob ''target'' \<noteq> Some (JStr ''local'') \<or>
                  oget ob ''role'' \<noteq> Some (JStr ''secondary'') \<or> \<not> is_absolute p \<or>
                  normalize p \<noteq> p \<or> file_system_root p \<or> trim d = [] \<or> length d > 128
               then throw INVALID_CONFIG ''Stored local root is invalid''
               else Inr \<lparr>lr_id = i, lr_path = p, lr_name = d\<rparr>
           | _ \<Rightarrow> throw INVALID_CONFIG ''Stored local root is invalid''))"

text \<open>The loop over the parsed roots with its two sets.\<close>

fun check_duplicates :: "string list \<Rightarrow> string list \<Rightarrow> local_root list \<Rightarrow> bridge_error + unit" where
  "check_duplicates ids paths [] = Inr ()"
| "check_duplicates ids paths (r # rs) =
     (if lr_id r \<in> set ids \<or> lr_path r \<in> set paths
      then throw INVALID_CONFIG ''Stored local roots contain a duplicate''
      else check_duplicates (set_add ids (lr_id r)) (set_add paths (lr_path r)) rs)"

definition parse_stored_roots :: "json option \<Rightarrow> bridge_error + local_root list" where
  "parse_stored_roots v =
     (case v of
        None \<Rightarrow> Inr []
      | Some j \<Rightarrow>
          (case is_record j of
             None \<Rightarrow> throw INVALID_CONFIG ''Stored local root authorization is invalid''
           | Some ob \<Rightarrow>
               (case as_array (oget ob ''roots'') of
                  None \<Rightarrow> throw INVALID_CONFIG ''Stored local root authorization is invalid''
                | Some xs \<Rightarrow>
                    if oget ob ''version'' \<noteq> Some (JInt 1) \<or> length xs > max_local_roots
                    then throw INVALID_CONFIG ''Stored local root authorization is invalid''
                    else bind_res (map_res parse_stored_root xs) (\<lambda>roots.
                         bind_res (check_duplicates [] [] roots) (\<lambda>_. Inr roots)))))"

text \<open>\<open>canonicalDirectory\<close>.\<close>

definition canonical_directory :: "file_system \<Rightarrow> string \<Rightarrow> bridge_error + string" where
  "canonical_directory fs selected =
     (case fs selected of
        None \<Rightarrow> throw_with COMMAND_DENIED ''The selected local root does not exist or cannot be opened''
          [(''path'', JStr selected)]
      | Some (p, kind) \<Rightarrow>
          if kind \<noteq> FsDirectory then throw COMMAND_DENIED ''The selected local root is not a directory''
          else if \<not> is_absolute p \<or> normalize p \<noteq> p \<or> file_system_root p then
            throw COMMAND_DENIED ''The selected local root must not be a filesystem root''
          else Inr p)"

definition make_root :: "(string \<Rightarrow> string) \<Rightarrow> string \<Rightarrow> local_root" where
  "make_root sha p = \<lparr>lr_id = ''local-'' @ take 16 (sha p), lr_path = p, lr_name = take 128 (basename p)\<rparr>"

section \<open>The authority\<close>

definition roots :: "memento \<Rightarrow> bridge_error + local_root list" where
  "roots m = parse_stored_roots (mem_get m local_roots_key)"

definition find_root :: "memento \<Rightarrow> string \<Rightarrow> bridge_error + local_root option" where
  "find_root m rid = bind_res (roots m) (\<lambda>rs. Inr (List.find (\<lambda>r. lr_id r = rid) rs))"

definition available_slots :: "memento \<Rightarrow> bridge_error + int" where
  "available_slots m = bind_res (roots m) (\<lambda>rs. Inr (int max_local_roots - int (length rs)))"

definition automatic_drop :: "memento \<Rightarrow> bool" where
  "automatic_drop m \<longleftrightarrow> mem_get m automatic_drop_key = Some (JBool True)"

definition set_automatic_drop :: "memento \<Rightarrow> bool \<Rightarrow> memento" where
  "set_automatic_drop m enabled =
     mem_update m automatic_drop_key (if enabled then Some (JBool True) else None)"

definition save_roots :: "memento \<Rightarrow> local_root list \<Rightarrow> memento" where
  "save_roots m rs = mem_update m local_roots_key
     (if rs = [] then None
      else Some (JObj [(''version'', JInt 1), (''roots'', JArr (map root_json rs))]))"

definition find_containing :: "string \<Rightarrow> local_root list \<Rightarrow> string \<Rightarrow> local_root option" where
  "find_containing cwd rs p = List.find (\<lambda>r. is_within_root cwd (lr_path r) p) rs"

definition find_containing_directory ::
  "string \<Rightarrow> file_system \<Rightarrow> memento \<Rightarrow> string \<Rightarrow> bridge_error + local_root option" where
  "find_containing_directory cwd fs m selected =
     bind_res (canonical_directory fs selected) (\<lambda>p.
     bind_res (roots m) (\<lambda>rs. Inr (find_containing cwd rs p)))"

definition authorize ::
  "(string \<Rightarrow> string) \<Rightarrow> string \<Rightarrow> file_system \<Rightarrow> string \<Rightarrow> memento \<Rightarrow>
   memento \<times> (bridge_error + local_root)" where
  "authorize sha cwd fs selected m =
     (case bind_res (canonical_directory fs selected) (\<lambda>p.
           bind_res (roots m) (\<lambda>rs. Inr (p, rs))) of
        Inl e \<Rightarrow> (m, Inl e)
      | Inr (p, current) \<Rightarrow>
          (case find_containing cwd current p of
             Some r \<Rightarrow> (m, Inr r)
           | None \<Rightarrow>
               if length current \<ge> max_local_roots then
                 (m, throw COMMAND_DENIED ''At most 15 local roots may be authorized'')
               else
                 let root = make_root sha p in
                 if List.find (\<lambda>r. lr_id r = lr_id root) current \<noteq> None then
                   (m, throw INVALID_CONFIG ''Local root authorization ID collision'')
                 else (save_roots m (current @ [root]), Inr root)))"

definition revoke :: "string \<Rightarrow> memento \<Rightarrow> memento \<times> (bridge_error + bool)" where
  "revoke rid m =
     (case roots m of
        Inl e \<Rightarrow> (m, Inl e)
      | Inr current \<Rightarrow>
          let next = filter (\<lambda>r. lr_id r \<noteq> rid) current in
          if length next = length current then (m, Inr False)
          else (save_roots m next, Inr True))"

record root_diagnostic =
  rd_root :: local_root
  rd_accessible :: bool

definition diagnostics :: "file_system \<Rightarrow> memento \<Rightarrow> bridge_error + root_diagnostic list" where
  "diagnostics fs m = bind_res (roots m) (\<lambda>rs. Inr (map (\<lambda>r.
     \<lparr>rd_root = r, rd_accessible = (fs (lr_path r) = Some (lr_path r, FsDirectory))\<rparr>) rs))"

section \<open>What the stored state means\<close>

definition root_ok :: "local_root \<Rightarrow> bool" where
  "root_ok r \<longleftrightarrow> valid_root_id (lr_id r) \<and> is_absolute (lr_path r) \<and> normalize (lr_path r) = lr_path r \<and>
     \<not> file_system_root (lr_path r) \<and> trim (lr_name r) \<noteq> [] \<and> length (lr_name r) \<le> 128"

definition roots_ok :: "local_root list \<Rightarrow> bool" where
  "roots_ok rs \<longleftrightarrow> (\<forall>r\<in>set rs. root_ok r) \<and> distinct (map lr_id rs) \<and> distinct (map lr_path rs) \<and>
     length rs \<le> max_local_roots"

lemma parse_root_json: "root_ok r \<Longrightarrow> parse_stored_root (root_json r) = Inr r"
  by (cases r) (simp add: parse_stored_root_def root_json_def root_ok_def oget_def jm_get_Cons)

lemma parse_stored_root_ok: "parse_stored_root v = Inr r \<Longrightarrow> root_ok r"
  by (auto simp: parse_stored_root_def root_ok_def split: option.splits if_splits)

lemma check_duplicates_iff:
  "check_duplicates ids paths rs = Inr () \<longleftrightarrow>
     distinct (map lr_id rs) \<and> distinct (map lr_path rs) \<and>
     set ids \<inter> lr_id ` set rs = {} \<and> set paths \<inter> lr_path ` set rs = {}"
  by (induction ids paths rs rule: check_duplicates.induct) auto

lemma parse_stored_roots_ok: "parse_stored_roots v = Inr rs \<Longrightarrow> roots_ok rs"
proof -
  assume parse: "parse_stored_roots v = Inr rs"
  show ?thesis
  proof (cases v)
    case None
    with parse show ?thesis by (simp add: parse_stored_roots_def roots_ok_def)
  next
    case (Some j)
    with parse obtain xs where xs: "length xs \<le> max_local_roots" "map_res parse_stored_root xs = Inr rs"
      "check_duplicates [] [] rs = Inr ()"
      by (auto simp: parse_stored_roots_def not_less split: option.splits if_splits)
    have "root_ok r" if "r \<in> set rs" for r
      using map_res_Inr_set [OF xs(2) that] parse_stored_root_ok by blast
    with xs map_res_Inr_length [OF xs(2)] show ?thesis
      by (simp add: roots_ok_def check_duplicates_iff)
  qed
qed

lemma roots_Inr: "roots m = Inr rs \<Longrightarrow> roots_ok rs"
  unfolding roots_def by (rule parse_stored_roots_ok)

lemma roots_save: "roots_ok rs \<Longrightarrow> roots (save_roots m rs) = Inr rs"
proof -
  assume ok: "roots_ok rs"
  have "map_res parse_stored_root (map root_json rs) = Inr rs"
    using ok by (intro map_res_id parse_root_json) (simp add: roots_ok_def)
  with ok show ?thesis
    by (simp add: roots_def save_roots_def memento.get_update parse_stored_roots_def oget_def
        jm_get_Cons roots_ok_def check_duplicates_iff not_less)
qed

section \<open>Runs of the authority\<close>

datatype root_event =
    Authorizes file_system string
  | Revokes string
  | SetsAutomaticDrop bool

fun root_step :: "(string \<Rightarrow> string) \<Rightarrow> string \<Rightarrow> memento \<Rightarrow> root_event \<Rightarrow> memento" where
  "root_step sha cwd m (Authorizes fs selected) = fst (authorize sha cwd fs selected m)"
| "root_step sha cwd m (Revokes rid) = fst (revoke rid m)"
| "root_step sha cwd m (SetsAutomaticDrop enabled) = set_automatic_drop m enabled"

text \<open>The digest gives at least sixteen hexadecimal digits.\<close>

definition hex_digest :: "(string \<Rightarrow> string) \<Rightarrow> bool" where
  "hex_digest sha \<longleftrightarrow> (\<forall>s. length (sha s) = 64 \<and> list_all (\<lambda>c. is_alnum c) (sha s))"

text \<open>The directories offered have a name with a visible character within its first 128.\<close>

fun named_event :: "root_event \<Rightarrow> bool" where
  "named_event (Authorizes fs selected) =
     (case fs selected of None \<Rightarrow> True | Some (p, kind) \<Rightarrow> trim (take 128 (basename p)) \<noteq> [])"
| "named_event _ = True"

definition readable :: "memento \<Rightarrow> bool" where
  "readable m \<longleftrightarrow> (\<exists>rs. roots m = Inr rs)"

lemma make_root_ok:
  assumes sha: "hex_digest sha" and p: "is_absolute p" "normalize p = p" "\<not> file_system_root p"
    and name: "trim (take 128 (basename p)) \<noteq> []"
  shows "root_ok (make_root sha p)"
proof -
  have "list_all root_id_char (take 16 (sha p))" "length (take 16 (sha p)) = 16"
    using sha by (auto simp: hex_digest_def list_all_iff root_id_char_def dest: in_set_takeD)
  then have "valid_root_id (''local-'' @ take 16 (sha p))"
    by (simp add: valid_root_id_def root_id_char_def is_alnum_def is_alpha_def is_lower_def)
  with p name show ?thesis by (simp add: root_ok_def make_root_def)
qed

lemma canonical_directory_Inr:
  "canonical_directory fs selected = Inr p \<longleftrightarrow>
     fs selected = Some (p, FsDirectory) \<and> is_absolute p \<and> normalize p = p \<and> \<not> file_system_root p"
  by (auto simp: canonical_directory_def split: option.splits if_splits)

text \<open>\<open>authorize\<close> by cases.\<close>

lemma authorize_cases:
  obtains (refused) e where "authorize sha cwd fs selected m = (m, Inl e)"
  | (existing) p current r where "canonical_directory fs selected = Inr p" "roots m = Inr current"
      "find_containing cwd current p = Some r" "authorize sha cwd fs selected m = (m, Inr r)"
  | (added) p current where "canonical_directory fs selected = Inr p" "roots m = Inr current"
      "find_containing cwd current p = None" "length current < max_local_roots"
      "\<forall>r\<in>set current. lr_id r \<noteq> lr_id (make_root sha p)"
      "authorize sha cwd fs selected m = (save_roots m (current @ [make_root sha p]), Inr (make_root sha p))"
proof (cases "bind_res (canonical_directory fs selected) (\<lambda>p. bind_res (roots m) (\<lambda>rs. Inr (p, rs)))")
  case (Inl e)
  then show ?thesis by (intro refused) (simp add: authorize_def)
next
  case (Inr pc)
  then obtain p current where pc: "canonical_directory fs selected = Inr p" "roots m = Inr current"
    "pc = (p, current)" by auto
  show ?thesis
  proof (cases "find_containing cwd current p")
    case (Some r)
    with pc show ?thesis by (intro existing) (simp_all add: authorize_def)
  next
    case None
    show ?thesis
    proof (cases "length current < max_local_roots \<and>
        List.find (\<lambda>r. lr_id r = lr_id (make_root sha p)) current = None")
      case True
      with None pc show ?thesis
        by (intro added) (auto simp: authorize_def Let_def find_None_iff)
    next
      case False
      then have "\<exists>e. authorize sha cwd fs selected m = (m, Inl e)"
        using None pc by (auto simp: authorize_def Let_def)
      then show ?thesis by (auto intro: refused)
    qed
  qed
qed

text \<open>A path already registered is within that root, so a root that is added has a new path.\<close>

lemma within_itself: "is_within_root cwd p p"
  by (simp add: is_within_root_def relative_def)

lemma added_roots_ok:
  assumes ok: "roots_ok current" and root: "root_ok (make_root sha p)"
    and new: "find_containing cwd current p = None" and room: "length current < max_local_roots"
    and ids: "\<forall>r\<in>set current. lr_id r \<noteq> lr_id (make_root sha p)"
  shows "roots_ok (current @ [make_root sha p])"
proof -
  have "lr_path r \<noteq> p" if "r \<in> set current" for r
    using new that within_itself by (auto simp: find_containing_def find_None_iff)
  then show ?thesis
    using assms by (auto simp: roots_ok_def make_root_def)
qed

lemma filtered_roots_ok: "roots_ok rs \<Longrightarrow> roots_ok (filter P rs)"
  using length_filter_le [of P rs]
  by (auto simp: roots_ok_def distinct_map_filter simp del: length_filter_le intro: order_trans)

lemma key_differs: "automatic_drop_key \<noteq> local_roots_key"
  by (simp add: automatic_drop_key_def local_roots_key_def)

lemma roots_automatic [simp]: "roots (set_automatic_drop m enabled) = roots m"
  using key_differs by (simp add: roots_def set_automatic_drop_def memento.get_update)

lemma revoke_state:
  assumes rs: "roots m = Inr rs"
  shows "roots (fst (revoke rid m)) = Inr (filter (\<lambda>r. lr_id r \<noteq> rid) rs)"
proof (cases "length (filter (\<lambda>r. lr_id r \<noteq> rid) rs) = length rs")
  case True
  then have "filter (\<lambda>r. lr_id r \<noteq> rid) rs = rs"
    by (metis filter_id_conv length_filter_less less_irrefl)
  with rs True show ?thesis by (simp add: revoke_def Let_def)
next
  case False
  with rs roots_save [OF filtered_roots_ok [OF roots_Inr [OF rs]]] show ?thesis
    by (simp add: revoke_def Let_def)
qed

lemma root_step_readable:
  assumes sha: "hex_digest sha" and m: "readable m" and ev: "named_event ev"
  shows "readable (root_step sha cwd m ev)"
proof (cases ev)
  case (Authorizes fs selected)
  show ?thesis
  proof (cases rule: authorize_cases [of sha cwd fs selected m])
    case (added p current)
    have "root_ok (make_root sha p)"
      using added(1) ev Authorizes by (intro make_root_ok [OF sha]) (auto simp: canonical_directory_Inr)
    from added_roots_ok [OF roots_Inr [OF added(2)] this added(3-5)]
    show ?thesis using added(6) by (auto simp: Authorizes readable_def roots_save)
  qed (use m Authorizes in auto)
next
  case (Revokes rid)
  with m revoke_state show ?thesis by (auto simp: readable_def)
next
  case (SetsAutomaticDrop enabled)
  with m show ?thesis by (simp add: readable_def)
qed


definition root_inv :: "(string \<Rightarrow> string) \<Rightarrow> memento \<Rightarrow> bool" where
  "root_inv sha m \<longleftrightarrow> hex_digest sha \<and> readable m"

interpretation root_machine: guarded_machine "root_step sha cwd" "root_inv sha" named_event
  by unfold_locales (auto simp: root_inv_def intro: root_step_readable)

lemma fresh_roots: "readable []"
  by (simp add: readable_def roots_def mem_get_def oget_def parse_stored_roots_def)




text \<open>\<open>authorize\<close> either fails and leaves the store alone, or grants a root that contains the
  canonical form of the selected directory: an authorised one, with the store unchanged, or
  a new root that is exactly that directory, appended to the stored ones.
\<close>

theorem authorize_grants_selection:
  "case authorize sha cwd fs selected m of
     (m', Inl e) \<Rightarrow> m' = m
   | (m', Inr r) \<Rightarrow> \<exists>p rs. fs selected = Some (p, FsDirectory) \<and> roots m = Inr rs \<and>
       is_within_root cwd (lr_path r) p \<and>
       (m' = m \<and> r \<in> set rs \<or>
        m' = save_roots m (rs @ [r]) \<and> r = make_root sha p \<and> p \<noteq> ''/'' \<and> length rs < max_local_roots)"
proof (cases rule: authorize_cases [of sha cwd fs selected m])
  case (existing p current r)
  then have "r \<in> set current" "is_within_root cwd (lr_path r) p"
    by (auto simp: find_containing_def find_Some_iff)
  with existing show ?thesis by (auto simp: canonical_directory_Inr)
next
  case (added p current)
  then have "lr_path (make_root sha p) = p" by (simp add: make_root_def)
  with added within_itself show ?thesis
    by (auto simp: canonical_directory_Inr file_system_root_def)
qed simp

text \<open>A stored root that does not parse makes the whole list unreadable, for good.\<close>

lemma map_res_Inl: "x \<in> set xs \<Longrightarrow> f x = Inl e \<Longrightarrow> \<exists>e. map_res f xs = Inl e"
  by (induction xs) (auto simp: bind_res_Inl, metis obj_sumE)

lemma blank_root_rejected: "trim (lr_name r) = [] \<Longrightarrow> \<exists>e. parse_stored_root (root_json r) = Inl e"
  by (simp add: parse_stored_root_def root_json_def oget_def jm_get_Cons)

lemma save_blank_root:
  assumes "r \<in> set rs" "trim (lr_name r) = []"
  shows "\<exists>e. roots (save_roots m rs) = Inl e"
proof -
  obtain e where "parse_stored_root (root_json r) = Inl e"
    using blank_root_rejected [OF assms(2)] by blast
  then obtain e where e: "map_res parse_stored_root (map root_json rs) = Inl e"
    using map_res_Inl [of "root_json r" "map root_json rs" parse_stored_root] assms(1) by auto
  from assms(1) have "rs \<noteq> []" by auto
  with e show ?thesis
    by (simp add: roots_def save_roots_def memento.get_update parse_stored_roots_def oget_def jm_get_Cons)
qed

lemma unreadable_step:
  assumes e: "roots m = Inl e"
  shows "roots (root_step sha cwd m ev) = Inl e"
proof (cases ev)
  case (Authorizes fs selected)
  show ?thesis
    by (cases rule: authorize_cases [of sha cwd fs selected m]) (use e in \<open>auto simp: Authorizes\<close>)
qed (use e in \<open>simp_all add: revoke_def\<close>)

lemma unreadable_run: "roots m = Inl e \<Longrightarrow> roots (run (root_step sha cwd) m evs) = Inl e"
  by (induction evs arbitrary: m) (simp_all add: unreadable_step)

text \<open>A new root whose directory name shows only white space is stored and reported as
  authorised, and from then on the stored state is rejected: every later sequence of
  authorisations and revocations, of that root too, leaves it unreadable.
\<close>

theorem blank_name_locks_roots:
  assumes auth: "authorize sha cwd fs selected m = (m', Inr r)" and new: "m' \<noteq> m"
    and blank: "trim (lr_name r) = []"
  shows "\<exists>e. roots (run (root_step sha cwd) m' evs) = Inl e \<and>
     revoke (lr_id r) (run (root_step sha cwd) m' evs) = (run (root_step sha cwd) m' evs, Inl e)"
proof -
  have "\<exists>rs. m' = save_roots m (rs @ [r])"
    by (cases rule: authorize_cases [of sha cwd fs selected m]) (use auth new in auto)
  then obtain rs where "m' = save_roots m (rs @ [r])" by blast
  then obtain e where "roots m' = Inl e"
    using save_blank_root [of r "rs @ [r]" m] blank by auto
  from unreadable_run [OF this] show ?thesis by (auto simp: revoke_def)
qed

lemma blank_name_locks_roots_witness:
  "\<exists>e. roots (run (root_step (\<lambda>_. replicate 64 CHR ''a'') ''/'')
      (fst (authorize (\<lambda>_. replicate 64 CHR ''a'') ''/'' (\<lambda>p. Some (p, FsDirectory)) ''/h/ '' []))
      [Revokes ''local-aaaaaaaaaaaaaaaa'']) = Inl e"
proof -
  let ?sha = "\<lambda>_ :: string. replicate 64 CHR ''a''"
  let ?m = "save_roots [] [make_root ?sha ''/h/ '']"
  have auth: "authorize ?sha ''/'' (\<lambda>p. Some (p, FsDirectory)) ''/h/ '' [] =
      (?m, Inr (make_root ?sha ''/h/ ''))"
    by (simp add: authorize_def canonical_directory_def roots_def parse_stored_roots_def mem_get_def
        oget_def find_containing_def max_local_roots_def file_system_root_def is_absolute_def
        normalize_def segs_def norm_segs_def seg_step_def path_join_def starts_with_def Let_def)
  have "?m \<noteq> []" by (simp add: save_roots_def mem_update_def jm_set_def)
  moreover have "trim (lr_name (make_root ?sha ''/h/ '')) = []"
    by (simp add: make_root_def basename_def trim_def is_space_def)
  ultimately show ?thesis
    using blank_name_locks_roots [OF auth, of "[Revokes ''local-aaaaaaaaaaaaaaaa'']"] unfolding auth by auto
qed

end
