(* ===== verification/ConversationResources.thy ===== *)
theory ConversationResources
  imports Memento
begin

text \<open>
  \<^verbatim>\<open>src/extension/conversation-resource-authority.ts\<close>: local files and directories the user
  drops into a conversation. A drop stages its canonical path; a turn that mentions the
  path claims it for its thread, which stores it. \<open>stageDropped\<close> and \<open>claim\<close> wait for the
  file system once per path, so each is modelled by the step of one path and by the whole
  loop; the steps of a staging interleave with those of a claim. Claims and deletions wait
  for one another (\<open>#serializeStateMutation\<close>): at most one claim is under way.
\<close>

definition conversation_prefix :: string where
  "conversation_prefix = ''codexRemoteBridge.conversationResources.v2.''"

definition pending_drop_ttl_ms :: int where
  "pending_drop_ttl_ms = 30 * 60000"

datatype resource_kind = KFile | KDirectory

fun kind_text :: "resource_kind \<Rightarrow> string" where
  "kind_text KFile = ''file''"
| "kind_text KDirectory = ''directory''"

fun kind_of_text :: "string option \<Rightarrow> resource_kind option" where
  "kind_of_text (Some s) =
     (if s = ''file'' then Some KFile else if s = ''directory'' then Some KDirectory else None)"
| "kind_of_text None = None"

text \<open>A \<open>ConversationResourceConfig\<close>; its target is local, its role conversation.\<close>

record conv_resource =
  cv_id :: string
  cv_kind :: resource_kind
  cv_path :: string
  cv_name :: string
  cv_thread :: string

definition conv_json :: "conv_resource \<Rightarrow> json" where
  "conv_json r = JObj [(''id'', JStr (cv_id r)), (''target'', JStr ''local''),
     (''role'', JStr ''conversation''), (''kind'', JStr (kind_text (cv_kind r))),
     (''path'', JStr (cv_path r)), (''displayName'', JStr (cv_name r)), (''threadId'', JStr (cv_thread r))]"

record pending_resource =
  pr_kind :: resource_kind
  pr_path :: string
  pr_staged_at :: int

definition valid_thread_id :: "string \<Rightarrow> bool" where
  "valid_thread_id s \<longleftrightarrow> 0 < length s \<and> length s \<le> 256 \<and> NUL \<notin> set s"

definition thread_key :: "(string \<Rightarrow> string) \<Rightarrow> string \<Rightarrow> string" where
  "thread_key sha tid = conversation_prefix @ sha tid"

definition resource_id :: "(string \<Rightarrow> string) \<Rightarrow> string \<Rightarrow> resource_kind \<Rightarrow> string \<Rightarrow> string" where
  "resource_id sha tid kind p =
     ''context-'' @ take 16 (sha (tid @ [NUL] @ kind_text kind @ [NUL] @ p))"

definition parse_resource :: "(string \<Rightarrow> string) \<Rightarrow> string \<Rightarrow> json \<Rightarrow> bridge_error + conv_resource" where
  "parse_resource sha tid v =
     (case is_record v of
        None \<Rightarrow> throw INVALID_CONFIG ''Stored conversation resource must be an object''
      | Some ob \<Rightarrow>
          (case (kind_of_text (sprop ob ''kind''), sprop ob ''path'', sprop ob ''displayName'') of
             (Some kind, Some p, Some d) \<Rightarrow>
               if oget ob ''target'' \<noteq> Some (JStr ''local'') \<or>
                  oget ob ''role'' \<noteq> Some (JStr ''conversation'') \<or> \<not> is_absolute p \<or>
                  normalize p \<noteq> p \<or> trim d = [] \<or> length d > 128 \<or>
                  oget ob ''threadId'' \<noteq> Some (JStr tid) \<or>
                  oget ob ''id'' \<noteq> Some (JStr (resource_id sha tid kind p))
               then throw INVALID_CONFIG ''Stored conversation resource is invalid''
               else if kind = KDirectory \<and> file_system_root p then
                 throw INVALID_CONFIG ''Stored conversation resources must not expose a filesystem root''
               else Inr \<lparr>cv_id = resource_id sha tid kind p, cv_kind = kind, cv_path = p,
                 cv_name = d, cv_thread = tid\<rparr>
           | _ \<Rightarrow> throw INVALID_CONFIG ''Stored conversation resource is invalid''))"

text \<open>The loop over the parsed resources with its two sets.\<close>

fun unique_resources :: "string list \<Rightarrow> string list \<Rightarrow> conv_resource list \<Rightarrow> bridge_error + unit" where
  "unique_resources ids paths [] = Inr ()"
| "unique_resources ids paths (r # rs) =
     (if cv_id r \<in> set ids \<or> cv_path r \<in> set paths
      then throw INVALID_CONFIG ''Stored conversation resources contain a duplicate''
      else unique_resources (set_add ids (cv_id r)) (set_add paths (cv_path r)) rs)"

definition parse_thread_state ::
  "(string \<Rightarrow> string) \<Rightarrow> json option \<Rightarrow> string option \<Rightarrow>
   bridge_error + (conv_resource list \<times> string) option" where
  "parse_thread_state sha v expected =
     (case v of
        None \<Rightarrow> Inr None
      | Some j \<Rightarrow>
          (case is_record j of
             None \<Rightarrow> throw INVALID_CONFIG ''Stored conversation resources are invalid''
           | Some ob \<Rightarrow>
               (case (sprop ob ''threadId'', as_array (oget ob ''resources'')) of
                  (Some tid, Some xs) \<Rightarrow>
                    if oget ob ''version'' \<noteq> Some (JInt 2) \<or> \<not> valid_thread_id tid \<or>
                       (expected \<noteq> None \<and> Some tid \<noteq> expected)
                    then throw INVALID_CONFIG ''Stored conversation resources are invalid''
                    else bind_res (map_res (parse_resource sha tid) xs) (\<lambda>rs.
                         bind_res (unique_resources [] [] rs) (\<lambda>_. Inr (Some (rs, tid))))
                | _ \<Rightarrow> throw INVALID_CONFIG ''Stored conversation resources are invalid'')))"

text \<open>\<open>canonicalResource\<close>; \<open>now\<close> is the clock when the file system has answered.\<close>

definition canonical_resource :: "file_system \<Rightarrow> int \<Rightarrow> string \<Rightarrow> bridge_error + pending_resource" where
  "canonical_resource fs now p =
     (if p = [] \<or> length p > 32 * 1024 \<or> NUL \<in> set p then
        throw COMMAND_DENIED ''Dropped local resource path is invalid''
      else
        (case fs p of
           None \<Rightarrow> throw_with COMMAND_DENIED ''Dropped local resource does not exist or cannot be opened''
             [(''path'', JStr p)]
         | Some (c, FsOther) \<Rightarrow>
             throw COMMAND_DENIED ''Dropped local resource must be a regular file or directory''
         | Some (c, FsFile) \<Rightarrow> Inr \<lparr>pr_kind = KFile, pr_path = c, pr_staged_at = now\<rparr>
         | Some (c, FsDirectory) \<Rightarrow>
             if file_system_root c then
               throw COMMAND_DENIED ''Dropping a filesystem root into a conversation is not allowed''
             else Inr \<lparr>pr_kind = KDirectory, pr_path = c, pr_staged_at = now\<rparr>))"

section \<open>The authority\<close>

text \<open>A claim under way: the local variables of \<open>claim\<close>.\<close>

record claim_run =
  cr_thread :: string
  cr_current :: "conv_resource list"
  cr_by_path :: "(string, conv_resource) jsmap"
  cr_claimed :: "conv_resource list"

record conv_authority =
  ca_pending :: "(string, pending_resource) jsmap"
  ca_state :: memento
  ca_claim :: "claim_run option"

definition new_conv_authority :: "memento \<Rightarrow> conv_authority" where
  "new_conv_authority m = \<lparr>ca_pending = [], ca_state = m, ca_claim = None\<rparr>"

definition purge_pending :: "int \<Rightarrow> conv_authority \<Rightarrow> conv_authority" where
  "purge_pending now s = s\<lparr>ca_pending :=
     filter (\<lambda>(p, r). \<not> pr_staged_at r < now - pending_drop_ttl_ms) (ca_pending s)\<rparr>"

definition resources :: "(string \<Rightarrow> string) \<Rightarrow> conv_authority \<Rightarrow> string \<Rightarrow> bridge_error + conv_resource list" where
  "resources sha s tid =
     (if \<not> valid_thread_id tid then Inr []
      else bind_res (parse_thread_state sha (mem_get (ca_state s) (thread_key sha tid)) (Some tid))
        (\<lambda>st. Inr (case st of None \<Rightarrow> [] | Some (rs, _) \<Rightarrow> rs)))"

definition find_resource ::
  "(string \<Rightarrow> string) \<Rightarrow> conv_authority \<Rightarrow> string \<Rightarrow> string \<Rightarrow> bridge_error + conv_resource option" where
  "find_resource sha s tid rid =
     bind_res (resources sha s tid) (\<lambda>rs. Inr (List.find (\<lambda>r. cv_id r = rid) rs))"

text \<open>What the loops see of the outside when they reach a path: file system, clock, path.\<close>

type_synonym look = "file_system \<times> int \<times> string"

text \<open>One round of \<open>stageDropped\<close>, and the whole call.\<close>

definition stage_path ::
  "look \<Rightarrow> conv_authority \<Rightarrow> conv_authority \<times> (bridge_error + pending_resource)" where
  "stage_path l s =
     (case l of (fs, now, p) \<Rightarrow>
        (case canonical_resource fs now p of
           Inl e \<Rightarrow> (s, Inl e)
         | Inr r \<Rightarrow> (s\<lparr>ca_pending := jm_set (ca_pending s) (pr_path r) r\<rparr>, Inr r)))"

fun stage_paths ::
  "look list \<Rightarrow> (string, pending_resource) jsmap \<Rightarrow> conv_authority \<Rightarrow>
   conv_authority \<times> (bridge_error + (string, pending_resource) jsmap)" where
  "stage_paths [] staged s = (s, Inr staged)"
| "stage_paths (l # ls) staged s =
     (case stage_path l s of
        (s', Inl e) \<Rightarrow> (s', Inl e)
      | (s', Inr r) \<Rightarrow> stage_paths ls (jm_set staged (pr_path r) r) s')"

record staged_resource =
  sr_kind :: resource_kind
  sr_path :: string
  sr_name :: string

definition stage_dropped ::
  "int \<Rightarrow> look list \<Rightarrow> conv_authority \<Rightarrow> conv_authority \<times> (bridge_error + staged_resource list)" where
  "stage_dropped now ls s =
     (case stage_paths ls [] (purge_pending now s) of
        (s', r) \<Rightarrow> (s', bind_res r (\<lambda>staged. Inr (map (\<lambda>(_, x).
          \<lparr>sr_kind = pr_kind x, sr_path = pr_path x, sr_name = take 128 (basename (pr_path x))\<rparr>) staged))))"

text \<open>\<open>claim\<close>: up to the loop, one round, and the end.\<close>

definition claim_begin ::
  "(string \<Rightarrow> string) \<Rightarrow> string \<Rightarrow> int \<Rightarrow> conv_authority \<Rightarrow> conv_authority \<times> (bridge_error + claim_run)" where
  "claim_begin sha tid now s =
     (if \<not> valid_thread_id tid then
        (s, throw PROTOCOL_MISMATCH ''Conversation thread ID is invalid'')
      else
        let s = purge_pending now s in
        (case resources sha s tid of
           Inl e \<Rightarrow> (s, Inl e)
         | Inr current \<Rightarrow>
             (s, Inr \<lparr>cr_thread = tid, cr_current = current,
                cr_by_path = foldl (\<lambda>m r. jm_set m (cv_path r) r) [] current, cr_claimed = []\<rparr>)))"

definition claim_path ::
  "(string \<Rightarrow> string) \<Rightarrow> look \<Rightarrow> conv_authority \<times> claim_run \<Rightarrow> conv_authority \<times> claim_run" where
  "claim_path sha l sc =
     (case (l, sc) of ((fs, now, p), (s, c)) \<Rightarrow>
        (case canonical_resource fs now p of
           Inl _ \<Rightarrow> (s, c)
         | Inr canonical \<Rightarrow>
             let path = pr_path canonical; tid = cr_thread c; kind = pr_kind canonical;
                 consumed = s\<lparr>ca_pending := jm_del (ca_pending s) path\<rparr> in
             if jm_get (cr_by_path c) path \<noteq> None then (consumed, c)
             else
               (case jm_get (ca_pending s) path of
                  None \<Rightarrow> (s, c)
                | Some pending \<Rightarrow>
                    if pr_kind pending \<noteq> kind then (s, c)
                    else
                      let r = \<lparr>cv_id = resource_id sha tid kind path, cv_kind = kind, cv_path = path,
                                cv_name = take 128 (basename path), cv_thread = tid\<rparr> in
                      (consumed,
                       c\<lparr>cr_current := cr_current c @ [r], cr_by_path := jm_set (cr_by_path c) path r,
                         cr_claimed := cr_claimed c @ [r]\<rparr>))))"

definition thread_json :: "string \<Rightarrow> conv_resource list \<Rightarrow> json" where
  "thread_json tid rs = JObj [(''version'', JInt 2), (''threadId'', JStr tid),
     (''resources'', JArr (map conv_json rs))]"

definition save_thread ::
  "(string \<Rightarrow> string) \<Rightarrow> string \<Rightarrow> conv_resource list \<Rightarrow> conv_authority \<Rightarrow> conv_authority" where
  "save_thread sha tid rs s =
     s\<lparr>ca_state := mem_update (ca_state s) (thread_key sha tid) (Some (thread_json tid rs))\<rparr>"

definition claim_end :: "(string \<Rightarrow> string) \<Rightarrow> conv_authority \<times> claim_run \<Rightarrow> conv_authority" where
  "claim_end sha sc =
     (case sc of (s, c) \<Rightarrow> if cr_claimed c \<noteq> [] then save_thread sha (cr_thread c) (cr_current c) s else s)"

text \<open>The whole call, with nothing else in between: the claimed and the current resources.\<close>

definition claim ::
  "(string \<Rightarrow> string) \<Rightarrow> string \<Rightarrow> int \<Rightarrow> look list \<Rightarrow> conv_authority \<Rightarrow>
   conv_authority \<times> (bridge_error + conv_resource list \<times> conv_resource list)" where
  "claim sha tid now ls s =
     (case claim_begin sha tid now s of
        (s', Inl e) \<Rightarrow> (s', Inl e)
      | (s', Inr c) \<Rightarrow>
          let (s2, c2) = fold (claim_path sha) ls (s', c) in
          (claim_end sha (s2, c2), Inr (cr_claimed c2, cr_current c2)))"

definition delete_thread ::
  "(string \<Rightarrow> string) \<Rightarrow> string \<Rightarrow> conv_authority \<Rightarrow> conv_authority \<times> (bridge_error + bool)" where
  "delete_thread sha tid s =
     (if \<not> valid_thread_id tid then
        (s, throw PROTOCOL_MISMATCH ''Conversation thread ID is invalid'')
      else if mem_get (ca_state s) (thread_key sha tid) = None then (s, Inr False)
      else (s\<lparr>ca_state := mem_update (ca_state s) (thread_key sha tid) None\<rparr>, Inr True))"

text \<open>\<open>summary\<close>: the number of resources and of threads in the store.\<close>

fun count_resources :: "(string \<Rightarrow> string) \<Rightarrow> memento \<Rightarrow> string list \<Rightarrow> bridge_error + nat \<times> nat" where
  "count_resources sha m [] = Inr (0, 0)"
| "count_resources sha m (k # ks) =
     (if \<not> starts_with k conversation_prefix then count_resources sha m ks
      else bind_res (parse_thread_state sha (mem_get m k) None) (\<lambda>st.
           bind_res (count_resources sha m ks) (\<lambda>(n, t).
             Inr (case st of None \<Rightarrow> (n, t) | Some (rs, _) \<Rightarrow> (length rs + n, Suc t)))))"

definition conversation_summary :: "(string \<Rightarrow> string) \<Rightarrow> conv_authority \<Rightarrow> bridge_error + nat \<times> nat" where
  "conversation_summary sha s = count_resources sha (ca_state s) (map fst (ca_state s))"

section \<open>Interleaved runs\<close>

text \<open>
  \<open>StageStarts\<close> is the purge of \<open>stageDropped\<close>, \<open>StagesPath\<close> one of its rounds. A claim or a
  deletion whose turn has not come (a claim is under way) does nothing yet.
\<close>

datatype conv_event =
    StageStarts int
  | StagesPath look
  | ClaimStarts string int
  | ClaimsPath look
  | ClaimEnds
  | DeletesThread string

fun conv_step :: "(string \<Rightarrow> string) \<Rightarrow> conv_authority \<Rightarrow> conv_event \<Rightarrow> conv_authority" where
  "conv_step sha s (StageStarts now) = purge_pending now s"
| "conv_step sha s (StagesPath l) = fst (stage_path l s)"
| "conv_step sha s (ClaimStarts tid now) =
     (if ca_claim s \<noteq> None then s
      else case claim_begin sha tid now s of
        (s', Inl e) \<Rightarrow> s'
      | (s', Inr c) \<Rightarrow> s'\<lparr>ca_claim := Some c\<rparr>)"
| "conv_step sha s (ClaimsPath l) =
     (case ca_claim s of
        None \<Rightarrow> s
      | Some c \<Rightarrow> (case claim_path sha l (s, c) of (s', c') \<Rightarrow> s'\<lparr>ca_claim := Some c'\<rparr>))"
| "conv_step sha s ClaimEnds =
     (case ca_claim s of
        None \<Rightarrow> s
      | Some c \<Rightarrow> (claim_end sha (s, c))\<lparr>ca_claim := None\<rparr>)"
| "conv_step sha s (DeletesThread tid) =
     (if ca_claim s \<noteq> None then s else fst (delete_thread sha tid s))"


section \<open>What a stored thread holds\<close>

lemma kind_of_kind_text [simp]: "kind_of_text (Some (kind_text k)) = Some k"
  by (cases k) simp_all

lemma kind_text_iff [simp]:
  "kind_text k = ''file'' \<longleftrightarrow> k = KFile" "kind_text k = ''directory'' \<longleftrightarrow> k = KDirectory"
  by (cases k; simp)+

lemma parse_conv_json: "parse_resource sha tid (conv_json r) = Inr r' \<Longrightarrow> r' = r"
  by (cases r) (auto simp: parse_resource_def conv_json_def oget_def jm_get_Cons split: if_splits)

lemma map_res_image:
  "map_res f (map g xs) = Inr ys \<Longrightarrow> (\<And>x y. f (g x) = Inr y \<Longrightarrow> y = x) \<Longrightarrow> ys = xs"
  by (induction xs arbitrary: ys) auto

lemma parse_conv_list:
  "map_res (parse_resource sha tid) (map conv_json rs) = Inr rs' \<Longrightarrow> rs' = rs"
  by (erule map_res_image) (rule parse_conv_json)

lemma parse_thread_json:
  assumes "parse_thread_state sha (Some (thread_json tid rs)) (Some tid') = Inr st"
  shows "tid' = tid \<and> st = Some (rs, tid)"
proof -
  have get: "oget [(''version'', JInt 2), (''threadId'', JStr tid), (''resources'', JArr (map conv_json rs))] k =
      (if k = ''version'' then Some (JInt 2) else if k = ''threadId'' then Some (JStr tid)
       else if k = ''resources'' then Some (JArr (map conv_json rs)) else None)" for k
    by (simp add: oget_def jm_get_Cons)
  from assms have "tid' = tid"
    and "\<exists>rs'. map_res (parse_resource sha tid) (map conv_json rs) = Inr rs' \<and> st = Some (rs', tid)"
    by (simp_all add: parse_thread_state_def thread_json_def get split: if_splits)
      blast
  then show ?thesis using parse_conv_list by blast
qed

lemma resources_save:
  assumes "resources sha (save_thread sha tid rs s) tid' = Inr rs'"
  shows "rs' = [] \<or> (tid' = tid \<and> rs' = rs) \<or>
    (thread_key sha tid' \<noteq> thread_key sha tid \<and> resources sha s tid' = Inr rs')"
proof (cases "valid_thread_id tid' \<and> thread_key sha tid' = thread_key sha tid")
  case True
  with assms obtain st where "parse_thread_state sha (Some (thread_json tid rs)) (Some tid') = Inr st"
    "rs' = (case st of None \<Rightarrow> [] | Some (rs, _) \<Rightarrow> rs)"
    by (auto simp: resources_def save_thread_def memento.get_update)
  then show ?thesis using parse_thread_json by fastforce
next
  case False
  show ?thesis
  proof (cases "valid_thread_id tid'")
    case True
    with False have "thread_key sha tid' \<noteq> thread_key sha tid" by simp
    moreover have "mem_get (ca_state (save_thread sha tid rs s)) (thread_key sha tid') =
        mem_get (ca_state s) (thread_key sha tid')"
      using calculation by (simp add: save_thread_def memento.get_update)
    ultimately show ?thesis using assms by (simp add: resources_def True)
  next
    case False
    with assms show ?thesis by (simp add: resources_def)
  qed
qed

lemma resources_cong: "ca_state s = ca_state s' \<Longrightarrow> resources sha s tid = resources sha s' tid"
  by (simp add: resources_def)

definition holds :: "(string \<Rightarrow> string) \<Rightarrow> conv_authority \<Rightarrow> string \<Rightarrow> conv_resource \<Rightarrow> bool" where
  "holds sha s tid r \<longleftrightarrow> (\<exists>rs. resources sha s tid = Inr rs \<and> r \<in> set rs)"

lemma holds_cong: "ca_state s = ca_state s' \<Longrightarrow> holds sha s tid r = holds sha s' tid r"
  by (simp add: holds_def resources_cong [of s s'])

lemma holds_save:
  "holds sha (save_thread sha tid rs s) tid' r \<Longrightarrow> (tid' = tid \<and> r \<in> set rs) \<or> holds sha s tid' r"
  by (auto simp: holds_def dest!: resources_save)

lemma holds_delete: "holds sha (fst (delete_thread sha tid s)) tid' r \<Longrightarrow> holds sha s tid' r"
  by (auto simp: holds_def delete_thread_def resources_def memento.get_update parse_thread_state_def
      split: if_splits)

lemma purge_state [simp]:
  "ca_state (purge_pending now s) = ca_state s" "ca_claim (purge_pending now s) = ca_claim s"
  by (simp_all add: purge_pending_def)

lemma save_simps [simp]:
  "ca_pending (save_thread sha tid rs s) = ca_pending s"
  "ca_claim (save_thread sha tid rs s) = ca_claim s"
  by (simp_all add: save_thread_def)

text \<open>The two operations of a claim by cases.\<close>

lemma claim_begin_cases:
  obtains (refused) e where "snd (claim_begin sha tid now s) = Inl e"
      "fst (claim_begin sha tid now s) = s \<or> fst (claim_begin sha tid now s) = purge_pending now s"
  | (begun) rs where "resources sha s tid = Inr rs"
      "claim_begin sha tid now s = (purge_pending now s, Inr \<lparr>cr_thread = tid, cr_current = rs,
        cr_by_path = foldl (\<lambda>m r. jm_set m (cv_path r) r) [] rs, cr_claimed = []\<rparr>)"
proof (cases "valid_thread_id tid")
  case False
  then show ?thesis by (intro refused) (simp_all add: claim_begin_def)
next
  case True
  have res: "resources sha (purge_pending now s) tid = resources sha s tid"
    by (simp add: resources_cong [of "purge_pending now s" s])
  show ?thesis
  proof (cases "resources sha s tid")
    case (Inl e)
    with True res show ?thesis by (intro refused) (simp_all add: claim_begin_def)
  next
    case (Inr rs)
    with True res show ?thesis by (intro begun) (simp_all add: claim_begin_def)
  qed
qed

definition the_claimed :: "(string \<Rightarrow> string) \<Rightarrow> string \<Rightarrow> pending_resource \<Rightarrow> conv_resource" where
  "the_claimed sha tid x = \<lparr>cv_id = resource_id sha tid (pr_kind x) (pr_path x), cv_kind = pr_kind x,
     cv_path = pr_path x, cv_name = take 128 (basename (pr_path x)), cv_thread = tid\<rparr>"

lemma claim_path_cases:
  obtains (skipped) "claim_path sha l (s, c) = (s, c)"
  | (known) p where "claim_path sha l (s, c) = (s\<lparr>ca_pending := jm_del (ca_pending s) p\<rparr>, c)"
  | (granted) x y where "jm_get (ca_pending s) (pr_path x) = Some y" "pr_kind y = pr_kind x"
      "jm_get (cr_by_path c) (pr_path x) = None"
      "claim_path sha l (s, c) = (s\<lparr>ca_pending := jm_del (ca_pending s) (pr_path x)\<rparr>,
        c\<lparr>cr_current := cr_current c @ [the_claimed sha (cr_thread c) x],
          cr_by_path := jm_set (cr_by_path c) (pr_path x) (the_claimed sha (cr_thread c) x),
          cr_claimed := cr_claimed c @ [the_claimed sha (cr_thread c) x]\<rparr>)"
proof -
  obtain fs now p where l: "l = (fs, now, p)" by (cases l)
  show ?thesis
  proof (cases "canonical_resource fs now p")
    case (Inl e)
    then show ?thesis by (intro skipped) (simp add: claim_path_def l)
  next
    case (Inr x)
    show ?thesis
    proof (cases "jm_get (cr_by_path c) (pr_path x)")
      case (Some r)
      with Inr show ?thesis by (intro known) (simp add: claim_path_def l Let_def)
    next
      case None
      show ?thesis
      proof (cases "jm_get (ca_pending s) (pr_path x)")
        case None
        with Inr \<open>jm_get (cr_by_path c) (pr_path x) = None\<close> show ?thesis
          by (intro skipped) (simp add: claim_path_def l Let_def)
      next
        case (Some y)
        show ?thesis
        proof (cases "pr_kind y = pr_kind x")
          case True
          from Inr None Some True show ?thesis
            by (intro granted [OF Some True None]) (simp add: claim_path_def l Let_def the_claimed_def)
        next
          case False
          with Inr None Some show ?thesis by (intro skipped) (simp add: claim_path_def l Let_def)
        qed
      qed
    qed
  qed
qed

section \<open>Consent\<close>

text \<open>What an event stages: the canonical path and the kind the file system told.\<close>

fun staged_by :: "conv_event \<Rightarrow> (string \<times> resource_kind) option" where
  "staged_by (StagesPath (fs, now, p)) =
     (case canonical_resource fs now p of Inl _ \<Rightarrow> None | Inr x \<Rightarrow> Some (pr_path x, pr_kind x))"
| "staged_by _ = None"

lemma stage_path_cases:
  obtains (refused) e where "stage_path l s = (s, Inl e)" "staged_by (StagesPath l) = None"
  | (staged) x where "stage_path l s = (s\<lparr>ca_pending := jm_set (ca_pending s) (pr_path x) x\<rparr>, Inr x)"
      "staged_by (StagesPath l) = Some (pr_path x, pr_kind x)"
proof -
  obtain fs now p where l: "l = (fs, now, p)" by (cases l)
  show ?thesis
    by (cases "canonical_resource fs now p")
      (use refused staged in \<open>auto simp: stage_path_def l\<close>)
qed

text \<open>
  The invariant of a run: a resource a thread holds was in the store at the start or was
  staged, as the same path and kind, by an event that happened (the set \<open>G\<close>).
\<close>

definition consented :: "(string \<Rightarrow> string) \<Rightarrow> memento \<Rightarrow> (string \<times> resource_kind) set \<Rightarrow>
  string \<Rightarrow> conv_resource \<Rightarrow> bool" where
  "consented sha m0 G tid r \<longleftrightarrow>
     holds sha (new_conv_authority m0) tid r \<or> (cv_path r, cv_kind r) \<in> G"

definition consent_inv :: "(string \<Rightarrow> string) \<Rightarrow> memento \<Rightarrow> (string \<times> resource_kind) set \<Rightarrow>
  conv_authority \<Rightarrow> bool" where
  "consent_inv sha m0 G s \<longleftrightarrow>
     (\<forall>p x. jm_get (ca_pending s) p = Some x \<longrightarrow> pr_path x = p \<and> (p, pr_kind x) \<in> G) \<and>
     jm_ok (ca_pending s) \<and>
     (\<forall>tid r. holds sha s tid r \<longrightarrow> consented sha m0 G tid r) \<and>
     (\<forall>c. ca_claim s = Some c \<longrightarrow> (\<forall>r\<in>set (cr_current c). consented sha m0 G (cr_thread c) r))"

lemma consent_inv_pending:
  assumes "consent_inv sha m0 G s" "jm_ok pend"
    and "\<And>p x. jm_get pend p = Some x \<Longrightarrow> jm_get (ca_pending s) p = Some x \<or> (pr_path x = p \<and> (p, pr_kind x) \<in> G)"
  shows "consent_inv sha m0 G (s\<lparr>ca_pending := pend\<rparr>)"
  using assms holds_cong [of "s\<lparr>ca_pending := pend\<rparr>" s]
  unfolding consent_inv_def by (simp; blast)

lemma consent_purge: "consent_inv sha m0 G s \<Longrightarrow> consent_inv sha m0 G (purge_pending now s)"
  unfolding purge_pending_def
  by (rule consent_inv_pending) (auto simp: consent_inv_def jm_ok_filter jm_get_filter)

lemma consent_consume:
  "consent_inv sha m0 G s \<Longrightarrow> consent_inv sha m0 G (s\<lparr>ca_pending := jm_del (ca_pending s) p\<rparr>)"
  by (rule consent_inv_pending) (auto simp: consent_inv_def jm.ok_del split: if_splits)

lemma consent_claim:
  assumes "consent_inv sha m0 G s" "\<forall>r\<in>set (cr_current c). consented sha m0 G (cr_thread c) r"
  shows "consent_inv sha m0 G (s\<lparr>ca_claim := Some c\<rparr>)"
  using assms holds_cong [of "s\<lparr>ca_claim := Some c\<rparr>" s] unfolding consent_inv_def by simp

lemma consent_step:
  assumes inv: "consent_inv sha m0 G s" and G: "\<forall>pk. staged_by e = Some pk \<longrightarrow> pk \<in> G"
  shows "consent_inv sha m0 G (conv_step sha s e)"
proof (cases e)
  case (StageStarts now)
  with consent_purge [OF inv] show ?thesis by simp
next
  case (StagesPath l)
  show ?thesis
  proof (cases rule: stage_path_cases [of l s])
    case (refused e')
    with inv show ?thesis by (simp add: StagesPath)
  next
    case (staged x)
    have "consent_inv sha m0 G (s\<lparr>ca_pending := jm_set (ca_pending s) (pr_path x) x\<rparr>)"
      using inv G staged(2)
      by (intro consent_inv_pending) (auto simp: StagesPath consent_inv_def jm.ok_put split: if_splits)
    with staged(1) show ?thesis by (simp add: StagesPath)
  qed
next
  case (ClaimStarts tid now)
  show ?thesis
  proof (cases "ca_claim s")
    case (Some c)
    with inv show ?thesis by (simp add: ClaimStarts)
  next
    case None
    show ?thesis
    proof (cases rule: claim_begin_cases [of sha tid now s])
      case (refused e')
      obtain s' x where "claim_begin sha tid now s = (s', x)" by (cases "claim_begin sha tid now s")
      with refused None inv consent_purge [OF inv] show ?thesis by (auto simp: ClaimStarts)
    next
      case (begun rs)
      have "\<forall>r\<in>set rs. consented sha m0 G tid r"
        using inv begun(1) by (auto simp: consent_inv_def holds_def)
      with begun None consent_claim [OF consent_purge [OF inv]] show ?thesis
        by (simp add: ClaimStarts)
    qed
  qed
next
  case (ClaimsPath l)
  show ?thesis
  proof (cases "ca_claim s")
    case None
    with inv show ?thesis by (simp add: ClaimsPath)
  next
    case (Some c)
    have cur: "\<forall>r\<in>set (cr_current c). consented sha m0 G (cr_thread c) r"
      using inv Some by (simp add: consent_inv_def)
    show ?thesis
    proof (cases rule: claim_path_cases [of sha l s c])
      case skipped
      with Some inv cur show ?thesis by (simp add: ClaimsPath consent_claim)
    next
      case (known p)
      with Some consent_claim [OF consent_consume [OF inv] cur] show ?thesis by (simp add: ClaimsPath)
    next
      case (granted x y)
      have "(pr_path x, pr_kind x) \<in> G" using inv granted(1,2) unfolding consent_inv_def by metis
      with cur have "\<forall>r\<in>set (cr_current c @ [the_claimed sha (cr_thread c) x]).
          consented sha m0 G (cr_thread c) r"
        by (auto simp: consented_def the_claimed_def)
      with Some granted(4) consent_claim [OF consent_consume [OF inv]] show ?thesis
        by (simp add: ClaimsPath)
    qed
  qed
next
  case ClaimEnds
  show ?thesis
  proof (cases "ca_claim s")
    case None
    with inv show ?thesis by (simp add: ClaimEnds)
  next
    case (Some c)
    have cur: "\<forall>r\<in>set (cr_current c). consented sha m0 G (cr_thread c) r"
      using inv Some by (simp add: consent_inv_def)
    let ?s = "(claim_end sha (s, c))\<lparr>ca_claim := None\<rparr>"
    have "consented sha m0 G tid r" if "holds sha ?s tid r" for tid r
    proof -
      have "holds sha (claim_end sha (s, c)) tid r"
        using that holds_cong [of ?s "claim_end sha (s, c)"] by simp
      then have "holds sha s tid r \<or> tid = cr_thread c \<and> r \<in> set (cr_current c)"
        by (auto simp: claim_end_def dest: holds_save split: if_splits)
      with inv cur show ?thesis unfolding consent_inv_def by blast
    qed
    moreover have "ca_pending (claim_end sha (s, c)) = ca_pending s" by (simp add: claim_end_def)
    ultimately show ?thesis using inv Some by (simp add: ClaimEnds consent_inv_def)
  qed
next
  case (DeletesThread tid)
  show ?thesis
  proof (cases "ca_claim s")
    case (Some c)
    with inv show ?thesis by (simp add: DeletesThread)
  next
    case None
    have "ca_pending (fst (delete_thread sha tid s)) = ca_pending s"
      "ca_claim (fst (delete_thread sha tid s)) = None"
      using None by (simp_all add: delete_thread_def)
    with None inv show ?thesis
      by (auto simp: DeletesThread consent_inv_def dest: holds_delete)
  qed
qed

interpretation consent: guarded_machine "conv_step sha" "consent_inv sha m0 G"
  "\<lambda>e. \<forall>pk. staged_by e = Some pk \<longrightarrow> pk \<in> G"
  by unfold_locales (rule consent_step)

lemma consent_start: "consent_inv sha m0 G (new_conv_authority m0)"
  by (simp add: consent_inv_def new_conv_authority_def consented_def)

text \<open>C12. However drops, claims and deletions interleave, a resource that a thread holds was
  stored for that thread before, or the user dropped it: some event of the run staged
  exactly its canonical path, as the same kind of file. Mentioning a path gives no access.
\<close>

theorem claims_need_consent:
  assumes "resources sha (run (conv_step sha) (new_conv_authority m0) evs) tid = Inr rs" "r \<in> set rs"
  shows "(\<exists>rs0. resources sha (new_conv_authority m0) tid = Inr rs0 \<and> r \<in> set rs0) \<or>
    Some (cv_path r, cv_kind r) \<in> set (map staged_by evs)"
proof -
  let ?G = "{pk. Some pk \<in> set (map staged_by evs)}"
  have "consent_inv sha m0 ?G (run (conv_step sha) (new_conv_authority m0) evs)"
    by (rule consent.guarded_run [OF consent_start]) (force simp: image_iff intro: sym)
  with assms show ?thesis by (auto simp: consent_inv_def holds_def consented_def)
qed


lemma claims_need_consent_witness:
  "Some (''/a'', KFile) \<in> set (map staged_by [StageStarts 0, StagesPath (\<lambda>p. Some (p, FsFile), 0, ''/a''),
     ClaimStarts ''t'' 5, ClaimsPath (\<lambda>p. Some (p, FsFile), 6, ''/a''), ClaimEnds])"
proof -
  let ?fs = "\<lambda>p. Some (p, FsFile)"
  let ?evs = "[StageStarts 0, StagesPath (?fs, 0, ''/a''), ClaimStarts ''t'' 5,
     ClaimsPath (?fs, 6, ''/a''), ClaimEnds]"
  let ?r = "the_claimed (\<lambda>s. s) ''t'' \<lparr>pr_kind = KFile, pr_path = ''/a'', pr_staged_at = 6\<rparr>"
  have can: "canonical_resource ?fs now ''/a'' = Inr \<lparr>pr_kind = KFile, pr_path = ''/a'', pr_staged_at = now\<rparr>"
    for now by (simp add: canonical_resource_def)
  have t: "valid_thread_id ''t''" by (simp add: valid_thread_id_def)
  have res0: "resources (\<lambda>s. s) s ''t'' = Inr []" if "ca_state s = []" for s
    using that by (simp add: resources_def mem_get_def oget_def parse_thread_state_def)
  have "run (conv_step (\<lambda>s. s)) (new_conv_authority []) ?evs =
      (save_thread (\<lambda>s. s) ''t'' [?r] (new_conv_authority []))\<lparr>ca_claim := None\<rparr>"
    by (simp add: new_conv_authority_def purge_pending_def stage_path_def can claim_begin_def t res0
        claim_path_def claim_end_def the_claimed_def pending_drop_ttl_ms_def jm_set_def jm_get_Cons
        save_thread_def jm_del_def Let_def)
  moreover have "parse_resource (\<lambda>s. s) ''t'' (conv_json ?r) = Inr ?r"
    by (simp add: parse_resource_def conv_json_def oget_def jm_get_Cons the_claimed_def is_absolute_def
        starts_with_def normalize_def segs_def norm_segs_def seg_step_def path_join_def basename_def
        trim_def is_space_def Let_def)
  then have "resources (\<lambda>s. s) ((save_thread (\<lambda>s. s) ''t'' [?r] (new_conv_authority []))\<lparr>ca_claim := None\<rparr>) ''t'' = Inr [?r]"
    by (simp add: resources_def t save_thread_def memento.get_update parse_thread_state_def thread_json_def
        oget_def jm_get_Cons)
  ultimately have "(\<exists>rs0. resources (\<lambda>s. s) (new_conv_authority []) ''t'' = Inr rs0 \<and> ?r \<in> set rs0) \<or>
      Some (cv_path ?r, cv_kind ?r) \<in> set (map staged_by ?evs)"
    by (intro claims_need_consent [of "\<lambda>s. s" "[]" ?evs "''t''" "[?r]"]) simp_all
  moreover have "resources (\<lambda>s. s) (new_conv_authority []) ''t'' = Inr []"
    by (rule res0) (simp add: new_conv_authority_def)
  ultimately show ?thesis by (simp add: the_claimed_def)
qed

section \<open>One drop, one claim\<close>

fun claimed_by :: "(string \<Rightarrow> string) \<Rightarrow> conv_authority \<Rightarrow> conv_event \<Rightarrow> string list" where
  "claimed_by sha s (ClaimsPath l) =
     (case ca_claim s of
        None \<Rightarrow> []
      | Some c \<Rightarrow> (case claim_path sha l (s, c) of (s', c') \<Rightarrow>
          map cv_path (drop (length (cr_claimed c)) (cr_claimed c'))))"
| "claimed_by sha s _ = []"

fun claims_log :: "(string \<Rightarrow> string) \<Rightarrow> conv_authority \<Rightarrow> conv_event list \<Rightarrow> string list" where
  "claims_log sha s [] = []"
| "claims_log sha s (e # es) = claimed_by sha s e @ claims_log sha (conv_step sha s e) es"

definition is_pending :: "conv_authority \<Rightarrow> string \<Rightarrow> nat" where
  "is_pending s p = (if jm_get (ca_pending s) p = None then 0 else 1)"

lemma pending_purge: "is_pending (purge_pending now s) p \<le> is_pending s p"
  by (auto simp: is_pending_def purge_pending_def jm_get_None)

lemma claim_step_pays:
  "count_list (claimed_by sha s e) p + is_pending (conv_step sha s e) p \<le>
     (if map_option fst (staged_by e) = Some p then 1 else 0) + is_pending s p"
proof (cases e)
  case (StageStarts now)
  with pending_purge show ?thesis by simp
next
  case (StagesPath l)
  show ?thesis
    by (cases rule: stage_path_cases [of l s]) (auto simp: StagesPath is_pending_def)
next
  case (ClaimStarts tid now)
  show ?thesis
  proof (cases "ca_claim s")
    case None
    show ?thesis
    proof (cases rule: claim_begin_cases [of sha tid now s])
      case (refused e')
      obtain s' x where "claim_begin sha tid now s = (s', x)" by (cases "claim_begin sha tid now s")
      with refused None pending_purge show ?thesis by (auto simp: ClaimStarts)
    next
      case (begun rs)
      then have "is_pending (conv_step sha s e) p = is_pending (purge_pending now s) p"
        using None by (simp add: ClaimStarts is_pending_def)
      with pending_purge [of now s p] show ?thesis by (simp add: ClaimStarts)
    qed
  qed (simp add: ClaimStarts)
next
  case (ClaimsPath l)
  show ?thesis
  proof (cases "ca_claim s")
    case (Some c)
    show ?thesis
      by (cases rule: claim_path_cases [of sha l s c])
        (use Some in \<open>auto simp: ClaimsPath is_pending_def the_claimed_def\<close>)
  qed (simp add: ClaimsPath)
next
  case ClaimEnds
  then show ?thesis by (cases "ca_claim s") (simp_all add: is_pending_def claim_end_def)
next
  case (DeletesThread tid)
  then show ?thesis by (simp add: is_pending_def delete_thread_def)
qed

lemma claims_log_pays:
  "count_list (claims_log sha s evs) p \<le>
     count_list (map (\<lambda>e. map_option fst (staged_by e)) evs) (Some p) + is_pending s p"
proof (induction evs arbitrary: s)
  case (Cons e evs)
  from Cons [of "conv_step sha s e"] claim_step_pays [of sha s e p] show ?case by auto
qed simp

text \<open>A drop is good for one claim: in any interleaving, a path is claimed at most as often
  as it was staged, over all threads together.
\<close>

theorem drop_claimed_once:
  "count_list (claims_log sha (new_conv_authority m0) evs) p \<le>
     count_list (map (\<lambda>e. map_option fst (staged_by e)) evs) (Some p)"
  using claims_log_pays [of sha "new_conv_authority m0" evs p]
  by (simp add: is_pending_def new_conv_authority_def)

section \<open>The whole claim\<close>

definition claim_inv ::
  "conv_authority \<Rightarrow> string \<Rightarrow> conv_resource list \<Rightarrow> conv_authority \<times> claim_run \<Rightarrow> bool" where
  "claim_inv s0 tid old sc \<longleftrightarrow> (case sc of (s, c) \<Rightarrow>
     cr_thread c = tid \<and> cr_current c = old @ cr_claimed c \<and> ca_state s = ca_state s0 \<and>
     (\<forall>p x. jm_get (ca_pending s) p = Some x \<longrightarrow> jm_get (ca_pending s0) p = Some x) \<and>
     (\<forall>r\<in>set (cr_claimed c). cv_thread r = tid \<and> jm_get (ca_pending s) (cv_path r) = None \<and>
        (\<exists>x. jm_get (ca_pending s0) (cv_path r) = Some x \<and> pr_kind x = cv_kind r)) \<and>
     (\<forall>p. jm_get (cr_by_path c) p = None \<longleftrightarrow> p \<notin> cv_path ` set (cr_current c)) \<and>
     distinct (map cv_path (cr_claimed c)) \<and> cv_path ` set (cr_claimed c) \<inter> cv_path ` set old = {})"

lemma claim_inv_path: "claim_inv s0 tid old sc \<Longrightarrow> claim_inv s0 tid old (claim_path sha l sc)"
proof (cases sc)
  case (Pair s c)
  assume inv: "claim_inv s0 tid old sc"
  show ?thesis
  proof (cases rule: claim_path_cases [of sha l s c])
    case skipped
    with inv Pair show ?thesis by simp
  next
    case (known p)
    with inv Pair show ?thesis by (auto simp: claim_inv_def)
  next
    case (granted x y)
    have "pr_path x \<notin> cv_path ` set (cr_current c)" "jm_get (ca_pending s0) (pr_path x) = Some y"
      using inv granted(1,3) by (auto simp: claim_inv_def Pair)
    with inv granted show ?thesis
      by (auto simp: claim_inv_def Pair the_claimed_def)
  qed
qed

lemma claim_inv_fold: "claim_inv s0 tid old sc \<Longrightarrow> claim_inv s0 tid old (fold (claim_path sha) ls sc)"
  by (induction ls arbitrary: sc) (simp_all add: claim_inv_path)

lemma by_path_keys:
  "jm_get (foldl (\<lambda>m r. jm_set m (cv_path r) r) m rs) p = None \<longleftrightarrow>
     jm_get m p = None \<and> p \<notin> cv_path ` set rs"
  by (induction rs arbitrary: m) auto

text \<open>What a claim answers: the thread's resources from before followed by the new ones. Each
  new one belongs to the thread and was pending as that path and kind, staged no earlier
  than 30 minutes before the claim began; it is consumed. The store changes exactly when
  something was claimed, and then it holds the answer.
\<close>

theorem claim_grants_pending:
  assumes ok: "jm_ok (ca_pending s)" and claim: "claim sha tid now ls s = (s', Inr (claimed, current))"
  shows "\<exists>old. resources sha s tid = Inr old \<and> current = old @ claimed \<and> distinct (map cv_path claimed) \<and>
    (\<forall>r\<in>set claimed. cv_thread r = tid \<and> cv_path r \<notin> cv_path ` set old \<and>
       jm_get (ca_pending s') (cv_path r) = None \<and>
       (\<exists>x. jm_get (ca_pending s) (cv_path r) = Some x \<and> pr_kind x = cv_kind r \<and>
          now - pending_drop_ttl_ms \<le> pr_staged_at x)) \<and>
    ca_state s' = (if claimed = [] then ca_state s else ca_state (save_thread sha tid current s))"
proof (cases rule: claim_begin_cases [of sha tid now s])
  case (refused e)
  obtain s1 x where "claim_begin sha tid now s = (s1, x)" by (cases "claim_begin sha tid now s")
  with refused claim show ?thesis by (simp add: claim_def)
next
  case (begun old)
  let ?s0 = "purge_pending now s"
  let ?c0 = "\<lparr>cr_thread = tid, cr_current = old,
    cr_by_path = foldl (\<lambda>m r. jm_set m (cv_path r) r) [] old, cr_claimed = []\<rparr>"
  obtain s2 c2 where fold: "fold (claim_path sha) ls (?s0, ?c0) = (s2, c2)"
    by (cases "fold (claim_path sha) ls (?s0, ?c0)")
  have "claim_inv ?s0 tid old (?s0, ?c0)" by (simp add: claim_inv_def by_path_keys)
  from claim_inv_fold [OF this, of sha ls] have inv: "claim_inv ?s0 tid old (s2, c2)"
    by (simp add: fold)
  have end_: "s' = claim_end sha (s2, c2)" "claimed = cr_claimed c2" "current = cr_current c2"
    using claim begun(2) fold by (simp_all add: claim_def)
  have pend: "ca_pending s' = ca_pending s2" by (simp add: end_ claim_end_def)
  have fresh: "jm_get (ca_pending s) p = Some x \<and> now - pending_drop_ttl_ms \<le> pr_staged_at x"
    if "jm_get (ca_pending ?s0) p = Some x" for p x
    using that ok by (simp add: purge_pending_def jm_get_filter)
  have "ca_state s' = (if claimed = [] then ca_state s else ca_state (save_thread sha tid current s))"
    using inv by (auto simp: end_ claim_end_def claim_inv_def save_thread_def)
  moreover have "cv_thread r = tid \<and> cv_path r \<notin> cv_path ` set old \<and>
      jm_get (ca_pending s') (cv_path r) = None \<and>
      (\<exists>x. jm_get (ca_pending s) (cv_path r) = Some x \<and> pr_kind x = cv_kind r \<and>
        now - pending_drop_ttl_ms \<le> pr_staged_at x)" if "r \<in> set claimed" for r
  proof -
    have "cv_path r \<in> cv_path ` set (cr_claimed c2)" using that by (simp add: end_)
    with inv have new: "cv_path r \<notin> cv_path ` set old" unfolding claim_inv_def by blast
    from inv that obtain x where "cv_thread r = tid" "jm_get (ca_pending s2) (cv_path r) = None"
      "jm_get (ca_pending ?s0) (cv_path r) = Some x" "pr_kind x = cv_kind r"
      by (auto simp: claim_inv_def end_)
    with fresh new pend show ?thesis by auto
  qed
  ultimately show ?thesis
    using begun(1) inv by (intro exI [of _ old]) (auto simp: claim_inv_def end_)
qed

lemma claim_grants_pending_witness:
  "\<exists>x. jm_get [(''/a'', \<lparr>pr_kind = KFile, pr_path = ''/a'', pr_staged_at = 3\<rparr>)] ''/a'' = Some x \<and>
     pr_kind x = KFile \<and> 7 - pending_drop_ttl_ms \<le> pr_staged_at x"
proof -
  let ?s = "(new_conv_authority [])\<lparr>ca_pending :=
    [(''/a'', \<lparr>pr_kind = KFile, pr_path = ''/a'', pr_staged_at = 3\<rparr>)]\<rparr>"
  let ?r = "the_claimed (\<lambda>s. s) ''t'' \<lparr>pr_kind = KFile, pr_path = ''/a'', pr_staged_at = 8\<rparr>"
  have "claim (\<lambda>s. s) ''t'' 7 [(\<lambda>p. Some (p, FsFile), 8, ''/a'')] ?s =
      (save_thread (\<lambda>s. s) ''t'' [?r] (new_conv_authority []), Inr ([?r], [?r]))"
    by (simp add: claim_def claim_begin_def valid_thread_id_def new_conv_authority_def purge_pending_def
        resources_def mem_get_def oget_def parse_thread_state_def claim_path_def canonical_resource_def
        claim_end_def the_claimed_def pending_drop_ttl_ms_def jm_get_Cons jm_set_def jm_del_def Let_def
        save_thread_def)
  from claim_grants_pending [OF _ this]
  have "\<forall>r\<in>set [?r]. \<exists>x. jm_get (ca_pending ?s) (cv_path r) = Some x \<and> pr_kind x = cv_kind r \<and>
      7 - pending_drop_ttl_ms \<le> pr_staged_at x"
    by (auto simp: jm_ok_def)
  then show ?thesis by (simp add: the_claimed_def)
qed

end
