(* ===== verification/HostFs.thy ===== *)
theory HostFs
  imports Memento Mutations
begin

text \<open>
  The standard library the local executor runs on: a POSIX file system with symbolic and hard
  links (the functions of \<open>node:fs/promises\<close> the sources call), and asynchronous code on it.
  A path names a node of a tree; a regular file is a reference to an inode, so an open handle
  keeps reading what it opened. Permissions and the umask are left out: a call can fail for
  such reasons at any time (below).

  An asynchronous operation gives up control at every call. The world holds, for each call
  to come, what other processes do before it and whether it fails for a reason of its own;
  it also holds the roots the user has authorised, which may change just as well. \<open>w_log\<close>
  records the calls that changed the file system.
\<close>

section \<open>The file system\<close>

datatype node = NFile nat | NDir | NLink string | NOther

record inode =
  in_mode :: int
  in_mtime :: int
  in_bytes :: "byte list"

datatype errno = ENOENT | EEXIST | ENOTDIR | EISDIR | ELOOP | ENOTEMPTY | EINVAL | EPERM | EIO

text \<open>The authorised scopes: a \<open>WorkspaceRootConfig\<close> or a \<open>ConversationResourceConfig\<close>.\<close>

datatype role = PrimaryRole | SecondaryRole | ConversationRole

record scope =
  sc_id :: string
  sc_local :: bool
  sc_role :: role
  sc_directory :: bool
  sc_path :: string
  sc_thread :: string

record host =
  h_tree :: "(string list, node) jsmap"
  h_inodes :: "nat \<Rightarrow> inode option"
  h_next :: nat
  h_now :: int
  h_scope :: "string \<Rightarrow> scope option"

definition node_at :: "host \<Rightarrow> string list \<Rightarrow> node option" where
  "node_at h ss = (if ss = [] then Some NDir else jm_get (h_tree h) ss)"

text \<open>Path resolution, with at most \<open>n\<close> symbolic links (40 in the kernel).\<close>

function walk :: "host \<Rightarrow> nat \<Rightarrow> string list \<Rightarrow> string list \<Rightarrow> errno + string list" where
  "walk h n cur [] = Inr cur"
| "walk h n cur (s # ss) =
     (if s = [] \<or> s = ''.'' then walk h n cur ss
      else if s = ''..'' then walk h n (butlast cur) ss
      else case node_at h (cur @ [s]) of
        None \<Rightarrow> Inl ENOENT
      | Some NDir \<Rightarrow> walk h n (cur @ [s]) ss
      | Some (NLink t) \<Rightarrow>
          (case n of
             0 \<Rightarrow> Inl ELOOP
           | Suc m \<Rightarrow> walk h m (if is_absolute t then [] else cur) (split_on SLASH t @ ss))
      | Some _ \<Rightarrow> if ss = [] then Inr (cur @ [s]) else Inl ENOTDIR)"
  by pat_completeness auto
termination
  by (relation "measures [\<lambda>(h, n, cur, ss). n, \<lambda>(h, n, cur, ss). length ss]") auto

definition max_links :: nat where
  "max_links = 40"

definition follow :: "host \<Rightarrow> string \<Rightarrow> errno + string list" where
  "follow h p = walk h max_links [] (split_on SLASH p)"

text \<open>The directory entry a path names, its last segment not followed.\<close>

definition locate :: "host \<Rightarrow> string \<Rightarrow> errno + string list" where
  "locate h p =
     (case rev (filter (\<lambda>s. s \<noteq> []) (split_on SLASH p)) of
        [] \<Rightarrow> Inr []
      | name # rev_dir \<Rightarrow>
          bind_res (walk h max_links [] (rev rev_dir)) (\<lambda>d.
            if node_at h d = Some NDir then Inr (d @ [name]) else Inl ENOTDIR))"

datatype file_kind = FkFile | FkDirectory | FkSymlink | FkOther

record stats =
  st_kind :: file_kind
  st_mode :: int
  st_size :: nat
  st_mtime :: int

definition node_stats :: "host \<Rightarrow> node \<Rightarrow> stats" where
  "node_stats h nd =
     (case nd of
        NFile i \<Rightarrow>
          (case h_inodes h i of
             None \<Rightarrow> \<lparr>st_kind = FkFile, st_mode = 0, st_size = 0, st_mtime = 0\<rparr>
           | Some x \<Rightarrow> \<lparr>st_kind = FkFile, st_mode = in_mode x, st_size = length (in_bytes x),
               st_mtime = in_mtime x\<rparr>)
      | NDir \<Rightarrow> \<lparr>st_kind = FkDirectory, st_mode = 0, st_size = 0, st_mtime = 0\<rparr>
      | NLink t \<Rightarrow> \<lparr>st_kind = FkSymlink, st_mode = 0, st_size = length t, st_mtime = 0\<rparr>
      | NOther \<Rightarrow> \<lparr>st_kind = FkOther, st_mode = 0, st_size = 0, st_mtime = 0\<rparr>)"

definition inode_bytes :: "host \<Rightarrow> nat \<Rightarrow> byte list" where
  "inode_bytes h i = (case h_inodes h i of None \<Rightarrow> [] | Some x \<Rightarrow> in_bytes x)"

text \<open>The calls that only look.\<close>

definition find_node :: "host \<Rightarrow> string \<Rightarrow> errno + node" where
  "find_node h p = bind_res (follow h p) (\<lambda>ss. case node_at h ss of None \<Rightarrow> Inl ENOENT | Some nd \<Rightarrow> Inr nd)"

definition do_realpath :: "string \<Rightarrow> host \<Rightarrow> errno + string" where
  "do_realpath p h = bind_res (follow h p) (\<lambda>ss. Inr (abs_path ss))"

definition do_stat :: "string \<Rightarrow> host \<Rightarrow> errno + stats" where
  "do_stat p h = bind_res (find_node h p) (\<lambda>nd. Inr (node_stats h nd))"

definition do_lstat :: "string \<Rightarrow> host \<Rightarrow> errno + stats" where
  "do_lstat p h = bind_res (locate h p) (\<lambda>ss.
     case node_at h ss of None \<Rightarrow> Inl ENOENT | Some nd \<Rightarrow> Inr (node_stats h nd))"

definition do_open :: "string \<Rightarrow> host \<Rightarrow> errno + node" where
  "do_open p h = find_node h p"

definition do_fstat :: "node \<Rightarrow> host \<Rightarrow> errno + stats" where
  "do_fstat nd h = Inr (node_stats h nd)"

definition do_read :: "node \<Rightarrow> nat \<Rightarrow> nat \<Rightarrow> host \<Rightarrow> errno + byte list" where
  "do_read nd pos len h =
     (case nd of NFile i \<Rightarrow> Inr (take len (drop pos (inode_bytes h i))) | _ \<Rightarrow> Inl EISDIR)"

definition do_read_file :: "string \<Rightarrow> host \<Rightarrow> errno + byte list" where
  "do_read_file p h = bind_res (find_node h p) (\<lambda>nd.
     case nd of NFile i \<Rightarrow> Inr (inode_bytes h i) | _ \<Rightarrow> Inl EISDIR)"

definition child_of :: "string list \<Rightarrow> string list \<Rightarrow> bool" where
  "child_of d ss \<longleftrightarrow> ss \<noteq> [] \<and> butlast ss = d"

definition kind_of :: "node \<Rightarrow> file_kind" where
  "kind_of nd = (case nd of NFile _ \<Rightarrow> FkFile | NDir \<Rightarrow> FkDirectory | NLink _ \<Rightarrow> FkSymlink | NOther \<Rightarrow> FkOther)"

definition do_readdir :: "string \<Rightarrow> host \<Rightarrow> errno + (string \<times> file_kind) list" where
  "do_readdir p h = bind_res (follow h p) (\<lambda>d.
     if node_at h d = Some NDir
     then Inr (map (\<lambda>(ss, nd). (last ss, kind_of nd)) (filter (\<lambda>(ss, nd). child_of d ss) (h_tree h)))
     else Inl ENOTDIR)"

text \<open>The calls that change the file system.\<close>

definition set_node :: "string list \<Rightarrow> node \<Rightarrow> host \<Rightarrow> host" where
  "set_node ss nd h = h\<lparr>h_tree := jm_set (h_tree h) ss nd\<rparr>"

definition del_node :: "string list \<Rightarrow> host \<Rightarrow> host" where
  "del_node ss h = h\<lparr>h_tree := jm_del (h_tree h) ss\<rparr>"

definition upd_inode :: "nat \<Rightarrow> (inode \<Rightarrow> inode) \<Rightarrow> host \<Rightarrow> host" where
  "upd_inode i f h = h\<lparr>h_inodes := (h_inodes h)(i := map_option f (h_inodes h i))\<rparr>"

type_synonym 'a effect = "host \<Rightarrow> (errno + 'a) \<times> host"

definition at_entry :: "string \<Rightarrow> (string list \<Rightarrow> node option \<Rightarrow> 'a effect) \<Rightarrow> 'a effect" where
  "at_entry p f h = (case locate h p of Inl e \<Rightarrow> (Inl e, h) | Inr ss \<Rightarrow> f ss (node_at h ss) h)"

definition do_create :: "string \<Rightarrow> int \<Rightarrow> node effect" where
  "do_create p mode = at_entry p (\<lambda>ss nd h.
     case nd of
       Some _ \<Rightarrow> (Inl EEXIST, h)
     | None \<Rightarrow> (Inr (NFile (h_next h)), set_node ss (NFile (h_next h)) (h\<lparr>
         h_inodes := (h_inodes h)(h_next h \<mapsto> \<lparr>in_mode = mode, in_mtime = h_now h, in_bytes = []\<rparr>),
         h_next := Suc (h_next h)\<rparr>)))"

definition do_write :: "node \<Rightarrow> byte list \<Rightarrow> unit effect" where
  "do_write nd bs h =
     (case nd of
        NFile i \<Rightarrow> (Inr (), upd_inode i (\<lambda>x. x\<lparr>in_bytes := bs, in_mtime := h_now h\<rparr>) h)
      | _ \<Rightarrow> (Inl EISDIR, h))"

definition do_chmod :: "string \<Rightarrow> int \<Rightarrow> unit effect" where
  "do_chmod p mode h =
     (case find_node h p of
        Inl e \<Rightarrow> (Inl e, h)
      | Inr (NFile i) \<Rightarrow> (Inr (), upd_inode i (\<lambda>x. x\<lparr>in_mode := mode\<rparr>) h)
      | Inr _ \<Rightarrow> (Inr (), h))"

definition do_link :: "string \<Rightarrow> string \<Rightarrow> unit effect" where
  "do_link p q = at_entry p (\<lambda>ss nd. at_entry q (\<lambda>ts md h.
     case nd of
       None \<Rightarrow> (Inl ENOENT, h)
     | Some NDir \<Rightarrow> (Inl EPERM, h)
     | Some x \<Rightarrow> if md \<noteq> None then (Inl EEXIST, h) else (Inr (), set_node ts x h)))"

definition do_unlink :: "string \<Rightarrow> unit effect" where
  "do_unlink p = at_entry p (\<lambda>ss nd h.
     case nd of
       None \<Rightarrow> (Inl ENOENT, h)
     | Some NDir \<Rightarrow> (Inl EISDIR, h)
     | Some _ \<Rightarrow> (Inr (), del_node ss h))"

definition has_children :: "host \<Rightarrow> string list \<Rightarrow> bool" where
  "has_children h d \<longleftrightarrow> list_ex (\<lambda>(ss, nd). child_of d ss) (h_tree h)"

definition do_mkdir :: "string \<Rightarrow> unit effect" where
  "do_mkdir p = at_entry p (\<lambda>ss nd h.
     if nd \<noteq> None then (Inl EEXIST, h) else (Inr (), set_node ss NDir h))"

definition do_rmdir :: "string \<Rightarrow> unit effect" where
  "do_rmdir p = at_entry p (\<lambda>ss nd h.
     case nd of
       None \<Rightarrow> (Inl ENOENT, h)
     | Some NDir \<Rightarrow> if ss = [] \<or> has_children h ss then (Inl ENOTEMPTY, h) else (Inr (), del_node ss h)
     | Some _ \<Rightarrow> (Inl ENOTDIR, h))"

text \<open>\<open>rename\<close> replaces a file at the destination, or an empty directory by a directory, and
  moves everything below a directory along.\<close>

definition rename_key :: "string list \<Rightarrow> string list \<Rightarrow> string list \<Rightarrow> string list" where
  "rename_key ss ts k = (if take (length ss) k = ss then ts @ drop (length ss) k else k)"

definition move_nodes :: "string list \<Rightarrow> string list \<Rightarrow> host \<Rightarrow> host" where
  "move_nodes ss ts h =
     h\<lparr>h_tree := map (\<lambda>(k, nd). (rename_key ss ts k, nd)) (jm_del (h_tree h) ts)\<rparr>"

definition do_rename :: "string \<Rightarrow> string \<Rightarrow> unit effect" where
  "do_rename p q = at_entry p (\<lambda>ss nd. at_entry q (\<lambda>ts md h.
     case nd of
       None \<Rightarrow> (Inl ENOENT, h)
     | Some NDir \<Rightarrow>
         if take (length ss) ts = ss then (if ts = ss then Inr () else Inl EINVAL, h)
         else (case md of
                 None \<Rightarrow> (Inr (), move_nodes ss ts h)
               | Some NDir \<Rightarrow> if has_children h ts then (Inl ENOTEMPTY, h) else (Inr (), move_nodes ss ts h)
               | Some _ \<Rightarrow> (Inl ENOTDIR, h))
     | Some x \<Rightarrow>
         if md = Some NDir then (Inl EISDIR, h)
         else if md = Some x \<and> kind_of x = FkFile then (Inr (), h)
         else (Inr (), set_node ts x (del_node ss h))))"

section \<open>Asynchronous code\<close>

datatype io_error = Bridge bridge_error | Errno errno

datatype fs_change =
    Created string
  | Wrote
  | Chmodded string
  | Linked string string
  | Unlinked string
  | MadeDir string
  | RemovedDir string
  | Renamed string string

type_synonym interference = "(host \<Rightarrow> host) \<times> errno option"

record world =
  w_host :: host
  w_env :: "interference list"
  w_log :: "fs_change list"

type_synonym 'a io = "world \<Rightarrow> (io_error + 'a) \<times> world"

definition ret :: "'a \<Rightarrow> 'a io" where
  "ret x w = (Inr x, w)"

definition raise :: "io_error \<Rightarrow> 'a io" where
  "raise e w = (Inl e, w)"

definition bind_io :: "'a io \<Rightarrow> ('a \<Rightarrow> 'b io) \<Rightarrow> 'b io" where
  "bind_io m f w = (case m w of (Inl e, w') \<Rightarrow> (Inl e, w') | (Inr x, w') \<Rightarrow> f x w')"

definition catch_io :: "'a io \<Rightarrow> (io_error \<Rightarrow> 'a io) \<Rightarrow> 'a io" where
  "catch_io m f w = (case m w of (Inl e, w') \<Rightarrow> f e w' | (Inr x, w') \<Rightarrow> (Inr x, w'))"

text \<open>Clean-up on failure only: the handler runs and its own failure is dropped.\<close>

definition on_error :: "'a io \<Rightarrow> unit io \<Rightarrow> 'a io" where
  "on_error m cleanup = catch_io m (\<lambda>e. bind_io (catch_io cleanup (\<lambda>_. ret ())) (\<lambda>_. raise e))"

definition deny :: "error_code \<Rightarrow> string \<Rightarrow> 'a io" where
  "deny c msg = raise (Bridge (BridgeError c msg None))"

definition deny_with :: "error_code \<Rightarrow> string \<Rightarrow> jobj \<Rightarrow> 'a io" where
  "deny_with c msg d = raise (Bridge (BridgeError c msg (Some d)))"

definition lift :: "bridge_error + 'a \<Rightarrow> 'a io" where
  "lift r = (case r of Inl e \<Rightarrow> raise (Bridge e) | Inr x \<Rightarrow> ret x)"

text \<open>\<open>catch (error) { if (error instanceof BridgeError) throw error; throw \<dots> }\<close>.\<close>

definition wrap_errno :: "'a io \<Rightarrow> (errno \<Rightarrow> bridge_error) \<Rightarrow> 'a io" where
  "wrap_errno m f = catch_io m (\<lambda>e. case e of Bridge b \<Rightarrow> raise (Bridge b) | Errno n \<Rightarrow> raise (Bridge (f n)))"

text \<open>One call: the others act, then the call fails or takes effect.\<close>

definition sys :: "'a effect \<Rightarrow> fs_change list \<Rightarrow> 'a io" where
  "sys f change w =
     (case w_env w of
        [] \<Rightarrow>
          (case f (w_host w) of
             (Inl e, h) \<Rightarrow> (Inl (Errno e), w\<lparr>w_host := h\<rparr>)
           | (Inr x, h) \<Rightarrow> (Inr x, w\<lparr>w_host := h, w_log := w_log w @ change\<rparr>))
      | (act, fault) # env \<Rightarrow>
          (case fault of
             Some e \<Rightarrow> (Inl (Errno e), w\<lparr>w_host := act (w_host w), w_env := env\<rparr>)
           | None \<Rightarrow>
               (case f (act (w_host w)) of
                  (Inl e, h) \<Rightarrow> (Inl (Errno e), w\<lparr>w_host := h, w_env := env\<rparr>)
                | (Inr x, h) \<Rightarrow> (Inr x, w\<lparr>w_host := h, w_env := env, w_log := w_log w @ change\<rparr>))))"

definition look :: "(host \<Rightarrow> errno + 'a) \<Rightarrow> 'a io" where
  "look f = sys (\<lambda>h. (f h, h)) []"

text \<open>A synchronous read of the current state.\<close>

definition ask :: "(host \<Rightarrow> 'a) \<Rightarrow> 'a io" where
  "ask f w = (Inr (f (w_host w)), w)"

end
