(* ===== verification/LocalWorkspace.thy ===== *)
theory LocalWorkspace
  imports HostFs
begin

text \<open>
  \<^verbatim>\<open>src/extension/local-workspace-executor.ts\<close>: file operations below one authorised local
  root, or on one file shared with a conversation. Every operation asks the resolver for the
  scope when it starts, resolves its path against the canonical root and works on the
  result. The digest, the order of \<open>localeCompare\<close>, the decoding of a buffer to a text and
  the fresh name of a temporary file are arguments. Messages are kept, the details of an
  error and its cause only where they are data.
\<close>

section \<open>The executor\<close>

record executor_options =
  eo_max_directory_entries :: "int option"
  eo_max_file_bytes :: "int option"
  eo_max_output_bytes :: int
  eo_max_search_bytes :: "int option"
  eo_max_search_entries :: "int option"

text \<open>The object's fields, and the working directory of its process.\<close>

record executor =
  ex_root_id :: string
  ex_max_output :: int
  ex_max_directory :: int
  ex_max_file :: int
  ex_max_search_bytes :: int
  ex_max_search_entries :: int
  ex_max_write :: int
  ex_cwd :: string

definition default :: "'a option \<Rightarrow> 'a \<Rightarrow> 'a" where
  "default v d = (case v of None \<Rightarrow> d | Some x \<Rightarrow> x)"

definition new_executor :: "string \<Rightarrow> string \<Rightarrow> executor_options \<Rightarrow> executor" where
  "new_executor cwd rid o' =
     \<lparr>ex_root_id = rid, ex_max_output = eo_max_output_bytes o',
      ex_max_directory = default (eo_max_directory_entries o') 2000,
      ex_max_file = default (eo_max_file_bytes o') (min (eo_max_output_bytes o' * 8) (100 * 1024 * 1024)),
      ex_max_search_bytes = default (eo_max_search_bytes o') (min (eo_max_output_bytes o' * 8) (64 * 1024 * 1024)),
      ex_max_search_entries = default (eo_max_search_entries o') 20000,
      ex_max_write = min (int max_workspace_write_bytes) (max 1 (eo_max_output_bytes o')),
      ex_cwd = cwd\<rparr>"

text \<open>\<open>isPathInside\<close> of this file.\<close>

definition local_path_inside :: "string \<Rightarrow> string \<Rightarrow> string \<Rightarrow> bool" where
  "local_path_inside cwd root candidate =
     (let p = relative cwd root candidate in
      p = [] \<or> \<not> starts_with p ''../'' \<and> p \<noteq> ''..'' \<and> \<not> is_absolute p)"

section \<open>Scopes and paths\<close>

definition scope_gone :: bridge_error where
  "scope_gone = BridgeError COMMAND_DENIED ''The authorized local workspace scope is unavailable'' None"

definition canonical_scope :: "executor \<Rightarrow> scope io" where
  "canonical_scope ex =
     bind_io (ask (\<lambda>h. h_scope h (ex_root_id ex))) (\<lambda>root.
       case root of
         None \<Rightarrow> deny COMMAND_DENIED ''The local workspace scope was revoked''
       | Some sc \<Rightarrow>
           if \<not> sc_local sc \<or> sc_role sc = PrimaryRole
           then deny COMMAND_DENIED ''The local workspace scope was revoked''
           else wrap_errno
             (bind_io (look (do_realpath (sc_path sc))) (\<lambda>c.
              bind_io (look (do_stat c)) (\<lambda>meta.
                let want_dir = (if sc_role sc = ConversationRole then sc_directory sc else True);
                    matches = (if want_dir then st_kind meta = FkDirectory else st_kind meta = FkFile) in
                if c \<noteq> sc_path sc \<or> \<not> matches
                then deny COMMAND_DENIED
                  ''The authorized local workspace scope no longer resolves to the selected resource''
                else ret sc)))
             (\<lambda>_. scope_gone))"

definition is_shared_file :: "scope \<Rightarrow> bool" where
  "is_shared_file sc \<longleftrightarrow> sc_role sc = ConversationRole \<and> \<not> sc_directory sc"

definition canonical_root :: "executor \<Rightarrow> string io" where
  "canonical_root ex =
     bind_io (canonical_scope ex) (\<lambda>sc.
       if is_shared_file sc
       then deny COMMAND_DENIED ''This conversation resource is an exact file, not a directory root''
       else ret (sc_path sc))"

definition canonical_path_of :: "executor \<Rightarrow> string \<Rightarrow> string io" where
  "canonical_path_of ex input =
     (if NUL \<in> set input then deny PATH_OUTSIDE_ROOT ''Local path must be a NUL-free string''
      else
        bind_io (canonical_scope ex) (\<lambda>sc.
          if is_shared_file sc then
            let lexical = (if input = [] \<or> input = ''.'' then sc_path sc
                           else resolve (ex_cwd ex) [dirname (sc_path sc), input]) in
            if lexical \<noteq> sc_path sc
            then deny PATH_OUTSIDE_ROOT ''Local path escapes the exact file shared with this conversation''
            else ret (sc_path sc)
          else
            let root = sc_path sc;
                lexical = resolve (ex_cwd ex) [root, if input = [] then ''.'' else input] in
            if \<not> local_path_inside (ex_cwd ex) root lexical
            then deny PATH_OUTSIDE_ROOT ''Local path escapes the authorized root''
            else wrap_errno
              (bind_io (look (do_realpath lexical)) (\<lambda>p.
                if \<not> local_path_inside (ex_cwd ex) root p
                then deny PATH_OUTSIDE_ROOT ''Resolved local path escapes the authorized root''
                else ret p))
              (\<lambda>_. BridgeError PATH_OUTSIDE_ROOT ''Local path does not exist or cannot be resolved'' None)))"

definition mutation_target :: "executor \<Rightarrow> string \<Rightarrow> string io" where
  "mutation_target ex input =
     bind_io (canonical_root ex) (\<lambda>root.
       if NUL \<in> set input then deny PATH_OUTSIDE_ROOT ''Local mutation path must be a NUL-free string''
       else
         let lexical = resolve (ex_cwd ex) [root, if input = [] then ''.'' else input] in
         if \<not> local_path_inside (ex_cwd ex) root lexical
         then deny PATH_OUTSIDE_ROOT ''Local mutation path escapes the authorized root''
         else
           let name = basename lexical in
           if name = [] \<or> name = ''.'' \<or> name = ''..''
           then deny COMMAND_DENIED ''Local mutation path must identify a child of the authorized root''
           else
             bind_io (catch_io (look (do_realpath (dirname lexical)))
               (\<lambda>_. deny PATH_OUTSIDE_ROOT ''Local mutation parent does not exist or cannot be resolved''))
               (\<lambda>parent.
                 if \<not> local_path_inside (ex_cwd ex) root parent
                 then deny PATH_OUTSIDE_ROOT ''Resolved local mutation parent escapes the authorized root''
                 else ret (path_of_join [parent, name])))"

definition lstat_if_present :: "string \<Rightarrow> stats option io" where
  "lstat_if_present p =
     catch_io (bind_io (look (do_lstat p)) (\<lambda>st. ret (Some st)))
       (\<lambda>e. if e = Errno ENOENT then ret None else raise e)"

text \<open>\<open>open\<close>, \<open>sync\<close>, \<open>close\<close>: nothing a later call could see, and no failure.\<close>

definition sync_directory :: "string \<Rightarrow> unit io" where
  "sync_directory p = catch_io (bind_io (look (do_open p)) (\<lambda>_. bind_io (look (\<lambda>_. Inr ())) ret)) (\<lambda>_. ret ())"

section \<open>Reading\<close>

text \<open>The loop over the chunks: position, prefix and what the digest has seen.\<close>

function (sequential) read_loop ::
  "node \<Rightarrow> nat \<Rightarrow> nat \<Rightarrow> nat \<Rightarrow> nat \<Rightarrow> byte list \<Rightarrow> byte list \<Rightarrow> (nat \<times> byte list \<times> byte list) io" where
  "read_loop nd sz chunk prefix_len pos prefix seen w =
     (if pos < sz then
        (case look (do_read nd pos (min chunk (sz - pos))) w of
           (Inl e, w') \<Rightarrow> (Inl e, w')
         | (Inr bs, w') \<Rightarrow>
             if bs = [] then (Inr (pos, prefix, seen), w')
             else read_loop nd sz chunk prefix_len (pos + length bs)
                    (prefix @ take (prefix_len - length prefix) bs) (seen @ bs) w')
      else (Inr (pos, prefix, seen), w))"
  by pat_completeness auto
termination
  by (relation "measure (\<lambda>(nd, sz, chunk, plen, pos, prefix, seen, w). sz - pos)")
    (auto intro!: diff_less_mono2)

declare read_loop.simps [simp del]

record file_read =
  fr_path :: string
  fr_content :: string
  fr_hash :: string
  fr_mode :: int
  fr_mtime :: int
  fr_size :: nat
  fr_truncated :: bool

definition chunk_bytes :: int where
  "chunk_bytes = 64 * 1024"

definition read_file :: "(byte list \<Rightarrow> string) \<Rightarrow> executor \<Rightarrow> string \<Rightarrow> int \<Rightarrow> file_read io" where
  "read_file sha ex input limit =
     bind_io (canonical_path_of ex input) (\<lambda>p.
     bind_io (look (do_open p)) (\<lambda>nd.
     bind_io (look (do_fstat nd)) (\<lambda>st0.
       if st_kind st0 \<noteq> FkFile then deny COMMAND_DENIED ''The requested local path is not a file''
       else if int (st_size st0) > ex_max_file ex
       then deny OUTPUT_TRUNCATED ''Local file exceeds the configured read limit''
       else
         let safe_limit = nat (max 1 (min limit (ex_max_output ex div 2)));
             prefix_len = min (st_size st0) safe_limit;
             chunk = nat (min chunk_bytes (max 1 (int (st_size st0)))) in
         bind_io (read_loop nd (st_size st0) chunk prefix_len 0 [] []) (\<lambda>(pos, prefix, seen).
         bind_io (look (do_fstat nd)) (\<lambda>st1.
           if pos \<noteq> st_size st0 \<or> st_size st1 \<noteq> st_size st0 \<or> st_mtime st1 \<noteq> st_mtime st0
           then deny COMMAND_DENIED ''Local file changed while it was being read''
           else ret \<lparr>fr_path = p, fr_content = base64 prefix, fr_hash = sha seen,
             fr_mode = st_mode st0, fr_mtime = st_mtime st0, fr_size = st_size st0,
             fr_truncated = (safe_limit < st_size st0)\<rparr>)))))"

section \<open>Writing\<close>

datatype mutation_kind = MutWrite | MutPatch | MutMkdir | MutRename | MutDelete

record mutation_result =
  mr_operation :: mutation_kind
  mr_path :: string
  mr_destination :: "string option"
  mr_bytes :: nat
  mr_read :: "file_read option"

text \<open>The re-read that guards a change: the digest must be the expected one.\<close>

definition check_unchanged ::
  "(byte list \<Rightarrow> string) \<Rightarrow> executor \<Rightarrow> string \<Rightarrow> string option \<Rightarrow> string \<Rightarrow> unit io" where
  "check_unchanged sha ex input expected msg =
     bind_io (read_file sha ex input 1) (\<lambda>current.
       if Some (fr_hash current) \<noteq> expected
       then deny_with FILE_CONFLICT msg [(''actualHash'', JStr (fr_hash current))]
       else ret ())"

definition temporary_name :: "string \<Rightarrow> string" where
  "temporary_name uuid = ''.codex-bridge-write-'' @ uuid @ ''.tmp''"

definition temporary_path :: "string \<Rightarrow> string \<Rightarrow> string" where
  "temporary_path uuid target = path_of_join [dirname target, temporary_name uuid]"

text \<open>The file modes \<open>0o777\<close> and \<open>0o600\<close>.\<close>

definition mode_bits :: "stats option \<Rightarrow> int" where
  "mode_bits existing = (case existing of None \<Rightarrow> 384 | Some st \<Rightarrow> st_mode st mod 512)"

text \<open>From the temporary file to the target; \<open>temporaryExists\<close> is true exactly while this runs.\<close>

definition commit_write ::
  "(byte list \<Rightarrow> string) \<Rightarrow> executor \<Rightarrow> string \<Rightarrow> string \<Rightarrow> string \<Rightarrow> stats option \<Rightarrow> string option \<Rightarrow>
   node \<Rightarrow> byte list \<Rightarrow> unit io" where
  "commit_write sha ex input target temp existing expected handle content =
     bind_io (sys (do_write handle content) [Wrote]) (\<lambda>_.
     bind_io (look (\<lambda>_. Inr ())) (\<lambda>_.
       if existing \<noteq> None then
         bind_io (check_unchanged sha ex input expected
           ''Workspace file changed before the atomic replacement'') (\<lambda>_.
         bind_io (sys (do_chmod temp (mode_bits existing)) [Chmodded temp]) (\<lambda>_.
         sys (do_rename temp target) [Renamed temp target]))
       else
         catch_io
           (bind_io (sys (do_link temp target) [Linked temp target]) (\<lambda>_.
            sys (do_unlink temp) [Unlinked temp]))
           (\<lambda>e. if e = Errno EEXIST
                 then deny FILE_CONFLICT ''Workspace file was created concurrently'' else raise e)))"

definition replace_file ::
  "(byte list \<Rightarrow> string) \<Rightarrow> string \<Rightarrow> executor \<Rightarrow> string \<Rightarrow> string \<Rightarrow> stats option \<Rightarrow> string option \<Rightarrow>
   byte list \<Rightarrow> unit io" where
  "replace_file sha uuid ex input target existing expected content =
     (let temp = temporary_path uuid target in
      wrap_errno
        (bind_io (sys (do_create temp (mode_bits existing)) [Created temp]) (\<lambda>handle.
         bind_io (on_error (commit_write sha ex input target temp existing expected handle content)
             (sys (do_unlink temp) [Unlinked temp])) (\<lambda>_.
         sync_directory (dirname target))))
        (\<lambda>_. BridgeError COMMAND_DENIED ''Unable to atomically write the local workspace file''
               (Some [(''path'', JStr input)])))"

definition write_file ::
  "(byte list \<Rightarrow> string) \<Rightarrow> string \<Rightarrow> executor \<Rightarrow> string \<Rightarrow> string \<Rightarrow> string option \<Rightarrow> mutation_result io" where
  "write_file sha uuid ex input content64 expected_hash =
     bind_io (lift (decode_workspace_content (Some content64) (nat (ex_max_write ex)))) (\<lambda>content.
     bind_io (mutation_target ex input) (\<lambda>target.
     bind_io (lstat_if_present target) (\<lambda>existing.
       if map_option st_kind existing = Some FkSymlink
       then deny PATH_OUTSIDE_ROOT ''Local mutation target must not be a symbolic link''
       else if existing \<noteq> None \<and> map_option st_kind existing \<noteq> Some FkFile
       then deny COMMAND_DENIED ''Workspace write target is not a regular file''
       else
         bind_io (lift (validate_expected_hash expected_hash (existing \<noteq> None))) (\<lambda>expected.
           if existing = None \<and> expected \<noteq> None
           then deny FILE_CONFLICT ''Workspace file does not exist for the supplied expectedHash''
           else
             bind_io (if existing \<noteq> None
                      then check_unchanged sha ex input expected ''Workspace file changed since it was read''
                      else ret ()) (\<lambda>_.
             bind_io (replace_file sha uuid ex input target existing expected content) (\<lambda>_.
             bind_io (read_file sha ex input 1) (\<lambda>meta.
               ret \<lparr>mr_operation = MutWrite, mr_path = fr_path meta, mr_destination = None,
                 mr_bytes = length content, mr_read = Some meta\<rparr>)))))))"

definition apply_patch ::
  "(byte list \<Rightarrow> string) \<Rightarrow> string \<Rightarrow> executor \<Rightarrow> string \<Rightarrow> replacement list \<Rightarrow> string option \<Rightarrow>
   mutation_result io" where
  "apply_patch sha uuid ex input replacements expected_hash =
     bind_io (lift (validate_expected_hash expected_hash True)) (\<lambda>expected.
     bind_io (read_file sha ex input (ex_max_write ex)) (\<lambda>current.
       if fr_truncated current
       then deny OUTPUT_TRUNCATED ''Workspace file exceeds the configured patch byte limit''
       else if Some (fr_hash current) \<noteq> expected
       then deny_with FILE_CONFLICT ''Workspace file changed since it was read''
         [(''actualHash'', JStr (fr_hash current))]
       else
         bind_io (lift (apply_workspace_patch (unbase64 (fr_content current)) replacements)) (\<lambda>patched.
           if int (length patched) > ex_max_write ex
           then deny OUTPUT_TRUNCATED ''Patched workspace file exceeds the configured write byte limit''
           else
             bind_io (write_file sha uuid ex input (base64 patched) expected_hash) (\<lambda>result.
               ret (result\<lparr>mr_operation := MutPatch\<rparr>)))))"

definition create_directory :: "executor \<Rightarrow> string \<Rightarrow> mutation_result io" where
  "create_directory ex input =
     bind_io (mutation_target ex input) (\<lambda>target.
     bind_io (lstat_if_present target) (\<lambda>existing.
     bind_io
       (case existing of
          Some st \<Rightarrow>
            if st_kind st = FkSymlink
            then deny PATH_OUTSIDE_ROOT ''Local mutation target must not be a symbolic link''
            else if st_kind st \<noteq> FkDirectory
            then deny FILE_CONFLICT ''Workspace directory target already exists as another type''
            else ret ()
        | None \<Rightarrow>
            catch_io
              (bind_io (sys (do_mkdir target) [MadeDir target]) (\<lambda>_. sync_directory (dirname target)))
              (\<lambda>e. deny (if e = Errno EEXIST then FILE_CONFLICT else COMMAND_DENIED)
                     ''Unable to create the local workspace directory''))
       (\<lambda>_. bind_io (canonical_path_of ex input) (\<lambda>p.
         ret \<lparr>mr_operation = MutMkdir, mr_path = p, mr_destination = None, mr_bytes = 0, mr_read = None\<rparr>))))"

definition rename_path ::
  "(byte list \<Rightarrow> string) \<Rightarrow> executor \<Rightarrow> string \<Rightarrow> string \<Rightarrow> string option \<Rightarrow> mutation_result io" where
  "rename_path sha ex input destination_input expected_hash =
     bind_io (canonical_path_of ex input) (\<lambda>source.
     bind_io (canonical_root ex) (\<lambda>root.
       if source = root then deny COMMAND_DENIED ''The authorized root cannot be renamed''
       else
         bind_io (look (do_lstat source)) (\<lambda>meta.
           if st_kind meta = FkSymlink
           then deny PATH_OUTSIDE_ROOT ''Local mutation source must not be a symbolic link''
           else
             bind_io (mutation_target ex destination_input) (\<lambda>destination.
             bind_io (lstat_if_present destination) (\<lambda>occupant.
               if occupant \<noteq> None then deny FILE_CONFLICT ''Workspace rename destination already exists''
               else
                 bind_io
                   (if st_kind meta = FkFile then
                      bind_io (lift (validate_expected_hash expected_hash True)) (\<lambda>expected.
                        check_unchanged sha ex input expected ''Workspace file changed since it was read'')
                    else if st_kind meta = FkDirectory then
                      (if expected_hash \<noteq> None
                       then deny PROTOCOL_MISMATCH ''expectedHash is not valid when renaming a directory''
                       else ret ())
                    else deny COMMAND_DENIED ''Workspace rename supports only regular files and directories'')
                   (\<lambda>_.
                 bind_io
                   (catch_io
                     (bind_io (sys (do_rename source destination) [Renamed source destination]) (\<lambda>_.
                      bind_io (sync_directory (dirname source)) (\<lambda>_.
                        if dirname destination \<noteq> dirname source then sync_directory (dirname destination)
                        else ret ())))
                     (\<lambda>e. deny (if e = Errno EEXIST then FILE_CONFLICT else COMMAND_DENIED)
                            ''Unable to rename the local workspace path''))
                   (\<lambda>_. bind_io (canonical_path_of ex destination_input) (\<lambda>d.
                     ret \<lparr>mr_operation = MutRename, mr_path = source, mr_destination = Some d,
                       mr_bytes = 0, mr_read = None\<rparr>))))))))"

definition delete_path ::
  "(byte list \<Rightarrow> string) \<Rightarrow> executor \<Rightarrow> string \<Rightarrow> string option \<Rightarrow> mutation_result io" where
  "delete_path sha ex input expected_hash =
     bind_io (canonical_path_of ex input) (\<lambda>p.
     bind_io (canonical_root ex) (\<lambda>root.
       if p = root then deny COMMAND_DENIED ''The authorized root cannot be deleted''
       else
         bind_io (look (do_lstat p)) (\<lambda>meta.
           if st_kind meta = FkSymlink
           then deny PATH_OUTSIDE_ROOT ''Local mutation source must not be a symbolic link''
           else
             bind_io
               (wrap_errno
                 (bind_io
                   (if st_kind meta = FkFile then
                      bind_io (lift (validate_expected_hash expected_hash True)) (\<lambda>expected.
                      bind_io (check_unchanged sha ex input expected
                        ''Workspace file changed since it was read'') (\<lambda>_.
                      sys (do_unlink p) [Unlinked p]))
                    else if st_kind meta = FkDirectory then
                      (if expected_hash \<noteq> None
                       then deny PROTOCOL_MISMATCH ''expectedHash is not valid when deleting a directory''
                       else sys (do_rmdir p) [RemovedDir p])
                    else deny COMMAND_DENIED
                      ''Workspace delete supports only regular files and empty directories'')
                   (\<lambda>_. sync_directory (dirname p)))
                 (\<lambda>_. BridgeError COMMAND_DENIED ''Unable to delete the local workspace path''
                        (Some [(''path'', JStr input)])))
               (\<lambda>_. ret \<lparr>mr_operation = MutDelete, mr_path = p, mr_destination = None, mr_bytes = 0,
                     mr_read = None\<rparr>))))"

end
