(* ===== verification/LocalListing.thy ===== *)
theory LocalListing
  imports LocalWorkspace
begin

text \<open>
  The listing half of \<^verbatim>\<open>src/extension/local-workspace-executor.ts\<close>: directories, bounded
  trees, the text search and \<open>git status\<close>. Both walks keep a queue of directories; they end
  because everything queued has been counted against a limit.
\<close>

section \<open>Directories\<close>

fun insert_sorted :: "(string \<Rightarrow> string \<Rightarrow> bool) \<Rightarrow> string \<times> file_kind \<Rightarrow> (string \<times> file_kind) list \<Rightarrow>
  (string \<times> file_kind) list" where
  "insert_sorted le x [] = [x]"
| "insert_sorted le x (y # ys) = (if le (fst x) (fst y) then x # y # ys else y # insert_sorted le x ys)"

definition sort_entries :: "(string \<Rightarrow> string \<Rightarrow> bool) \<Rightarrow> (string \<times> file_kind) list \<Rightarrow>
  (string \<times> file_kind) list" where
  "sort_entries le xs = foldr (insert_sorted le) xs []"

definition list_directory ::
  "(string \<Rightarrow> string \<Rightarrow> bool) \<Rightarrow> executor \<Rightarrow> string \<Rightarrow> (string \<times> file_kind) list io" where
  "list_directory le ex input =
     bind_io (canonical_path_of ex input) (\<lambda>p.
     bind_io (catch_io (look (do_readdir p)) (\<lambda>_. deny COMMAND_DENIED ''Unable to list the local directory''))
       (\<lambda>entries.
         if int (length entries) > ex_max_directory ex
         then deny OUTPUT_TRUNCATED ''Local directory contains more entries than the configured limit''
         else ret (sort_entries le entries)))"

section \<open>Trees\<close>

type_synonym tree_entries = "(string \<times> file_kind) list"
type_synonym tree_queue = "(string \<times> int) list"

text \<open>The loop over the children of one directory.\<close>

fun tree_children ::
  "string \<Rightarrow> string \<Rightarrow> string \<Rightarrow> int \<Rightarrow> int \<Rightarrow> nat \<Rightarrow> (string \<times> file_kind) list \<Rightarrow> tree_entries \<Rightarrow> tree_queue \<Rightarrow>
   (tree_entries \<times> tree_queue \<times> bool) io" where
  "tree_children cwd root dir level depth limit [] entries pending = ret (entries, pending, False)"
| "tree_children cwd root dir level depth limit ((name, kind) # cs) entries pending =
     (if length entries \<ge> limit then ret (entries, pending, True)
      else
        let absolute = path_of_join [dir, name]; entries' = entries @ [(relative cwd root absolute, kind)] in
        if kind = FkDirectory \<and> level < depth then
          bind_io (look (do_realpath absolute)) (\<lambda>c.
            if \<not> local_path_inside cwd root c
            then deny PATH_OUTSIDE_ROOT ''Resolved local directory escapes the authorized root''
            else tree_children cwd root dir level depth limit cs entries' (pending @ [(c, level + 1)]))
        else tree_children cwd root dir level depth limit cs entries' pending)"

lemma bind_io_Inr: "bind_io m f w = (Inr y, w') \<longleftrightarrow> (\<exists>x w1. m w = (Inr x, w1) \<and> f x w1 = (Inr y, w'))"
  by (auto simp: bind_io_def split: prod.splits sum.splits)

lemma ret_Inr [simp]: "ret x w = (Inr y, w') \<longleftrightarrow> y = x \<and> w' = w"
  by (auto simp: ret_def)

lemma deny_Inr [simp]: "deny c msg w \<noteq> (Inr y, w')"
  by (simp add: deny_def raise_def)

lemma tree_children_bound:
  "tree_children cwd root dir level depth limit cs entries pending w = (Inr (es, ps, tr), w') \<Longrightarrow>
   length ps + length entries \<le> length pending + length es \<and> length entries \<le> length es \<and>
   length es \<le> max limit (length entries)"
proof (induction cs arbitrary: entries pending w)
  case (Cons c cs)
  obtain name kind where c: "c = (name, kind)" by (cases c)
  show ?case
  proof (cases "limit \<le> length entries")
    case True
    with Cons.prems show ?thesis by (simp add: c)
  next
    case False
    let ?es = "entries @ [(relative cwd root (path_of_join [dir, name]), kind)]"
    from False Cons.prems obtain ps1 w1 where
      "tree_children cwd root dir level depth limit cs ?es ps1 w1 = (Inr (es, ps, tr), w')"
      "length ps1 \<le> Suc (length pending)"
      by (fastforce simp: c bind_io_Inr Let_def split: if_splits)
    with Cons.IH [OF this(1)] False show ?thesis by auto
  qed
qed simp

lemma tree_children_full:
  "tree_children cwd root dir level depth limit cs entries pending w = (Inr (es, ps, True), w') \<Longrightarrow>
   limit \<le> length es"
proof (induction cs arbitrary: entries pending w)
  case (Cons c cs)
  obtain name kind where c: "c = (name, kind)" by (cases c)
  show ?case
  proof (cases "limit \<le> length entries")
    case True
    with Cons.prems show ?thesis by (simp add: c)
  next
    case False
    with Cons show ?thesis by (fastforce simp: c bind_io_Inr Let_def split: if_splits)
  qed
qed simp

lemma tree_next:
  assumes "(Inr x, w2) = tree_children cwd root dir level depth limit cs entries pending w1"
    and "(es, y) = x" and "(ps, tr) = y"
  shows "((le, cwd, root, depth, limit, ps, es, w2), le, cwd, root, depth, limit,
      (dir, level) # pending, entries, w) \<in> measure (\<lambda>(le, cwd, root, depth, limit, ps, es, w). (limit - length es) + length ps)"
  using assms tree_children_bound [of cwd root dir level depth limit cs entries pending w1 es ps tr w2]
  by auto

function (sequential) tree_loop ::
  "(string \<Rightarrow> string \<Rightarrow> bool) \<Rightarrow> string \<Rightarrow> string \<Rightarrow> int \<Rightarrow> nat \<Rightarrow> tree_queue \<Rightarrow> tree_entries \<Rightarrow>
   (tree_entries \<times> bool) io" where
  "tree_loop le cwd root depth limit [] entries w = (Inr (entries, False), w)"
| "tree_loop le cwd root depth limit ((dir, level) # pending) entries w =
     (case look (do_readdir dir) w of
        (Inl e, w1) \<Rightarrow> (Inl e, w1)
      | (Inr cs, w1) \<Rightarrow>
          (case tree_children cwd root dir level depth limit (sort_entries le cs) entries pending w1 of
             (Inl e, w2) \<Rightarrow> (Inl e, w2)
           | (Inr (es, ps, truncated), w2) \<Rightarrow>
               if truncated then (Inr (es, True), w2)
               else tree_loop le cwd root depth limit ps es w2))"
  by pat_completeness auto
termination
  by (relation "measure (\<lambda>(le, cwd, root, depth, limit, ps, es, w). (limit - length es) + length ps)")
    (simp, metis tree_next)

declare tree_loop.simps [simp del]

record tree_listing =
  tl_entries :: tree_entries
  tl_truncated :: bool

definition list_tree ::
  "(string \<Rightarrow> string \<Rightarrow> bool) \<Rightarrow> executor \<Rightarrow> string \<Rightarrow> int \<Rightarrow> int \<Rightarrow> tree_listing io" where
  "list_tree le ex input depth max_entries =
     bind_io (canonical_path_of ex input) (\<lambda>p.
     bind_io (look (do_stat p)) (\<lambda>meta.
       if st_kind meta \<noteq> FkDirectory
       then deny COMMAND_DENIED ''The requested local tree root is not a directory''
       else
         let safe_depth = max 1 (min depth 4);
             safe_max = nat (max 1 (min max_entries (ex_max_directory ex))) in
         bind_io (tree_loop le (ex_cwd ex) p safe_depth safe_max [(p, 1)] []) (\<lambda>(entries, truncated).
           ret \<lparr>tl_entries = entries, tl_truncated = truncated\<rparr>)))"

section \<open>Search\<close>

fun search_children ::
  "executor \<Rightarrow> string \<Rightarrow> (string \<times> file_kind) list \<Rightarrow> string list \<Rightarrow> string list \<Rightarrow> (string list \<times> string list) io" where
  "search_children ex dir [] files pending = ret (files, pending)"
| "search_children ex dir ((name, kind) # cs) files pending =
     (if name = ''.git'' \<or> kind = FkSymlink then search_children ex dir cs files pending
      else
        let absolute = path_of_join [dir, name] in
        if kind = FkDirectory then
          bind_io (look (do_realpath absolute)) (\<lambda>c.
          bind_io (canonical_root ex) (\<lambda>root.
            if \<not> local_path_inside (ex_cwd ex) root c
            then deny PATH_OUTSIDE_ROOT ''Resolved local search directory escapes the authorized root''
            else search_children ex dir cs files (pending @ [c])))
        else if kind = FkFile then search_children ex dir cs (files @ [absolute]) pending
        else search_children ex dir cs files pending)"

lemma search_children_bound:
  "search_children ex dir cs files pending w = (Inr (fs, ps), w') \<Longrightarrow>
   length ps \<le> length pending + length cs"
proof (induction cs arbitrary: files pending w)
  case (Cons c cs)
  obtain name kind where c: "c = (name, kind)" by (cases c)
  from Cons.prems obtain fs1 ps1 w1 where
    "search_children ex dir cs fs1 ps1 w1 = (Inr (fs, ps), w')" "length ps1 \<le> Suc (length pending)"
    by (fastforce simp: c bind_io_Inr Let_def split: if_splits)
  with Cons.IH [OF this(1)] show ?case by simp
qed simp

lemma length_insert_sorted [simp]: "length (insert_sorted le x xs) = Suc (length xs)"
  by (induction xs) auto

lemma length_sort_entries [simp]: "length (sort_entries le xs) = length xs"
  by (induction xs) (simp_all add: sort_entries_def)

lemma search_next:
  assumes "v = visited + int (length es)" and "\<not> ex_max_search_entries ex < v"
    and "(Inr x, w2) = search_children ex dir (sort_entries le es) files pending w1" and "(fs, ps) = x"
  shows "((le, ex, v, ps, fs, w2), le, ex, visited, dir # pending, files, w) \<in>
    measure (\<lambda>(le, ex, visited, ps, fs, w). nat (ex_max_search_entries ex - visited) + length ps)"
  using assms search_children_bound [of ex dir "sort_entries le es" files pending w1 fs ps w2]
  by auto

function (sequential) search_loop ::
  "(string \<Rightarrow> string \<Rightarrow> bool) \<Rightarrow> executor \<Rightarrow> int \<Rightarrow> string list \<Rightarrow> string list \<Rightarrow> string list io" where
  "search_loop le ex visited [] files w = (Inr files, w)"
| "search_loop le ex visited (dir # pending) files w =
     (case look (do_readdir dir) w of
        (Inl e, w1) \<Rightarrow> (Inl e, w1)
      | (Inr cs, w1) \<Rightarrow>
          let visited' = visited + int (length cs) in
          if visited' > ex_max_search_entries ex
          then deny OUTPUT_TRUNCATED ''Local search exceeded the entry limit'' w1
          else
            (case search_children ex dir (sort_entries le cs) files pending w1 of
               (Inl e, w2) \<Rightarrow> (Inl e, w2)
             | (Inr (fs, ps), w2) \<Rightarrow> search_loop le ex visited' ps fs w2))"
  by pat_completeness auto
termination
  by (relation "measure (\<lambda>(le, ex, visited, ps, fs, w). nat (ex_max_search_entries ex - visited) + length ps)")
    (simp, metis search_next)

declare search_loop.simps [simp del]

text \<open>The requested paths: the files among them, the directories among them.\<close>

fun search_starts :: "executor \<Rightarrow> string list \<Rightarrow> string list \<Rightarrow> string list \<Rightarrow> (string list \<times> string list) io" where
  "search_starts ex [] files pending = ret (files, pending)"
| "search_starts ex (input # inputs) files pending =
     bind_io (canonical_path_of ex input) (\<lambda>p.
     bind_io (look (do_stat p)) (\<lambda>meta.
       if st_kind meta = FkFile then search_starts ex inputs (files @ [p]) pending
       else if st_kind meta = FkDirectory then search_starts ex inputs files (pending @ [p])
       else search_starts ex inputs files pending))"

definition search_files ::
  "(string \<Rightarrow> string \<Rightarrow> bool) \<Rightarrow> executor \<Rightarrow> string list \<Rightarrow> string list io" where
  "search_files le ex inputs =
     bind_io (search_starts ex inputs [] []) (\<lambda>(files, pending).
       search_loop le ex (int (length files)) pending files)"

record search_match =
  sm_path :: string
  sm_line :: nat
  sm_text :: string

abbreviation LF :: char where
  "LF \<equiv> CHR 0x0A"

abbreviation CR :: char where
  "CR \<equiv> CHR 0x0D"

definition strip_cr :: "string \<Rightarrow> string" where
  "strip_cr s = (if s \<noteq> [] \<and> last s = CR then butlast s else s)"

text \<open>\<open>text.split(/\r?\n/)\<close>.\<close>

definition split_lines :: "string \<Rightarrow> string list" where
  "split_lines s = (let ls = split_on LF s in map strip_cr (butlast ls) @ [last ls])"

text \<open>The loop over the lines; \<open>True\<close> when the limit ended the search.\<close>

fun match_lines :: "string \<Rightarrow> string \<Rightarrow> nat \<Rightarrow> nat \<Rightarrow> string list \<Rightarrow> search_match list \<Rightarrow>
  search_match list \<times> bool" where
  "match_lines query p limit n [] found = (found, False)"
| "match_lines query p limit n (l # ls) found =
     (if index_of l query = None then match_lines query p limit (Suc n) ls found
      else
        let found' = found @ [\<lparr>sm_path = p, sm_line = n, sm_text = take 8192 l\<rparr>] in
        if length found' \<ge> limit then (found', True)
        else match_lines query p limit (Suc n) ls found')"

fun scan_files ::
  "(byte list \<Rightarrow> string) \<Rightarrow> executor \<Rightarrow> string \<Rightarrow> nat \<Rightarrow> string list \<Rightarrow> int \<Rightarrow> search_match list \<Rightarrow>
   search_match list io" where
  "scan_files text_of ex query limit [] scanned found = ret found"
| "scan_files text_of ex query limit (file # files) scanned found =
     bind_io (canonical_path_of ex file) (\<lambda>p.
     bind_io (look (do_stat p)) (\<lambda>meta.
       if st_kind meta \<noteq> FkFile then scan_files text_of ex query limit files scanned found
       else
         let scanned' = scanned + int (st_size meta) in
         if scanned' > ex_max_search_bytes ex
         then deny OUTPUT_TRUNCATED ''Local search exceeded the scan byte limit''
         else
           bind_io (look (do_read_file p)) (\<lambda>content.
             if 0 \<in> set content then scan_files text_of ex query limit files scanned' found
             else
               (case match_lines query p limit 1 (split_lines (text_of content)) found of
                  (found', stopped) \<Rightarrow>
                    if stopped then ret found'
                    else scan_files text_of ex query limit files scanned' found'))))"

definition search ::
  "(string \<Rightarrow> string \<Rightarrow> bool) \<Rightarrow> (byte list \<Rightarrow> string) \<Rightarrow> executor \<Rightarrow> string \<Rightarrow> string list \<Rightarrow> int \<Rightarrow>
   search_match list io" where
  "search le text_of ex query inputs max_results =
     (if query = [] \<or> NUL \<in> set query
      then deny COMMAND_DENIED ''Search query must be a non-empty NUL-free string''
      else
        let limit = nat (max 1 (min max_results 1000)) in
        bind_io (search_files le ex (if inputs = [] then [''.''] else inputs)) (\<lambda>files.
          scan_files text_of ex query limit files 0 []))"

section \<open>Git\<close>

definition git_allowed :: "string list" where
  "git_allowed = [''COMSPEC'', ''HOME'', ''LANG'', ''LC_ALL'', ''PATH'', ''PATHEXT'', ''SystemRoot'',
     ''TEMP'', ''TMP'', ''USERPROFILE'', ''WINDIR'']"

definition git_environment :: "bool \<Rightarrow> (string, string) jsmap \<Rightarrow> (string, string) jsmap" where
  "git_environment win32 env =
     (let kept = foldl (\<lambda>m k. case jm_get env k of None \<Rightarrow> m | Some v \<Rightarrow> jm_set m k v) [] git_allowed in
      jm_set (jm_set (jm_set (jm_set kept ''GIT_CONFIG_NOSYSTEM'' ''1'')
        ''GIT_CONFIG_GLOBAL'' (if win32 then ''NUL'' else ''/dev/null''))
        ''GIT_OPTIONAL_LOCKS'' ''0'') ''GIT_PAGER'' ''cat'')"

text \<open>What \<open>execFile\<close> calls back with: an error's \<open>code\<close> is a number for an exit status.\<close>

datatype exec_code = ExitCode int | MaxBuffer | OtherCode

record exec_error =
  ee_killed :: bool
  ee_code :: exec_code
  ee_signal :: "string option"
  ee_message :: string

record exec_outcome =
  eo_error :: "exec_error option"
  eo_stdout :: string
  eo_stderr :: string
  eo_duration :: int

record command_result =
  cm_cwd :: string
  cm_duration :: int
  cm_exit :: int
  cm_signal :: "string option"
  cm_stderr :: string
  cm_stdout :: string
  cm_truncated :: bool

definition git_arguments :: "string list" where
  "git_arguments = [''--no-optional-locks'', ''-c'', ''core.fsmonitor=false'', ''status'', ''--short'', ''--branch'']"

definition git_result :: "string \<Rightarrow> exec_outcome \<Rightarrow> bridge_error + command_result" where
  "git_result root o' =
     (let ok = (\<lambda>code sig. Inr \<lparr>cm_cwd = root, cm_duration = eo_duration o', cm_exit = code, cm_signal = sig,
          cm_stderr = eo_stderr o', cm_stdout = eo_stdout o', cm_truncated = False\<rparr>) in
      case eo_error o' of
        None \<Rightarrow> ok 0 None
      | Some e \<Rightarrow>
          if ee_killed e then throw_with TIMEOUT ''Local git status timed out''
            [(''durationMs'', JInt (eo_duration o'))]
          else
            (case ee_code e of
               ExitCode n \<Rightarrow> ok n (ee_signal e)
             | MaxBuffer \<Rightarrow> throw OUTPUT_TRUNCATED ''Local git status exceeded the output limit''
             | OtherCode \<Rightarrow> throw COMMAND_DENIED (''Unable to run local git status: '' @ ee_message e)))"

definition git_status :: "(string \<Rightarrow> string list \<Rightarrow> exec_outcome) \<Rightarrow> executor \<Rightarrow> command_result io" where
  "git_status run_git ex =
     bind_io (canonical_root ex) (\<lambda>root. lift (git_result root (run_git root git_arguments)))"

end
