(* ===== verification/LocalSafety.thy ===== *)
theory LocalSafety
  imports LocalListing
begin

text \<open>
  What the local executor may touch, whatever other processes do meanwhile. Every operation
  is verified once against an invariant of the world by rules for the building blocks of
  asynchronous code (\<open>spec\<close>): the files an operation creates, replaces, renames or removes
  are strictly below the authorised root.
\<close>

named_theorems spec_rules \<open>how an operation is verified step by step\<close>

section \<open>Canonical paths\<close>

lemma basename_abs [simp]: "\<forall>x\<in>set xs. clean_seg x \<Longrightarrow> clean_seg s \<Longrightarrow> basename (abs_path (xs @ [s])) = s"
proof -
  assume clean: "\<forall>x\<in>set xs. clean_seg x" "clean_seg s"
  then have "split_on SLASH (path_join (xs @ [s])) = xs @ [s]" by (intro split_path_join) auto
  moreover have "filter (\<lambda>s. s \<noteq> []) (xs @ [s]) = xs @ [s]"
    using clean by (auto simp: clean_seg_def)
  ultimately show ?thesis by (simp add: basename_def abs_path_def)
qed

lemma basename_root [simp]: "basename (abs_path []) = []"
  by (simp add: basename_def abs_path_def path_join_def)

lemma abs_path_snoc: "xs \<noteq> [] \<Longrightarrow> abs_path (xs @ [s]) = abs_path xs @ SLASH # s"
  using path_join_append [of xs "[s]"] by (simp add: abs_path_def path_join_def)

lemma dropWhile_none: "c \<notin> set s \<Longrightarrow> dropWhile (\<lambda>x. x \<noteq> c) (rev s @ c # t) = c # t"
  by (simp add: dropWhile_append)

lemma dirname_abs [simp]:
  assumes xs: "\<forall>x\<in>set xs. clean_seg x" and s: "clean_seg s"
  shows "dirname (abs_path (xs @ [s])) = abs_path xs"
proof -
  have last_s: "last s \<noteq> SLASH" "s \<noteq> []" "SLASH \<notin> set s"
    using s by (simp_all add: clean_seg_def) (metis last_in_set)
  have strip: "dropWhile (\<lambda>c. c = SLASH) (rev p) = rev p" if "p \<noteq> []" "last p \<noteq> SLASH" for p
    using that by (cases p rule: rev_cases) auto
  show ?thesis
  proof (cases "xs = []")
    case True
    have p: "abs_path (xs @ [s]) = SLASH # s" using True by (simp add: abs_path_def path_join_def)
    have "dropWhile (\<lambda>c. c \<noteq> SLASH) (rev (SLASH # s)) = [SLASH]"
      using dropWhile_none [OF last_s(3), of "[]"] by simp
    with strip [of "SLASH # s"] last_s True show ?thesis
      unfolding p by (simp add: dirname_def Let_def abs_path_def path_join_def)
  next
    case False
    have q: "abs_path (xs @ [s]) = abs_path xs @ SLASH # s" by (rule abs_path_snoc [OF False])
    have "last (abs_path xs) \<noteq> SLASH"
      using last_path_join [OF False xs] path_join_nonempty [OF False xs] by (simp add: abs_path_def)
    then have "dropWhile (\<lambda>c. c = SLASH) (rev (abs_path xs)) = rev (abs_path xs)"
      by (intro strip) (simp_all add: abs_path_def)
    moreover have "dropWhile (\<lambda>c. c \<noteq> SLASH) (rev (abs_path xs @ SLASH # s)) = SLASH # rev (abs_path xs)"
      using dropWhile_none [OF last_s(3), of "rev (abs_path xs)"] by simp
    moreover have "dropWhile (\<lambda>c. c = SLASH) (rev (abs_path xs @ SLASH # s)) = rev (abs_path xs @ SLASH # s)"
      using last_s by (intro strip) simp_all
    moreover have "abs_path xs \<noteq> []" by (simp add: abs_path_def)
    ultimately show ?thesis unfolding q by (simp add: dirname_def Let_def)
  qed
qed

lemma join_abs [simp]:
  assumes xs: "\<forall>x\<in>set xs. clean_seg x" and s: "clean_seg s"
  shows "path_of_join [abs_path xs, s] = abs_path (xs @ [s])"
proof -
  have s': "s \<noteq> []" "SLASH \<notin> set s" using s by (auto simp: clean_seg_def)
  have "path_of_join [abs_path xs, s] = normalize (abs_path xs @ SLASH # s)"
    using s' by (simp add: path_of_join_def path_join_def abs_path_def)
  also have "\<dots> = abs_path (xs @ [s])"
  proof -
    have abs: "is_absolute (abs_path xs @ SLASH # s)" by (auto simp: is_absolute_Cons abs_path_def)
    have last: "last (abs_path xs @ SLASH # s) \<noteq> SLASH" using s' by simp (metis last_in_set)
    have "segs False (abs_path xs @ SLASH # s) = rev (foldl (seg_step False) (rev (segs False (abs_path xs))) (split_on SLASH s))"
      by (rule segs_append)
    also have "\<dots> = xs @ [s]"
      using xs s s' foldl_clean [of "[s]" False "rev xs"] by (simp add: split_on_single)
    finally have "segs False (abs_path xs @ SLASH # s) = xs @ [s]" .
    with normalize_abs [OF abs] last show ?thesis by simp
  qed
  finally show ?thesis .
qed

lemma local_path_inside_within: "local_path_inside cwd root p \<longleftrightarrow> is_within_root cwd root p"
  by (auto simp: local_path_inside_def is_within_root_def Let_def)

lemma local_path_inside_clean:
  "\<forall>s\<in>set rs. clean_seg s \<Longrightarrow> \<forall>s\<in>set cs. clean_seg s \<Longrightarrow>
   local_path_inside cwd (abs_path rs) (abs_path cs) \<longleftrightarrow> (\<exists>rest. cs = rs @ rest)"
  by (simp add: local_path_inside_within is_within_root_clean)

lemma resolve_clean: "is_absolute root \<Longrightarrow> \<exists>cs. (\<forall>s\<in>set cs. clean_seg s) \<and> resolve cwd [root, p] = abs_path cs"
proof (cases "p = [] \<or> is_absolute p")
  case True
  assume "is_absolute root"
  then have "root \<noteq> []" by (auto simp: is_absolute_Cons)
  with True \<open>is_absolute root\<close> have "resolve cwd [root, p] = resolve cwd [if p = [] then root else p]"
    by (auto simp: resolve_def)
  also have "\<dots> = abs_path (segs False (if p = [] then root else p))"
    using True \<open>is_absolute root\<close> by (intro resolve_abs) auto
  finally show ?thesis using segs_clean by blast
next
  case False
  assume "is_absolute root"
  with False resolve_root [of root p cwd] segs_clean show ?thesis by blast
qed

section \<open>Path resolution\<close>

declare walk.simps(2) [simp del]

lemma walk_dot [simp]: "s = [] \<or> s = ''.'' \<Longrightarrow> walk h n cur (s # ss) = walk h n cur ss"
  by (simp add: walk.simps(2))

lemma walk_up [simp]: "walk h n cur (''..'' # ss) = walk h n (butlast cur) ss"
  by (simp add: walk.simps(2))

text \<open>A proper segment leads on through a directory or a link, or ends the path.\<close>

lemma walk_name_cases:
  assumes "walk h n cur (s # ss) = Inr d" "s \<noteq> []" "s \<noteq> ''.''" "s \<noteq> ''..''"
  obtains (dir) "node_at h (cur @ [s]) = Some NDir" "walk h n (cur @ [s]) ss = Inr d"
  | (link) t m where "node_at h (cur @ [s]) = Some (NLink t)" "n = Suc m"
      "walk h m (if is_absolute t then [] else cur) (split_on SLASH t @ ss) = Inr d"
  | (leaf) nd where "node_at h (cur @ [s]) = Some nd" "nd \<noteq> NDir" "\<forall>t. nd \<noteq> NLink t" "ss = []" "d = cur @ [s]"
  using assms
  by (simp add: walk.simps(2) split: option.splits node.splits nat.splits if_splits)

lemma walk_clean:
  "walk h n cur ss = Inr d \<Longrightarrow> \<forall>s\<in>set cur. clean_seg s \<Longrightarrow> \<forall>s\<in>set ss. SLASH \<notin> set s \<Longrightarrow>
   \<forall>s\<in>set d. clean_seg s"
proof (induction h n cur ss rule: walk.induct)
  case (2 h n cur s ss)
  consider "s = [] \<or> s = ''.''" | "s = ''..''" | "clean_seg s"
    using "2.prems"(3) by (auto simp: clean_seg_def)
  then show ?case
  proof cases
    case 1
    with "2.IH"(1) [OF 1] "2.prems" show ?thesis by simp
  next
    case dots: 2
    then have "\<not> (s = [] \<or> s = ''.'')" by simp
    from "2.IH"(2) [OF this dots] "2.prems" dots show ?thesis by (auto dest: in_set_butlastD)
  next
    case 3
    then have s: "s \<noteq> []" "s \<noteq> ''.''" "s \<noteq> ''..''" "\<not> (s = [] \<or> s = ''.'')" by (auto simp: clean_seg_def)
    from "2.prems"(1) s(1-3) show ?thesis
    proof (cases rule: walk_name_cases)
      case dir
      from "2.IH"(3) [OF s(4,3) dir(1) refl dir(2)] "2.prems" 3 show ?thesis by simp
    next
      case (link t m)
      have "\<forall>a\<in>set (if is_absolute t then [] else cur). clean_seg a" using "2.prems"(2) by simp
      moreover have "\<forall>s\<in>set (split_on SLASH t @ ss). SLASH \<notin> set s"
        using "2.prems"(3) split_on_no_sep [of _ SLASH t] by auto
      ultimately show ?thesis
        by (rule "2.IH"(4) [OF s(4,3) link(1) refl link(2) link(3)])
    next
      case (leaf nd)
      with "2.prems" 3 show ?thesis by simp
    qed
  qed
qed simp

lemma follow_clean: "follow h p = Inr d \<Longrightarrow> \<forall>s\<in>set d. clean_seg s"
  unfolding follow_def by (rule walk_clean) (auto dest: split_on_no_sep)

section \<open>Rules\<close>

definition spec :: "(world \<Rightarrow> bool) \<Rightarrow> 'a io \<Rightarrow> ('a \<Rightarrow> bool) \<Rightarrow> bool" where
  "spec I m Q \<longleftrightarrow> (\<forall>w. I w \<longrightarrow> I (snd (m w)) \<and> (\<forall>x. fst (m w) = Inr x \<longrightarrow> Q x))"

lemma specD: "spec I m Q \<Longrightarrow> I w \<Longrightarrow> m w = (r, w') \<Longrightarrow> I w' \<and> (\<forall>x. r = Inr x \<longrightarrow> Q x)"
  unfolding spec_def by (metis fst_conv snd_conv)

lemma spec_weaken: "spec I m P \<Longrightarrow> (\<And>x. P x \<Longrightarrow> Q x) \<Longrightarrow> spec I m Q"
  unfolding spec_def by blast

lemma spec_true: "spec I m P \<Longrightarrow> spec I m (\<lambda>_. True)"
  by (erule spec_weaken) simp

lemma spec_ret [spec_rules]: "Q x \<Longrightarrow> spec I (ret x) Q"
  by (simp add: spec_def ret_def)

lemma spec_raise [spec_rules]: "spec I (raise e) Q"
  by (simp add: spec_def raise_def)

lemma spec_deny [spec_rules]: "spec I (deny c m) Q" "spec I (deny_with c m d) Q"
  by (simp_all add: deny_def deny_with_def spec_raise)

lemma spec_lift [spec_rules]: "(\<And>x. r = Inr x \<Longrightarrow> Q x) \<Longrightarrow> spec I (lift r) Q"
  by (auto simp: lift_def intro: spec_rules split: sum.splits)

lemma spec_bind [spec_rules]:
  assumes "spec I m P" "\<And>x. P x \<Longrightarrow> spec I (f x) Q"
  shows "spec I (bind_io m f) Q"
  using assms unfolding spec_def bind_io_def
  by (auto split: prod.splits sum.splits)

text \<open>When the intermediate value does not matter.\<close>

lemma spec_seq: "spec I m (\<lambda>_. True) \<Longrightarrow> (\<And>x. spec I (f x) Q) \<Longrightarrow> spec I (bind_io m f) Q"
  by (rule spec_bind)

lemma spec_catch [spec_rules]:
  assumes "spec I m Q" "\<And>e. spec I (f e) Q"
  shows "spec I (catch_io m f) Q"
  using assms unfolding spec_def catch_io_def
  by (auto split: prod.splits sum.splits)

lemma spec_wrap [spec_rules]: "spec I m Q \<Longrightarrow> spec I (wrap_errno m f) Q"
  unfolding wrap_errno_def by (intro spec_rules) (auto intro: spec_rules split: io_error.splits)

lemma spec_on_error [spec_rules]: "spec I m Q \<Longrightarrow> spec I c (\<lambda>_. True) \<Longrightarrow> spec I (on_error m c) Q"
  unfolding on_error_def by (intro spec_rules) auto

lemma spec_if [spec_rules]: "(b \<Longrightarrow> spec I m Q) \<Longrightarrow> (\<not> b \<Longrightarrow> spec I n Q) \<Longrightarrow> spec I (if b then m else n) Q"
  by simp

lemma spec_let [spec_rules]: "(\<And>x. x = v \<Longrightarrow> spec I (f x) Q) \<Longrightarrow> spec I (let x = v in f x) Q"
  by simp

lemma spec_option [spec_rules]:
  "(v = None \<Longrightarrow> spec I m Q) \<Longrightarrow> (\<And>x. v = Some x \<Longrightarrow> spec I (f x) Q) \<Longrightarrow>
   spec I (case v of None \<Rightarrow> m | Some x \<Rightarrow> f x) Q"
  by (cases v) auto

lemma spec_pair [spec_rules]:
  "(\<And>a b. v = (a, b) \<Longrightarrow> spec I (f a b) Q) \<Longrightarrow> spec I (case v of (a, b) \<Rightarrow> f a b) Q"
  by (cases v) auto


section \<open>The invariant\<close>

definition path_below :: "string list \<Rightarrow> string \<Rightarrow> bool" where
  "path_below rs p \<longleftrightarrow> (\<exists>ps. ps \<noteq> [] \<and> (\<forall>s\<in>set ps. clean_seg s) \<and> p = abs_path (rs @ ps))"

fun changed_paths :: "fs_change \<Rightarrow> string list" where
  "changed_paths (Created p) = [p]"
| "changed_paths Wrote = []"
| "changed_paths (Chmodded p) = [p]"
| "changed_paths (Linked p q) = [p, q]"
| "changed_paths (Unlinked p) = [p]"
| "changed_paths (MadeDir p) = [p]"
| "changed_paths (RemovedDir p) = [p]"
| "changed_paths (Renamed p q) = [p, q]"

text \<open>Others may revoke the scope of the root, but not give its identifier to another path.\<close>

definition scope_at :: "string \<Rightarrow> string \<Rightarrow> host \<Rightarrow> bool" where
  "scope_at rid p h \<longleftrightarrow> (\<forall>sc. h_scope h rid = Some sc \<longrightarrow> sc_path sc = p)"

definition keeps_scope :: "string \<Rightarrow> string \<Rightarrow> interference \<Rightarrow> bool" where
  "keeps_scope rid p a \<longleftrightarrow> (\<forall>h. scope_at rid p h \<longrightarrow> scope_at rid p (fst a h))"

definition world_inv :: "(fs_change \<Rightarrow> bool) \<Rightarrow> string \<Rightarrow> string list \<Rightarrow> world \<Rightarrow> bool" where
  "world_inv ok rid rs w \<longleftrightarrow>
     scope_at rid (abs_path rs) (w_host w) \<and>
     (\<forall>a\<in>set (w_env w). keeps_scope rid (abs_path rs) a) \<and> (\<forall>c\<in>set (w_log w). ok c)"

text \<open>The two predicates of interest: every path is below the root; nothing but the own
  temporary file goes away.\<close>

definition change_below :: "string list \<Rightarrow> fs_change \<Rightarrow> bool" where
  "change_below rs c \<longleftrightarrow> (\<forall>p\<in>set (changed_paths c). path_below rs p)"

fun only_adds :: "string \<Rightarrow> fs_change \<Rightarrow> bool" where
  "only_adds name (Created p) \<longleftrightarrow> basename p = name"
| "only_adds name Wrote \<longleftrightarrow> True"
| "only_adds name (Linked p q) \<longleftrightarrow> basename p = name"
| "only_adds name (Unlinked p) \<longleftrightarrow> basename p = name"
| "only_adds name _ \<longleftrightarrow> False"

lemma spec_sys:
  assumes f: "\<And>h. h_scope (snd (f h)) = h_scope h" and Q: "\<And>h x. fst (f h) = Inr x \<Longrightarrow> Q x"
    and ch: "\<forall>c\<in>set ch. ok c"
  shows "spec (world_inv ok rid rs) (sys f ch) Q"
proof -
  have keep: "scope_at rid p (snd (f h)) = scope_at rid p h" for p h by (simp add: scope_at_def f)
  show ?thesis
    unfolding spec_def
  proof (intro allI impI)
    fix w assume inv: "world_inv ok rid rs w"
    show "world_inv ok rid rs (snd (sys f ch w)) \<and> (\<forall>x. fst (sys f ch w) = Inr x \<longrightarrow> Q x)"
    proof (cases "w_env w")
      case Nil
      obtain r h where r: "f (w_host w) = (r, h)" by (cases "f (w_host w)")
      with keep [of _ "w_host w"] Q [of "w_host w"] inv ch Nil show ?thesis
        by (cases r) (auto simp: sys_def world_inv_def)
    next
      case (Cons a env)
      obtain act fault where a: "a = (act, fault)" by (cases a)
      have act: "scope_at rid (abs_path rs) (act (w_host w))"
        using inv Cons a by (auto simp: world_inv_def keeps_scope_def)
      obtain r h where r: "f (act (w_host w)) = (r, h)" by (cases "f (act (w_host w))")
      with keep [of _ "act (w_host w)"] Q [of "act (w_host w)"] inv ch Cons a act show ?thesis
        by (cases fault; cases r) (auto simp: sys_def world_inv_def)
    qed
  qed
qed

lemma spec_look: "(\<And>h x. f h = Inr x \<Longrightarrow> Q x) \<Longrightarrow> spec (world_inv ok rid rs) (look f) Q"
  unfolding look_def by (rule spec_sys) auto

lemma spec_look_any [spec_rules]: "spec (world_inv ok rid rs) (look f) (\<lambda>_. True)"
  by (rule spec_look) simp

lemma spec_ask: "(\<And>w. world_inv ok rid rs w \<Longrightarrow> Q (f (w_host w))) \<Longrightarrow> spec (world_inv ok rid rs) (ask f) Q"
  by (simp add: spec_def ask_def)

lemma scope_kept [simp]:
  "h_scope (snd (do_create p mode h)) = h_scope h" "h_scope (snd (do_write nd bs h)) = h_scope h"
  "h_scope (snd (do_chmod p mode h)) = h_scope h" "h_scope (snd (do_link p q h)) = h_scope h"
  "h_scope (snd (do_unlink p h)) = h_scope h" "h_scope (snd (do_mkdir p h)) = h_scope h"
  "h_scope (snd (do_rmdir p h)) = h_scope h" "h_scope (snd (do_rename p q h)) = h_scope h"
  by (simp_all add: do_create_def do_write_def do_chmod_def do_link_def do_unlink_def do_mkdir_def
      do_rmdir_def do_rename_def at_entry_def set_node_def del_node_def upd_inode_def move_nodes_def
      split: sum.split option.split node.split)

lemma spec_change:
  assumes "\<And>h. h_scope (snd (f h)) = h_scope h" "ok c"
  shows "spec (world_inv ok rid rs) (sys f [c]) (\<lambda>_. True)"
  using assms by (intro spec_sys) simp_all

lemma spec_realpath:
  "spec (world_inv ok rid rs) (look (do_realpath p)) (\<lambda>c. \<exists>cs. (\<forall>s\<in>set cs. clean_seg s) \<and> c = abs_path cs)"
  by (rule spec_look) (auto simp: do_realpath_def dest: follow_clean)

section \<open>Paths the executor works on\<close>

lemma spec_scope: "spec (world_inv ok (ex_root_id ex) rs) (canonical_scope ex) (\<lambda>sc. sc_path sc = abs_path rs)"
  unfolding canonical_scope_def
  apply (rule spec_bind [where P = "\<lambda>v. \<forall>sc. v = Some sc \<longrightarrow> sc_path sc = abs_path rs"])
   apply (rule spec_ask, simp add: world_inv_def scope_at_def)
  apply (intro spec_option spec_if spec_deny spec_wrap spec_bind [OF spec_look_any] spec_let spec_ret)
  apply simp
  done

lemma spec_root: "spec (world_inv ok (ex_root_id ex) rs) (canonical_root ex) (\<lambda>p. p = abs_path rs)"
  unfolding canonical_root_def by (rule spec_bind [OF spec_scope]) (intro spec_rules; simp)

text \<open>A canonical path is the root or below it.\<close>

definition path_within :: "string list \<Rightarrow> string \<Rightarrow> bool" where
  "path_within rs p \<longleftrightarrow> (\<exists>ps. (\<forall>s\<in>set ps. clean_seg s) \<and> p = abs_path (rs @ ps))"

lemma path_within_below: "path_within rs p \<Longrightarrow> p \<noteq> abs_path rs \<Longrightarrow> path_below rs p"
  unfolding path_within_def path_below_def by (metis append_Nil2)

lemma inside_path_within:
  assumes "\<forall>s\<in>set rs. clean_seg s" "\<exists>cs. (\<forall>s\<in>set cs. clean_seg s) \<and> p = abs_path cs"
    and "local_path_inside cwd (abs_path rs) p"
  shows "path_within rs p"
proof -
  obtain cs where cs: "\<forall>s\<in>set cs. clean_seg s" "p = abs_path cs" using assms(2) by blast
  with assms obtain rest where "cs = rs @ rest" by (auto simp: local_path_inside_clean)
  with cs show ?thesis unfolding path_within_def by (intro exI [of _ rest]) simp
qed

lemma spec_canonical:
  assumes rs: "\<forall>s\<in>set rs. clean_seg s"
  shows "spec (world_inv ok (ex_root_id ex) rs) (canonical_path_of ex input) (path_within rs)"
proof -
  have self: "path_within rs (abs_path rs)" unfolding path_within_def by (rule exI [of _ "[]"]) simp
  show ?thesis
    unfolding canonical_path_of_def
    by (intro spec_if spec_deny spec_bind [OF spec_scope] spec_let spec_wrap spec_bind [OF spec_realpath] spec_ret)
      (use self rs in \<open>auto intro: inside_path_within\<close>)
qed

lemma spec_target:
  assumes rs: "\<forall>s\<in>set rs. clean_seg s"
  shows "spec (world_inv ok (ex_root_id ex) rs) (mutation_target ex input) (path_below rs)"
proof -
  have target': "path_below rs (path_of_join [parent, basename lexical])"
    if lexical: "lexical = resolve cwd [abs_path rs, q]" "basename lexical \<noteq> []"
      and parent: "\<exists>cs. (\<forall>s\<in>set cs. clean_seg s) \<and> parent = abs_path cs"
        "local_path_inside cwd (abs_path rs) parent" for cwd lexical parent q
  proof -
    obtain cs where cs: "\<forall>s\<in>set cs. clean_seg s" "lexical = abs_path cs"
      using resolve_clean [of "abs_path rs" cwd q] lexical by auto
    with lexical(2) have "cs \<noteq> []" by auto
    then obtain xs s where "cs = xs @ [s]" by (metis rev_exhaust)
    with cs have name: "basename lexical = s" "clean_seg s" by auto
    obtain ps where ps: "\<forall>s\<in>set ps. clean_seg s" "parent = abs_path (rs @ ps)"
      using inside_path_within [OF rs parent] by (auto simp: path_within_def)
    have "path_of_join [abs_path (rs @ ps), s] = abs_path ((rs @ ps) @ [s])"
      by (rule join_abs) (use rs ps name in auto)
    with ps have "path_of_join [parent, s] = abs_path (rs @ ps @ [s])" by simp
    with ps name show ?thesis unfolding path_below_def by (intro exI [of _ "ps @ [s]"]) simp
  qed
  have target: "path_below rs (path_of_join [abs_path cs, basename (resolve cwd [abs_path rs, q])])"
    if "basename (resolve cwd [abs_path rs, q]) \<noteq> []" "\<forall>s\<in>set cs. clean_seg s"
      "local_path_inside cwd (abs_path rs) (abs_path cs)" for cwd cs q
    using target' [OF refl that(1) _ that(3)] that(2) by blast
  show ?thesis
    unfolding mutation_target_def
    by (intro spec_bind [OF spec_root] spec_if spec_deny spec_let
        spec_bind [OF spec_catch [OF spec_realpath]] spec_ret) (auto intro!: target)
qed


section \<open>Operations\<close>

lemma spec_read_loop:
  "spec (world_inv ok rid rs) (read_loop nd sz chunk plen pos prefix seen) (\<lambda>_. True)"
proof -
  have "world_inv ok rid rs w \<Longrightarrow> world_inv ok rid rs (snd (read_loop nd sz chunk plen pos prefix seen w))" for w
  proof (induction nd sz chunk plen pos prefix seen w rule: read_loop.induct)
    case (1 nd sz chunk plen pos prefix seen w)
    note step = read_loop.simps [of nd sz chunk plen pos prefix seen w]
    show ?case
    proof (cases "pos < sz")
      case True
      obtain r w' where r: "look (do_read nd pos (min chunk (sz - pos))) w = (r, w')"
        by (cases "look (do_read nd pos (min chunk (sz - pos))) w")
      have w': "world_inv ok rid rs w'" using specD [OF spec_look_any "1.prems" r] by simp
      show ?thesis
      proof (cases r)
        case (Inl e)
        with True r w' show ?thesis by (subst step) simp
      next
        case (Inr bs)
        have "world_inv ok rid rs (snd (read_loop nd sz chunk plen (pos + length bs)
            (prefix @ take (plen - length prefix) bs) (seen @ bs) w'))" if "bs \<noteq> []"
          using "1.IH" [OF True r [symmetric] Inr that w'] .
        with True r w' Inr show ?thesis by (subst step) simp
      qed
    next
      case False
      with "1.prems" show ?thesis by (subst step) simp
    qed
  qed
  then show ?thesis by (simp add: spec_def)
qed

lemma spec_read:
  assumes rs: "\<forall>s\<in>set rs. clean_seg s"
  shows "spec (world_inv ok (ex_root_id ex) rs) (read_file sha ex input limit) (\<lambda>r. path_within rs (fr_path r))"
  unfolding read_file_def
  apply (rule spec_bind [OF spec_canonical [OF rs]])
  apply (rule spec_seq [OF spec_look_any])
  apply (rule spec_seq [OF spec_look_any])
  apply (rule spec_if, rule spec_deny)
  apply (rule spec_if, rule spec_deny)
  apply (rule spec_let)+
  apply (rule spec_seq [OF spec_read_loop])
  apply (rule spec_pair)+
  apply (rule spec_seq [OF spec_look_any])
  apply (rule spec_if, rule spec_deny)
  apply (rule spec_ret)
  apply (simp only: file_read.select_convs)
  done

lemma spec_check:
  "\<forall>s\<in>set rs. clean_seg s \<Longrightarrow>
   spec (world_inv ok (ex_root_id ex) rs) (check_unchanged sha ex input expected msg) (\<lambda>_. True)"
  unfolding check_unchanged_def by (intro spec_bind [OF spec_read] spec_if spec_deny spec_ret) simp_all

lemma spec_sync: "spec (world_inv ok rid rs) (sync_directory p) (\<lambda>_. True)"
  unfolding sync_directory_def by (intro spec_catch spec_bind [OF spec_look_any] spec_ret) simp_all

lemma spec_lstat: "spec (world_inv ok rid rs) (lstat_if_present p) (\<lambda>_. True)"
  unfolding lstat_if_present_def
  by (intro spec_catch spec_bind [OF spec_look_any] spec_if spec_ret spec_raise) simp_all

lemma clean_temporary: "SLASH \<notin> set uuid \<Longrightarrow> clean_seg (temporary_name uuid)"
  by (simp add: clean_seg_def temporary_name_def)

lemma below_temporary:
  assumes rs: "\<forall>s\<in>set rs. clean_seg s" and target: "path_below rs target" and uuid: "SLASH \<notin> set uuid"
  shows "path_below rs (temporary_path uuid target)"
proof -
  obtain ps where ps: "ps \<noteq> []" "\<forall>s\<in>set ps. clean_seg s" "target = abs_path (rs @ ps)"
    using target by (auto simp: path_below_def)
  then obtain qs s where qs: "ps = qs @ [s]" by (metis rev_exhaust)
  let ?t = "temporary_name uuid"
  have "dirname (abs_path ((rs @ qs) @ [s])) = abs_path (rs @ qs)"
    by (rule dirname_abs) (use rs ps qs in auto)
  moreover have "path_of_join [abs_path (rs @ qs), ?t] = abs_path ((rs @ qs) @ [?t])"
    by (rule join_abs) (use rs ps qs clean_temporary [OF uuid] in auto)
  ultimately have "temporary_path uuid target = abs_path (rs @ qs @ [?t])"
    using ps qs by (simp add: temporary_path_def)
  with ps qs clean_temporary [OF uuid] show ?thesis
    unfolding path_below_def by (intro exI [of _ "qs @ [?t]"]) simp
qed

lemma spec_replace:
  assumes rs: "\<forall>s\<in>set rs. clean_seg s" and target: "path_below rs target" and uuid: "SLASH \<notin> set uuid"
  shows "spec (world_inv (change_below rs) (ex_root_id ex) rs)
    (replace_file sha uuid ex input target existing expected content) (\<lambda>_. True)"
proof -
  let ?temp = "temporary_path uuid target"
  have temp: "path_below rs ?temp" by (rule below_temporary [OF assms])
  have change: "spec (world_inv (change_below rs) rid rs) (sys (do_chmod ?temp mode) [Chmodded ?temp]) (\<lambda>_. True)"
    "spec (world_inv (change_below rs) rid rs) (sys (do_write handle content) [Wrote]) (\<lambda>_. True)"
    "spec (world_inv (change_below rs) rid rs) (sys (do_rename ?temp target) [Renamed ?temp target]) (\<lambda>_. True)"
    "spec (world_inv (change_below rs) rid rs) (sys (do_link ?temp target) [Linked ?temp target]) (\<lambda>_. True)"
    "spec (world_inv (change_below rs) rid rs) (sys (do_unlink ?temp) [Unlinked ?temp]) (\<lambda>_. True)"
    "spec (world_inv (change_below rs) rid rs) (sys (do_create ?temp mode) [Created ?temp]) (\<lambda>_. True)"
    for rid mode handle
    by (simp_all add: spec_change change_below_def temp target)
  have commit: "spec (world_inv (change_below rs) (ex_root_id ex) rs)
      (commit_write sha ex input target ?temp existing expected handle content) (\<lambda>_. True)" for handle
    unfolding commit_write_def
    by (intro spec_if spec_catch spec_deny spec_raise spec_seq change spec_look_any spec_check [OF rs])
  show ?thesis
    unfolding replace_file_def Let_def
    by (intro spec_wrap spec_on_error spec_seq change commit spec_sync)
qed

lemma spec_write:
  assumes rs: "\<forall>s\<in>set rs. clean_seg s" and uuid: "SLASH \<notin> set uuid"
  shows "spec (world_inv (change_below rs) (ex_root_id ex) rs) (write_file sha uuid ex input c64 eh)
    (\<lambda>r. path_within rs (mr_path r))"
  unfolding write_file_def
  by (intro spec_bind [OF spec_target [OF rs]] spec_bind [OF spec_read [OF rs]] spec_seq spec_lift
      spec_lstat spec_if spec_deny spec_ret spec_check [OF rs] spec_replace [OF rs _ uuid]) simp_all

lemma spec_patch:
  assumes rs: "\<forall>s\<in>set rs. clean_seg s" and uuid: "SLASH \<notin> set uuid"
  shows "spec (world_inv (change_below rs) (ex_root_id ex) rs) (apply_patch sha uuid ex input reps eh)
    (\<lambda>r. path_within rs (mr_path r))"
  unfolding apply_patch_def
  by (intro spec_bind [OF spec_write [OF rs uuid]] spec_seq spec_lift spec_true [OF spec_read [OF rs]]
      spec_if spec_deny spec_ret) simp_all

lemma spec_mkdir:
  assumes rs: "\<forall>s\<in>set rs. clean_seg s"
  shows "spec (world_inv (change_below rs) (ex_root_id ex) rs) (create_directory ex input) (\<lambda>r. path_within rs (mr_path r))"
  unfolding create_directory_def
  by (intro spec_bind [OF spec_target [OF rs]] spec_bind [OF spec_canonical [OF rs]] spec_seq spec_lstat
      spec_option spec_if spec_deny spec_ret spec_catch spec_sync spec_change) (simp_all add: change_below_def)

lemma spec_rename:
  assumes rs: "\<forall>s\<in>set rs. clean_seg s"
  shows "spec (world_inv (change_below rs) (ex_root_id ex) rs) (rename_path sha ex input dest eh) (\<lambda>r. path_within rs (mr_path r))"
proof -
  have move: "spec (world_inv (change_below rs) (ex_root_id ex) rs) (sys (do_rename a b) [Renamed a b]) (\<lambda>_. True)"
    if "path_within rs a" "a \<noteq> abs_path rs" "path_below rs b" for a b
    using that path_within_below by (intro spec_change) (auto simp: change_below_def)
  show ?thesis
    unfolding rename_path_def
    by (rule spec_bind [OF spec_canonical [OF rs]], rule spec_bind [OF spec_root])
      (intro spec_bind [OF spec_target [OF rs]] spec_seq spec_look_any spec_lstat spec_catch spec_lift
        spec_sync spec_check [OF rs] spec_if spec_deny spec_ret move spec_true [OF spec_canonical [OF rs]];
       simp)
qed

lemma spec_delete:
  assumes rs: "\<forall>s\<in>set rs. clean_seg s"
  shows "spec (world_inv (change_below rs) (ex_root_id ex) rs) (delete_path sha ex input eh) (\<lambda>r. path_within rs (mr_path r))"
proof -
  have gone: "spec (world_inv (change_below rs) (ex_root_id ex) rs) (sys (do_unlink a) [Unlinked a]) (\<lambda>_. True)"
    "spec (world_inv (change_below rs) (ex_root_id ex) rs) (sys (do_rmdir a) [RemovedDir a]) (\<lambda>_. True)"
    if "path_within rs a" "a \<noteq> abs_path rs" for a
    using that path_within_below by (auto intro!: spec_change simp: change_below_def)
  show ?thesis
    unfolding delete_path_def
    by (rule spec_bind [OF spec_canonical [OF rs]], rule spec_bind [OF spec_root])
      (intro spec_seq spec_look_any spec_wrap spec_lift spec_check [OF rs] spec_if spec_deny spec_ret
        spec_sync gone; simp)
qed


section \<open>Properties\<close>

text \<open>A small machine for the examples: the authorised directory \<open>/w\<close> and the file \<open>/w/f\<close>.\<close>

definition demo_host :: host where
  "demo_host = \<lparr>h_tree = [([''w''], NDir), ([''w'', ''f''], NFile 0)],
     h_inodes = (\<lambda>i. if i = 0 then Some \<lparr>in_mode = 384, in_mtime = 1, in_bytes = [65, 66]\<rparr> else None),
     h_next = 1, h_now = 5,
     h_scope = (\<lambda>rid. if rid = ''r'' then Some \<lparr>sc_id = ''r'', sc_local = True, sc_role = SecondaryRole,
       sc_directory = True, sc_path = ''/w'', sc_thread = []\<rparr> else None)\<rparr>"

definition demo_world :: "interference list \<Rightarrow> world" where
  "demo_world env = \<lparr>w_host = demo_host, w_env = env, w_log = []\<rparr>"

definition demo_executor :: executor where
  "demo_executor = \<lparr>ex_root_id = ''r'', ex_max_output = 100, ex_max_directory = 10, ex_max_file = 100,
     ex_max_search_bytes = 100, ex_max_search_entries = 10, ex_max_write = 50, ex_cwd = ''/''\<rparr>"

text \<open>The calls that change files; a write and a patch get the name of their temporary file.\<close>

datatype local_call =
    CallWrite string string string "string option"
  | CallPatch string string "replacement list" "string option"
  | CallMkdir string
  | CallRename string string "string option"
  | CallDelete string "string option"

fun perform :: "(byte list \<Rightarrow> string) \<Rightarrow> executor \<Rightarrow> local_call \<Rightarrow> mutation_result io" where
  "perform sha ex (CallWrite uuid input content expected) = write_file sha uuid ex input content expected"
| "perform sha ex (CallPatch uuid input reps expected) = apply_patch sha uuid ex input reps expected"
| "perform sha ex (CallMkdir input) = create_directory ex input"
| "perform sha ex (CallRename input dest expected) = rename_path sha ex input dest expected"
| "perform sha ex (CallDelete input expected) = delete_path sha ex input expected"

fun plain_uuid :: "local_call \<Rightarrow> bool" where
  "plain_uuid (CallWrite uuid _ _ _) \<longleftrightarrow> SLASH \<notin> set uuid"
| "plain_uuid (CallPatch uuid _ _ _) \<longleftrightarrow> SLASH \<notin> set uuid"
| "plain_uuid _ \<longleftrightarrow> True"

lemma spec_perform:
  assumes "\<forall>s\<in>set rs. clean_seg s" "plain_uuid call"
  shows "spec (world_inv (change_below rs) (ex_root_id ex) rs) (perform sha ex call)
    (\<lambda>r. path_within rs (mr_path r))"
  using assms by (cases call) (simp_all add: spec_write spec_patch spec_mkdir spec_rename spec_delete)


definition constant_hash :: "byte list \<Rightarrow> string" where
  "constant_hash bs = replicate 64 CHR ''a''"

lemma demo_scope: "scope_at (ex_root_id demo_executor) (abs_path [''w'']) (w_host (demo_world env))"
  by (simp add: scope_at_def demo_executor_def demo_world_def demo_host_def abs_path_def path_join_def)

lemma demo_clean: "\<forall>s\<in>set [''w'']. clean_seg s"
  by (simp add: clean_seg_def)


text \<open>A write without an expected hash.\<close>

lemma basename_temporary:
  assumes "\<forall>s\<in>set rs. clean_seg s" "path_below rs target" "SLASH \<notin> set uuid"
  shows "basename (temporary_path uuid target) = temporary_name uuid"
proof -
  obtain ps s where ps: "\<forall>s\<in>set (ps @ [s]). clean_seg s" "target = abs_path ((rs @ ps) @ [s])"
    using assms(2) unfolding path_below_def by (metis append_assoc rev_exhaust)
  have "dirname target = abs_path (rs @ ps)"
    unfolding ps by (rule dirname_abs) (use assms(1) ps in auto)
  then have "temporary_path uuid target = abs_path ((rs @ ps) @ [temporary_name uuid])"
    unfolding temporary_path_def
    by (simp only:) (rule join_abs, use assms ps clean_temporary in auto)
  then show ?thesis
    using basename_abs [of "rs @ ps" "temporary_name uuid"] assms(1) ps clean_temporary [OF assms(3)] by auto
qed

lemma spec_write_new:
  assumes rs: "\<forall>s\<in>set rs. clean_seg s" and uuid: "SLASH \<notin> set uuid"
  shows "spec (world_inv (only_adds (temporary_name uuid)) (ex_root_id ex) rs)
    (write_file sha uuid ex input c64 None) (\<lambda>_. True)"
proof -
  let ?I = "world_inv (only_adds (temporary_name uuid)) (ex_root_id ex) rs"
  have replace: "spec ?I (replace_file sha uuid ex input target None expected content) (\<lambda>_. True)"
    if target: "path_below rs target" for target expected content
  proof -
    let ?temp = "temporary_path uuid target"
    note name = basename_temporary [OF rs target uuid]
    have change: "spec ?I (sys (do_write handle content) [Wrote]) (\<lambda>_. True)"
      "spec ?I (sys (do_link ?temp target) [Linked ?temp target]) (\<lambda>_. True)"
      "spec ?I (sys (do_unlink ?temp) [Unlinked ?temp]) (\<lambda>_. True)"
      "spec ?I (sys (do_create ?temp mode) [Created ?temp]) (\<lambda>_. True)" for mode handle
      by (simp_all add: spec_change name)
    have commit: "spec ?I (commit_write sha ex input target ?temp None expected handle content) (\<lambda>_. True)"
      for handle
      unfolding commit_write_def simp_thms if_False
      by (intro spec_if spec_catch spec_deny spec_raise spec_seq change spec_look_any)
    show ?thesis
      unfolding replace_file_def Let_def
      by (intro spec_wrap spec_on_error spec_seq change commit spec_sync)
  qed
  have refused: "spec ?I (lift (validate_expected_hash None True)) (\<lambda>_. False)"
    by (rule spec_lift) (simp add: validate_expected_hash_def)
  show ?thesis
    unfolding write_file_def
    apply (rule spec_seq, rule spec_lift, simp)
    apply (rule spec_bind [OF spec_target [OF rs]])
    apply (rule spec_seq [OF spec_lstat])
    apply (rule spec_if, rule spec_deny)
    apply (rule spec_if, rule spec_deny)
    subgoal premises prems for content target existing
    proof (cases existing)
      case None
      with prems(1) show ?thesis
        by (simp only:) (intro spec_seq spec_lift spec_if spec_deny spec_ret replace
          spec_true [OF spec_read [OF rs]] TrueI; simp)
    next
      case (Some st)
      then show ?thesis
        by (simp only:) (rule spec_bind, simp, rule refused, simp)
    qed
    done
qed

text \<open>A write that names no expected hash never loses data, however others interleave with
  it: it removes no entry but its own temporary file and renames nothing, and the only entry
  it makes besides that file is a hard link, which the file system refuses over an existing one.
\<close>

theorem blind_write_only_adds:
  assumes "\<forall>s\<in>set rs. clean_seg s" and "scope_at (ex_root_id ex) (abs_path rs) (w_host w)"
    and "\<forall>a\<in>set (w_env w). keeps_scope (ex_root_id ex) (abs_path rs) a" and "w_log w = []"
    and "SLASH \<notin> set uuid" and "write_file sha uuid ex input content None w = (r, w')"
  shows "\<forall>c\<in>set (w_log w'). only_adds (temporary_name uuid) c"
proof -
  have "world_inv (only_adds (temporary_name uuid)) (ex_root_id ex) rs w"
    using assms by (simp add: world_inv_def)
  from specD [OF spec_write_new [OF assms(1,5)] this assms(6)] show ?thesis
    by (simp add: world_inv_def)
qed


lemma blind_write_only_adds_witness:
  "w_log (snd (write_file constant_hash ''u'' demo_executor ''g'' (base64 [65]) None (demo_world []))) =
     [Created (''/w/'' @ temporary_name ''u''), Wrote, Linked (''/w/'' @ temporary_name ''u'') ''/w/g'',
      Unlinked (''/w/'' @ temporary_name ''u'')] \<and>
   only_adds (temporary_name ''u'') (Linked (''/w/'' @ temporary_name ''u'') ''/w/g'')"
proof -
  let ?m = "write_file constant_hash ''u'' demo_executor ''g'' (base64 [65]) None (demo_world [])"
  have log: "w_log (snd ?m) = [Created (''/w/'' @ temporary_name ''u''), Wrote,
      Linked (''/w/'' @ temporary_name ''u'') ''/w/g'', Unlinked (''/w/'' @ temporary_name ''u'')]"
    by code_simp
  obtain r w' where r: "?m = (r, w')" by (cases ?m)
  from blind_write_only_adds [OF demo_clean demo_scope _ _ _ r] log r
  show ?thesis by (auto simp: demo_world_def simp del: only_adds.simps)
qed

definition newcomer :: "interference list" where
  "newcomer = replicate 17 (id, None) @
     [(\<lambda>h. snd (do_write (NFile 1) [90] (snd (do_create ''/w/g'' 384 h))), None)]"

text \<open>\<open>renamePath\<close> promises \<open>FILE_CONFLICT\<close> for an existing destination, but \<open>rename\<close>
  replaces one: when another process creates the destination after the check, just before the
  call, the operation succeeds and the newcomer's file is gone from the directory.
\<close>

theorem rename_replaces_newcomer:
  "(\<exists>x. fst (rename_path constant_hash demo_executor ''f'' ''g'' (Some (constant_hash [])) (demo_world newcomer)) = Inr x) \<and>
   h_tree (w_host (snd (rename_path constant_hash demo_executor ''f'' ''g'' (Some (constant_hash [])) (demo_world newcomer)))) =
     [([''w''], NDir), ([''w'', ''g''], NFile 0)] \<and>
   inode_bytes (w_host (snd (rename_path constant_hash demo_executor ''f'' ''g'' (Some (constant_hash [])) (demo_world newcomer)))) 1 = [90]"
  (is "(\<exists>x. fst ?m = Inr x) \<and> _ \<and> _")
proof (intro conjI)
  have "(case fst ?m of Inr _ \<Rightarrow> True | Inl _ \<Rightarrow> False)" by code_simp
  then show "\<exists>x. fst ?m = Inr x" by (cases "fst ?m") (simp_all only: sum.case, blast)
  show "h_tree (w_host (snd ?m)) = [([''w''], NDir), ([''w'', ''g''], NFile 0)]" by code_simp
  show "inode_bytes (w_host (snd ?m)) 1 = [90]" by code_simp
qed

section \<open>Trees stay bounded\<close>

lemma tree_loop_bound:
  "tree_loop le cwd root depth limit ps entries w = (Inr (es, tr), w') \<Longrightarrow> length entries \<le> limit \<Longrightarrow>
   length es \<le> limit \<and> (tr \<longrightarrow> length es = limit)"
proof (induction le cwd root depth limit ps entries w rule: tree_loop.induct)
  case (1 le cwd root depth limit entries w)
  then show ?case by (simp add: tree_loop.simps)
next
  case (2 le cwd root depth limit dir level pending entries w)
  obtain r w1 where r: "look (do_readdir dir) w = (r, w1)" by (cases "look (do_readdir dir) w")
  with "2.prems" obtain cs where cs: "r = Inr cs" by (cases r) (simp_all add: tree_loop.simps)
  let ?c = "tree_children cwd root dir level depth limit (sort_entries le cs) entries pending w1"
  obtain q w2 where q: "?c = (q, w2)" by (cases ?c)
  with "2.prems" r cs obtain es1 ps1 tr1 where q': "q = Inr (es1, ps1, tr1)"
    by (cases q) (auto simp: tree_loop.simps)
  have bound: "length es1 \<le> limit" "tr1 \<longrightarrow> limit \<le> length es1"
  proof -
    show "length es1 \<le> limit"
      using tree_children_bound [of cwd root dir level depth limit "sort_entries le cs" entries pending w1 es1 ps1 tr1 w2]
        q q' "2.prems"(2) by simp
    show "tr1 \<longrightarrow> limit \<le> length es1"
      using tree_children_full [of cwd root dir level depth limit "sort_entries le cs" entries pending w1 es1 ps1 w2]
        q q' by simp
  qed
  show ?case
  proof (cases tr1)
    case True
    with "2.prems" r cs q q' bound show ?thesis by (simp add: tree_loop.simps)
  next
    case False
    with "2.prems" r cs q q' have "tree_loop le cwd root depth limit ps1 es1 w2 = (Inr (es, tr), w')"
      by (simp add: tree_loop.simps)
    with "2.IH" [OF r [symmetric] cs q [symmetric] q' refl refl False] bound show ?thesis by simp
  qed
qed

text \<open>A tree listing, however the tree changes under it, has at most the number of entries
  asked for and at most the executor's limit, and says it is truncated only when it is full.
\<close>

theorem tree_listing_bounded:
  assumes "list_tree le ex input depth max_entries w = (Inr l, w')"
  shows "int (length (tl_entries l)) \<le> max 1 (min max_entries (ex_max_directory ex)) \<and>
    (tl_truncated l \<longrightarrow> int (length (tl_entries l)) = max 1 (min max_entries (ex_max_directory ex)))"
proof -
  let ?limit = "nat (max 1 (min max_entries (ex_max_directory ex)))"
  from assms obtain p w1 where
    "tree_loop le (ex_cwd ex) p (max 1 (min depth 4)) ?limit [(p, 1)] [] w1 = (Inr (tl_entries l, tl_truncated l), w')"
    by (fastforce simp: list_tree_def bind_io_Inr Let_def split: if_splits prod.splits)
  from tree_loop_bound [OF this] show ?thesis by auto
qed

lemma tree_listing_bounded_witness:
  "case fst (list_tree (\<lambda>a b. length a \<le> length b) demo_executor [] 2 400 (demo_world [])) of
     Inr l \<Rightarrow> length (tl_entries l) = 1 \<and> int (length (tl_entries l)) \<le> max 1 (min 400 10)
   | Inl _ \<Rightarrow> False"
proof -
  let ?m = "list_tree (\<lambda>a b. length a \<le> length b) demo_executor [] 2 400 (demo_world [])"
  have one: "case fst ?m of Inr l \<Rightarrow> length (tl_entries l) = 1 | Inl _ \<Rightarrow> False" by code_simp
  then obtain l w' where l: "?m = (Inr l, w')" by (cases ?m) (auto split: sum.splits)
  from tree_listing_bounded [OF l] one l show ?thesis by (simp add: demo_executor_def)
qed

end
