(* ===== verification/LocalWrites.thy ===== *)
theory LocalWrites
  imports LocalSafety
begin

text \<open>
  What a write of the local executor does when nothing interferes: all or nothing, and what
  is read back is what was written.
\<close>

section \<open>Undisturbed code\<close>

abbreviation quiet :: "world \<Rightarrow> bool" where
  "quiet w \<equiv> w_env w = []"

text \<open>Code that leaves the world as it is; the postcondition may speak of that world.\<close>

abbreviation at_world :: "world \<Rightarrow> world \<Rightarrow> bool" where
  "at_world w0 \<equiv> (\<lambda>w. w = w0)"

lemma look_quiet:
  "quiet w \<Longrightarrow> look f w = (case f (w_host w) of Inl e \<Rightarrow> (Inl (Errno e), w) | Inr x \<Rightarrow> (Inr x, w))"
  by (simp add: look_def sys_def split: sum.split)

lemma at_look: "quiet w \<Longrightarrow> (\<And>x. f (w_host w) = Inr x \<Longrightarrow> Q x) \<Longrightarrow> spec (at_world w) (look f) Q"
  by (simp add: spec_def look_quiet split: sum.split)

lemma at_ask: "Q (f (w_host w)) \<Longrightarrow> spec (at_world w) (ask f) Q"
  by (simp add: spec_def ask_def)

lemma at_world_D: "spec (at_world w) m Q \<Longrightarrow> m w = (r, w') \<Longrightarrow> w' = w \<and> (\<forall>x. r = Inr x \<longrightarrow> Q x)"
  by (drule specD) auto

lemma bind_at:
  assumes "spec (at_world w) m Q"
  obtains (fails) e where "m w = (Inl e, w)" "bind_io m f w = (Inl e, w)"
  | (goes) x where "m w = (Inr x, w)" "Q x" "bind_io m f w = f x w"
proof (cases "m w")
  case (Pair r w')
  with at_world_D [OF assms] show ?thesis by (cases r) (auto simp: bind_io_def intro: fails goes)
qed

section \<open>Resolution after a change of files\<close>

definition dirs_kept :: "host \<Rightarrow> host \<Rightarrow> bool" where
  "dirs_kept h h' \<longleftrightarrow> (\<forall>q. (node_at h q = Some NDir \<or> (\<exists>t. node_at h q = Some (NLink t))) \<longrightarrow>
     node_at h' q = node_at h q)"

lemma walk_kept:
  "walk h n cur ss = Inr d \<Longrightarrow> node_at h d = Some NDir \<Longrightarrow> dirs_kept h h' \<Longrightarrow> walk h' n cur ss = Inr d"
proof (induction h n cur ss rule: walk.induct)
  case (2 h n cur s ss)
  consider "s = [] \<or> s = ''.''" | "s = ''..''" | "s \<noteq> []" "s \<noteq> ''.''" "s \<noteq> ''..''" "\<not> (s = [] \<or> s = ''.'')"
    by blast
  then show ?case
  proof cases
    case 1
    with "2.IH"(1) [OF 1] "2.prems" show ?thesis by simp
  next
    case dots: 2
    then have "\<not> (s = [] \<or> s = ''.'')" by simp
    from "2.IH"(2) [OF this dots] "2.prems" dots show ?thesis by simp
  next
    case s: 3
    from "2.prems"(1) s(1-3) show ?thesis
    proof (cases rule: walk_name_cases)
      case dir
      from "2.IH"(3) [OF s(4,3) dir(1) refl dir(2)] "2.prems" s dir show ?thesis
        by (simp add: dirs_kept_def walk.simps(2))
    next
      case (link t m)
      from "2.IH"(4) [OF s(4,3) link(1) refl link(2) link(3)] "2.prems" s link show ?thesis
        by (simp add: dirs_kept_def walk.simps(2))
    next
      case (leaf nd)
      with "2.prems" show ?thesis by simp
    qed
  qed
qed simp

text \<open>The last name of a path, when it is a file.\<close>

lemma walk_snoc:
  "walk h n cur ss = Inr d \<Longrightarrow> node_at h d = Some NDir \<Longrightarrow> node_at h (d @ [s]) = Some (NFile i) \<Longrightarrow>
   s \<noteq> [] \<Longrightarrow> s \<noteq> ''.'' \<Longrightarrow> s \<noteq> ''..'' \<Longrightarrow> walk h n cur (ss @ [s]) = Inr (d @ [s])"
proof (induction h n cur ss rule: walk.induct)
  case (1 h n cur)
  then show ?case by (simp add: walk.simps(2))
next
  case (2 h n cur r ss)
  note prems = "2.prems"
  consider "r = [] \<or> r = ''.''" | "r = ''..''" | "r \<noteq> []" "r \<noteq> ''.''" "r \<noteq> ''..''" "\<not> (r = [] \<or> r = ''.'')"
    by blast
  then show ?case
  proof cases
    case 1
    with "2.IH"(1) [OF 1] prems show ?thesis by simp
  next
    case dots: 2
    then have "\<not> (r = [] \<or> r = ''.'')" by simp
    from "2.IH"(2) [OF this dots] prems dots show ?thesis by simp
  next
    case r: 3
    from prems(1) r(1-3) show ?thesis
    proof (cases rule: walk_name_cases)
      case dir
      from "2.IH"(3) [OF r(4,3) dir(1) refl dir(2)] prems r dir show ?thesis by (simp add: walk.simps(2))
    next
      case (link t m)
      from "2.IH"(4) [OF r(4,3) link(1) refl link(2) link(3)] prems r link show ?thesis
        by (simp add: walk.simps(2))
    next
      case (leaf nd)
      with prems show ?thesis by simp
    qed
  qed
qed

text \<open>What resolution answers is canonical: it resolves to itself.\<close>

definition dirs_to :: "host \<Rightarrow> string list \<Rightarrow> bool" where
  "dirs_to h ss \<longleftrightarrow> (\<forall>k\<le>length ss. node_at h (take k ss) = Some NDir)"

lemma dirs_to_snoc: "dirs_to h (ss @ [s]) \<longleftrightarrow> dirs_to h ss \<and> node_at h (ss @ [s]) = Some NDir"
  by (auto simp: dirs_to_def le_Suc_eq)

lemma dirs_to_butlast: "dirs_to h ss \<Longrightarrow> dirs_to h (butlast ss)"
  by (cases ss rule: rev_cases) (simp_all add: dirs_to_snoc)

lemma dirs_to_Nil [simp]: "dirs_to h []"
  by (simp add: dirs_to_def node_at_def)

lemma walk_dirs: "walk h n cur ss = Inr d \<Longrightarrow> dirs_to h cur \<Longrightarrow> d = [] \<or> dirs_to h (butlast d)"
proof (induction h n cur ss rule: walk.induct)
  case (1 h n cur)
  then show ?case by (auto dest: dirs_to_butlast)
next
  case (2 h n cur s ss)
  consider "s = [] \<or> s = ''.''" | "s = ''..''" | "s \<noteq> []" "s \<noteq> ''.''" "s \<noteq> ''..''" "\<not> (s = [] \<or> s = ''.'')"
    by blast
  then show ?case
  proof cases
    case 1
    with "2.IH"(1) [OF 1] "2.prems" show ?thesis by simp
  next
    case dots: 2
    then have "\<not> (s = [] \<or> s = ''.'')" by simp
    from "2.IH"(2) [OF this dots] "2.prems" dots show ?thesis by (simp add: dirs_to_butlast)
  next
    case s: 3
    from "2.prems"(1) s(1-3) show ?thesis
    proof (cases rule: walk_name_cases)
      case dir
      from "2.IH"(3) [OF s(4,3) dir(1) refl dir(2)] "2.prems" dir show ?thesis by (simp add: dirs_to_snoc)
    next
      case (link t m)
      from "2.IH"(4) [OF s(4,3) link(1) refl link(2) link(3)] "2.prems" show ?thesis by simp
    next
      case (leaf nd)
      with "2.prems" show ?thesis by simp
    qed
  qed
qed

lemma walk_along:
  assumes "dirs_to h (cur @ ss)" "\<forall>s\<in>set ss. clean_seg s"
  shows "walk h n cur ss = Inr (cur @ ss)"
  using assms
proof (induction ss arbitrary: cur)
  case (Cons s ss)
  have "node_at h (cur @ [s]) = Some NDir"
    using Cons.prems(1) by (auto simp: dirs_to_def dest: spec [where x = "Suc (length cur)"])
  moreover have "walk h n (cur @ [s]) ss = Inr (cur @ s # ss)" using Cons.IH [of "cur @ [s]"] Cons.prems by simp
  ultimately show ?case using Cons.prems(2) by (simp add: walk.simps(2) clean_seg_def)
qed simp

lemma walk_canonical:
  assumes "walk h n [] ss = Inr d" "node_at h d = Some NDir" "\<forall>s\<in>set ss. SLASH \<notin> set s"
  shows "walk h m [] d = Inr d" "dirs_to h d"
proof -
  show dirs: "dirs_to h d"
    using walk_dirs [OF assms(1)] assms(2) by (cases d rule: rev_cases) (auto simp: dirs_to_snoc)
  have "\<forall>s\<in>set d. clean_seg s" using walk_clean [OF assms(1) _ assms(3)] by simp
  with walk_along [of h "[]" d m] dirs show "walk h m [] d = Inr d" by simp
qed

lemma follow_abs:
  assumes "\<forall>s\<in>set xs. clean_seg s"
  shows "follow h (abs_path xs) = walk h max_links [] xs"
proof (cases "xs = []")
  case True
  then show ?thesis by (simp add: follow_def abs_path_def path_join_def)
next
  case False
  then have "split_on SLASH (abs_path xs) = [] # xs" using split_path_join [OF False assms] by (simp add: abs_path_def)
  then show ?thesis by (simp add: follow_def)
qed

lemma locate_abs:
  assumes "\<forall>s\<in>set d. clean_seg s" "clean_seg s" "dirs_to h d"
  shows "locate h (abs_path (d @ [s])) = Inr (d @ [s])"
proof -
  have "split_on SLASH (abs_path (d @ [s])) = [] # d @ [s]"
    using split_path_join [of "d @ [s]"] assms by (simp add: abs_path_def)
  moreover have "filter (\<lambda>s. s \<noteq> []) (d @ [s]) = d @ [s]" using assms by (auto simp: clean_seg_def)
  moreover have "walk h max_links [] d = Inr d" using walk_along [of h "[]" d] assms by simp
  moreover have "node_at h d = Some NDir" using assms(3) by (auto simp: dirs_to_def)
  ultimately show ?thesis by (simp add: locate_def)
qed

lemma dirs_to_kept: "dirs_to h d \<Longrightarrow> dirs_kept h h' \<Longrightarrow> dirs_to h' d"
  by (auto simp: dirs_to_def dirs_kept_def)

lemma node_at_simps [simp]:
  "ss \<noteq> [] \<Longrightarrow> node_at (set_node ss nd h) = (node_at h)(ss \<mapsto> nd)"
  "ss \<noteq> [] \<Longrightarrow> node_at (del_node ss h) = (node_at h)(ss := None)"
  "node_at (upd_inode i f h) = node_at h"
  "node_at (h\<lparr>h_inodes := x, h_next := n\<rparr>) = node_at h"
  by (auto simp: node_at_def set_node_def del_node_def upd_inode_def fun_eq_iff)


section \<open>Reading\<close>

lemma take_more: "take n xs @ take (n - length (take n xs)) ys = take n (xs @ ys)"
  by (cases "n \<le> length xs") simp_all

lemma read_loop_quiet:
  "quiet w \<Longrightarrow> bs = inode_bytes (w_host w) i \<Longrightarrow> sz = length bs \<Longrightarrow> 0 < chunk \<Longrightarrow> pos \<le> sz \<Longrightarrow> plen \<le> sz \<Longrightarrow>
   prefix = take plen (take pos bs) \<Longrightarrow> seen = take pos bs \<Longrightarrow>
   read_loop (NFile i) sz chunk plen pos prefix seen w = (Inr (sz, take plen bs, bs), w)"
proof (induction "NFile i" sz chunk plen pos prefix seen w rule: read_loop.induct)
  case (1 sz chunk plen pos prefix seen w)
  note step = read_loop.simps [of "NFile i" sz chunk plen pos prefix seen w]
  let ?bs = "take (min chunk (sz - pos)) (drop pos bs)"
  have look: "look (do_read (NFile i) pos (min chunk (sz - pos))) w = (Inr ?bs, w)"
    using "1.prems" by (simp add: look_quiet do_read_def)
  show ?case
  proof (cases "pos < sz")
    case True
    have ne: "?bs \<noteq> []" using True "1.prems" by simp
    let ?n = "length ?bs"
    have bs': "take pos bs @ ?bs = take (pos + ?n) bs"
      by (simp add: take_add min_def)
    have prefix': "take plen (take pos bs) @ take (plen - length (take plen (take pos bs))) ?bs = take plen (take (pos + ?n) bs)"
    proof -
      have "take plen (take pos bs) @ take (plen - length (take plen (take pos bs))) ?bs = take plen (take pos bs @ ?bs)"
        by (rule take_more)
      then show ?thesis unfolding bs' .
    qed
    have "read_loop (NFile i) sz chunk plen (pos + ?n)
        (prefix @ take (plen - length prefix) ?bs) (seen @ ?bs) w = (Inr (sz, take plen bs, bs), w)"
    proof (rule "1.hyps" [OF True look [symmetric] refl ne "1.prems"(1-4)])
      show "pos + ?n \<le> sz" using "1.prems"(3,5) by simp
      show "plen \<le> sz" by (rule "1.prems"(6))
      show "prefix @ take (plen - length prefix) ?bs = take plen (take (pos + ?n) bs)"
        unfolding "1.prems"(7) by (rule prefix')
      show "seen @ ?bs = take (pos + ?n) bs" unfolding "1.prems"(8) by (rule bs')
    qed
    with True ne look show ?thesis by (subst step) simp
  next
    case False
    with "1.prems" show ?thesis by (subst step) simp
  qed
qed

lemma read_file_quiet:
  assumes w: "quiet w" and p: "canonical_path_of ex input w = (Inr p, w)"
    and i: "find_node (w_host w) p = Inr (NFile i)" "h_inodes (w_host w) i = Some x"
    and small: "int (length (in_bytes x)) \<le> ex_max_file ex"
  shows "read_file sha ex input limit w = (Inr \<lparr>fr_path = p,
      fr_content = base64 (take (nat (max 1 (min limit (ex_max_output ex div 2)))) (in_bytes x)),
      fr_hash = sha (in_bytes x), fr_mode = in_mode x, fr_mtime = in_mtime x,
      fr_size = length (in_bytes x),
      fr_truncated = (nat (max 1 (min limit (ex_max_output ex div 2))) < length (in_bytes x))\<rparr>, w)"
proof -
  let ?safe = "nat (max 1 (min limit (ex_max_output ex div 2)))" and ?bs = "in_bytes x"
  have bytes: "inode_bytes (w_host w) i = ?bs" using i by (simp add: inode_bytes_def)
  have st: "node_stats (w_host w) (NFile i) =
      \<lparr>st_kind = FkFile, st_mode = in_mode x, st_size = length ?bs, st_mtime = in_mtime x\<rparr>"
    using i by (simp add: node_stats_def)
  have loop: "read_loop (NFile i) (length ?bs) (nat (min chunk_bytes (max 1 (int (length ?bs)))))
      (min (length ?bs) ?safe) 0 [] [] w = (Inr (length ?bs, take (min (length ?bs) ?safe) ?bs, ?bs), w)"
    by (rule read_loop_quiet [OF w bytes [symmetric]]) (simp_all add: chunk_bytes_def)
  have prefix: "take (min (length ?bs) ?safe) ?bs = take ?safe ?bs"
    by (simp add: min_def)
  have opened: "look (do_open p) w = (Inr (NFile i), w)" using w i by (simp add: look_quiet do_open_def)
  have stat: "look (do_fstat (NFile i)) w = (Inr \<lparr>st_kind = FkFile, st_mode = in_mode x,
      st_size = length ?bs, st_mtime = in_mtime x\<rparr>, w)"
    using w by (simp add: look_quiet do_fstat_def st)
  have room: "(int (length ?bs) > ex_max_file ex) = False" using small by simp
  show ?thesis
    unfolding read_file_def bind_io_def
    by (simp only: p opened stat prod.case sum.case stats.select_convs room loop Let_def prefix simp_thms if_False)
      (simp add: ret_def)
qed


lemma read_file_big:
  assumes w: "quiet w" and p: "canonical_path_of ex input w = (Inr p, w)"
    and i: "find_node (w_host w) p = Inr (NFile i)" "h_inodes (w_host w) i = Some x"
    and big: "\<not> int (length (in_bytes x)) \<le> ex_max_file ex"
  shows "\<exists>e. read_file sha ex input limit w = (Inl e, w)"
proof -
  have opened: "look (do_open p) w = (Inr (NFile i), w)" using w i by (simp add: look_quiet do_open_def)
  have stat: "look (do_fstat (NFile i)) w = (Inr \<lparr>st_kind = FkFile, st_mode = in_mode x,
      st_size = length (in_bytes x), st_mtime = in_mtime x\<rparr>, w)"
    using w i by (simp add: look_quiet do_fstat_def node_stats_def)
  show ?thesis using big by (simp add: read_file_def bind_io_def p opened stat deny_def raise_def)
qed

lemma check_unchanged_quiet:
  assumes "quiet w" "canonical_path_of ex input w = (Inr p, w)"
    and "find_node (w_host w) p = Inr (NFile i)" "h_inodes (w_host w) i = Some x"
  shows "(check_unchanged sha ex input expected msg w = (Inr (), w) \<and> Some (sha (in_bytes x)) = expected) \<or>
    (\<exists>e. check_unchanged sha ex input expected msg w = (Inl e, w))"
proof (cases "int (length (in_bytes x)) \<le> ex_max_file ex")
  case True
  show ?thesis
    unfolding check_unchanged_def bind_io_def read_file_quiet [OF assms True]
    by (simp add: ret_def deny_with_def raise_def)
next
  case False
  with read_file_big [OF assms False] obtain e where "read_file sha ex input 1 w = (Inl e, w)" by blast
  then show ?thesis by (simp add: check_unchanged_def bind_io_def)
qed

section \<open>Scope and target of an undisturbed write\<close>

definition host_fine :: "host \<Rightarrow> bool" where
  "host_fine h \<longleftrightarrow> (\<forall>ss i. node_at h ss = Some (NFile i) \<longrightarrow> i < h_next h \<and> h_inodes h i \<noteq> None)"

definition scope_fine :: "executor \<Rightarrow> host \<Rightarrow> bool" where
  "scope_fine ex h \<longleftrightarrow> (\<forall>sc. h_scope h (ex_root_id ex) = Some sc \<longrightarrow>
     (\<exists>rs. (\<forall>s\<in>set rs. clean_seg s) \<and> sc_path sc = abs_path rs))"

text \<open>The scope of the root is a directory at a canonical path.\<close>

definition scope_ok :: "executor \<Rightarrow> host \<Rightarrow> scope \<Rightarrow> string list \<Rightarrow> bool" where
  "scope_ok ex h sc rs \<longleftrightarrow> h_scope h (ex_root_id ex) = Some sc \<and> sc_local sc \<and> sc_role sc \<noteq> PrimaryRole \<and>
     \<not> is_shared_file sc \<and> sc_path sc = abs_path rs \<and> (\<forall>s\<in>set rs. clean_seg s) \<and> dirs_to h rs"

lemma follow_dirs: "\<forall>s\<in>set rs. clean_seg s \<Longrightarrow> dirs_to h rs \<Longrightarrow> follow h (abs_path rs) = Inr rs"
  using walk_along [of h "[]" rs max_links] by (simp add: follow_abs)

lemma dirs_to_dir: "dirs_to h rs \<Longrightarrow> node_at h rs = Some NDir"
  by (auto simp: dirs_to_def)

lemma canonical_scope_ok:
  assumes "quiet w" "scope_ok ex (w_host w) sc rs"
  shows "canonical_scope ex w = (Inr sc, w)"
  using assms follow_dirs [of rs "w_host w"] dirs_to_dir [of "w_host w" rs]
  by (simp add: canonical_scope_def scope_ok_def bind_io_def ask_def wrap_errno_def catch_io_def look_quiet
      do_realpath_def do_stat_def find_node_def node_stats_def Let_def ret_def is_shared_file_def)

lemma canonical_root_Inr:
  assumes w: "quiet w" and fine: "scope_fine ex (w_host w)"
  shows "spec (at_world w) (canonical_root ex) (\<lambda>root. \<exists>sc rs. scope_ok ex (w_host w) sc rs \<and> root = abs_path rs)"
proof -
  have scope: "spec (at_world w) (canonical_scope ex) (\<lambda>sc. is_shared_file sc \<or> (\<exists>rs. scope_ok ex (w_host w) sc rs))"
  proof -
    have ok: "is_shared_file sc \<or> (\<exists>rs. scope_ok ex (w_host w) sc rs)"
      if sc: "h_scope (w_host w) (ex_root_id ex) = Some sc" "sc_local sc" "sc_role sc \<noteq> PrimaryRole"
        and path: "do_realpath (sc_path sc) (w_host w) = Inr (sc_path sc)"
        and st: "do_stat (sc_path sc) (w_host w) = Inr meta"
        and kind: "if (if sc_role sc = ConversationRole then sc_directory sc else True)
          then st_kind meta = FkDirectory else st_kind meta = FkFile" for sc meta
    proof (cases "is_shared_file sc")
      case False
      with kind have dir: "st_kind meta = FkDirectory" by (auto simp: is_shared_file_def split: if_splits)
      obtain rs where rs: "\<forall>s\<in>set rs. clean_seg s" "sc_path sc = abs_path rs"
        using fine sc by (auto simp: scope_fine_def)
      have follow: "follow (w_host w) (abs_path rs) = Inr rs"
      proof -
        obtain ds where ds: "follow (w_host w) (abs_path rs) = Inr ds" "abs_path ds = abs_path rs"
          using path rs by (auto simp: do_realpath_def)
        with follow_clean [OF ds(1)] rs(1) have "ds = rs" using abs_path_inj by blast
        with ds show ?thesis by simp
      qed
      have "node_at (w_host w) rs = Some NDir"
        using st dir follow rs
        by (auto simp: do_stat_def find_node_def node_stats_def split: option.splits node.splits)
      then have "dirs_to (w_host w) rs"
        using walk_canonical(2) [of "w_host w" max_links rs rs] follow follow_abs [OF rs(1)] rs(1)
        by (auto simp: clean_seg_def)
      with sc rs False show ?thesis by (auto simp: scope_ok_def)
    qed simp
    show ?thesis
      unfolding canonical_scope_def
      apply (rule spec_bind [where P = "\<lambda>v. v = h_scope (w_host w) (ex_root_id ex)"])
       apply (rule at_ask, rule refl)
      apply (rule spec_option, rule spec_deny)
      apply (rule spec_if, rule spec_deny)
      apply (rule spec_wrap)
      apply (rule spec_bind [where P = "\<lambda>c. do_realpath (sc_path x) (w_host w) = Inr c" for x])
       apply (rule at_look [OF w], assumption)
      apply (rule spec_bind [where P = "\<lambda>m. do_stat c (w_host w) = Inr m" for c])
       apply (rule at_look [OF w], assumption)
      apply (unfold Let_def)
      apply (rule spec_if, rule spec_deny)
      apply (rule spec_ret, rule ok)
           apply (simp_all split: if_splits)
      done
  qed
  show ?thesis
    unfolding canonical_root_def
    by (rule spec_bind [OF scope], rule spec_if, rule spec_deny, rule spec_ret) (auto simp: scope_ok_def)
qed


text \<open>The directory \<open>d\<close> and the name \<open>s\<close> an input means for a mutation.\<close>

definition lexical_path :: "executor \<Rightarrow> string list \<Rightarrow> string \<Rightarrow> string" where
  "lexical_path ex rs input = resolve (ex_cwd ex) [abs_path rs, if input = [] then ''.'' else input]"

definition names_entry :: "executor \<Rightarrow> host \<Rightarrow> string list \<Rightarrow> string \<Rightarrow> string list \<Rightarrow> string \<Rightarrow> bool" where
  "names_entry ex h rs input d s \<longleftrightarrow> NUL \<notin> set input \<and> (\<forall>x\<in>set d. clean_seg x) \<and> clean_seg s \<and>
     (\<exists>ps. d = rs @ ps) \<and>
     (\<exists>xs. (\<forall>x\<in>set xs. clean_seg x) \<and> lexical_path ex rs input = abs_path (xs @ [s]) \<and>
        local_path_inside (ex_cwd ex) (abs_path rs) (abs_path (xs @ [s])) \<and>
        walk h max_links [] xs = Inr d)"

lemma mutation_target_Inr:
  assumes w: "quiet w" and fine: "scope_fine ex (w_host w)"
  shows "spec (at_world w) (mutation_target ex input) (\<lambda>t. \<exists>sc rs d s.
     scope_ok ex (w_host w) sc rs \<and> names_entry ex (w_host w) rs input d s \<and> t = abs_path (d @ [s]))"
proof -
  have target: "\<exists>d s. names_entry ex (w_host w) rs input d s \<and>
      path_of_join [parent, basename (lexical_path ex rs input)] = abs_path (d @ [s])"
    if nul: "NUL \<notin> set input" and rs: "\<forall>s\<in>set rs. clean_seg s"
      and inside: "local_path_inside (ex_cwd ex) (abs_path rs) (lexical_path ex rs input)"
      and name: "basename (lexical_path ex rs input) \<noteq> []"
      and parent: "do_realpath (dirname (lexical_path ex rs input)) (w_host w) = Inr parent"
        "local_path_inside (ex_cwd ex) (abs_path rs) parent" for rs parent
  proof -
    obtain cs where cs: "\<forall>s\<in>set cs. clean_seg s" "lexical_path ex rs input = abs_path cs"
      using resolve_clean [of "abs_path rs" "ex_cwd ex" "if input = [] then ''.'' else input"]
      by (auto simp: lexical_path_def)
    with name have "cs \<noteq> []" by auto
    then obtain xs s where xs: "cs = xs @ [s]" by (metis rev_exhaust)
    with cs have clean: "\<forall>x\<in>set xs. clean_seg x" "clean_seg s" by auto
    obtain d where d: "walk (w_host w) max_links [] xs = Inr d" "parent = abs_path d"
      using parent(1) clean follow_abs [OF clean(1)] by (auto simp: cs(2) xs do_realpath_def)
    have dclean: "\<forall>x\<in>set d. clean_seg x"
      using walk_clean [OF d(1)] clean by (auto simp: clean_seg_def)
    then obtain ps where "d = rs @ ps"
      using parent(2) rs by (auto simp: d(2) local_path_inside_clean)
    with nul dclean clean d inside cs xs have "names_entry ex (w_host w) rs input d s"
      by (auto simp: names_entry_def)
    moreover have "path_of_join [parent, basename (lexical_path ex rs input)] = abs_path (d @ [s])"
      using dclean clean by (simp add: cs(2) xs d(2))
    ultimately show ?thesis by blast
  qed
  show ?thesis
    unfolding mutation_target_def
    apply (rule spec_bind [OF canonical_root_Inr [OF w fine]])
    apply (rule spec_if, rule spec_deny)
    apply (unfold Let_def)
    apply (rule spec_if, rule spec_deny)
    apply (rule spec_if, rule spec_deny)
    apply (elim exE conjE)
    apply (rule spec_bind [where P = "\<lambda>c. do_realpath (dirname (lexical_path ex rs input)) (w_host w) = Inr c" for rs])
     apply (rule spec_catch)
      apply (simp only: lexical_path_def, rule at_look [OF w], assumption)
     apply (rule spec_deny)
    apply (rule spec_if, rule spec_deny)
    apply (rule spec_ret)
    subgoal premises prems for root sc rs parent
      using target [of rs parent] prems unfolding lexical_path_def scope_ok_def by blast
    done
qed

text \<open>The same input as a path to read, once the entry is a file.\<close>

lemma canonical_file:
  assumes w: "quiet w" and scope: "scope_ok ex (w_host w) sc rs"
    and entry: "names_entry ex (w_host w) rs input d s"
    and dir: "dirs_to (w_host w) d" and leaf: "node_at (w_host w) (d @ [s]) = Some (NFile i)"
  shows "canonical_path_of ex input w = (Inr (abs_path (d @ [s])), w)"
    and "find_node (w_host w) (abs_path (d @ [s])) = Inr (NFile i)"
proof -
  from entry obtain xs ps where xs: "\<forall>x\<in>set xs. clean_seg x" "lexical_path ex rs input = abs_path (xs @ [s])"
    "local_path_inside (ex_cwd ex) (abs_path rs) (abs_path (xs @ [s]))"
    "walk (w_host w) max_links [] xs = Inr d" and ps: "d = rs @ ps"
    and clean: "\<forall>x\<in>set d. clean_seg x" "clean_seg s" "NUL \<notin> set input"
    unfolding names_entry_def by blast
  have s: "s \<noteq> []" "s \<noteq> ''.''" "s \<noteq> ''..''" using clean by (auto simp: clean_seg_def)
  have node_d: "node_at (w_host w) d = Some NDir" by (rule dirs_to_dir [OF dir])
  have "follow (w_host w) (abs_path (xs @ [s])) = Inr (d @ [s])"
    using walk_snoc [OF xs(4) node_d leaf s] follow_abs [of "xs @ [s]"] xs clean by simp
  then have real: "look (do_realpath (abs_path (xs @ [s]))) w = (Inr (abs_path (d @ [s])), w)"
    using w by (simp add: look_quiet do_realpath_def)
  have rs: "\<forall>x\<in>set rs. clean_seg x" "\<not> is_shared_file sc" "sc_path sc = abs_path rs"
    using scope by (auto simp: scope_ok_def)
  have inside: "local_path_inside (ex_cwd ex) (abs_path rs) (abs_path (d @ [s]))"
    using local_path_inside_clean [OF rs(1), of "d @ [s]"] clean ps by auto
  show "canonical_path_of ex input w = (Inr (abs_path (d @ [s])), w)"
    unfolding canonical_path_of_def
    using clean(3) rs inside real xs(3) xs(2) [unfolded lexical_path_def]
    by (simp add: bind_io_def canonical_scope_ok [OF w scope] Let_def wrap_errno_def catch_io_def ret_def)
  have "walk (w_host w) max_links [] (d @ [s]) = Inr (d @ [s])"
    using walk_snoc [OF _ node_d leaf s, of max_links "[]" d] walk_along [of "w_host w" "[]" d max_links] dir clean
    by simp
  then have "follow (w_host w) (abs_path (d @ [s])) = Inr (d @ [s])"
    using follow_abs [of "d @ [s]"] clean by simp
  with leaf show "find_node (w_host w) (abs_path (d @ [s])) = Inr (NFile i)"
    by (simp add: find_node_def)
qed

lemma names_entry_kept:
  assumes "names_entry ex h rs input d s" "dirs_kept h h'" "node_at h d = Some NDir"
  shows "names_entry ex h' rs input d s"
  using assms walk_kept unfolding names_entry_def by blast

lemma scope_ok_kept:
  "scope_ok ex h sc rs \<Longrightarrow> dirs_kept h h' \<Longrightarrow> h_scope h' = h_scope h \<Longrightarrow> scope_ok ex h' sc rs"
  by (auto simp: scope_ok_def intro: dirs_to_kept)

section \<open>The steps of a write\<close>

lemma sys_quiet:
  "quiet w \<Longrightarrow> sys f ch w = (case f (w_host w) of
     (Inl e, h) \<Rightarrow> (Inl (Errno e), w\<lparr>w_host := h\<rparr>)
   | (Inr x, h) \<Rightarrow> (Inr x, w\<lparr>w_host := h, w_log := w_log w @ ch\<rparr>))"
  by (simp add: sys_def)

lemma sync_quiet [simp]: "quiet w \<Longrightarrow> sync_directory p w = (Inr (), w)"
  by (simp add: sync_directory_def catch_io_def bind_io_def look_quiet ret_def split: sum.split)

text \<open>A new file with these bytes at \<open>k\<close> is the only change to \<open>h\<close>.\<close>

definition staged :: "host \<Rightarrow> string list \<Rightarrow> byte list \<Rightarrow> host \<Rightarrow> bool" where
  "staged h k bs h' \<longleftrightarrow> node_at h' = (node_at h)(k \<mapsto> NFile (h_next h)) \<and> h_scope h' = h_scope h \<and>
     (\<exists>m t. h_inodes h' = (h_inodes h)(h_next h \<mapsto> \<lparr>in_mode = m, in_mtime = t, in_bytes = bs\<rparr>))"

lemma staged_dirs: "staged h k bs h' \<Longrightarrow> node_at h k = None \<or> (\<exists>i. node_at h k = Some (NFile i)) \<Longrightarrow> dirs_kept h h'"
  by (auto simp: staged_def dirs_kept_def)

text \<open>No trace of the temporary file is left.\<close>

definition untouched :: "host \<Rightarrow> host \<Rightarrow> bool" where
  "untouched h h' \<longleftrightarrow> node_at h' = node_at h \<and> h_scope h' = h_scope h \<and>
     (\<forall>i<h_next h. h_inodes h' i = h_inodes h i)"

lemma untouched_refl [simp]: "untouched h h"
  by (simp add: untouched_def)


lemma at_entry_here [simp]: "locate h p = Inr ss \<Longrightarrow> at_entry p f h = f ss (node_at h ss) h"
  by (simp add: at_entry_def)

text \<open>A host with the directory \<open>d\<close> at hand, for entries \<open>s\<close> in it.\<close>

definition at_dir :: "host \<Rightarrow> string list \<Rightarrow> bool" where
  "at_dir h d \<longleftrightarrow> (\<forall>x\<in>set d. clean_seg x) \<and> dirs_to h d"

lemma locate_at_dir: "at_dir h d \<Longrightarrow> clean_seg s \<Longrightarrow> locate h (abs_path (d @ [s])) = Inr (d @ [s])"
  by (simp add: at_dir_def locate_abs)

lemma at_dir_kept: "at_dir h d \<Longrightarrow> dirs_kept h h' \<Longrightarrow> at_dir h' d"
  by (auto simp: at_dir_def intro: dirs_to_kept)

lemma find_at_dir:
  assumes "at_dir h d" "clean_seg s" "node_at h (d @ [s]) = Some (NFile i)"
  shows "find_node h (abs_path (d @ [s])) = Inr (NFile i)"
proof -
  have s: "s \<noteq> []" "s \<noteq> ''.''" "s \<noteq> ''..''" using assms(2) by (auto simp: clean_seg_def)
  have "walk h max_links [] (d @ [s]) = Inr (d @ [s])"
    using walk_snoc [OF _ dirs_to_dir assms(3) s, of max_links "[]" d] walk_along [of h "[]" d max_links]
      assms(1) by (simp add: at_dir_def)
  with assms follow_abs [of "d @ [s]" h] show ?thesis by (simp add: find_node_def at_dir_def)
qed

lemma staged_create:
  assumes w: "quiet w" and d: "at_dir (w_host w) d" "clean_seg s"
  shows "(\<exists>w1. sys (do_create (abs_path (d @ [s])) mode) ch w = (Inr (NFile (h_next (w_host w))), w1) \<and> quiet w1 \<and>
      node_at (w_host w) (d @ [s]) = None \<and> staged (w_host w) (d @ [s]) [] (w_host w1)) \<or>
    (\<exists>e. sys (do_create (abs_path (d @ [s])) mode) ch w = (Inl e, w))"
  using w locate_at_dir [OF d]
  by (cases "node_at (w_host w) (d @ [s])")
    (auto simp: sys_quiet do_create_def staged_def set_node_def fun_eq_iff node_at_def)

lemma staged_upd:
  assumes "staged h k bs h1" "\<And>x. in_bytes x = bs \<Longrightarrow> in_bytes (f x) = bs'"
  shows "staged h k bs' (upd_inode (h_next h) f h1)"
proof -
  obtain m t where inodes: "h_inodes h1 = (h_inodes h)(h_next h \<mapsto> \<lparr>in_mode = m, in_mtime = t, in_bytes = bs\<rparr>)"
    using assms(1) by (auto simp: staged_def)
  let ?x = "f \<lparr>in_mode = m, in_mtime = t, in_bytes = bs\<rparr>"
  have "?x = \<lparr>in_mode = in_mode ?x, in_mtime = in_mtime ?x, in_bytes = bs'\<rparr>"
    using assms(2) [of "\<lparr>in_mode = m, in_mtime = t, in_bytes = bs\<rparr>"] by simp
  then have "h_inodes (upd_inode (h_next h) f h1) =
      (h_inodes h)(h_next h \<mapsto> \<lparr>in_mode = in_mode ?x, in_mtime = in_mtime ?x, in_bytes = bs'\<rparr>)"
    by (simp add: upd_inode_def inodes)
  moreover have "h_scope (upd_inode (h_next h) f h1) = h_scope h1" by (simp add: upd_inode_def)
  ultimately show ?thesis using assms(1) by (auto simp: staged_def)
qed

lemma staged_write:
  assumes "quiet w1" "staged h k bs (w_host w1)"
  shows "\<exists>w2. sys (do_write (NFile (h_next h)) bs') ch w1 = (Inr (), w2) \<and> quiet w2 \<and> staged h k bs' (w_host w2)"
  using assms(1) by (simp add: sys_quiet do_write_def staged_upd [OF assms(2)])

lemma staged_chmod:
  assumes "quiet w1" "staged h (d @ [s]) bs (w_host w1)" "at_dir h d" "clean_seg s" "node_at h (d @ [s]) = None"
  shows "\<exists>w2. sys (do_chmod (abs_path (d @ [s])) mode) ch w1 = (Inr (), w2) \<and> quiet w2 \<and>
    staged h (d @ [s]) bs (w_host w2)"
proof -
  have "at_dir (w_host w1) d" using at_dir_kept [OF assms(3) staged_dirs [OF assms(2)]] assms(5) by simp
  moreover have "node_at (w_host w1) (d @ [s]) = Some (NFile (h_next h))" using assms(2) by (simp add: staged_def)
  ultimately have find: "find_node (w_host w1) (abs_path (d @ [s])) = Inr (NFile (h_next h))"
    using assms(4) by (intro find_at_dir)
  with assms(1) show ?thesis by (simp add: sys_quiet do_chmod_def staged_upd [OF assms(2)])
qed

lemma staged_unlink:
  assumes "quiet w1" "staged h (d @ [s]) bs (w_host w1)" "at_dir h d" "clean_seg s" "node_at h (d @ [s]) = None"
  shows "\<exists>w2. sys (do_unlink (abs_path (d @ [s]))) ch w1 = (Inr (), w2) \<and> quiet w2 \<and> untouched h (w_host w2)"
proof -
  have "at_dir (w_host w1) d" using at_dir_kept [OF assms(3) staged_dirs [OF assms(2)]] assms(5) by simp
  then have loc: "locate (w_host w1) (abs_path (d @ [s])) = Inr (d @ [s])" using assms(4) by (rule locate_at_dir)
  have "h_scope (del_node (d @ [s]) (w_host w1)) = h_scope (w_host w1)"
    "h_inodes (del_node (d @ [s]) (w_host w1)) = h_inodes (w_host w1)" by (simp_all add: del_node_def)
  with loc assms show ?thesis
    by (auto simp: sys_quiet do_unlink_def staged_def untouched_def fun_eq_iff)
qed

lemma commit_rename:
  assumes w1: "quiet w1" and st: "staged h (d @ [t]) bs (w_host w1)" and d: "at_dir h d" "clean_seg t" "clean_seg s"
    and free: "node_at h (d @ [t]) = None" and old: "node_at h (d @ [s]) = Some (NFile j)" "j \<noteq> h_next h"
  shows "\<exists>w2. sys (do_rename (abs_path (d @ [t])) (abs_path (d @ [s]))) ch w1 = (Inr (), w2) \<and> quiet w2 \<and>
    staged h (d @ [s]) bs (w_host w2)"
proof -
  have kept: "at_dir (w_host w1) d" using at_dir_kept [OF d(1) staged_dirs [OF st]] free by simp
  have loc: "locate (w_host w1) (abs_path (d @ [t])) = Inr (d @ [t])"
    "locate (w_host w1) (abs_path (d @ [s])) = Inr (d @ [s])"
    using kept d by (simp_all add: locate_at_dir)
  have ts: "t \<noteq> s" using free old by auto
  let ?h = "set_node (d @ [s]) (NFile (h_next h)) (del_node (d @ [t]) (w_host w1))"
  have node: "node_at ?h = (node_at h)(d @ [s] \<mapsto> NFile (h_next h))"
    using st ts free by (auto simp: staged_def fun_eq_iff)
  have rest: "h_scope ?h = h_scope (w_host w1)" "h_inodes ?h = h_inodes (w_host w1)"
    by (simp_all add: set_node_def del_node_def)
  have nodes: "node_at (w_host w1) (d @ [t]) = Some (NFile (h_next h))" "node_at (w_host w1) (d @ [s]) = Some (NFile j)"
    using st ts old by (auto simp: staged_def)
  have "do_rename (abs_path (d @ [t])) (abs_path (d @ [s])) (w_host w1) = (Inr (), ?h)"
    using loc nodes old(2) by (simp add: do_rename_def)
  with w1 st node rest show ?thesis by (simp add: sys_quiet staged_def)
qed

lemma commit_link:
  assumes w1: "quiet w1" and st: "staged h (d @ [t]) bs (w_host w1)" and d: "at_dir h d" "clean_seg t" "clean_seg s"
    and free: "node_at h (d @ [t]) = None" and new: "node_at h (d @ [s]) = None"
  shows "(\<exists>w2. bind_io (sys (do_link (abs_path (d @ [t])) (abs_path (d @ [s]))) ch) (\<lambda>_.
       sys (do_unlink (abs_path (d @ [t]))) ch') w1 = (Inr (), w2) \<and> quiet w2 \<and> staged h (d @ [s]) bs (w_host w2)) \<or>
    bind_io (sys (do_link (abs_path (d @ [t])) (abs_path (d @ [s]))) ch) (\<lambda>_.
       sys (do_unlink (abs_path (d @ [t]))) ch') w1 = (Inl (Errno EEXIST), w1)"
proof -
  have kept: "at_dir (w_host w1) d" using at_dir_kept [OF d(1) staged_dirs [OF st]] free by simp
  have loc: "locate (w_host w1) (abs_path (d @ [t])) = Inr (d @ [t])"
    "locate (w_host w1) (abs_path (d @ [s])) = Inr (d @ [s])"
    using kept d by (simp_all add: locate_at_dir)
  have temp: "node_at (w_host w1) (d @ [t]) = Some (NFile (h_next h))" using st by (simp add: staged_def)
  show ?thesis
  proof (cases "t = s")
    case True
    with loc temp w1 show ?thesis by (simp add: bind_io_def sys_quiet do_link_def)
  next
    case False
    let ?h1 = "set_node (d @ [s]) (NFile (h_next h)) (w_host w1)"
    let ?h2 = "del_node (d @ [t]) ?h1"
    have empty: "node_at (w_host w1) (d @ [s]) = None" using st False new by (simp add: staged_def)
    have link: "do_link (abs_path (d @ [t])) (abs_path (d @ [s])) (w_host w1) = (Inr (), ?h1)"
      using loc temp empty by (simp add: do_link_def)
    have "dirs_kept (w_host w1) ?h1" using empty by (auto simp: dirs_kept_def)
    then have "at_dir ?h1 d" by (rule at_dir_kept [OF kept])
    then have "locate ?h1 (abs_path (d @ [t])) = Inr (d @ [t])" using d(2) by (rule locate_at_dir)
    moreover have "node_at ?h1 (d @ [t]) = Some (NFile (h_next h))" using temp False by simp
    ultimately have unlink: "do_unlink (abs_path (d @ [t])) ?h1 = (Inr (), ?h2)" by (simp add: do_unlink_def)
    have node: "node_at ?h2 = (node_at h)(d @ [s] \<mapsto> NFile (h_next h))"
      using st False free by (auto simp: staged_def fun_eq_iff)
    have rest: "h_scope ?h2 = h_scope (w_host w1)" "h_inodes ?h2 = h_inodes (w_host w1)"
      by (simp_all add: set_node_def del_node_def)
    from w1 link unlink node rest st show ?thesis
      by (simp add: bind_io_def sys_quiet staged_def)
  qed
qed


lemma look_nothing [simp]: "quiet w \<Longrightarrow> look (\<lambda>_. Inr x) w = (Inr x, w)"
  by (simp add: look_quiet)

text \<open>What the write found at its target and what it expects there.\<close>

definition target_state :: "host \<Rightarrow> string list \<Rightarrow> stats option \<Rightarrow> bool" where
  "target_state h k existing \<longleftrightarrow>
     (if existing = None then node_at h k = None else \<exists>j. node_at h k = Some (NFile j))"

definition expectation_met :: "(byte list \<Rightarrow> string) \<Rightarrow> host \<Rightarrow> string list \<Rightarrow> string option \<Rightarrow> bool" where
  "expectation_met sha h k expected \<longleftrightarrow>
     (\<forall>j. node_at h k = Some (NFile j) \<longrightarrow> expected = Some (sha (inode_bytes h j)))"

lemma check_target:
  assumes fine: "host_fine h" and scope: "scope_ok ex h sc rs" and entry: "names_entry ex h rs input d s"
    and d: "at_dir h d" and w: "quiet w" and st: "staged h (d @ [t]) bs (w_host w) \<and> node_at h (d @ [t]) = None \<or> w_host w = h"
    and j: "node_at h (d @ [s]) = Some (NFile j)"
  shows "(check_unchanged sha ex input expected msg w = (Inr (), w) \<and> expectation_met sha h (d @ [s]) expected) \<or>
    (\<exists>e. check_unchanged sha ex input expected msg w = (Inl e, w))"
proof -
  have kept: "dirs_kept h (w_host w)"
    using st staged_dirs by (auto simp: dirs_kept_def)
  have scopes: "h_scope (w_host w) = h_scope h" using st by (auto simp: staged_def)
  have leaf: "node_at (w_host w) (d @ [s]) = Some (NFile j)"
    using st j by (auto simp: staged_def)
  obtain x where x: "h_inodes h j = Some x" "j < h_next h" using fine j by (auto simp: host_fine_def)
  have inode: "h_inodes (w_host w) j = Some x" using st x by (auto simp: staged_def)
  have dir: "dirs_to (w_host w) d" "node_at h d = Some NDir"
    using d kept dirs_to_dir by (auto simp: at_dir_def intro: dirs_to_kept)
  note canonical = canonical_file [OF w scope_ok_kept [OF scope kept scopes]
    names_entry_kept [OF entry kept dir(2)] dir(1) leaf]
  have "inode_bytes h j = in_bytes x" using x by (simp add: inode_bytes_def)
  with check_unchanged_quiet [OF w canonical inode, of sha expected msg] j show ?thesis
    by (auto simp: expectation_met_def)
qed

lemma commit_write_quiet:
  assumes fine: "host_fine h" and scope: "scope_ok ex h sc rs" and entry: "names_entry ex h rs input d s"
    and d: "at_dir h d" "clean_seg t" "clean_seg s" and w1: "quiet w1" and st: "staged h (d @ [t]) bs (w_host w1)"
    and free: "node_at h (d @ [t]) = None" and target: "target_state h (d @ [s]) existing"
  shows "(\<exists>w2. commit_write sha ex input (abs_path (d @ [s])) (abs_path (d @ [t])) existing expected
        (NFile (h_next h)) content w1 = (Inr (), w2) \<and> quiet w2 \<and> staged h (d @ [s]) content (w_host w2) \<and>
        expectation_met sha h (d @ [s]) expected) \<or>
    (\<exists>e w2. commit_write sha ex input (abs_path (d @ [s])) (abs_path (d @ [t])) existing expected
        (NFile (h_next h)) content w1 = (Inl e, w2) \<and> quiet w2 \<and> staged h (d @ [t]) content (w_host w2))"
proof -
  obtain w2 where w2: "sys (do_write (NFile (h_next h)) content) [Wrote] w1 = (Inr (), w2)" "quiet w2"
    "staged h (d @ [t]) content (w_host w2)"
    using staged_write [OF w1 st] by blast
  show ?thesis
  proof (cases existing)
    case None
    with target have new: "node_at h (d @ [s]) = None" by (simp add: target_state_def)
    let ?link = "bind_io (sys (do_link (abs_path (d @ [t])) (abs_path (d @ [s])))
        [Linked (abs_path (d @ [t])) (abs_path (d @ [s]))]) (\<lambda>_.
      sys (do_unlink (abs_path (d @ [t]))) [Unlinked (abs_path (d @ [t]))])"
    have commit: "commit_write sha ex input (abs_path (d @ [s])) (abs_path (d @ [t])) existing expected
        (NFile (h_next h)) content w1 =
      catch_io ?link (\<lambda>e. if e = Errno EEXIST
        then deny FILE_CONFLICT ''Workspace file was created concurrently'' else raise e) w2"
      using w2 None by (simp add: commit_write_def bind_io_def)
    have met: "expectation_met sha h (d @ [s]) expected" using new by (simp add: expectation_met_def)
    from commit_link [OF w2(2,3) d free new, of "[Linked (abs_path (d @ [t])) (abs_path (d @ [s]))]"
        "[Unlinked (abs_path (d @ [t]))]"]
    show ?thesis
    proof (elim disjE exE conjE)
      fix w3 assume "?link w2 = (Inr (), w3)" "quiet w3" "staged h (d @ [s]) content (w_host w3)"
      with met show ?thesis unfolding commit by (simp add: catch_io_def)
    next
      assume "?link w2 = (Inl (Errno EEXIST), w2)"
      with w2 show ?thesis unfolding commit by (simp add: catch_io_def deny_def raise_def)
    qed
  next
    case (Some stat)
    with target obtain j where j: "node_at h (d @ [s]) = Some (NFile j)" by (auto simp: target_state_def)
    with fine have "j \<noteq> h_next h" by (auto simp: host_fine_def)
    have check: "(check_unchanged sha ex input expected ''Workspace file changed before the atomic replacement'' w2 =
        (Inr (), w2) \<and> expectation_met sha h (d @ [s]) expected) \<or>
      (\<exists>e. check_unchanged sha ex input expected ''Workspace file changed before the atomic replacement'' w2 = (Inl e, w2))"
      using w2(3) free by (intro check_target [OF fine scope entry d(1) w2(2) _ j]) blast
    obtain w3 where w3: "sys (do_chmod (abs_path (d @ [t])) (mode_bits existing)) [Chmodded (abs_path (d @ [t]))] w2 =
        (Inr (), w3)" "quiet w3" "staged h (d @ [t]) content (w_host w3)"
      using staged_chmod [OF w2(2,3) d(1,2) free] by blast
    obtain w4 where w4: "sys (do_rename (abs_path (d @ [t])) (abs_path (d @ [s])))
        [Renamed (abs_path (d @ [t])) (abs_path (d @ [s]))] w3 = (Inr (), w4)" "quiet w4"
        "staged h (d @ [s]) content (w_host w4)"
      using commit_rename [OF w3(2,3) d free j \<open>j \<noteq> h_next h\<close>] by blast
    from check w2 w3 w4 Some show ?thesis
      by (auto simp: commit_write_def bind_io_def)
  qed
qed

lemma replace_file_quiet:
  assumes fine: "host_fine (w_host w)" and scope: "scope_ok ex (w_host w) sc rs"
    and entry: "names_entry ex (w_host w) rs input d s" and d: "at_dir (w_host w) d" "clean_seg s"
    and uuid: "SLASH \<notin> set uuid" and w: "quiet w" and target: "target_state (w_host w) (d @ [s]) existing"
  shows "(\<exists>w2. replace_file sha uuid ex input (abs_path (d @ [s])) existing expected content w = (Inr (), w2) \<and>
      quiet w2 \<and> staged (w_host w) (d @ [s]) content (w_host w2) \<and>
      expectation_met sha (w_host w) (d @ [s]) expected) \<or>
    (\<exists>e w2. replace_file sha uuid ex input (abs_path (d @ [s])) existing expected content w = (Inl e, w2) \<and>
      quiet w2 \<and> untouched (w_host w) (w_host w2))"
proof -
  let ?t = "temporary_name uuid"
  have t: "clean_seg ?t" by (rule clean_temporary [OF uuid])
  have dclean: "\<forall>x\<in>set d. clean_seg x" using d(1) by (simp add: at_dir_def)
  have temp: "temporary_path uuid (abs_path (d @ [s])) = abs_path (d @ [?t])"
    using dclean t d(2) by (simp add: temporary_path_def)
  have dn: "dirname (abs_path (d @ [s])) = abs_path d" using dclean d(2) by simp
  show ?thesis
    using staged_create [OF w d(1) t, of "mode_bits existing" "[Created (abs_path (d @ [?t]))]"]
  proof (elim disjE exE conjE)
    fix e assume "sys (do_create (abs_path (d @ [?t])) (mode_bits existing)) [Created (abs_path (d @ [?t]))] w = (Inl e, w)"
    then show ?thesis
      by (cases e) (simp_all add: replace_file_def temp Let_def wrap_errno_def catch_io_def bind_io_def raise_def w)
  next
    fix w1
    assume create: "sys (do_create (abs_path (d @ [?t])) (mode_bits existing)) [Created (abs_path (d @ [?t]))] w =
        (Inr (NFile (h_next (w_host w))), w1)" "quiet w1" "node_at (w_host w) (d @ [?t]) = None"
        "staged (w_host w) (d @ [?t]) [] (w_host w1)"
    let ?commit = "commit_write sha ex input (abs_path (d @ [s])) (abs_path (d @ [?t])) existing expected
      (NFile (h_next (w_host w))) content"
    from commit_write_quiet [OF fine scope entry d(1) t d(2) create(2,4,3) target, of sha expected content]
    show ?thesis
    proof (elim disjE exE conjE)
      fix w2 assume "?commit w1 = (Inr (), w2)" "quiet w2"
        "staged (w_host w) (d @ [s]) content (w_host w2)" "expectation_met sha (w_host w) (d @ [s]) expected"
      with create show ?thesis
        by (simp add: replace_file_def temp dn Let_def wrap_errno_def catch_io_def bind_io_def on_error_def)
    next
      fix e w2 assume fail: "?commit w1 = (Inl e, w2)" "quiet w2" "staged (w_host w) (d @ [?t]) content (w_host w2)"
      obtain w3 where "sys (do_unlink (abs_path (d @ [?t]))) [Unlinked (abs_path (d @ [?t]))] w2 = (Inr (), w3)"
        "quiet w3" "untouched (w_host w) (w_host w3)"
        using staged_unlink [OF fail(2,3) d(1) t create(3)] by blast
      with fail create show ?thesis
        by (cases e) (simp_all add: replace_file_def temp dn Let_def wrap_errno_def catch_io_def bind_io_def
            on_error_def ret_def raise_def)
    qed
  qed
qed


section \<open>The whole write\<close>

lemma walk_node: "walk h n cur ss = Inr d \<Longrightarrow> dirs_to h cur \<Longrightarrow> \<exists>nd. node_at h d = Some nd \<and> (\<forall>t. nd \<noteq> NLink t)"
proof (induction h n cur ss rule: walk.induct)
  case (1 h n cur)
  then show ?case by (auto dest: dirs_to_dir)
next
  case (2 h n cur s ss)
  consider "s = [] \<or> s = ''.''" | "s = ''..''" | "s \<noteq> []" "s \<noteq> ''.''" "s \<noteq> ''..''" "\<not> (s = [] \<or> s = ''.'')"
    by blast
  then show ?case
  proof cases
    case 1
    with "2.IH"(1) [OF 1] "2.prems" show ?thesis by simp
  next
    case dots: 2
    then have "\<not> (s = [] \<or> s = ''.'')" by simp
    from "2.IH"(2) [OF this dots] "2.prems" dots show ?thesis by (simp add: dirs_to_butlast)
  next
    case s: 3
    from "2.prems"(1) s(1-3) show ?thesis
    proof (cases rule: walk_name_cases)
      case dir
      from "2.IH"(3) [OF s(4,3) dir(1) refl dir(2)] "2.prems" dir show ?thesis by (simp add: dirs_to_snoc)
    next
      case (link t m)
      from "2.IH"(4) [OF s(4,3) link(1) refl link(2) link(3)] "2.prems" show ?thesis by simp
    next
      case (leaf nd)
      then show ?thesis by simp
    qed
  qed
qed

lemma walk_leaf:
  assumes "dirs_to h b" "\<forall>x\<in>set b. clean_seg x" "clean_seg s" "node_at h (b @ [s]) = Some nd"
    and "nd \<noteq> NDir" "\<forall>t. nd \<noteq> NLink t"
  shows "walk h n [] (b @ [s]) = Inr (b @ [s])"
proof -
  have "walk h n cur (xs @ [s]) = Inr (cur @ xs @ [s])"
    if "dirs_to h (cur @ xs)" "\<forall>x\<in>set xs. clean_seg x" "node_at h (cur @ xs @ [s]) = Some nd" for cur xs
    using that
  proof (induction xs arbitrary: cur)
    case Nil
    with assms show ?case by (simp add: walk.simps(2) clean_seg_def split: node.splits)
  next
    case (Cons x xs)
    have "node_at h (cur @ [x]) = Some NDir"
      using Cons.prems(1) by (auto simp: dirs_to_def dest: spec [where x = "Suc (length cur)"])
    with Cons.IH [of "cur @ [x]"] Cons.prems show ?case by (simp add: walk.simps(2) clean_seg_def)
  qed
  from this [of "[]" b] assms show ?thesis by simp
qed

text \<open>The target's entry can be looked up only in a directory.\<close>

lemma lstat_target:
  assumes entry: "names_entry ex h rs input d s" and st: "do_lstat (abs_path (d @ [s])) h = r"
    and r: "r = Inl ENOENT \<or> (\<exists>x. r = Inr x)"
  shows "at_dir h d" "clean_seg s" "r = Inl ENOENT \<Longrightarrow> node_at h (d @ [s]) = None"
    "r = Inr x \<Longrightarrow> \<exists>nd. node_at h (d @ [s]) = Some nd \<and> x = node_stats h nd"
proof -
  obtain xs where xs: "\<forall>x\<in>set xs. clean_seg x" "walk h max_links [] xs = Inr d" "\<forall>x\<in>set d. clean_seg x" "clean_seg s"
    using entry unfolding names_entry_def by blast
  obtain nd where nd: "node_at h d = Some nd" "\<forall>t. nd \<noteq> NLink t" using walk_node [OF xs(2)] by auto
  have split: "split_on SLASH (abs_path (d @ [s])) = [] # d @ [s]"
    using split_path_join [of "d @ [s]"] xs by (simp add: abs_path_def)
  have names: "filter (\<lambda>s. s \<noteq> []) (d @ [s]) = d @ [s]" using xs by (auto simp: clean_seg_def)
  have "nd = NDir"
  proof (rule ccontr)
    assume leaf: "nd \<noteq> NDir"
    then have "d \<noteq> []" using nd by (auto simp: node_at_def)
    then obtain b x where b: "d = b @ [x]" by (metis rev_exhaust)
    then have "dirs_to h b" using walk_dirs [OF xs(2)] by simp
    then have "walk h max_links [] d = Inr d" using walk_leaf [of h b x nd] xs nd leaf b by simp
    then have "locate h (abs_path (d @ [s])) = Inl ENOTDIR"
      using nd leaf split names by (simp add: locate_def)
    with st r show False by (auto simp: do_lstat_def)
  qed
  with nd have "dirs_to h d" using walk_canonical(2) [OF xs(2)] xs(1) by (auto simp: clean_seg_def)
  then show d: "at_dir h d" and s: "clean_seg s" using xs by (auto simp: at_dir_def)
  have "locate h (abs_path (d @ [s])) = Inr (d @ [s])" by (rule locate_at_dir [OF d s])
  with st show "r = Inl ENOENT \<Longrightarrow> node_at h (d @ [s]) = None"
    "r = Inr x \<Longrightarrow> \<exists>nd. node_at h (d @ [s]) = Some nd \<and> x = node_stats h nd"
    by (auto simp: do_lstat_def split: option.splits)
qed

lemma at_lstat:
  "quiet w \<Longrightarrow> spec (at_world w) (lstat_if_present p) (\<lambda>v. case v of
     None \<Rightarrow> do_lstat p (w_host w) = Inl ENOENT | Some st \<Rightarrow> do_lstat p (w_host w) = Inr st)"
  by (auto simp: spec_def lstat_if_present_def catch_io_def bind_io_def look_quiet ret_def raise_def
      split: sum.splits)

lemma node_stats_file: "st_kind (node_stats h nd) = FkFile \<longleftrightarrow> (\<exists>i. nd = NFile i)"
  by (auto simp: node_stats_def split: node.splits option.splits)

lemma bind_ret_at: "bind_io (ret x) f w = f x w"
  by (simp add: bind_io_def ret_def)

lemma bind_lift: "bind_io (lift r) f w = (case r of Inl e \<Rightarrow> (Inl (Bridge e), w) | Inr x \<Rightarrow> f x w)"
  by (simp add: bind_io_def lift_def ret_def raise_def split: sum.split)


text \<open>The answer of an undisturbed write: an error and no trace, or the new content at the target.\<close>

definition write_outcome ::
  "(byte list \<Rightarrow> string) \<Rightarrow> byte list \<Rightarrow> string option \<Rightarrow> host \<Rightarrow> io_error + mutation_result \<Rightarrow> host \<Rightarrow> bool" where
  "write_outcome sha content expected h r h' \<longleftrightarrow>
     (case r of
        Inl e \<Rightarrow> untouched h h'
      | Inr res \<Rightarrow> \<exists>k meta. staged h k content h' \<and> expectation_met sha h k expected \<and>
          (node_at h k = None \<longrightarrow> expected = None) \<and>
          mr_path res = abs_path k \<and> mr_bytes res = length content \<and> mr_read res = Some meta \<and>
          fr_hash meta = sha content \<and> fr_size meta = length content)"

lemma validate_Inr: "validate_expected_hash eh b = Inr v \<Longrightarrow> v = eh"
  by (auto simp: validate_expected_hash_def split: option.splits if_splits)

lemma write_rest:
  assumes fine: "host_fine (w_host w)" and scope: "scope_ok ex (w_host w) sc rs"
    and entry: "names_entry ex (w_host w) rs input d s" and d: "at_dir (w_host w) d" "clean_seg s"
    and uuid: "SLASH \<notin> set uuid" and w: "quiet w" and target: "target_state (w_host w) (d @ [s]) existing"
    and small: "int (length content) \<le> ex_max_file ex"
    and none: "existing = None \<longrightarrow> expected = None"
    and run: "bind_io (replace_file sha uuid ex input (abs_path (d @ [s])) existing expected content) (\<lambda>_.
        bind_io (read_file sha ex input 1) (\<lambda>meta.
          ret \<lparr>mr_operation = MutWrite, mr_path = fr_path meta, mr_destination = None,
            mr_bytes = length content, mr_read = Some meta\<rparr>)) w = (r, w')"
  shows "write_outcome sha content expected (w_host w) r (w_host w')"
  using replace_file_quiet [OF fine scope entry d uuid w target, of sha expected content]
proof (elim disjE exE conjE)
  fix e w2
  assume "replace_file sha uuid ex input (abs_path (d @ [s])) existing expected content w = (Inl e, w2)"
    "untouched (w_host w) (w_host w2)"
  with run show ?thesis by (auto simp: bind_io_def write_outcome_def)
next
  fix w2
  assume rep: "replace_file sha uuid ex input (abs_path (d @ [s])) existing expected content w = (Inr (), w2)"
    and w2: "quiet w2" and st: "staged (w_host w) (d @ [s]) content (w_host w2)"
    and met: "expectation_met sha (w_host w) (d @ [s]) expected"
  have was: "node_at (w_host w) (d @ [s]) = None \<or> (\<exists>i. node_at (w_host w) (d @ [s]) = Some (NFile i))"
    using target by (auto simp: target_state_def split: if_splits)
  have kept: "dirs_kept (w_host w) (w_host w2)" by (rule staged_dirs [OF st was])
  have scopes: "h_scope (w_host w2) = h_scope (w_host w)" using st by (simp add: staged_def)
  have dir: "node_at (w_host w) d = Some NDir" using d(1) by (simp add: at_dir_def dirs_to_dir)
  have dirs2: "dirs_to (w_host w2) d" using d(1) kept by (auto simp: at_dir_def intro: dirs_to_kept)
  have leaf: "node_at (w_host w2) (d @ [s]) = Some (NFile (h_next (w_host w)))" using st by (simp add: staged_def)
  obtain m t where inode: "h_inodes (w_host w2) (h_next (w_host w)) = Some \<lparr>in_mode = m, in_mtime = t, in_bytes = content\<rparr>"
    using st by (auto simp: staged_def)
  note canonical = canonical_file [OF w2 scope_ok_kept [OF scope kept scopes]
      names_entry_kept [OF entry kept dir] dirs2 leaf]
  have "\<exists>meta. read_file sha ex input 1 w2 = (Inr meta, w2) \<and> fr_path meta = abs_path (d @ [s]) \<and>
      fr_hash meta = sha content \<and> fr_size meta = length content"
    using read_file_quiet [OF w2 canonical inode, of sha 1] small by simp
  then obtain meta where meta: "read_file sha ex input 1 w2 = (Inr meta, w2)" "fr_path meta = abs_path (d @ [s])"
    "fr_hash meta = sha content" "fr_size meta = length content" by blast
  from run rep meta have "r = Inr \<lparr>mr_operation = MutWrite, mr_path = abs_path (d @ [s]), mr_destination = None,
      mr_bytes = length content, mr_read = Some meta\<rparr>" "w' = w2"
    by (simp_all add: bind_io_def ret_def)
  moreover have "node_at (w_host w) (d @ [s]) = None \<longrightarrow> expected = None"
    using target none by (auto simp: target_state_def split: if_splits)
  ultimately show ?thesis using st met meta by (auto simp: write_outcome_def)
qed

text \<open>C11. When nobody interferes, a write is all or nothing. If it fails, at whatever point, every
  entry and every file is as before and no temporary file is left. If it succeeds, exactly one
  entry changed: it now is a new file with the decoded content, the answer reports its path,
  size and digest, a file that was there had the expected digest, and where there was none, no
  digest was expected. Files reached by other hard links keep their content.
\<close>

theorem write_is_atomic:
  assumes w: "quiet w" and fine: "host_fine (w_host w)" and scopes: "scope_fine ex (w_host w)"
    and uuid: "SLASH \<notin> set uuid" and room: "0 < ex_max_write ex" "ex_max_write ex \<le> ex_max_file ex"
    and run: "write_file sha uuid ex input c64 expected w = (r, w')"
  shows "write_outcome sha (unbase64 c64) expected (w_host w) r (w_host w')"
proof (cases "decode_workspace_content (Some c64) (nat (ex_max_write ex))")
  case (Inl e)
  with run show ?thesis by (auto simp: write_file_def bind_lift write_outcome_def)
next
  case (Inr content)
  then have content: "content = unbase64 c64" and small: "int (length content) \<le> ex_max_file ex"
    using room by (auto simp: decode_workspace_content_def Let_def split: if_splits)
  note run = run [unfolded write_file_def bind_lift Inr sum.case]
  have "write_outcome sha content expected (w_host w) r (w_host w')"
  proof (rule bind_at [OF mutation_target_Inr [OF w scopes]])
    fix e assume "mutation_target ex input w = (Inl e, w)"
    with run show ?thesis by (auto simp: bind_io_def write_outcome_def)
  next
    fix target
    assume tgt: "mutation_target ex input w = (Inr target, w)"
      and "\<exists>sc rs d s. scope_ok ex (w_host w) sc rs \<and> names_entry ex (w_host w) rs input d s \<and> target = abs_path (d @ [s])"
    then obtain sc rs d s where scope: "scope_ok ex (w_host w) sc rs"
      and entry: "names_entry ex (w_host w) rs input d s" and target: "target = abs_path (d @ [s])" by blast
    note run = run [unfolded bind_io_def [of "mutation_target ex input"] tgt prod.case sum.case target]
    show ?thesis
    proof (rule bind_at [OF at_lstat [OF w]])
      fix e assume "lstat_if_present (abs_path (d @ [s])) w = (Inl e, w)"
      with run show ?thesis by (auto simp: bind_io_def write_outcome_def)
    next
      fix existing
      assume ls: "lstat_if_present (abs_path (d @ [s])) w = (Inr existing, w)"
        and found: "case existing of None \<Rightarrow> do_lstat (abs_path (d @ [s])) (w_host w) = Inl ENOENT
          | Some st \<Rightarrow> do_lstat (abs_path (d @ [s])) (w_host w) = Inr st"
      note run = run [unfolded bind_io_def [of "lstat_if_present _"] ls prod.case sum.case]
      show ?thesis
      proof (cases existing)
        case None
        with found have enoent: "do_lstat (abs_path (d @ [s])) (w_host w) = Inl ENOENT" by simp
        from lstat_target [OF entry enoent] have d: "at_dir (w_host w) d" "clean_seg s"
          and absent: "node_at (w_host w) (d @ [s]) = None" by simp_all
        show ?thesis
        proof (cases expected)
          case (Some x)
          with run None show ?thesis
            by (auto simp: bind_lift deny_def raise_def write_outcome_def validate_expected_hash_def split: if_splits)
        next
          case none: None
          have "write_outcome sha content None (w_host w) r (w_host w')"
            by (rule write_rest [OF fine scope entry d uuid w _ small, where existing = None])
              (use run None none absent in \<open>simp_all add: target_state_def bind_lift bind_ret_at validate_expected_hash_def\<close>)
          with none show ?thesis by simp
        qed
      next
        case (Some st)
        with found have lst: "do_lstat (abs_path (d @ [s])) (w_host w) = Inr st" by simp
        from lstat_target [OF entry lst] obtain nd where d: "at_dir (w_host w) d" "clean_seg s"
          and nd: "node_at (w_host w) (d @ [s]) = Some nd" "st = node_stats (w_host w) nd" by auto
        show ?thesis
        proof (cases "st_kind st = FkFile \<and> (\<exists>x. expected = Some x \<and> is_sha256 x)")
          case False
          with run Some show ?thesis
            by (auto simp: bind_lift deny_def raise_def write_outcome_def validate_expected_hash_def
                split: if_splits option.splits)
        next
          case True
          then obtain j x where j: "nd = NFile j" and x: "expected = Some x" "is_sha256 x"
            using nd by (auto simp: node_stats_file)
          have state: "target_state (w_host w) (d @ [s]) existing" using nd j Some by (simp add: target_state_def)
          have check: "(check_unchanged sha ex input expected ''Workspace file changed since it was read'' w = (Inr (), w) \<and>
              expectation_met sha (w_host w) (d @ [s]) expected) \<or>
            (\<exists>e. check_unchanged sha ex input expected ''Workspace file changed since it was read'' w = (Inl e, w))"
            using nd j by (intro check_target [OF fine scope entry d(1) w]) simp_all
          then show ?thesis
          proof (elim disjE exE conjE)
            fix e assume "check_unchanged sha ex input expected ''Workspace file changed since it was read'' w = (Inl e, w)"
            with run True Some x show ?thesis
              by (auto simp: bind_lift bind_io_def [of "check_unchanged _ _ _ _ _"] write_outcome_def
                  validate_expected_hash_def)
          next
            assume ok: "check_unchanged sha ex input expected ''Workspace file changed since it was read'' w = (Inr (), w)"
            show ?thesis
              by (rule write_rest [OF fine scope entry d uuid w state small])
                (use run True Some x ok in \<open>simp_all add: bind_lift bind_io_def [of "check_unchanged _ _ _ _ _"]
                  validate_expected_hash_def\<close>)
          qed
        qed
      qed
    qed
  qed
  then show ?thesis by (simp add: content)
qed

lemma demo_fine: "host_fine demo_host" "scope_fine demo_executor demo_host"
proof -
  show "host_fine demo_host"
    by (auto simp: host_fine_def demo_host_def node_at_def jm_get_Cons split: if_splits)
  show "scope_fine demo_executor demo_host"
    using demo_clean by (auto simp: scope_fine_def demo_host_def demo_executor_def abs_path_def path_join_def
        intro!: exI [of _ "[''w'']"])
qed

lemma write_is_atomic_witness:
  "\<exists>k. staged demo_host k [66] (w_host (snd
     (write_file constant_hash ''u'' demo_executor ''f'' (base64 [66]) (Some (constant_hash [])) (demo_world []))))"
proof -
  let ?m = "write_file constant_hash ''u'' demo_executor ''f'' (base64 [66]) (Some (constant_hash [])) (demo_world [])"
  have ok: "case fst ?m of Inr _ \<Rightarrow> True | Inl _ \<Rightarrow> False" by code_simp
  obtain r w' where m: "?m = (r, w')" by (cases ?m)
  have "write_outcome constant_hash (unbase64 (base64 [66])) (Some (constant_hash [])) (w_host (demo_world [])) r (w_host w')"
    by (rule write_is_atomic [OF _ _ _ _ _ _ m])
      (simp_all add: demo_world_def demo_fine, simp_all add: demo_executor_def)
  with ok m show ?thesis by (auto simp: write_outcome_def demo_world_def split: sum.splits)
qed

end
