(* ===== verification/LocalReads.thy ===== *)
theory LocalReads
  imports LocalSafety
begin

text \<open>
  The reading operations of \<^verbatim>\<open>src/extension/local-workspace-executor.ts\<close> make no call that
  changes the file system, whatever the others do meanwhile. \<open>quiet\<close> says so of a piece of
  asynchronous code, and is closed under the ways such code is put together.
\<close>

named_theorems quiet_rules \<open>how code that changes nothing is put together\<close>

definition quiet :: "'a io \<Rightarrow> bool" where
  "quiet m \<longleftrightarrow> (\<forall>w. w_log (snd (m w)) = w_log w)"

lemma quietD: "quiet m \<Longrightarrow> m w = (r, w') \<Longrightarrow> w_log w' = w_log w"
  unfolding quiet_def by (metis snd_conv)

lemma quiet_basic [quiet_rules]:
  "quiet (ret x)" "quiet (raise e)" "quiet (deny c msg)" "quiet (deny_with c msg d)" "quiet (ask g)"
  by (simp_all add: quiet_def ret_def raise_def deny_def deny_with_def ask_def)

lemma quiet_lift [quiet_rules]: "quiet (lift r)"
  by (auto simp: lift_def quiet_rules split: sum.split)

lemma quiet_look [quiet_rules]: "quiet (look f)"
  by (auto simp: quiet_def look_def sys_def split: list.split prod.split sum.split option.split)

lemma quiet_bind [quiet_rules]: "quiet m \<Longrightarrow> (\<And>x. quiet (f x)) \<Longrightarrow> quiet (bind_io m f)"
  by (auto simp: quiet_def bind_io_def split: prod.splits sum.splits) (metis snd_conv)+

lemma quiet_catch [quiet_rules]: "quiet m \<Longrightarrow> (\<And>e. quiet (f e)) \<Longrightarrow> quiet (catch_io m f)"
  by (auto simp: quiet_def catch_io_def split: prod.splits sum.splits) (metis snd_conv)+

lemma quiet_wrap [quiet_rules]: "quiet m \<Longrightarrow> quiet (wrap_errno m f)"
  unfolding wrap_errno_def by (rule quiet_catch) (auto simp: quiet_rules split: io_error.split)

lemma quiet_if [quiet_rules]: "quiet m \<Longrightarrow> quiet n \<Longrightarrow> quiet (if b then m else n)"
  by simp

lemma quiet_let [quiet_rules]: "(\<And>x. quiet (f x)) \<Longrightarrow> quiet (let x = v in f x)"
  by simp

lemma quiet_option [quiet_rules]:
  "quiet m \<Longrightarrow> (\<And>x. quiet (f x)) \<Longrightarrow> quiet (case v of None \<Rightarrow> m | Some x \<Rightarrow> f x)"
  by (cases v) auto

lemma quiet_pair [quiet_rules]: "(\<And>a b. quiet (f a b)) \<Longrightarrow> quiet (case v of (a, b) \<Rightarrow> f a b)"
  by (cases v) auto

section \<open>The reading operations\<close>

lemma quiet_scope [quiet_rules]: "quiet (canonical_scope ex)"
  unfolding canonical_scope_def by (intro quiet_rules)

lemma quiet_root [quiet_rules]: "quiet (canonical_root ex)"
  unfolding canonical_root_def by (intro quiet_rules)

lemma quiet_canonical [quiet_rules]: "quiet (canonical_path_of ex input)"
  unfolding canonical_path_of_def by (intro quiet_rules)

lemma quiet_read_loop [quiet_rules]: "quiet (read_loop nd sz chunk plen pos prefix seen)"
proof -
  have "w_log (snd (read_loop nd sz chunk plen pos prefix seen w)) = w_log w" for w
  proof (induction nd sz chunk plen pos prefix seen w rule: read_loop.induct)
    case (1 nd sz chunk plen pos prefix seen w)
    note step = read_loop.simps [of nd sz chunk plen pos prefix seen w]
    show ?case
    proof (cases "pos < sz")
      case True
      obtain r w' where r: "look (do_read nd pos (min chunk (sz - pos))) w = (r, w')"
        by (cases "look (do_read nd pos (min chunk (sz - pos))) w")
      have w': "w_log w' = w_log w" using quietD [OF quiet_look r] .
      show ?thesis
      proof (cases r)
        case (Inl e)
        with True r w' show ?thesis by (subst step) simp
      next
        case (Inr bs)
        have "w_log (snd (read_loop nd sz chunk plen (pos + length bs)
            (prefix @ take (plen - length prefix) bs) (seen @ bs) w')) = w_log w'" if "bs \<noteq> []"
          using "1.IH" [OF True r [symmetric] Inr that] .
        with True r w' Inr show ?thesis by (subst step) simp
      qed
    qed (subst step, simp)
  qed
  then show ?thesis by (simp add: quiet_def)
qed

lemma quiet_read [quiet_rules]: "quiet (read_file sha ex input limit)"
  unfolding read_file_def by (intro quiet_rules)

lemma quiet_directory [quiet_rules]: "quiet (list_directory le ex input)"
  unfolding list_directory_def by (intro quiet_rules)

lemma quiet_tree_children [quiet_rules]:
  "quiet (tree_children cwd root dir level depth limit cs entries pending)"
proof (induction cs arbitrary: entries pending)
  case (Cons c cs)
  obtain name kind where c: "c = (name, kind)" by (cases c)
  show ?case unfolding c by (simp only: tree_children.simps) (intro quiet_rules Cons.IH)
qed (simp add: quiet_rules)

lemma quiet_tree_loop [quiet_rules]: "quiet (tree_loop le cwd root depth limit pending entries)"
proof -
  have "w_log (snd (tree_loop le cwd root depth limit pending entries w)) = w_log w" for w
  proof (induction le cwd root depth limit pending entries w rule: tree_loop.induct)
    case (2 le cwd root depth limit dir level pending entries w)
    show ?case
      using quietD [OF quiet_look] quietD [OF quiet_tree_children] "2.IH"
      by (auto simp: tree_loop.simps split: prod.split sum.split)
  qed (simp add: tree_loop.simps)
  then show ?thesis by (simp add: quiet_def)
qed

lemma quiet_tree [quiet_rules]: "quiet (list_tree le ex input depth n)"
  unfolding list_tree_def by (intro quiet_rules)

lemma quiet_search_children [quiet_rules]: "quiet (search_children ex dir cs files pending)"
proof (induction cs arbitrary: files pending)
  case (Cons c cs)
  obtain name kind where c: "c = (name, kind)" by (cases c)
  show ?case unfolding c by (simp only: search_children.simps) (intro quiet_rules Cons.IH)
qed (simp add: quiet_rules)

lemma quiet_search_loop [quiet_rules]: "quiet (search_loop le ex visited pending files)"
proof -
  have "w_log (snd (search_loop le ex visited pending files w)) = w_log w" for w
  proof (induction le ex visited pending files w rule: search_loop.induct)
    case (2 le ex visited dir pending files w)
    show ?case
      using quietD [OF quiet_look] quietD [OF quiet_search_children] "2.IH"
      by (auto simp: search_loop.simps Let_def deny_def raise_def split: prod.split sum.split)
  qed (simp add: search_loop.simps)
  then show ?thesis by (simp add: quiet_def)
qed

lemma quiet_search_starts [quiet_rules]: "quiet (search_starts ex inputs files pending)"
  by (induction inputs arbitrary: files pending) (simp_all add: quiet_rules)

lemma quiet_scan_files [quiet_rules]: "quiet (scan_files text_of ex query limit files scanned found)"
proof (induction files arbitrary: scanned found)
  case (Cons f fs)
  show ?case by (simp only: scan_files.simps) (intro quiet_rules Cons.IH)
qed (simp add: quiet_rules)

lemma quiet_search [quiet_rules]: "quiet (search le text_of ex query inputs n)"
  unfolding search_def search_files_def by (intro quiet_rules)

lemma quiet_git [quiet_rules]: "quiet (git_status run_git ex)"
  unfolding git_status_def by (intro quiet_rules)

end
