(* ===== verification/Dispatcher.thy ===== *)
theory Dispatcher
  imports OperationLedger BackgroundTasks LocalWrites LocalReads
begin

text \<open>
  \<^verbatim>\<open>src/extension/controller-workspace-dispatcher.ts\<close>: a request of the agent for a local
  root or for a file shared with a conversation becomes a call of the local executor. The
  dispatcher checks that the user authorised the root for this thread, keeps shared files
  read-only, checks the arguments, and runs every change through an operation ledger of its
  own, so that a repeated request does not change anything twice.
\<close>

datatype controller_operation =
    LocalApplyPatch | LocalCanonicalPath | LocalCreateDirectory | LocalDeletePath | LocalReadFile
  | LocalRenamePath | LocalListDirectory | LocalListTree | LocalSearch | LocalGitStatus | LocalWriteFile

fun operation_name :: "controller_operation \<Rightarrow> string" where
  "operation_name LocalApplyPatch = ''localApplyPatch''"
| "operation_name LocalCanonicalPath = ''localCanonicalPath''"
| "operation_name LocalCreateDirectory = ''localCreateDirectory''"
| "operation_name LocalDeletePath = ''localDeletePath''"
| "operation_name LocalReadFile = ''localReadFile''"
| "operation_name LocalRenamePath = ''localRenamePath''"
| "operation_name LocalListDirectory = ''localListDirectory''"
| "operation_name LocalListTree = ''localListTree''"
| "operation_name LocalSearch = ''localSearch''"
| "operation_name LocalGitStatus = ''localGitStatus''"
| "operation_name LocalWriteFile = ''localWriteFile''"

record controller_policy =
  cp_timeout :: int
  cp_max_output :: int

record controller_request =
  cq_id :: string
  cq_operation :: controller_operation
  cq_policy :: controller_policy
  cq_params :: jobj

text \<open>What the dispatcher reads of a \<open>BridgeConfig\<close>.\<close>

record dispatch_config =
  dc_vscode_remote :: bool
  dc_roots :: "scope list"

type_synonym root_resolver = "string \<Rightarrow> string \<Rightarrow> scope option"

section \<open>Authorisation\<close>

definition configured_local_root :: "dispatch_config \<Rightarrow> string \<Rightarrow> scope option" where
  "configured_local_root config rid =
     List.find (\<lambda>r. sc_id r = rid \<and> sc_local r \<and> sc_role r = SecondaryRole) (dc_roots config)"

definition authorized_local_root :: "dispatch_config \<Rightarrow> root_resolver \<Rightarrow> string \<Rightarrow> string \<Rightarrow> scope option" where
  "authorized_local_root config lookup tid rid =
     (case lookup tid rid of
        Some r \<Rightarrow>
          if sc_local r \<and> sc_role r = SecondaryRole \<and>
             map_option sc_path (configured_local_root config rid) = Some (sc_path r)
          then Some r else None
      | None \<Rightarrow> None)"

definition authorized_conversation :: "root_resolver \<Rightarrow> string \<Rightarrow> string \<Rightarrow> scope option" where
  "authorized_conversation lookup tid rid =
     (case lookup tid rid of
        Some r \<Rightarrow>
          if sc_local r \<and> sc_role r = ConversationRole \<and> sc_thread r = tid then Some r else None
      | None \<Rightarrow> None)"

text \<open>The resolver the executor is given: asked again at each of its operations.\<close>

definition scope_resolver :: "dispatch_config \<Rightarrow> root_resolver \<Rightarrow> string \<Rightarrow> string \<Rightarrow> scope option" where
  "scope_resolver config lookup tid candidate =
     (case lookup tid candidate of
        None \<Rightarrow> None
      | Some r \<Rightarrow>
          if sc_role r = ConversationRole \<and> sc_thread r = tid then Some r
          else if sc_role r = SecondaryRole \<and>
             map_option sc_path (configured_local_root config candidate) = Some (sc_path r)
          then Some r else None)"

fun read_only_refuses :: "controller_operation \<Rightarrow> bool" where
  "read_only_refuses LocalApplyPatch = True"
| "read_only_refuses LocalCreateDirectory = True"
| "read_only_refuses LocalDeletePath = True"
| "read_only_refuses LocalGitStatus = True"
| "read_only_refuses LocalRenamePath = True"
| "read_only_refuses LocalWriteFile = True"
| "read_only_refuses _ = False"

section \<open>Arguments\<close>

definition required_string :: "jobj \<Rightarrow> string \<Rightarrow> bridge_error + string" where
  "required_string params k =
     (case oget params k of
        Some (JStr s) \<Rightarrow> Inr s
      | _ \<Rightarrow> throw PROTOCOL_MISMATCH (''params.'' @ k @ '' must be a string''))"

definition number_value :: "jobj \<Rightarrow> string \<Rightarrow> int \<Rightarrow> bridge_error + int" where
  "number_value params k fallback =
     (case oget params k of
        None \<Rightarrow> Inr fallback
      | Some (JInt i) \<Rightarrow> Inr i
      | _ \<Rightarrow> throw PROTOCOL_MISMATCH (''params.'' @ k @ '' must be an integer''))"

definition optional_string :: "jobj \<Rightarrow> string \<Rightarrow> bridge_error + string option" where
  "optional_string params k =
     (case oget params k of
        None \<Rightarrow> Inr None
      | Some (JStr s) \<Rightarrow> Inr (Some s)
      | _ \<Rightarrow> throw PROTOCOL_MISMATCH (''params.'' @ k @ '' must be a string''))"

text \<open>\<open>mutationOptions\<close>: the executor uses the expected hash, the key only has to be a string.\<close>

definition mutation_options :: "jobj \<Rightarrow> bridge_error + string option" where
  "mutation_options params =
     bind_res (optional_string params ''expectedHash'') (\<lambda>h.
     bind_res (optional_string params ''idempotencyKey'') (\<lambda>_. Inr h))"

text \<open>A text of a replacement as code points.\<close>

definition code_points :: "string \<Rightarrow> ctext" where
  "code_points s = map of_char s"

fun replacement_of :: "json \<Rightarrow> replacement option" where
  "replacement_of (JObj ob) =
     (case (oget ob ''oldText'', oget ob ''newText'') of
        (Some (JStr old), Some (JStr new)) \<Rightarrow> Some (Replace (code_points old) (code_points new))
      | _ \<Rightarrow> None)"
| "replacement_of _ = None"

fun all_some :: "'a option list \<Rightarrow> 'a list option" where
  "all_some [] = Some []"
| "all_some (None # xs) = None"
| "all_some (Some x # xs) = map_option ((#) x) (all_some xs)"

fun string_of :: "json \<Rightarrow> string option" where
  "string_of (JStr s) = Some s"
| "string_of _ = None"

definition search_paths :: "jobj \<Rightarrow> bridge_error + string list" where
  "search_paths params =
     (let requested = (case oget params ''paths'' of
          None \<Rightarrow> Some [''.'']
        | Some (JArr xs) \<Rightarrow> if length xs \<le> 32 then all_some (map string_of xs) else None
        | Some _ \<Rightarrow> None)
      in case requested of
        None \<Rightarrow> throw PROTOCOL_MISMATCH ''params.paths must contain at most 32 strings''
      | Some ps \<Rightarrow> Inr (if ps = [] then [''.''] else ps))"

section \<open>Dispatch\<close>

text \<open>The call of the executor a request stands for.\<close>

datatype executor_call =
    ExCanonicalPath string
  | ExReadFile string int
  | ExListDirectory string
  | ExListTree string int int
  | ExSearch string "string list" int
  | ExGitStatus
  | ExPatch string "replacement list" "string option"
  | ExMkdir string
  | ExDelete string "string option"
  | ExRename string string "string option"
  | ExWrite string string "string option"

fun changes_files :: "executor_call \<Rightarrow> bool" where
  "changes_files (ExPatch _ _ _) = True"
| "changes_files (ExMkdir _) = True"
| "changes_files (ExDelete _ _) = True"
| "changes_files (ExRename _ _ _) = True"
| "changes_files (ExWrite _ _ _) = True"
| "changes_files _ = False"

text \<open>A request that only reads is called at once. A change goes to the ledger under a key, with
  the digest of its parameters; its own arguments are checked when the ledger runs it, so an
  error there is the ledger's result.\<close>

datatype dispatched =
    Direct executor_call
  | Mutation string string "bridge_error + executor_call"

definition idempotency_key :: "jobj \<Rightarrow> bridge_error + string" where
  "idempotency_key params =
     (case oget params ''idempotencyKey'' of
        Some (JStr k) \<Rightarrow>
          if length k < 1 \<or> length k > 256 \<or> NUL \<in> set k
          then throw PROTOCOL_MISMATCH ''params.idempotencyKey must contain 1 to 256 NUL-free characters''
          else Inr k
      | _ \<Rightarrow> throw PROTOCOL_MISMATCH ''params.idempotencyKey must contain 1 to 256 NUL-free characters'')"

definition mutation_fingerprint ::
  "(json \<Rightarrow> string) \<Rightarrow> (string \<Rightarrow> string \<Rightarrow> bool) \<Rightarrow> controller_request \<Rightarrow> string" where
  "mutation_fingerprint digest le rq =
     digest (canonical_value le (JObj
       [(''operation'', JStr (operation_name (cq_operation rq))),
        (''params'', JObj (jm_del (cq_params rq) ''idempotencyKey'')),
        (''policy'', JObj [(''commandTimeoutMs'', JInt (cp_timeout (cq_policy rq))),
           (''maxOutputBytes'', JInt (cp_max_output (cq_policy rq)))])]))"

text \<open>\<open>#runMutation\<close> up to \<open>ledger.start\<close>.\<close>

definition run_mutation ::
  "(json \<Rightarrow> string) \<Rightarrow> (string \<Rightarrow> string \<Rightarrow> bool) \<Rightarrow> string \<Rightarrow> controller_request \<Rightarrow>
   bridge_error + executor_call \<Rightarrow> bridge_error + dispatched" where
  "run_mutation digest le rid rq call =
     bind_res (idempotency_key (cq_params rq)) (\<lambda>k.
       Inr (Mutation (rid @ [NUL] @ k) (mutation_fingerprint digest le rq) call))"

definition dispatch_operation ::
  "(json \<Rightarrow> string) \<Rightarrow> (string \<Rightarrow> string \<Rightarrow> bool) \<Rightarrow> string \<Rightarrow> controller_request \<Rightarrow> bridge_error + dispatched" where
  "dispatch_operation digest le rid rq =
     (let params = cq_params rq; path = required_string params ''path'';
          mutate = run_mutation digest le rid rq in
      case cq_operation rq of
        LocalApplyPatch \<Rightarrow>
          (case as_array (oget params ''replacements'') of
             None \<Rightarrow> throw PROTOCOL_MISMATCH ''params.replacements must be text replacement objects''
           | Some xs \<Rightarrow>
               (case all_some (map replacement_of xs) of
                  None \<Rightarrow> throw PROTOCOL_MISMATCH ''params.replacements must be text replacement objects''
                | Some reps \<Rightarrow> mutate
                    (bind_res path (\<lambda>p. bind_res (mutation_options params) (\<lambda>h. Inr (ExPatch p reps h))))))
      | LocalCanonicalPath \<Rightarrow> bind_res path (\<lambda>p. Inr (Direct (ExCanonicalPath p)))
      | LocalCreateDirectory \<Rightarrow> mutate
          (bind_res path (\<lambda>p. bind_res (optional_string params ''idempotencyKey'') (\<lambda>_. Inr (ExMkdir p))))
      | LocalDeletePath \<Rightarrow> mutate
          (bind_res path (\<lambda>p. bind_res (mutation_options params) (\<lambda>h. Inr (ExDelete p h))))
      | LocalReadFile \<Rightarrow>
          bind_res path (\<lambda>p. bind_res (number_value params ''limitBytes'' (cp_max_output (cq_policy rq) div 2))
            (\<lambda>n. Inr (Direct (ExReadFile p n))))
      | LocalRenamePath \<Rightarrow> mutate
          (bind_res path (\<lambda>p. bind_res (required_string params ''destinationPath'') (\<lambda>d.
           bind_res (mutation_options params) (\<lambda>h. Inr (ExRename p d h)))))
      | LocalListDirectory \<Rightarrow> bind_res path (\<lambda>p. Inr (Direct (ExListDirectory p)))
      | LocalListTree \<Rightarrow>
          bind_res path (\<lambda>p. bind_res (number_value params ''depth'' 2) (\<lambda>d.
          bind_res (number_value params ''maxEntries'' 400) (\<lambda>n. Inr (Direct (ExListTree p d n)))))
      | LocalSearch \<Rightarrow>
          bind_res (search_paths params) (\<lambda>ps. bind_res (required_string params ''query'') (\<lambda>q.
          bind_res (number_value params ''maxResults'' 200) (\<lambda>n. Inr (Direct (ExSearch q ps n)))))
      | LocalGitStatus \<Rightarrow> Inr (Direct ExGitStatus)
      | LocalWriteFile \<Rightarrow> mutate
          (bind_res path (\<lambda>p. bind_res (required_string params ''contentBase64'') (\<lambda>c.
           bind_res (mutation_options params) (\<lambda>h. Inr (ExWrite p c h))))))"

definition nonempty_string :: "jobj \<Rightarrow> string \<Rightarrow> bridge_error + string" where
  "nonempty_string params k =
     (case oget params k of
        Some (JStr s) \<Rightarrow>
          if s = [] then throw PROTOCOL_MISMATCH (''params.'' @ k @ '' must be a non-empty string'') else Inr s
      | _ \<Rightarrow> throw PROTOCOL_MISMATCH (''params.'' @ k @ '' must be a non-empty string''))"

definition dispatch ::
  "(json \<Rightarrow> string) \<Rightarrow> (string \<Rightarrow> string \<Rightarrow> bool) \<Rightarrow> dispatch_config option \<Rightarrow> root_resolver \<Rightarrow>
   controller_request \<Rightarrow> bridge_error + dispatched" where
  "dispatch digest le config lookup rq =
     (case config of
        None \<Rightarrow> throw REMOTE_TRANSPORT_DISCONNECTED ''Controller workspace request has no active VS Code Remote session''
      | Some cfg \<Rightarrow>
          if \<not> dc_vscode_remote cfg
          then throw REMOTE_TRANSPORT_DISCONNECTED ''Controller workspace request has no active VS Code Remote session''
          else
            bind_res (nonempty_string (cq_params rq) ''rootId'') (\<lambda>rid.
            bind_res (nonempty_string (cq_params rq) ''threadId'') (\<lambda>tid.
              if authorized_local_root cfg lookup tid rid = None \<and> authorized_conversation lookup tid rid = None
              then throw_with COMMAND_DENIED ''The local workspace root is not authorized''
                [(''rootId'', JStr rid), (''threadId'', JStr tid)]
              else if authorized_conversation lookup tid rid \<noteq> None \<and> read_only_refuses (cq_operation rq)
              then throw_with COMMAND_DENIED ''Dropped conversation resources are read-only''
                [(''rootId'', JStr rid), (''threadId'', JStr tid)]
              else dispatch_operation digest le rid rq)))"

text \<open>The executor of the request, and its answer; a listing or a search is given back as it is.\<close>

definition request_executor :: "string \<Rightarrow> string \<Rightarrow> controller_policy \<Rightarrow> executor" where
  "request_executor cwd rid policy = new_executor cwd rid
     \<lparr>eo_max_directory_entries = None, eo_max_file_bytes = None, eo_max_output_bytes = cp_max_output policy,
      eo_max_search_bytes = None, eo_max_search_entries = None\<rparr>"

datatype call_result =
    CrMutation mutation_result | CrRead file_read | CrPath string
  | CrEntries "(string \<times> file_kind) list" | CrTree tree_listing | CrMatches "search_match list"
  | CrCommand command_result

record library =
  li_sha :: "byte list \<Rightarrow> string"
  li_le :: "string \<Rightarrow> string \<Rightarrow> bool"
  li_text :: "byte list \<Rightarrow> string"
  li_git :: "string \<Rightarrow> string list \<Rightarrow> exec_outcome"
  li_uuid :: string

definition map_io :: "('a \<Rightarrow> 'b) \<Rightarrow> 'a io \<Rightarrow> 'b io" where
  "map_io f m = bind_io m (\<lambda>x. ret (f x))"

fun call_executor :: "library \<Rightarrow> executor \<Rightarrow> executor_call \<Rightarrow> call_result io" where
  "call_executor li ex (ExCanonicalPath p) = map_io CrPath (canonical_path_of ex p)"
| "call_executor li ex (ExReadFile p n) = map_io CrRead (read_file (li_sha li) ex p n)"
| "call_executor li ex (ExListDirectory p) = map_io CrEntries (list_directory (li_le li) ex p)"
| "call_executor li ex (ExListTree p d n) = map_io CrTree (list_tree (li_le li) ex p d n)"
| "call_executor li ex (ExSearch q ps n) = map_io CrMatches (search (li_le li) (li_text li) ex q ps n)"
| "call_executor li ex ExGitStatus = map_io CrCommand (git_status (li_git li) ex)"
| "call_executor li ex (ExPatch p reps h) = map_io CrMutation (apply_patch (li_sha li) (li_uuid li) ex p reps h)"
| "call_executor li ex (ExMkdir p) = map_io CrMutation (create_directory ex p)"
| "call_executor li ex (ExDelete p h) = map_io CrMutation (delete_path (li_sha li) ex p h)"
| "call_executor li ex (ExRename p d h) = map_io CrMutation (rename_path (li_sha li) ex p d h)"
| "call_executor li ex (ExWrite p c h) = map_io CrMutation (write_file (li_sha li) (li_uuid li) ex p c h)"


section \<open>Properties\<close>

lemma run_mutation_Inr:
  "run_mutation digest le rid rq call = Inr d \<longleftrightarrow>
     (\<exists>k. idempotency_key (cq_params rq) = Inr k \<and>
        d = Mutation (rid @ [NUL] @ k) (mutation_fingerprint digest le rq) call)"
  by (auto simp: run_mutation_def)

text \<open>An operation that only reads is direct, one that changes files is a mutation.\<close>

lemma dispatch_operation_cases:
  assumes "dispatch_operation digest le rid rq = Inr d"
  shows "(\<exists>call. d = Direct call \<and> \<not> changes_files call \<and>
      (read_only_refuses (cq_operation rq) \<longrightarrow> call = ExGitStatus)) \<or>
    (\<exists>k call. idempotency_key (cq_params rq) = Inr k \<and>
      d = Mutation (rid @ [NUL] @ k) (mutation_fingerprint digest le rq) call \<and>
      read_only_refuses (cq_operation rq) \<and> (\<forall>c. call = Inr c \<longrightarrow> changes_files c))"
  using assms
  by (cases "cq_operation rq")
    (auto simp: dispatch_operation_def run_mutation_Inr Let_def split: option.splits)

lemma dispatch_Inr:
  assumes "dispatch digest le config lookup rq = Inr d"
  obtains cfg rid tid where "config = Some cfg" "dc_vscode_remote cfg"
    "oget (cq_params rq) ''rootId'' = Some (JStr rid)" "oget (cq_params rq) ''threadId'' = Some (JStr tid)"
    "dispatch_operation digest le rid rq = Inr d"
    "authorized_local_root cfg lookup tid rid \<noteq> None \<or> authorized_conversation lookup tid rid \<noteq> None"
    "authorized_conversation lookup tid rid \<noteq> None \<longrightarrow> \<not> read_only_refuses (cq_operation rq)"
proof -
  obtain cfg rid tid where "config = Some cfg" "dc_vscode_remote cfg"
    "nonempty_string (cq_params rq) ''rootId'' = Inr rid" "nonempty_string (cq_params rq) ''threadId'' = Inr tid"
    "dispatch_operation digest le rid rq = Inr d"
    "authorized_local_root cfg lookup tid rid \<noteq> None \<or> authorized_conversation lookup tid rid \<noteq> None"
    "authorized_conversation lookup tid rid \<noteq> None \<longrightarrow> \<not> read_only_refuses (cq_operation rq)"
    using assms by (auto simp: dispatch_def split: option.splits if_splits)
  then show ?thesis
    by (intro that) (auto simp: nonempty_string_def split: option.splits json.splits if_splits)
qed

text \<open>A session with the local root \<open>/w\<close>, and a request to make a directory there.\<close>

definition demo_root :: scope where
  "demo_root = \<lparr>sc_id = ''r'', sc_local = True, sc_role = SecondaryRole, sc_directory = True,
     sc_path = ''/w'', sc_thread = []\<rparr>"

definition demo_config :: dispatch_config where
  "demo_config = \<lparr>dc_vscode_remote = True, dc_roots = [demo_root]\<rparr>"

definition demo_lookup :: root_resolver where
  "demo_lookup tid rid = (if tid = ''t'' \<and> rid = ''r'' then Some demo_root else None)"

definition demo_request :: controller_request where
  "demo_request = \<lparr>cq_id = ''q'', cq_operation = LocalCreateDirectory,
     cq_policy = \<lparr>cp_timeout = 1000, cp_max_output = 100\<rparr>,
     cq_params = [(''rootId'', JStr ''r''), (''threadId'', JStr ''t''), (''path'', JStr ''d''),
       (''idempotencyKey'', JStr ''k'')]\<rparr>"

lemma demo_dispatch:
  "dispatch (\<lambda>_. ''h'') (\<lambda>_ _. True) (Some demo_config) demo_lookup (demo_request\<lparr>cq_id := i\<rparr>) =
     Inr (Mutation (''r'' @ [NUL] @ ''k'') ''h'' (Inr (ExMkdir ''d'')))"
  by (simp add: dispatch_def demo_config_def demo_request_def demo_lookup_def demo_root_def nonempty_string_def
      authorized_local_root_def authorized_conversation_def configured_local_root_def
      dispatch_operation_def run_mutation_def idempotency_key_def mutation_fingerprint_def
      required_string_def optional_string_def oget_def jm_get_def Let_def)

lemma demo_request_id: "demo_request\<lparr>cq_id := ''q''\<rparr> = demo_request"
  by (simp add: demo_request_def)

text \<open>C22. What reaches the executor was authorised. A request is dispatched only in an active
  session, for a root that the user authorised for the request's thread: either a local root
  that the configuration still lists under the same identifier with the same path, or a
  resource shared with this very conversation, and then nothing that changes files and no
  \<open>git\<close> is dispatched. Requests that change files never bypass the ledger.
\<close>

theorem dispatch_is_authorised:
  assumes "dispatch digest le config lookup rq = Inr d"
  shows "\<exists>cfg rid tid r. config = Some cfg \<and> dc_vscode_remote cfg \<and>
    oget (cq_params rq) ''rootId'' = Some (JStr rid) \<and> oget (cq_params rq) ''threadId'' = Some (JStr tid) \<and>
    lookup tid rid = Some r \<and> sc_local r \<and>
    (sc_role r = SecondaryRole \<and>
       (\<exists>c\<in>set (dc_roots cfg). sc_id c = rid \<and> sc_local c \<and> sc_role c = SecondaryRole \<and> sc_path c = sc_path r) \<or>
     sc_role r = ConversationRole \<and> sc_thread r = tid \<and> \<not> read_only_refuses (cq_operation rq)) \<and>
    (case d of Direct call \<Rightarrow> \<not> changes_files call | Mutation k fp call \<Rightarrow> read_only_refuses (cq_operation rq))"
proof -
  from assms obtain cfg rid tid where cfg: "config = Some cfg" "dc_vscode_remote cfg"
    "oget (cq_params rq) ''rootId'' = Some (JStr rid)" "oget (cq_params rq) ''threadId'' = Some (JStr tid)"
    and op: "dispatch_operation digest le rid rq = Inr d"
    and auth: "authorized_local_root cfg lookup tid rid \<noteq> None \<or> authorized_conversation lookup tid rid \<noteq> None"
    and ro: "authorized_conversation lookup tid rid \<noteq> None \<longrightarrow> \<not> read_only_refuses (cq_operation rq)"
    by (rule dispatch_Inr)
  have kind: "case d of Direct call \<Rightarrow> \<not> changes_files call | Mutation k fp call \<Rightarrow> read_only_refuses (cq_operation rq)"
    using dispatch_operation_cases [OF op] by auto
  from auth show ?thesis
  proof
    assume "authorized_local_root cfg lookup tid rid \<noteq> None"
    then obtain r c where "lookup tid rid = Some r" "sc_local r" "sc_role r = SecondaryRole"
      "configured_local_root cfg rid = Some c" "sc_path c = sc_path r"
      by (auto simp: authorized_local_root_def split: option.splits if_splits)
    moreover from this(4) have "c \<in> set (dc_roots cfg) \<and> sc_id c = rid \<and> sc_local c \<and> sc_role c = SecondaryRole"
      by (auto simp: configured_local_root_def find_Some_iff)
    ultimately show ?thesis using cfg kind by blast
  next
    assume conv: "authorized_conversation lookup tid rid \<noteq> None"
    then obtain r where "lookup tid rid = Some r" "sc_local r" "sc_role r = ConversationRole" "sc_thread r = tid"
      by (auto simp: authorized_conversation_def split: option.splits if_splits)
    with cfg kind ro conv show ?thesis by blast
  qed
qed

theorem dispatch_is_authorised_witness:
  "\<exists>r. demo_lookup ''t'' ''r'' = Some r \<and> sc_local r \<and> sc_role r = SecondaryRole"
  using dispatch_is_authorised [OF demo_dispatch [of "''q''"]]
  by (auto simp: demo_request_def demo_lookup_def demo_root_def oget_def jm_get_def)

text \<open>The key and the fingerprint of a change come from the request alone.\<close>

lemma dispatched_mutation:
  assumes "dispatch digest le config lookup rq = Inr (Mutation k fp call)"
  shows "\<exists>rid k0. oget (cq_params rq) ''rootId'' = Some (JStr rid) \<and>
    idempotency_key (cq_params rq) = Inr k0 \<and> k = rid @ [NUL] @ k0 \<and> fp = mutation_fingerprint digest le rq"
proof -
  from assms obtain cfg rid tid where rid: "oget (cq_params rq) ''rootId'' = Some (JStr rid)"
    and op: "dispatch_operation digest le rid rq = Inr (Mutation k fp call)"
    by (rule dispatch_Inr)
  from dispatch_operation_cases [OF op] rid show ?thesis by auto
qed

text \<open>C23. A change is not made twice. When the ledger executed a dispatched change, no repetition
  of the request, under whatever message id, is executed again within the retention window,
  whatever else the ledger is asked in between.
\<close>

theorem repeated_change_runs_once:
  assumes inv: "ledger_inv l" and first: "dispatch digest le config lookup rq = Inr (Mutation k fp call)"
    and exec: "start_op t0 k (cq_id rq) fp l = (l1, Inr (Executed, p))"
    and evs: "\<forall>ev\<in>set evs. event_within t0 (t0 + lg_retention l) ev"
    and now: "t0 \<le> now" "now < t0 + lg_retention l"
    and again: "dispatch digest le config' lookup' (rq\<lparr>cq_id := id'\<rparr>) = Inr (Mutation k' fp' call')"
  shows "snd (start_op now k' id' fp' (run (ledger_step sz) l1 evs)) \<noteq> Inr (Executed, p')"
proof -
  from dispatched_mutation [OF first] obtain rid k0 where one: "oget (cq_params rq) ''rootId'' = Some (JStr rid)"
    "idempotency_key (cq_params rq) = Inr k0" "k = rid @ [NUL] @ k0" "fp = mutation_fingerprint digest le rq"
    by blast
  from dispatched_mutation [OF again] obtain rid' k1 where two: "oget (cq_params rq) ''rootId'' = Some (JStr rid')"
    "idempotency_key (cq_params rq) = Inr k1" "k' = rid' @ [NUL] @ k1"
    "fp' = mutation_fingerprint digest le (rq\<lparr>cq_id := id'\<rparr>)"
    by auto
  from one two have same: "k' = k" "fp' = fp" by (simp_all add: mutation_fingerprint_def)
  obtain l2 res where res: "start_op now k id' fp (run (ledger_step sz) l1 evs) = (l2, res)"
    by (cases "start_op now k id' fp (run (ledger_step sz) l1 evs)")
  from executed_once [OF inv exec evs now res] res same show ?thesis by simp
qed

theorem repeated_change_runs_once_witness:
  "\<exists>l1 p. start_op 0 (''r'' @ [NUL] @ ''k'') ''q'' ''h'' small_ledger = (l1, Inr (Executed, p)) \<and>
     (\<forall>p'. snd (start_op 10 (''r'' @ [NUL] @ ''k'') ''q2'' ''h''
        (run (ledger_step (\<lambda>_. Some 8)) l1 [Settles 5 0 (Inr 7)])) \<noteq> Inr (Executed, p'))"
proof -
  obtain l1 p where start: "start_op 0 (''r'' @ [NUL] @ ''k'') (cq_id demo_request) ''h'' small_ledger = (l1, Inr (Executed, p))"
    by (simp add: ledger_eval demo_request_def)
  have ret: "lg_retention small_ledger = 1000" by (simp add: small_ledger_def)
  have "snd (start_op 10 (''r'' @ [NUL] @ ''k'') ''q2'' ''h''
      (run (ledger_step (\<lambda>_. Some 8)) l1 [Settles 5 0 (Inr 7)])) \<noteq> Inr (Executed, p')" for p'
    by (rule repeated_change_runs_once
        [OF small_ledger_inv demo_dispatch [of "''q''", unfolded demo_request_id] start _ _ _ demo_dispatch])
      (simp_all add: ret)
  with start show ?thesis by (auto simp: demo_request_def)
qed

text \<open>What the call of a request may do to the file system.\<close>

lemma quiet_call: "\<not> changes_files call \<Longrightarrow> quiet (call_executor li ex call)"
  by (cases call) (simp_all add: map_io_def quiet_rules)

lemma spec_call:
  assumes rs: "\<forall>s\<in>set rs. clean_seg s" and uuid: "SLASH \<notin> set (li_uuid li)" and call: "changes_files call"
  shows "spec (world_inv (change_below rs) (ex_root_id ex) rs) (call_executor li ex call) (\<lambda>_. True)"
proof -
  note parts = spec_patch [OF rs uuid] spec_mkdir [OF rs] spec_delete [OF rs] spec_rename [OF rs]
    spec_write [OF rs uuid]
  show ?thesis using call by (cases call) (auto simp: map_io_def intro!: parts [THEN spec_bind] spec_ret)
qed

text \<open>Whatever is authorised or revoked meanwhile, the executor asks the resolver of the request, and
  the identifier of a local root is never given to a shared resource.\<close>

definition asks_resolver :: "dispatch_config \<Rightarrow> string \<Rightarrow> string \<Rightarrow> host \<Rightarrow> bool" where
  "asks_resolver cfg tid rid h \<longleftrightarrow>
     (\<exists>lookup. h_scope h = scope_resolver cfg lookup tid \<and>
        (\<forall>r. lookup tid rid = Some r \<longrightarrow> sc_role r \<noteq> ConversationRole))"

lemma resolver_scope:
  assumes "asks_resolver cfg tid rid h" "configured_local_root cfg rid = Some c"
  shows "scope_at rid (sc_path c) h"
  using assms by (auto simp: asks_resolver_def scope_at_def scope_resolver_def split: option.splits if_splits)


definition demo_library :: library where
  "demo_library = \<lparr>li_sha = constant_hash, li_le = (\<lambda>_ _. True), li_text = map (char_of \<circ> unat),
     li_git = (\<lambda>_ _. \<lparr>eo_error = None, eo_stdout = [], eo_stderr = [], eo_duration = 0\<rparr>), li_uuid = ''u''\<rparr>"

lemma demo_resolver: "asks_resolver demo_config ''t'' ''r'' (demo_host\<lparr>h_scope := scope_resolver demo_config demo_lookup ''t''\<rparr>)"
  by (auto simp: asks_resolver_def demo_lookup_def demo_root_def intro!: exI [of _ demo_lookup])


end
