(* ===== verification/LocalCorePolicy.thy ===== *)
theory LocalCorePolicy
  imports Memento
begin

text \<open>
  \<^verbatim>\<open>src/shim/local-core-policy.ts\<close>: which requests of the official client touch the local
  machine, which of them are the exception for the attachments the client manages itself, and
  the permission profile the app server is started with. The client method and approval sets
  are the ones of the source; the attachment root is an argument, as are the working directory
  and the environment behind its default.
\<close>

definition remote_permission_profile_id :: string where
  "remote_permission_profile_id = ''codex-remote-bridge''"

definition blocked_local_client_methods :: "string list" where
  "blocked_local_client_methods =
     [''thread/shellCommand'', ''thread/backgroundTerminals/clean'', ''thread/backgroundTerminals/list'',
      ''thread/backgroundTerminals/terminate'', ''fs/readFile'', ''fs/writeFile'', ''fs/createDirectory'',
      ''fs/getMetadata'', ''fs/readDirectory'', ''fs/remove'', ''fs/copy'', ''fs/watch'', ''fs/unwatch'',
      ''command/exec'', ''command/exec/write'', ''command/exec/terminate'', ''command/exec/resize'',
      ''process/spawn'', ''process/writeStdin'', ''process/kill'', ''process/resizePty'',
      ''fuzzyFileSearch'', ''fuzzyFileSearch/sessionStart'', ''fuzzyFileSearch/sessionUpdate'',
      ''fuzzyFileSearch/sessionStop'']"

definition blocked_local_server_approval_methods :: "string list" where
  "blocked_local_server_approval_methods =
     [''item/commandExecution/requestApproval'', ''item/fileChange/requestApproval'',
      ''item/permissions/requestApproval'', ''applyPatchApproval'', ''execCommandApproval'']"

definition is_blocked_local_client_method :: "string \<Rightarrow> bool" where
  "is_blocked_local_client_method method \<longleftrightarrow> method \<in> set blocked_local_client_methods"

definition is_local_client_risk_namespace :: "string \<Rightarrow> bool" where
  "is_local_client_risk_namespace method \<longleftrightarrow>
     method = ''thread/shellCommand'' \<or> starts_with method ''thread/backgroundTerminals/'' \<or>
     starts_with method ''fs/'' \<or> starts_with method ''command/exec'' \<or>
     starts_with method ''process/'' \<or> starts_with method ''fuzzyFileSearch''"

definition is_blocked_local_client_message :: "jobj \<Rightarrow> bool" where
  "is_blocked_local_client_message m \<longleftrightarrow>
     (case sprop m ''method'' of None \<Rightarrow> False | Some method \<Rightarrow> is_local_client_risk_namespace method)"

definition is_blocked_local_server_approval :: "jobj \<Rightarrow> bool" where
  "is_blocked_local_server_approval m \<longleftrightarrow>
     (case sprop m ''method'' of None \<Rightarrow> False
      | Some method \<Rightarrow> method \<in> set blocked_local_server_approval_methods)"

section \<open>Managed attachments\<close>

definition hex_digit :: "char \<Rightarrow> bool" where
  "hex_digit c \<longleftrightarrow> c \<in> set ''0123456789abcdefABCDEF''"

text \<open>\<open>MANAGED_ATTACHMENT_DIRECTORY\<close>, one class per character: a version 4 UUID in any case.\<close>

definition managed_attachment_directory :: "(char \<Rightarrow> bool) list" where
  "managed_attachment_directory =
     replicate 8 hex_digit @ [(=) CHR ''-''] @ replicate 4 hex_digit @ [(=) CHR ''-''] @
     [(=) CHR ''4''] @ replicate 3 hex_digit @ [(=) CHR ''-''] @
     [(\<lambda>c. c \<in> set ''89abAB'')] @ replicate 3 hex_digit @ [(=) CHR ''-''] @ replicate 12 hex_digit"

definition matches_classes :: "(char \<Rightarrow> bool) list \<Rightarrow> string \<Rightarrow> bool" where
  "matches_classes cls s \<longleftrightarrow> length s = length cls \<and> list_all (\<lambda>(f, c). f c) (zip cls s)"

definition pasted_text_file :: string where
  "pasted_text_file = ''pasted-text.txt''"

definition pasted_text_registry :: string where
  "pasted_text_registry = ''pasted-text-attachments.json''"

text \<open>\<open>Math.ceil((10 * 1024 * 1024 * 4) / 3) + 4\<close>.\<close>

definition max_managed_attachment_base64_length :: int where
  "max_managed_attachment_base64_length = (10 * 1024 * 1024 * 4 + 2) div 3 + 4"

datatype attachment_kind = AttachmentDirectory | PastedText | Registry

definition local_codex_attachment_root :: "string \<Rightarrow> string \<Rightarrow> string option \<Rightarrow> string" where
  "local_codex_attachment_root cwd home codex_home_variable =
     (let codex_home = (case map_option trim codex_home_variable of
          Some h \<Rightarrow> if h \<noteq> [] then resolve cwd [h] else path_of_join [home, ''.codex'']
        | None \<Rightarrow> path_of_join [home, ''.codex''])
      in resolve cwd [codex_home, ''attachments''])"

definition managed_attachment_path_kind :: "string \<Rightarrow> json option \<Rightarrow> string \<Rightarrow> attachment_kind option" where
  "managed_attachment_path_kind cwd raw attachment_root =
     (case as_string raw of
        None \<Rightarrow> None
      | Some p \<Rightarrow>
          if NUL \<in> set p \<or> \<not> is_absolute p then None
          else
            let root = resolve cwd [attachment_root]; candidate = resolve cwd [p];
                child = relative cwd root candidate in
            if child = [] \<or> child = ''..'' \<or> starts_with child ''../'' \<or> is_absolute child then None
            else
              (case split_on SLASH child of
                 [s] \<Rightarrow>
                   if s = pasted_text_registry then Some Registry
                   else if matches_classes managed_attachment_directory s then Some AttachmentDirectory
                   else None
               | [s, t] \<Rightarrow>
                   if matches_classes managed_attachment_directory s \<and> t = pasted_text_file
                   then Some PastedText else None
               | _ \<Rightarrow> None))"

definition json_true :: "json option \<Rightarrow> bool" where
  "json_true v \<longleftrightarrow> v = Some (JBool True)"

definition allowed_local_attachment_request :: "string \<Rightarrow> string \<Rightarrow> jobj \<Rightarrow> attachment_kind option" where
  "allowed_local_attachment_request cwd root m =
     (if oget m ''method'' = None \<or> oget m ''id'' = None then None
      else case rprop m ''params'' of
        None \<Rightarrow> None
      | Some params \<Rightarrow>
          let kind = managed_attachment_path_kind cwd (oget params ''path'') root;
              text = (kind = Some Registry \<or> kind = Some PastedText) in
          (case sprop m ''method'' of
             None \<Rightarrow> None
           | Some method \<Rightarrow>
               if method = ''fs/readFile'' then (if text then kind else None)
               else if method = ''fs/createDirectory'' then
                 (if kind = Some AttachmentDirectory \<and> json_true (oget params ''recursive'') then kind else None)
               else if method = ''fs/writeFile'' then
                 (case sprop params ''dataBase64'' of
                    None \<Rightarrow> None
                  | Some d \<Rightarrow> if text \<and> int (length d) \<le> max_managed_attachment_base64_length then kind else None)
               else if method = ''fs/remove'' then
                 (if kind = Some PastedText \<and> json_true (oget params ''force'') \<and>
                     \<not> json_true (oget params ''recursive'') then kind else None)
               else None))"

section \<open>The policy of the app server\<close>

definition remote_permission_overrides :: "string list" where
  "remote_permission_overrides =
     (let profile = ''permissions.'' @ remote_permission_profile_id in
      [''default_permissions=\"'' @ remote_permission_profile_id @ ''\"'',
       profile @ ''.description=\"Codex Remote Bridge local-deny policy\"'',
       profile @ ''.filesystem={\":root\"=\"deny\",\":minimal\"=\"read\"}'',
       profile @ ''.network.enabled=false''])"

definition with_remote_core_policy :: "string list \<Rightarrow> string + string list" where
  "with_remote_core_policy args =
     (if ''app-server'' \<notin> set args then Inl ''Remote Core policy requires an app-server invocation''
      else
        let overrides = concat (map (\<lambda>v. [''-c'', v]) remote_permission_overrides) in
        Inr (takeWhile (\<lambda>a. a \<noteq> ''app-server'') args @ overrides @ dropWhile (\<lambda>a. a \<noteq> ''app-server'') args))"

section \<open>Properties\<close>

lemma blocked_in_risk_namespace:
  "is_blocked_local_client_method method \<Longrightarrow> is_local_client_risk_namespace method"
proof -
  have "list_all is_local_client_risk_namespace blocked_local_client_methods" by code_simp
  then show "is_blocked_local_client_method method \<Longrightarrow> is_local_client_risk_namespace method"
    by (auto simp: list_all_iff is_blocked_local_client_method_def)
qed

lemma relative_self [simp]: "relative cwd p p = []"
  by (simp add: relative_def)

text \<open>A path that passes the containment checks is the root with the segments of the child.\<close>

lemma managed_child:
  assumes rs: "\<forall>s\<in>set rs. clean_seg s" and p: "is_absolute p"
    and child: "relative cwd (resolve cwd [abs_path rs]) (resolve cwd [p]) = child"
    and inside: "child \<noteq> []" "child \<noteq> ''..''" "\<not> starts_with child ''../''" "\<not> is_absolute child"
  shows "\<exists>rest. rest \<noteq> [] \<and> (\<forall>s\<in>set rest. clean_seg s) \<and> resolve cwd [p] = abs_path (rs @ rest) \<and>
    split_on SLASH child = rest"
proof -
  define cs where "cs = segs False p"
  have cs: "\<forall>s\<in>set cs. clean_seg s" and p': "resolve cwd [p] = abs_path cs"
    using p by (auto simp: cs_def segs_clean resolve_abs)
  have root: "resolve cwd [abs_path rs] = abs_path rs" using rs by (simp add: resolve_abs)
  have "is_within_root cwd (abs_path rs) (abs_path cs)"
    using child inside by (simp add: is_within_root_def root p' Let_def)
  then obtain rest where rest: "cs = rs @ rest" using is_within_root_clean [OF rs cs] by blast
  have clean: "\<forall>s\<in>set rest. clean_seg s" using cs rest by simp
  have "relative cwd (abs_path rs) (abs_path cs) = path_join rest"
    using rs clean cs by (intro relative_below) (simp_all add: rest)
  with child root p' have join: "child = path_join rest" by simp
  with inside(1) have "rest \<noteq> []" by (auto simp: path_join_def)
  with clean join p' rest show ?thesis by (auto simp: split_path_join)
qed

text \<open>The exception for attachments is exact. A file request of the client is let through to
  the local machine only when its path, however it is written, denotes a version 4 UUID
  directory of the attachment root, the pasted text in one, or the registry file of the root;
  directories can only be created, the registry only read and written, and writes are bounded.
\<close>

theorem attachment_exception_exact:
  assumes rs: "\<forall>s\<in>set rs. clean_seg s"
    and allowed: "allowed_local_attachment_request cwd (abs_path rs) m = Some kind"
  shows "\<exists>params p. rprop m ''params'' = Some params \<and> sprop params ''path'' = Some p \<and>
    (case kind of
       Registry \<Rightarrow> resolve cwd [p] = abs_path (rs @ [pasted_text_registry]) \<and>
         sprop m ''method'' \<in> {Some ''fs/readFile'', Some ''fs/writeFile''}
     | AttachmentDirectory \<Rightarrow>
         (\<exists>u. matches_classes managed_attachment_directory u \<and> resolve cwd [p] = abs_path (rs @ [u])) \<and>
         sprop m ''method'' = Some ''fs/createDirectory''
     | PastedText \<Rightarrow>
         (\<exists>u. matches_classes managed_attachment_directory u \<and>
            resolve cwd [p] = abs_path (rs @ [u, pasted_text_file])) \<and>
         sprop m ''method'' \<in> {Some ''fs/readFile'', Some ''fs/writeFile'', Some ''fs/remove''})"
proof -
  obtain params where params: "rprop m ''params'' = Some params"
    and kind: "managed_attachment_path_kind cwd (oget params ''path'') (abs_path rs) = Some kind"
    using allowed
    by (auto simp: allowed_local_attachment_request_def Let_def split: option.splits if_splits)
  obtain p where p: "sprop params ''path'' = Some p" "is_absolute p" and
    inside: "relative cwd (resolve cwd [abs_path rs]) (resolve cwd [p]) \<noteq> []"
      "relative cwd (resolve cwd [abs_path rs]) (resolve cwd [p]) \<noteq> ''..''"
      "\<not> starts_with (relative cwd (resolve cwd [abs_path rs]) (resolve cwd [p])) ''../''"
      "\<not> is_absolute (relative cwd (resolve cwd [abs_path rs]) (resolve cwd [p]))"
    using kind by (auto simp: managed_attachment_path_kind_def Let_def split: option.splits if_splits)
  obtain rest where rest: "resolve cwd [p] = abs_path (rs @ rest)"
    "split_on SLASH (relative cwd (resolve cwd [abs_path rs]) (resolve cwd [p])) = rest"
    using managed_child [OF rs p(2) refl inside] by blast
  have shape: "case kind of Registry \<Rightarrow> rest = [pasted_text_registry]
     | AttachmentDirectory \<Rightarrow> \<exists>u. matches_classes managed_attachment_directory u \<and> rest = [u]
     | PastedText \<Rightarrow> \<exists>u. matches_classes managed_attachment_directory u \<and> rest = [u, pasted_text_file]"
    using kind p(1) rest(2)
    by (auto simp: managed_attachment_path_kind_def Let_def split: if_splits list.splits)
  have meth: "case kind of Registry \<Rightarrow> sprop m ''method'' \<in> {Some ''fs/readFile'', Some ''fs/writeFile''}
     | AttachmentDirectory \<Rightarrow> sprop m ''method'' = Some ''fs/createDirectory''
     | PastedText \<Rightarrow> sprop m ''method'' \<in> {Some ''fs/readFile'', Some ''fs/writeFile'', Some ''fs/remove''}"
    using allowed kind params
    by (cases kind) (auto simp: allowed_local_attachment_request_def Let_def split: option.splits if_splits)
  show ?thesis using params p(1) rest(1) shape meth by (cases kind) auto
qed

text \<open>A request for the registry of \<open>/a\<close>, written with a detour.\<close>

definition registry_request :: jobj where
  "registry_request = [(''id'', JInt 1), (''method'', JStr ''fs/readFile''),
     (''params'', JObj [(''path'', JStr ''/a/b/../pasted-text-attachments.json'')])]"

lemma registry_request_allowed:
  "allowed_local_attachment_request ''/'' (abs_path [''a'']) registry_request = Some Registry"
  by code_simp

theorem attachment_exception_exact_witness:
  "\<exists>params p. rprop registry_request ''params'' = Some params \<and> sprop params ''path'' = Some p \<and>
     resolve ''/'' [p] = abs_path ([''a''] @ [pasted_text_registry])"
  using attachment_exception_exact [OF _ registry_request_allowed] by (auto simp: clean_seg_def)

end
