(* ===== verification/ApprovalPolicy.thy ===== *)
theory ApprovalPolicy
  imports LocalCorePolicy
begin

text \<open>
  \<^verbatim>\<open>src/shim/remote-approval-policy.ts\<close>: the app server runs under a permission profile of the
  bridge, but the official client is shown the profile and the approval policy the user chose.
  The tracker reads the choice off the messages of the client and rewrites the messages of the
  server. A value of the source is a \<open>json option\<close>, \<open>None\<close> for \<open>undefined\<close>; a projection answers
  \<open>None\<close> where the source gives back the very object it was given.
\<close>

datatype approval_mode = Ask | Never

datatype visible_profile = DangerFullAccess | ReadOnly | WorkspaceProfile

fun profile_id :: "visible_profile \<Rightarrow> string" where
  "profile_id DangerFullAccess = '':danger-full-access''"
| "profile_id ReadOnly = '':read-only''"
| "profile_id WorkspaceProfile = '':workspace''"

record presentation =
  pn_policy :: string
  pn_profile :: visible_profile

definition default_presentation :: presentation where
  "default_presentation = \<lparr>pn_policy = ''on-request'', pn_profile = WorkspaceProfile\<rparr>"

section \<open>Reading the choice of the user\<close>

text \<open>\<open>a ?? b\<close>.\<close>

fun orelse :: "'a option \<Rightarrow> 'a option \<Rightarrow> 'a option" where
  "orelse None b = b"
| "orelse (Some a) b = Some a"

definition profile_from_value :: "json option \<Rightarrow> visible_profile option" where
  "profile_from_value v =
     (case as_string v of
        None \<Rightarrow> None
      | Some s \<Rightarrow>
          if s \<in> {''full-access'', ''danger-full-access'', ''dangerFullAccess'', '':danger-full-access''}
          then Some DangerFullAccess
          else if s \<in> {''read-only'', ''readOnly'', '':read-only''} then Some ReadOnly
          else if s \<in> {''workspace-write'', ''workspaceWrite'', '':workspace''} then Some WorkspaceProfile
          else None)"

text \<open>\<open>o?.key\<close> of a property that may not be a record.\<close>

definition sub :: "jobj \<Rightarrow> string \<Rightarrow> string \<Rightarrow> json option" where
  "sub ob k k' = (case rprop ob k of None \<Rightarrow> None | Some x \<Rightarrow> oget x k')"

definition profile_from_params :: "jobj \<Rightarrow> visible_profile option" where
  "profile_from_params params =
     orelse (profile_from_value (sub params ''sandboxPolicy'' ''type''))
    (orelse (profile_from_value (oget params ''sandbox''))
    (orelse (profile_from_value (oget params ''permissions''))
    (orelse (profile_from_value (sub params ''activePermissionProfile'' ''id''))
      (profile_from_value (sub params ''config'' ''sandbox_mode'')))))"

definition approval_policy_from_params :: "jobj \<Rightarrow> string option" where
  "approval_policy_from_params params =
     (case sprop params ''approvalPolicy'' of
        Some s \<Rightarrow> Some s
      | None \<Rightarrow>
          (case orelse (profile_from_value (oget params ''permissions''))
                  (profile_from_value (sub params ''activePermissionProfile'' ''id'')) of
             Some DangerFullAccess \<Rightarrow> Some ''never''
           | Some _ \<Rightarrow> Some ''on-request''
           | None \<Rightarrow>
               if oget params ''approvalPolicy'' \<noteq> None \<and> oget params ''approvalPolicy'' \<noteq> Some JNull
               then Some ''on-request''
               else if sprop params ''permissions'' \<noteq> None then Some ''on-request''
               else None))"

definition permission_presentation :: "jobj \<Rightarrow> presentation \<Rightarrow> presentation" where
  "permission_presentation params fallback =
     \<lparr>pn_policy = (case approval_policy_from_params params of None \<Rightarrow> pn_policy fallback | Some s \<Rightarrow> s),
      pn_profile = (case profile_from_params params of None \<Rightarrow> pn_profile fallback | Some p \<Rightarrow> p)\<rparr>"

fun sandbox_policy :: "visible_profile \<Rightarrow> json" where
  "sandbox_policy DangerFullAccess = JObj [(''type'', JStr ''dangerFullAccess'')]"
| "sandbox_policy ReadOnly = JObj [(''type'', JStr ''readOnly''), (''networkAccess'', JBool False)]"
| "sandbox_policy WorkspaceProfile = JObj [(''type'', JStr ''workspaceWrite''), (''writableRoots'', JArr []),
     (''networkAccess'', JBool False), (''excludeTmpdirEnvVar'', JBool False), (''excludeSlashTmp'', JBool False)]"

section \<open>Hiding the internal profile\<close>

definition is_internal_permission_profile :: "json option \<Rightarrow> bool" where
  "is_internal_permission_profile v \<longleftrightarrow>
     (case as_record v of None \<Rightarrow> False
      | Some ob \<Rightarrow> oget ob ''id'' = Some (JStr remote_permission_profile_id))"

definition has_internal_profile :: "jobj \<Rightarrow> bool" where
  "has_internal_profile ob \<longleftrightarrow> sub ob ''permissions'' remote_permission_profile_id \<noteq> None"

text \<open>A property that becomes empty is deleted, or set to \<open>null\<close>.\<close>

definition put_empty :: "jobj \<Rightarrow> string \<Rightarrow> json option \<Rightarrow> jobj" where
  "put_empty ob k v = (case v of None \<Rightarrow> jm_del ob k | Some x \<Rightarrow> jm_set ob k x)"

definition drop_internal_profile :: "json option \<Rightarrow> jobj \<Rightarrow> jobj" where
  "drop_internal_profile empty_value ob =
     (case rprop ob ''permissions'' of
        None \<Rightarrow> ob
      | Some permissions \<Rightarrow>
          if oget permissions remote_permission_profile_id = None then ob
          else let visible = jm_del permissions remote_permission_profile_id in
            if visible = [] then put_empty ob ''permissions'' empty_value
            else jm_set ob ''permissions'' (JObj visible))"

definition without_internal_permission :: "json option \<Rightarrow> json option \<Rightarrow> jobj option" where
  "without_internal_permission v empty_value =
     (case as_record v of
        None \<Rightarrow> None
      | Some ob \<Rightarrow>
          let internal_default = (oget ob ''default_permissions'' = Some (JStr remote_permission_profile_id)) in
          if \<not> internal_default \<and> \<not> has_internal_profile ob then None
          else Some (drop_internal_profile empty_value
            (if internal_default then put_empty ob ''default_permissions'' empty_value else ob)))"

definition flat_internal_key :: "string \<Rightarrow> bool" where
  "flat_internal_key k \<longleftrightarrow>
     k = ''permissions.'' @ remote_permission_profile_id \<or>
     starts_with k (''permissions.'' @ remote_permission_profile_id @ ''.'')"

definition without_internal_permission_origins :: "json option \<Rightarrow> jobj option" where
  "without_internal_permission_origins v =
     (case as_record v of
        None \<Rightarrow> None
      | Some ob \<Rightarrow>
          let flat = filter flat_internal_key (map fst ob) in
          if oget ob ''default_permissions'' = None \<and> \<not> has_internal_profile ob \<and> flat = [] then None
          else Some (drop_internal_profile None
            (foldl jm_del (jm_del ob ''default_permissions'') flat)))"

definition project_permission_profile_list_result :: "jobj \<Rightarrow> jobj option" where
  "project_permission_profile_list_result ob =
     (case as_array (oget ob ''data'') of
        None \<Rightarrow> None
      | Some xs \<Rightarrow>
          let kept = filter (\<lambda>x. \<not> is_internal_permission_profile (Some x)) xs in
          if length kept = length xs then None else Some (jm_set ob ''data'' (JArr kept)))"

definition project_layer :: "json \<Rightarrow> json" where
  "project_layer layer =
     (case is_record layer of
        None \<Rightarrow> layer
      | Some l \<Rightarrow>
          (case without_internal_permission (oget l ''config'') None of
             None \<Rightarrow> layer
           | Some c \<Rightarrow> JObj (jm_set l ''config'' (JObj c))))"

definition project_config_read_result :: "jobj \<Rightarrow> jobj option" where
  "project_config_read_result ob =
     (case without_internal_permission (oget ob ''config'') (Some JNull) of
        None \<Rightarrow> None
      | Some c \<Rightarrow>
          let ob1 = jm_set ob ''config'' (JObj c);
              ob2 = (case without_internal_permission_origins (oget ob ''origins'') of
                       None \<Rightarrow> ob1 | Some x \<Rightarrow> jm_set ob1 ''origins'' (JObj x))
          in Some (case as_array (oget ob ''layers'') of
               None \<Rightarrow> ob2 | Some ls \<Rightarrow> jm_set ob2 ''layers'' (JArr (map project_layer ls))))"

text \<open>\<open>projectThreadSettings\<close> and \<open>projectThreadResult\<close> differ in the name of the sandbox property.\<close>

definition project_presentation :: "string \<Rightarrow> jobj \<Rightarrow> presentation \<Rightarrow> jobj option" where
  "project_presentation sandbox_key ob p =
     (if \<not> is_internal_permission_profile (oget ob ''activePermissionProfile'') then None
      else Some (jm_set (jm_set (jm_set ob ''approvalPolicy'' (JStr (pn_policy p)))
        sandbox_key (sandbox_policy (pn_profile p)))
        ''activePermissionProfile'' (JObj [(''id'', JStr (profile_id (pn_profile p))), (''extends'', JNull)])))"

definition project_thread_settings :: "json option \<Rightarrow> presentation \<Rightarrow> jobj option" where
  "project_thread_settings v p =
     (case as_record v of None \<Rightarrow> None | Some ob \<Rightarrow> project_presentation ''sandboxPolicy'' ob p)"

definition project_thread_result :: "jobj \<Rightarrow> presentation \<Rightarrow> jobj option" where
  "project_thread_result ob p = project_presentation ''sandbox'' ob p"

section \<open>The tracker\<close>

record tracker =
  tk_starts :: "(json, presentation) jsmap"
  tk_lists :: "json list"
  tk_list_responses :: "json list"
  tk_threads :: "(string, presentation) jsmap"

definition new_tracker :: tracker where
  "new_tracker = \<lparr>tk_starts = [], tk_lists = [], tk_list_responses = [], tk_threads = []\<rparr>"

definition presentation_for_thread :: "tracker \<Rightarrow> string \<Rightarrow> presentation" where
  "presentation_for_thread tk tid =
     (case jm_get (tk_threads tk) tid of None \<Rightarrow> default_presentation | Some p \<Rightarrow> p)"

definition observe_client :: "jobj \<Rightarrow> tracker \<Rightarrow> tracker" where
  "observe_client m tk =
     (case (rpc_id (oget m ''id''), sprop m ''method'', rprop m ''params'') of
        (Some i, Some method, Some params) \<Rightarrow>
          if method = ''permissionProfile/list'' then tk\<lparr>tk_lists := set_add (tk_lists tk) i\<rparr>
          else if method = ''thread/start'' then
            tk\<lparr>tk_starts := jm_set (tk_starts tk) i (permission_presentation params default_presentation)\<rparr>
          else if method = ''thread/fork'' then
            let fallback = (case sprop params ''threadId'' of
                Some tid \<Rightarrow> presentation_for_thread tk tid | None \<Rightarrow> default_presentation) in
            tk\<lparr>tk_starts := jm_set (tk_starts tk) i (permission_presentation params fallback)\<rparr>
          else if method \<notin> {''thread/resume'', ''thread/settings/update'', ''turn/start''} then tk
          else (case sprop params ''threadId'' of
              None \<Rightarrow> tk
            | Some tid \<Rightarrow> tk\<lparr>tk_threads := jm_set (tk_threads tk) tid
                (permission_presentation params (presentation_for_thread tk tid))\<rparr>)
      | _ \<Rightarrow> tk)"

definition observe_server :: "jobj \<Rightarrow> tracker \<Rightarrow> tracker" where
  "observe_server m tk =
     (case rpc_id (oget m ''id'') of
        None \<Rightarrow> tk
      | Some i \<Rightarrow>
          if \<not> is_rpc_response m then tk
          else
            let tk1 = (if i \<in> set (tk_lists tk)
                  then tk\<lparr>tk_lists := removeAll i (tk_lists tk),
                          tk_list_responses := set_add (tk_list_responses tk) i\<rparr>
                  else tk) in
            (case jm_get (tk_starts tk) i of
               None \<Rightarrow> tk1
             | Some p \<Rightarrow>
                 let tk2 = tk1\<lparr>tk_starts := jm_del (tk_starts tk) i\<rparr>;
                     thread = (case rprop m ''result'' of None \<Rightarrow> None | Some r \<Rightarrow> rprop r ''thread'') in
                 (case as_string (case thread of None \<Rightarrow> None | Some t \<Rightarrow> oget t ''id'') of
                    None \<Rightarrow> tk2
                  | Some tid \<Rightarrow> tk2\<lparr>tk_threads := jm_set (tk_threads tk2) tid p\<rparr>)))"

definition mode_for_thread :: "tracker \<Rightarrow> string \<Rightarrow> approval_mode" where
  "mode_for_thread tk tid = (if pn_policy (presentation_for_thread tk tid) = ''never'' then Never else Ask)"

definition requires_approval :: "tracker \<Rightarrow> string \<Rightarrow> bool" where
  "requires_approval tk tid \<longleftrightarrow> mode_for_thread tk tid \<noteq> Never"

text \<open>\<open>projectServerMessage\<close>; \<open>set_result\<close> is \<open>{ ...message, result }\<close>.\<close>

definition set_result :: "jobj \<Rightarrow> jobj option \<Rightarrow> jobj" where
  "set_result m r = (case r of None \<Rightarrow> m | Some ob \<Rightarrow> jm_set m ''result'' (JObj ob))"

definition project_response :: "tracker \<Rightarrow> jobj \<Rightarrow> jobj \<Rightarrow> jobj" where
  "project_response tk m result =
     (case project_config_read_result result of
        Some c \<Rightarrow> jm_set m ''result'' (JObj c)
      | None \<Rightarrow>
          (case as_string (sub result ''thread'' ''id'') of
             None \<Rightarrow> m
           | Some tid \<Rightarrow> set_result m (project_thread_result result (presentation_for_thread tk tid))))"

definition project_notification :: "tracker \<Rightarrow> jobj \<Rightarrow> jobj" where
  "project_notification tk m =
     (case (sprop m ''method'', rprop m ''params'') of
        (Some method, Some params) \<Rightarrow>
          (case sprop params ''threadId'' of
             None \<Rightarrow> m
           | Some tid \<Rightarrow>
               if method \<noteq> ''thread/settings/updated'' then m
               else (case project_thread_settings (oget params ''threadSettings'') (presentation_for_thread tk tid) of
                   None \<Rightarrow> m
                 | Some s \<Rightarrow> jm_set m ''params'' (JObj (jm_set params ''threadSettings'' (JObj s)))))
      | _ \<Rightarrow> m)"

definition project_server_message :: "jobj \<Rightarrow> tracker \<Rightarrow> jobj \<times> tracker" where
  "project_server_message m tk =
     (case (rpc_id (oget m ''id''), rprop m ''result'') of
        (Some i, Some result) \<Rightarrow>
          if \<not> is_rpc_response m then (project_notification tk m, tk)
          else if i \<in> set (tk_list_responses tk) then
            (set_result m (project_permission_profile_list_result result),
             tk\<lparr>tk_list_responses := removeAll i (tk_list_responses tk)\<rparr>)
          else (project_response tk m result, tk)
      | _ \<Rightarrow> (project_notification tk m, tk))"

section \<open>The choice of the user\<close>

datatype shim_message = ClientSays jobj | ServerSays jobj

text \<open>What the proxy does with the tracker for a message of either side.\<close>

fun tracker_step :: "tracker \<Rightarrow> shim_message \<Rightarrow> tracker" where
  "tracker_step tk (ClientSays m) = observe_client m tk"
| "tracker_step tk (ServerSays m) = snd (project_server_message m (observe_server m tk))"

text \<open>A request that asks for no approvals: by name, or by full access when it names no policy.\<close>

definition asks_for_never :: "jobj \<Rightarrow> bool" where
  "asks_for_never m \<longleftrightarrow>
     (\<exists>params. rprop m ''params'' = Some params \<and>
        (sprop params ''approvalPolicy'' = Some ''never'' \<or>
         sprop params ''approvalPolicy'' = None \<and>
         (profile_from_value (oget params ''permissions'') = Some DangerFullAccess \<or>
          profile_from_value (sub params ''activePermissionProfile'' ''id'') = Some DangerFullAccess)))"

lemma orelse_Some: "orelse a b = Some x \<Longrightarrow> a = Some x \<or> b = Some x"
  by (cases a) auto

lemma policy_never:
  assumes "approval_policy_from_params params = Some ''never''" "rprop m ''params'' = Some params"
  shows "asks_for_never m"
  using assms unfolding approval_policy_from_params_def asks_for_never_def
  by (auto split: option.splits visible_profile.splits if_splits dest!: orelse_Some)

definition all_ask :: "tracker \<Rightarrow> bool" where
  "all_ask tk \<longleftrightarrow>
     (\<forall>i p. jm_get (tk_starts tk) i = Some p \<longrightarrow> pn_policy p \<noteq> ''never'') \<and>
     (\<forall>t p. jm_get (tk_threads tk) t = Some p \<longrightarrow> pn_policy p \<noteq> ''never'')"

lemma all_ask_thread: "all_ask tk \<Longrightarrow> pn_policy (presentation_for_thread tk t) \<noteq> ''never''"
  by (auto simp: all_ask_def presentation_for_thread_def default_presentation_def split: option.splits)

lemma presentation_not_never:
  "approval_policy_from_params params \<noteq> Some ''never'' \<Longrightarrow> pn_policy fallback \<noteq> ''never'' \<Longrightarrow>
   pn_policy (permission_presentation params fallback) \<noteq> ''never''"
  by (auto simp: permission_presentation_def split: option.splits)

lemma all_ask_client:
  assumes inv: "all_ask tk" and quiet: "\<not> asks_for_never m"
  shows "all_ask (observe_client m tk)"
proof (cases "rprop m ''params''")
  case None
  with inv show ?thesis by (simp add: observe_client_def split: option.splits)
next
  case (Some params)
  with quiet policy_never have never: "approval_policy_from_params params \<noteq> Some ''never''" by blast
  have fallback: "pn_policy (permission_presentation params default_presentation) \<noteq> ''never''"
    "pn_policy (permission_presentation params (presentation_for_thread tk t)) \<noteq> ''never''" for t
    using never all_ask_thread [OF inv]
    by (simp_all add: presentation_not_never default_presentation_def)
  show ?thesis
    using inv Some fallback
    by (auto simp: observe_client_def all_ask_def Let_def split: option.splits)
qed

lemma all_ask_server: "all_ask tk \<Longrightarrow> all_ask (observe_server m tk)"
  by (auto simp: observe_server_def all_ask_def Let_def split: option.splits)

lemma all_ask_project: "all_ask tk \<Longrightarrow> all_ask (snd (project_server_message m tk))"
  by (auto simp: project_server_message_def all_ask_def split: option.splits)

lemma all_ask_run:
  "all_ask tk \<Longrightarrow> \<forall>m. ClientSays m \<in> set evs \<longrightarrow> \<not> asks_for_never m \<Longrightarrow> all_ask (run tracker_step tk evs)"
proof (induction evs arbitrary: tk)
  case (Cons ev evs)
  have "all_ask (tracker_step tk ev)"
    using Cons.prems by (cases ev) (auto simp: all_ask_client all_ask_server all_ask_project)
  with Cons show ?case by simp
qed simp


text \<open>A client that starts a thread with full access.\<close>

definition start_message :: "json \<Rightarrow> string \<Rightarrow> jobj" where
  "start_message i permissions = [(''id'', i), (''method'', JStr ''thread/start''),
     (''params'', JObj [(''permissions'', JStr permissions)])]"

definition started_message :: "json \<Rightarrow> string \<Rightarrow> jobj" where
  "started_message i tid = [(''id'', i), (''result'', JObj [(''thread'', JObj [(''id'', JStr tid)])])]"


text \<open>Requests of different clients are confused. All clients of the shared app server use one
  tracker, which remembers a starting thread under the number its client gave the request: when
  two clients start threads with the same number at a time, the first thread is presented with
  the choice made for the second, and the second as if nothing had been chosen.
\<close>

theorem start_numbers_collide:
  "let tk = run tracker_step new_tracker
       [ClientSays (start_message (JInt 1) '':read-only''), ClientSays (start_message (JInt 1) ''full-access''),
        ServerSays (started_message (JInt 1) ''one''), ServerSays (started_message (JInt 1) ''two'')] in
   presentation_for_thread tk ''one'' = \<lparr>pn_policy = ''never'', pn_profile = DangerFullAccess\<rparr> \<and>
   presentation_for_thread tk ''two'' = default_presentation"
  by code_simp

section \<open>The internal profile stays hidden\<close>

definition config_exposes :: "json option \<Rightarrow> bool" where
  "config_exposes v \<longleftrightarrow>
     (\<exists>ob. as_record v = Some ob \<and>
        (oget ob ''default_permissions'' = Some (JStr remote_permission_profile_id) \<or> has_internal_profile ob))"

definition origins_expose :: "json option \<Rightarrow> bool" where
  "origins_expose v \<longleftrightarrow>
     (\<exists>ob. as_record v = Some ob \<and>
        (oget ob ''default_permissions'' \<noteq> None \<or> has_internal_profile ob \<or>
         (\<exists>k. flat_internal_key k \<and> oget ob k \<noteq> None)))"

lemma sub_set: "sub (jm_set ob k v) k' x = (if k' = k then (case as_record (Some v) of None \<Rightarrow> None | Some r \<Rightarrow> oget r x) else sub ob k' x)"
  by (simp add: sub_def)

lemma sub_del: "sub (jm_del ob k) k' x = (if k' = k then None else sub ob k' x)"
  by (simp add: sub_def)

lemma drop_internal:
  assumes "\<And>r. v = Some r \<Longrightarrow> as_record v = None"
  shows "\<not> has_internal_profile (drop_internal_profile v ob)"
  using assms
  by (auto simp: has_internal_profile_def drop_internal_profile_def put_empty_def sub_set sub_del Let_def
      split: option.splits) (auto simp: sub_def)

lemma drop_internal_other: "k \<noteq> ''permissions'' \<Longrightarrow> oget (drop_internal_profile v ob) k = oget ob k"
  by (simp add: drop_internal_profile_def put_empty_def Let_def split: option.split)

lemma hidden_config:
  assumes "without_internal_permission v e = r" and "e = None \<or> e = Some JNull"
  shows "(case r of None \<Rightarrow> \<not> config_exposes v | Some ob \<Rightarrow> \<not> config_exposes (Some (JObj ob)))"
  using assms drop_internal [of e]
  by (auto simp: without_internal_permission_def config_exposes_def Let_def drop_internal_other put_empty_def
      split: option.splits if_splits)

lemma oget_foldl_del: "oget (foldl jm_del ob ks) k = (if k \<in> set ks then None else oget ob k)"
  by (induction ks arbitrary: ob) auto

lemma oget_keys: "oget ob k \<noteq> None \<Longrightarrow> k \<in> fst ` set ob"
  by (simp add: oget_def jm_get_None)

lemma flat_key_other: "flat_internal_key k \<Longrightarrow> k \<noteq> ''permissions'' \<and> k \<noteq> ''default_permissions''"
  by (auto simp: flat_internal_key_def starts_with_def)

lemma hidden_origins:
  assumes "without_internal_permission_origins v = r"
  shows "(case r of None \<Rightarrow> \<not> origins_expose v | Some ob \<Rightarrow> \<not> origins_expose (Some (JObj ob)))"
proof (cases "as_record v")
  case None
  with assms show ?thesis by (auto simp: without_internal_permission_origins_def origins_expose_def)
next
  case (Some ob)
  have flat: "oget ob k = None" if "filter flat_internal_key (map fst ob) = []" "flat_internal_key k" for k
    using that oget_keys [of ob k] by (cases "oget ob k") (auto simp: filter_empty_conv)
  let ?ks = "filter flat_internal_key (map fst ob)"
  have gone: "oget (foldl jm_del (jm_del ob ''default_permissions'') ?ks) k = None" if "flat_internal_key k" for k
    using that oget_keys [of ob k] by (cases "oget ob k") (auto simp: oget_foldl_del)
  show ?thesis
    using assms Some flat gone drop_internal [of None]
    by (auto simp: without_internal_permission_origins_def origins_expose_def Let_def drop_internal_other
        oget_foldl_del flat_key_other split: option.splits if_splits)
qed

lemma hidden_layers:
  assumes "layer \<in> set (map project_layer ls)" "is_record layer = Some l"
  shows "\<not> config_exposes (oget l ''config'')"
proof -
  from assms obtain layer0 where layer0: "layer = project_layer layer0" by auto
  with assms(2) obtain l0 where l0: "layer0 = JObj l0" 
    by (cases layer0) (auto simp: project_layer_def)
  have "case without_internal_permission (oget l0 ''config'') None of None \<Rightarrow> \<not> config_exposes (oget l0 ''config'')
    | Some c \<Rightarrow> \<not> config_exposes (Some (JObj c))"
    by (rule hidden_config [OF refl]) simp
  then show ?thesis
    using layer0 l0 assms(2) by (auto simp: project_layer_def split: option.splits)
qed

lemma visible_not_internal: "profile_id p \<noteq> remote_permission_profile_id"
  by (cases p) (simp_all add: remote_permission_profile_id_def)

lemma oget_Cons: "oget ((k, v) # ob) k' = (if k = k' then Some v else oget ob k')"
  by (simp add: oget_def jm_get_Cons)

lemma oget_Nil: "oget [] k = None"
  by (simp add: oget_def jm_get_def)

lemma hidden_presentation:
  assumes "project_presentation key ob p = r"
  shows "\<not> is_internal_permission_profile
    (oget (case r of None \<Rightarrow> ob | Some ob' \<Rightarrow> ob') ''activePermissionProfile'')"
  using assms visible_not_internal
  by (auto simp: project_presentation_def is_internal_permission_profile_def oget_Cons split: option.splits if_splits)

lemma hidden_list:
  assumes "project_server_message m tk = (m', tk')"
    and "rpc_id (oget m ''id'') = Some i" "is_rpc_response m" "i \<in> set (tk_list_responses tk)"
    and "rprop m' ''result'' = Some r" "oget r ''data'' = Some (JArr xs)" "x \<in> set xs"
  shows "\<not> is_internal_permission_profile (Some x)"
proof (cases "rprop m ''result''")
  case None
  with assms have "m' = m"
    by (auto simp: project_server_message_def project_notification_def is_rpc_response_def split: option.splits)
  with None assms(5) show ?thesis by simp
next
  case (Some result)
  with assms have m': "m' = set_result m (project_permission_profile_list_result result)"
    by (simp add: project_server_message_def split: if_splits)
  let ?hidden = "\<lambda>x. \<not> is_internal_permission_profile (Some x)"
  show ?thesis
  proof (cases "project_permission_profile_list_result result")
    case None
    with m' Some assms(5,6) have "oget result ''data'' = Some (JArr xs)" by (simp add: set_result_def)
    with None have "length (filter ?hidden xs) = length xs"
      by (simp add: project_permission_profile_list_result_def Let_def split: if_splits)
    then have "filter ?hidden xs = xs" by (metis filter_True length_filter_less less_irrefl)
    with assms(7) have "x \<in> set (filter ?hidden xs)" by simp
    then show ?thesis by simp
  next
    case new: (Some ob)
    then obtain ys where "ob = jm_set result ''data'' (JArr (filter ?hidden ys))"
      by (auto simp: project_permission_profile_list_result_def Let_def split: option.splits if_splits)
    with new m' assms(5,6) have "xs = filter ?hidden ys" by (auto simp: set_result_def)
    with assms(7) show ?thesis by simp
  qed
qed

lemma hidden_response:
  assumes "project_server_message m tk = (m', tk')"
    and "rpc_id (oget m ''id'') = Some i" "is_rpc_response m" "i \<notin> set (tk_list_responses tk)"
    and r: "rprop m ''result'' = Some r" and r': "rprop m' ''result'' = Some r'"
  shows "if config_exposes (oget r ''config'')
     then \<not> config_exposes (oget r' ''config'') \<and> \<not> origins_expose (oget r' ''origins'') \<and>
       (\<forall>ls l. oget r' ''layers'' = Some (JArr ls) \<and> JObj l \<in> set ls \<longrightarrow> \<not> config_exposes (oget l ''config''))
     else as_string (sub r ''thread'' ''id'') \<noteq> None \<longrightarrow>
       \<not> is_internal_permission_profile (oget r' ''activePermissionProfile'')"
proof -
  have m': "m' = project_response tk m r"
    using assms by (auto simp: project_server_message_def split: if_splits)
  note config = hidden_config [OF refl, of "Some JNull" "oget r ''config''"]
  show ?thesis
  proof (cases "project_config_read_result r")
    case None
    then have "without_internal_permission (oget r ''config'') (Some JNull) = None"
      by (auto simp: project_config_read_result_def Let_def split: option.splits)
    with config have clean: "\<not> config_exposes (oget r ''config'')" by simp
    show ?thesis
    proof (cases "as_string (sub r ''thread'' ''id'')")
      case (Some tid)
      let ?q = "project_thread_result r (presentation_for_thread tk tid)"
      from None Some m' have "m' = set_result m ?q" by (simp add: project_response_def)
      with r r' have "r' = (case ?q of None \<Rightarrow> r | Some ob \<Rightarrow> ob)"
        by (auto simp: set_result_def split: option.splits)
      with clean hidden_presentation [of "''sandbox''" r "presentation_for_thread tk tid" ?q]
      show ?thesis by (simp add: project_thread_result_def)
    qed (simp add: clean)
  next
    case (Some c)
    with m' r' have r'_c: "r' = c" by (simp add: project_response_def)
    obtain c0 where c0: "without_internal_permission (oget r ''config'') (Some JNull) = Some c0"
      using Some by (auto simp: project_config_read_result_def split: option.splits)
    then have exposed: "config_exposes (oget r ''config'')"
      by (auto simp: without_internal_permission_def config_exposes_def Let_def split: option.splits if_splits)
    have "oget c ''config'' = Some (JObj c0)"
      using Some c0 by (auto simp: project_config_read_result_def Let_def split: option.splits)
    with config c0 have 1: "\<not> config_exposes (oget c ''config'')" by simp
    have "case without_internal_permission_origins (oget r ''origins'') of
        None \<Rightarrow> oget c ''origins'' = oget r ''origins'' | Some x \<Rightarrow> oget c ''origins'' = Some (JObj x)"
      using Some c0 by (auto simp: project_config_read_result_def Let_def split: option.splits)
    with hidden_origins [OF refl, of "oget r ''origins''"] have 2: "\<not> origins_expose (oget c ''origins'')"
      by (auto split: option.splits)
    have "oget c ''layers'' = Some (JArr ls) \<Longrightarrow> \<exists>ls0. ls = map project_layer ls0" for ls
      using Some c0 by (auto simp: project_config_read_result_def Let_def split: option.splits)
    then have 3: "\<forall>ls l. oget c ''layers'' = Some (JArr ls) \<and> JObj l \<in> set ls \<longrightarrow> \<not> config_exposes (oget l ''config'')"
      using hidden_layers by (metis is_record_Some)
    from 1 2 3 exposed r'_c show ?thesis by simp
  qed
qed

lemma hidden_notification:
  assumes "project_server_message m tk = (m', tk')"
    and meth: "sprop m ''method'' = Some ''thread/settings/updated''"
    and given: "rprop m' ''params'' = Some par" "sprop par ''threadId'' \<noteq> None"
  shows "\<not> is_internal_permission_profile (sub par ''threadSettings'' ''activePermissionProfile'')"
proof -
  have "\<not> is_rpc_response m" using meth by (auto simp: is_rpc_response_def)
  with assms(1) have m': "m' = project_notification tk m"
    by (auto simp: project_server_message_def split: option.splits)
  have "\<exists>params. rprop m ''params'' = Some params"
    using m' given(1) meth by (auto simp: project_notification_def split: option.splits)
  then obtain params where params: "rprop m ''params'' = Some params" by blast
  show ?thesis
  proof (cases "sprop params ''threadId''")
    case None
    with m' params meth have "m' = m" by (simp add: project_notification_def)
    with params given(1) have "par = params" by simp
    from given(2) have False unfolding \<open>par = params\<close> None by simp
    then show ?thesis ..
  next
    case (Some tid)
    let ?p = "presentation_for_thread tk tid" and ?v = "oget params ''threadSettings''"
    have eq: "par = (case project_thread_settings ?v ?p of None \<Rightarrow> params
        | Some s \<Rightarrow> jm_set params ''threadSettings'' (JObj s))"
      using m' params Some meth given(1) by (auto simp: project_notification_def split: option.splits)
    show ?thesis
    proof (cases "as_record ?v")
      case None
      with eq show ?thesis
        by (simp add: project_thread_settings_def sub_def is_internal_permission_profile_def)
    next
      case (Some s)
      with eq hidden_presentation [of "''sandboxPolicy''" s ?p "project_presentation ''sandboxPolicy'' s ?p"]
      show ?thesis by (auto simp: project_thread_settings_def sub_def split: option.splits)
    qed
  qed
qed

text \<open>The internal profile is not shown. What the proxy hands to the client never names the
  permission profile of the bridge: not in an answered list of profiles, not in the
  configuration, its layers and its origins when the configuration names it, not as the active
  profile of a thread, and not in an update of the thread settings.
\<close>

theorem internal_profile_hidden:
  assumes "project_server_message m tk = (m', tk')"
  shows "(\<forall>i r xs. rpc_id (oget m ''id'') = Some i \<and> is_rpc_response m \<and> i \<in> set (tk_list_responses tk) \<and>
      rprop m' ''result'' = Some r \<and> oget r ''data'' = Some (JArr xs) \<longrightarrow>
      (\<forall>x\<in>set xs. \<not> is_internal_permission_profile (Some x))) \<and>
    (\<forall>i r r'. rpc_id (oget m ''id'') = Some i \<and> is_rpc_response m \<and> i \<notin> set (tk_list_responses tk) \<and>
      rprop m ''result'' = Some r \<and> rprop m' ''result'' = Some r' \<longrightarrow>
      (if config_exposes (oget r ''config'')
       then \<not> config_exposes (oget r' ''config'') \<and> \<not> origins_expose (oget r' ''origins'') \<and>
         (\<forall>ls l. oget r' ''layers'' = Some (JArr ls) \<and> JObj l \<in> set ls \<longrightarrow> \<not> config_exposes (oget l ''config''))
       else as_string (sub r ''thread'' ''id'') \<noteq> None \<longrightarrow>
         \<not> is_internal_permission_profile (oget r' ''activePermissionProfile''))) \<and>
    (\<forall>par. sprop m ''method'' = Some ''thread/settings/updated'' \<and> rprop m' ''params'' = Some par \<and>
      sprop par ''threadId'' \<noteq> None \<longrightarrow>
      \<not> is_internal_permission_profile (sub par ''threadSettings'' ''activePermissionProfile''))"
  using hidden_list [OF assms] hidden_response [OF assms] hidden_notification [OF assms]
  by (intro conjI allI impI) blast+

text \<open>An answer to \<open>config/read\<close> that names the internal profile.\<close>

definition config_result :: jobj where
  "config_result = [(''config'', JObj [(''default_permissions'', JStr remote_permission_profile_id), (''model'', JNull)])]"

definition config_message :: jobj where
  "config_message = [(''id'', JInt 7), (''result'', JObj config_result)]"

theorem internal_profile_hidden_witness:
  "config_exposes (oget config_result ''config'') \<and>
   \<not> config_exposes (sub (fst (project_server_message config_message new_tracker)) ''result'' ''config'')"
proof -
  let ?c = "[(''default_permissions'', JNull), (''model'', JNull)]"
  have exposed: "config_exposes (oget config_result ''config'')"
    by (simp add: config_exposes_def config_result_def oget_Cons)
  have projected: "project_server_message config_message new_tracker =
      ([(''id'', JInt 7), (''result'', JObj [(''config'', JObj ?c)])], new_tracker)"
    by code_simp
  have "\<not> config_exposes (oget [(''config'', JObj ?c)] ''config'')"
    using internal_profile_hidden [OF projected] exposed
    by (simp add: config_message_def new_tracker_def is_rpc_response_def oget_Cons oget_Nil)
  with exposed projected show ?thesis by (simp add: sub_def oget_Cons)
qed

end
