(* ===== verification/Threads.thy ===== *)
theory Threads
  imports Errors "HOL-Library.List_Lexorder"
begin

text \<open>
  Which threads are loaded and which one the editor shows: \<^verbatim>\<open>src/shim/thread-lifecycle.ts\<close>
  (the index fed by responses and notifications) and \<^verbatim>\<open>src/shim/thread-recovery.ts\<close> (the cycle that
  subscribes the editor again to active threads after a reload, and publishes their status). A
  cycle is one function of the state and of what happens while it waits: the \<open>n\<close>-th request
  is followed by the events \<open>world n\<close>, in order, until one of them settles its promise; when none
  does, its timer fires. As in \<open>SharedAppServer.#runStdioClient\<close>, the selected thread is the one
  of the index, and what the recovery emits is observed by the index.
\<close>

section \<open>The index\<close>

record thread_index =
  ti_loaded :: "string list"
  ti_selected :: "string option"

definition new_index :: thread_index where
  "new_index = \<lparr>ti_loaded = [], ti_selected = None\<rparr>"

definition index_remove :: "string \<Rightarrow> thread_index \<Rightarrow> thread_index" where
  "index_remove t ix =
     ix\<lparr>ti_loaded := removeAll t (ti_loaded ix),
        ti_selected := (if ti_selected ix = Some t then None else ti_selected ix)\<rparr>"

definition index_add :: "string \<Rightarrow> thread_index \<Rightarrow> thread_index" where
  "index_add t ix = ix\<lparr>ti_loaded := set_add (ti_loaded ix) t\<rparr>"

definition response_thread :: "string option \<Rightarrow> jobj \<Rightarrow> string option" where
  "response_thread tid ob =
     (case rprop ob ''thread'' of
        Some th \<Rightarrow> (case sprop th ''id'' of Some i \<Rightarrow> Some i | None \<Rightarrow> tid)
      | None \<Rightarrow> tid)"

definition index_response :: "string \<Rightarrow> string option \<Rightarrow> json option \<Rightarrow> bool \<Rightarrow> thread_index \<Rightarrow> thread_index" where
  "index_response meth tid res vscode ix =
     (case as_record res of
        None \<Rightarrow> ix
      | Some ob \<Rightarrow>
          (case response_thread tid ob of
             None \<Rightarrow> ix
           | Some t \<Rightarrow>
               if t = [] then ix
               else if meth \<in> {''thread/start'', ''thread/resume'', ''thread/fork'', ''turn/start'', ''turn/steer''}
               then (if vscode then (index_add t ix)\<lparr>ti_selected := Some t\<rparr> else index_add t ix)
               else if meth \<in> {''thread/archive'', ''thread/delete''} then index_remove t ix
               else if meth = ''thread/unsubscribe''
               then (let ix1 = (if vscode \<and> ti_selected ix = Some t then ix\<lparr>ti_selected := None\<rparr> else ix) in
                     if oget ob ''status'' = Some (JStr ''notLoaded'') then index_remove t ix1 else ix1)
               else ix))"

definition notification_thread :: "jobj \<Rightarrow> string option" where
  "notification_thread ob =
     (case sprop ob ''threadId'' of
        Some t \<Rightarrow> Some t
      | None \<Rightarrow> (case rprop ob ''thread'' of Some th \<Rightarrow> sprop th ''id'' | None \<Rightarrow> None))"

definition index_notification :: "string \<Rightarrow> json option \<Rightarrow> thread_index \<Rightarrow> thread_index" where
  "index_notification meth params ix =
     (case as_record params of
        None \<Rightarrow> ix
      | Some ob \<Rightarrow>
          (case notification_thread ob of
             None \<Rightarrow> ix
           | Some t \<Rightarrow>
               if meth \<in> {''thread/closed'', ''thread/archived'', ''thread/deleted''} then index_remove t ix
               else if meth = ''thread/status/changed'' \<and> rprop ob ''status'' \<noteq> None
               then (let ty = oget (the (rprop ob ''status'')) ''type'' in
                     if ty = Some (JStr ''notLoaded'') then index_remove t ix
                     else if js_string_of ty \<in> {''idle'', ''active'', ''systemError''} then index_add t ix
                     else ix)
               else if meth \<in> {''thread/started'', ''turn/started''} then index_add t ix
               else ix))"

datatype index_event =
    Response string "string option" "json option" bool
  | Notification string "json option"

fun index_step :: "thread_index \<Rightarrow> index_event \<Rightarrow> thread_index" where
  "index_step ix (Response meth tid res vscode) = index_response meth tid res vscode ix"
| "index_step ix (Notification meth params) = index_notification meth params ix"

definition index_ok :: "thread_index \<Rightarrow> bool" where
  "index_ok ix \<longleftrightarrow> distinct (ti_loaded ix) \<and> set_option (ti_selected ix) \<subseteq> set (ti_loaded ix)"

lemma index_ok_new: "index_ok new_index"
  by (simp add: index_ok_def new_index_def)

lemma index_ok_remove: "index_ok ix \<Longrightarrow> index_ok (index_remove t ix)"
  by (auto simp: index_ok_def index_remove_def distinct_removeAll)

lemma index_ok_add: "index_ok ix \<Longrightarrow> index_ok (index_add t ix)"
  by (auto simp: index_ok_def index_add_def)

lemma index_ok_select: "index_ok ix \<Longrightarrow> index_ok ((index_add t ix)\<lparr>ti_selected := Some t\<rparr>)"
  by (auto simp: index_ok_def index_add_def)

lemma index_ok_unselect: "index_ok ix \<Longrightarrow> index_ok (ix\<lparr>ti_selected := None\<rparr>)"
  by (simp add: index_ok_def)

lemma index_ok_if: "index_ok a \<Longrightarrow> index_ok b \<Longrightarrow> index_ok (if c then a else b)"
  by simp

lemma index_ok_case: "index_ok a \<Longrightarrow> (\<And>x. index_ok (f x)) \<Longrightarrow> index_ok (case v of None \<Rightarrow> a | Some x \<Rightarrow> f x)"
  by (cases v) auto

lemmas index_oks = index_ok_remove index_ok_add index_ok_select index_ok_unselect

lemma index_ok_response:
  assumes "index_ok ix"
  shows "index_ok (index_response meth tid res vscode ix)"
  unfolding index_response_def Let_def
  by (intro index_ok_case index_ok_if index_oks assms)

lemma index_ok_notification:
  assumes "index_ok ix"
  shows "index_ok (index_notification meth params ix)"
  unfolding index_notification_def Let_def
  by (intro index_ok_case index_ok_if index_oks assms)

interpretation thread_index: invariant_machine index_step index_ok
proof
  fix ix e
  show "index_ok ix \<Longrightarrow> index_ok (index_step ix e)"
    by (cases e) (simp_all add: index_ok_response index_ok_notification)
qed

text \<open>A thread that is closed, archived or deleted is gone from the index until it is loaded again.\<close>

definition closes :: "string \<Rightarrow> index_event \<Rightarrow> bool" where
  "closes t e =
     (case e of
        Notification meth params \<Rightarrow>
          meth \<in> {''thread/closed'', ''thread/archived'', ''thread/deleted''} \<and>
          (case as_record params of None \<Rightarrow> False | Some ob \<Rightarrow> sprop ob ''threadId'' = Some t)
      | Response meth tid res vscode \<Rightarrow>
          meth \<in> {''thread/archive'', ''thread/delete''} \<and> tid = Some t \<and> t \<noteq> [] \<and>
          (case as_record res of None \<Rightarrow> False | Some ob \<Rightarrow> oget ob ''thread'' = None))"

lemma index_remove_gone [simp]:
  "t \<notin> set (ti_loaded (index_remove t ix))" "ti_selected (index_remove t ix) \<noteq> Some t"
  by (simp_all add: index_remove_def)

lemma notification_closes:
  assumes "meth \<in> {''thread/closed'', ''thread/archived'', ''thread/deleted''}" "sprop ob ''threadId'' = Some t"
  shows "index_notification meth (Some (JObj ob)) ix = index_remove t ix"
  using assms by (simp add: index_notification_def notification_thread_def)

lemma response_closes:
  assumes "meth \<in> {''thread/archive'', ''thread/delete''}" "t \<noteq> []" "oget ob ''thread'' = None"
  shows "index_response meth (Some t) (Some (JObj ob)) vscode ix = index_remove t ix"
  using assms by (elim insertE emptyE) (simp_all add: index_response_def response_thread_def)

lemma index_closes: "closes t e \<Longrightarrow> \<exists>ix'. index_step ix e = index_remove t ix'"
proof (cases e)
  case (Response meth tid res vscode)
  assume "closes t e"
  with Response obtain ob where "res = Some (JObj ob)" "oget ob ''thread'' = None"
    "meth \<in> {''thread/archive'', ''thread/delete''}" "tid = Some t" "t \<noteq> []"
    by (cases "as_record res") (auto simp: closes_def)
  then show ?thesis using response_closes Response by auto
next
  case (Notification meth params)
  assume "closes t e"
  with Notification obtain ob where "params = Some (JObj ob)" "sprop ob ''threadId'' = Some t"
    "meth \<in> {''thread/closed'', ''thread/archived'', ''thread/deleted''}"
    by (cases "as_record params") (auto simp: closes_def)
  then show ?thesis using notification_closes Notification by auto
qed

text \<open>The selected thread is loaded. Whatever responses and notifications arrive, in any order,
  the index holds no thread twice, and the thread the editor has selected is one of the loaded
  ones; a thread that is closed, archived or deleted is neither.
\<close>

theorem selected_is_loaded:
  "distinct (ti_loaded (run index_step new_index es)) \<and>
   set_option (ti_selected (run index_step new_index es)) \<subseteq> set (ti_loaded (run index_step new_index es)) \<and>
   (closes t e \<longrightarrow> t \<notin> set (ti_loaded (run index_step new_index (es @ [e]))) \<and>
     ti_selected (run index_step new_index (es @ [e])) \<noteq> Some t)"
proof -
  have "index_ok (run index_step new_index es)" by (rule thread_index.run_inv) (rule index_ok_new)
  moreover have "closes t e \<Longrightarrow> t \<notin> set (ti_loaded (run index_step new_index (es @ [e]))) \<and>
     ti_selected (run index_step new_index (es @ [e])) \<noteq> Some t"
    using index_closes [of t e "run index_step new_index es"] by (auto simp: run_append)
  ultimately show ?thesis by (simp add: index_ok_def)
qed

definition index_events :: "index_event list" where
  "index_events =
     [Response ''thread/start'' None (Some (JObj [(''thread'', JObj [(''id'', JStr ''a'')])])) True,
      Notification ''thread/started'' (Some (JObj [(''threadId'', JStr ''b'')]))]"

lemma selected_is_loaded_witness:
  "ti_selected (run index_step new_index index_events) = Some ''a'' \<and>
   ti_loaded (run index_step new_index index_events) = [''a'', ''b''] \<and>
   ti_selected (run index_step new_index
     (index_events @ [Notification ''thread/archived'' (Some (JObj [(''threadId'', JStr ''a'')]))])) \<noteq> Some ''a''"
proof -
  have "closes ''a'' (Notification ''thread/archived'' (Some (JObj [(''threadId'', JStr ''a'')])))" by code_simp
  with selected_is_loaded [of index_events "''a''"
      "Notification ''thread/archived'' (Some (JObj [(''threadId'', JStr ''a'')]))"]
  have "ti_selected (run index_step new_index
     (index_events @ [Notification ''thread/archived'' (Some (JObj [(''threadId'', JStr ''a'')]))])) \<noteq> Some ''a''"
    by blast
  moreover have "ti_selected (run index_step new_index index_events) = Some ''a''"
    "ti_loaded (run index_step new_index index_events) = [''a'', ''b'']" by code_simp+
  ultimately show ?thesis by simp
qed

section \<open>The recovery\<close>

definition thread_status :: "json option \<Rightarrow> jobj option" where
  "thread_status v =
     (case as_record v of
        None \<Rightarrow> None
      | Some ob \<Rightarrow>
          if js_string_of (oget ob ''type'') \<notin> {''active'', ''idle'', ''notLoaded'', ''systemError''} then None
          else (case oget ob ''activeFlags'' of
                  None \<Rightarrow> Some [(''type'', the (oget ob ''type''))]
                | Some flags \<Rightarrow>
                    (case as_array (Some flags) of
                       None \<Rightarrow> None
                     | Some xs \<Rightarrow>
                         if length xs > 32 \<or>
                            list_ex (\<lambda>f. case as_string (Some f) of None \<Rightarrow> True | Some t \<Rightarrow> length t > 128) xs
                         then None
                         else Some [(''type'', the (oget ob ''type'')),
                                    (''activeFlags'', JArr (map JStr (sort (map (\<lambda>f. the (as_string (Some f))) xs))))])))"

record recovery_cycle =
  cy_listed :: nat
  cy_matching :: nat
  cy_resumed :: nat
  cy_published :: nat
  cy_unsubscribed :: nat
  cy_errors :: nat

definition new_cycle :: recovery_cycle where
  "new_cycle = \<lparr>cy_listed = 0, cy_matching = 0, cy_resumed = 0, cy_published = 0, cy_unsubscribed = 0, cy_errors = 0\<rparr>"

text \<open>What the recovery does to the outside: a request is logged with the thread selected when it was sent.\<close>

datatype recovery_action =
    Sent "string option" string jobj
  | Emitted jobj
  | Reported recovery_cycle

record recovery =
  rv_pending :: "(string, string) jsmap"
  rv_subscribed :: "string list"
  rv_published :: "(string, jobj) jsmap"
  rv_refreshing :: bool
  rv_disposed :: bool
  rv_index :: thread_index
  rv_root :: "string option"
  rv_clock :: nat
  rv_log :: "recovery_action list"

definition new_recovery :: "string option \<Rightarrow> thread_index \<Rightarrow> recovery" where
  "new_recovery root ix =
     \<lparr>rv_pending = [], rv_subscribed = [], rv_published = [], rv_refreshing = False, rv_disposed = False,
      rv_index = ix, rv_root = root, rv_clock = 0, rv_log = []\<rparr>"

text \<open>
  What happens while a request is awaited: a message of the server, a change of the index by
  another connection, of the workspace, the timer of the request, the end of the session.
\<close>

datatype recovery_event =
    Arrives jobj
  | Indexed index_event
  | Root "string option"
  | Fires
  | SendFails string
  | Disposes

definition log_action :: "recovery_action \<Rightarrow> recovery \<Rightarrow> recovery" where
  "log_action a st = st\<lparr>rv_log := rv_log st @ [a]\<rparr>"

definition closed_methods :: "string list" where
  "closed_methods = [''thread/closed'', ''thread/archived'', ''thread/deleted'']"

text \<open>The part of \<open>observe\<close> that follows the published status; then the promise it settles.\<close>

definition observe_status :: "jobj \<Rightarrow> recovery \<Rightarrow> recovery" where
  "observe_status m st =
     (case (rprop m ''params'', sprop m ''method'') of
        (Some params, Some meth) \<Rightarrow>
          (case sprop params ''threadId'' of
             None \<Rightarrow> st
           | Some t \<Rightarrow>
               if meth \<in> set closed_methods
               then st\<lparr>rv_subscribed := removeAll t (rv_subscribed st), rv_published := jm_del (rv_published st) t\<rparr>
               else if meth = ''thread/status/changed'' \<and> jm_get (rv_published st) t \<noteq> None
               then (case thread_status (oget params ''status'') of
                       None \<Rightarrow> st
                     | Some status \<Rightarrow> st\<lparr>rv_published := jm_set (rv_published st) t status\<rparr>)
               else st)
      | _ \<Rightarrow> st)"

definition recovery_prefix :: string where
  "recovery_prefix = ''bridge_recovery_''"

definition settled_by :: "jobj \<Rightarrow> recovery \<Rightarrow> (string \<times> (string + json option)) option" where
  "settled_by m st =
     (case (is_rpc_response m, sprop m ''id'') of
        (True, Some i) \<Rightarrow>
          (case jm_get (rv_pending st) i of
             None \<Rightarrow> None
           | Some meth \<Rightarrow>
               Some (i, if truthy (oget m ''error'') then Inl (''Official thread recovery request failed: '' @ meth)
                        else Inr (oget m ''result'')))
      | _ \<Rightarrow> None)"

definition observe :: "jobj \<Rightarrow> recovery \<Rightarrow> recovery \<times> bool" where
  "observe m st =
     (case settled_by m st of
        Some (i, _) \<Rightarrow> (st\<lparr>rv_pending := jm_del (rv_pending st) i\<rparr>, True)
      | None \<Rightarrow>
          if is_rpc_response m \<and> (case sprop m ''id'' of None \<Rightarrow> False | Some i \<Rightarrow> starts_with recovery_prefix i)
          then (st, True) else (observe_status m st, False))"

text \<open>A message of the server that the recovery does not take is observed by the index.\<close>

definition arrives :: "jobj \<Rightarrow> recovery \<Rightarrow> recovery" where
  "arrives m st =
     (case observe m st of
        (st1, True) \<Rightarrow> st1
      | (st1, False) \<Rightarrow>
          (case sprop m ''method'' of
             None \<Rightarrow> st1
           | Some meth \<Rightarrow> st1\<lparr>rv_index := index_notification meth (oget m ''params'') (rv_index st1)\<rparr>))"

definition dispose :: "recovery \<Rightarrow> recovery" where
  "dispose st = st\<lparr>rv_disposed := True, rv_pending := [], rv_subscribed := [], rv_published := []\<rparr>"

text \<open>Awaiting the request \<open>i\<close>.\<close>

fun await_answer :: "string \<Rightarrow> string \<Rightarrow> recovery_event list \<Rightarrow> recovery \<Rightarrow> recovery \<times> (string + json option)" where
  "await_answer i meth [] st = (st\<lparr>rv_pending := jm_del (rv_pending st) i\<rparr>, Inl (''Thread recovery timed out: '' @ meth))"
| "await_answer i meth (Arrives m # es) st =
     (case settled_by m st of
        Some (j, ans) \<Rightarrow> if j = i then (arrives m st, ans) else await_answer i meth es (arrives m st)
      | None \<Rightarrow> await_answer i meth es (arrives m st))"
| "await_answer i meth (Indexed e # es) st = await_answer i meth es (st\<lparr>rv_index := index_step (rv_index st) e\<rparr>)"
| "await_answer i meth (Root r # es) st = await_answer i meth es (st\<lparr>rv_root := r\<rparr>)"
| "await_answer i meth (Fires # es) st =
     (st\<lparr>rv_pending := jm_del (rv_pending st) i\<rparr>, Inl (''Thread recovery timed out: '' @ meth))"
| "await_answer i meth (SendFails msg # es) st = (st\<lparr>rv_pending := jm_del (rv_pending st) i\<rparr>, Inl msg)"
| "await_answer i meth (Disposes # es) st = (dispose st, Inl ''Thread recovery disposed'')"

definition ask_server ::
  "(nat \<Rightarrow> string) \<Rightarrow> (nat \<Rightarrow> recovery_event list) \<Rightarrow> string \<Rightarrow> jobj \<Rightarrow> recovery \<Rightarrow> recovery \<times> (string + json option)" where
  "ask_server uuid world meth params st =
     (if rv_disposed st then (st, Inl ''Thread recovery disposed'')
      else let n = rv_clock st; i = recovery_prefix @ uuid n in
        await_answer i meth (world n)
          (log_action (Sent (ti_selected (rv_index st)) meth params)
             (st\<lparr>rv_pending := jm_set (rv_pending st) i meth, rv_clock := Suc n\<rparr>)))"

definition emit :: "string \<Rightarrow> jobj \<Rightarrow> recovery \<Rightarrow> recovery" where
  "emit meth params st =
     log_action (Emitted [(''method'', JStr meth), (''params'', JObj params)])
       (st\<lparr>rv_index := index_notification meth (Some (JObj params)) (rv_index st)\<rparr>)"

definition publish_status :: "string \<Rightarrow> jobj \<Rightarrow> recovery \<Rightarrow> recovery \<times> bool" where
  "publish_status t status st =
     (if jm_get (rv_published st) t = Some status then (st, False)
      else let st1 = emit ''thread/status/changed'' [(''threadId'', JStr t), (''status'', JObj status)] st in
        (st1\<lparr>rv_published := jm_set (rv_published st1) t status\<rparr>, True))"

text \<open>The loaded threads, page by page: \<open>k\<close> pages are left, so the last one has \<open>k = 0\<close> after it.\<close>

definition page_of :: "json option \<Rightarrow> (string list \<times> json option) option" where
  "page_of res =
     (case as_record res of
        None \<Rightarrow> None
      | Some ob \<Rightarrow>
          (case as_array (oget ob ''data'') of
             None \<Rightarrow> None
           | Some xs \<Rightarrow>
               if list_ex (\<lambda>x. as_string (Some x) = None) xs then None
               else Some (map (\<lambda>x. the (as_string (Some x))) xs, oget ob ''nextCursor'')))"

fun list_pages ::
  "(nat \<Rightarrow> string) \<Rightarrow> (nat \<Rightarrow> recovery_event list) \<Rightarrow> nat \<Rightarrow> string option \<Rightarrow> string list \<Rightarrow> string list \<Rightarrow>
   recovery \<Rightarrow> recovery \<times> (string + string list)" where
  "list_pages uuid world 0 cursor cursors loaded st = (st, Inr loaded)"
| "list_pages uuid world (Suc k) cursor cursors loaded st =
     (case ask_server uuid world ''thread/loaded/list''
             ((''limit'', JInt 100) # (case cursor of None \<Rightarrow> [] | Some c \<Rightarrow> [(''cursor'', JStr c)])) st of
        (st1, Inl e) \<Rightarrow> (st1, Inl e)
      | (st1, Inr res) \<Rightarrow>
          (case page_of res of
             None \<Rightarrow> (st1, Inl ''Malformed loaded-thread index'')
           | Some (ids, nxt) \<Rightarrow>
               if nxt = None \<or> nxt = Some JNull then (st1, Inr (foldl set_add loaded ids))
               else (case as_string nxt of
                       None \<Rightarrow> (st1, Inl ''Malformed loaded-thread pagination'')
                     | Some c \<Rightarrow>
                         if c = [] \<or> c \<in> set cursors \<or> k = 0
                         then (st1, Inl ''Malformed loaded-thread pagination'')
                         else list_pages uuid world k (Some c) (cursors @ [c]) (foldl set_add loaded ids) st1)))"

definition drop_unlisted :: "string list \<Rightarrow> recovery \<Rightarrow> recovery" where
  "drop_unlisted loaded st =
     (let st1 = foldl (\<lambda>st t. emit ''thread/closed'' [(''threadId'', JStr t)]
                               (st\<lparr>rv_subscribed := removeAll t (rv_subscribed st)\<rparr>))
                  st (filter (\<lambda>t. t \<notin> set loaded) (rv_subscribed st)) in
      st1\<lparr>rv_published := filter (\<lambda>(t, _). t \<in> set loaded) (rv_published st1)\<rparr>)"

definition failed :: "recovery \<times> recovery_cycle \<Rightarrow> recovery \<times> recovery_cycle" where
  "failed sc = (if rv_disposed (fst sc) then sc else (fst sc, (snd sc)\<lparr>cy_errors := Suc (cy_errors (snd sc))\<rparr>))"

text \<open>The body of the loop over the loaded threads: read, resume, publish, unsubscribe.\<close>

definition own_thread :: "string option \<Rightarrow> string \<Rightarrow> json option \<Rightarrow> jobj option" where
  "own_thread root t res =
     (case as_record res of
        None \<Rightarrow> None
      | Some ob \<Rightarrow>
          (case rprop ob ''thread'' of
             None \<Rightarrow> None
           | Some th \<Rightarrow>
               if oget th ''id'' = Some (JStr t) \<and>
                  (case root of None \<Rightarrow> True | Some r \<Rightarrow> oget th ''cwd'' = Some (JStr r))
               then Some th else None))"

definition shown :: "string \<Rightarrow> recovery \<Rightarrow> bool" where
  "shown t st \<longleftrightarrow> ti_selected (rv_index st) = Some t"

definition status_is :: "string \<Rightarrow> jobj \<Rightarrow> bool" where
  "status_is ty status \<longleftrightarrow> oget status ''type'' = Some (JStr ty)"

definition unsubscribe_idle ::
  "(nat \<Rightarrow> string) \<Rightarrow> (nat \<Rightarrow> recovery_event list) \<Rightarrow> string \<Rightarrow> jobj \<Rightarrow> recovery \<times> recovery_cycle \<Rightarrow> recovery \<times> recovery_cycle" where
  "unsubscribe_idle uuid world t status sc =
     (case sc of (st, cy) \<Rightarrow>
        if status_is ''idle'' status \<and> t \<in> set (rv_subscribed st) \<and> \<not> shown t st
        then (case ask_server uuid world ''thread/unsubscribe'' [(''threadId'', JStr t)] st of
                (st1, Inl e) \<Rightarrow> failed (st1, cy)
              | (st1, Inr res) \<Rightarrow>
                  (st1\<lparr>rv_subscribed := removeAll t (rv_subscribed st1)\<rparr>, cy\<lparr>cy_unsubscribed := Suc (cy_unsubscribed cy)\<rparr>))
        else (st, cy))"

definition publish_thread ::
  "string \<Rightarrow> jobj \<Rightarrow> recovery \<times> recovery_cycle \<Rightarrow> recovery \<times> recovery_cycle" where
  "publish_thread t status sc =
     (case sc of (st, cy) \<Rightarrow>
        (case publish_status t status st of
           (st1, p) \<Rightarrow> (st1, if p then cy\<lparr>cy_published := Suc (cy_published cy)\<rparr> else cy)))"

definition resume_params :: "string \<Rightarrow> jobj" where
  "resume_params t = [(''threadId'', JStr t), (''excludeTurns'', JBool True)]"

definition resume_active ::
  "(nat \<Rightarrow> string) \<Rightarrow> (nat \<Rightarrow> recovery_event list) \<Rightarrow> string \<Rightarrow> jobj \<Rightarrow> recovery \<times> recovery_cycle \<Rightarrow>
   (recovery \<times> recovery_cycle) \<times> jobj option" where
  "resume_active uuid world t status sc =
     (case sc of (st, cy) \<Rightarrow>
        if status_is ''active'' status \<and> t \<notin> set (rv_subscribed st) \<and> \<not> shown t st
        then (case ask_server uuid world ''thread/resume'' (resume_params t) st of
                (st1, Inl e) \<Rightarrow> (failed (st1, cy), None)
              | (st1, Inr res) \<Rightarrow>
                  (case own_thread None t res of
                     None \<Rightarrow> (failed (st1, cy), None)
                   | Some th \<Rightarrow>
                       ((st1\<lparr>rv_subscribed := set_add (rv_subscribed st1) t\<rparr>, cy\<lparr>cy_resumed := Suc (cy_resumed cy)\<rparr>),
                        Some (case thread_status (oget th ''status'') of Some s \<Rightarrow> s | None \<Rightarrow> status))))
        else ((st, cy), Some status))"

definition visit_thread ::
  "(nat \<Rightarrow> string) \<Rightarrow> (nat \<Rightarrow> recovery_event list) \<Rightarrow> recovery \<times> recovery_cycle \<Rightarrow> string \<Rightarrow> recovery \<times> recovery_cycle" where
  "visit_thread uuid world sc t =
     (case sc of (st, cy) \<Rightarrow>
        (case ask_server uuid world ''thread/read'' [(''threadId'', JStr t), (''includeTurns'', JBool False)] st of
           (st1, Inl e) \<Rightarrow> failed (st1, cy)
         | (st1, Inr res) \<Rightarrow>
             (case own_thread (rv_root st1) t res of
                None \<Rightarrow> (st1, cy)
              | Some th \<Rightarrow>
                  (case thread_status (oget th ''status'') of
                     None \<Rightarrow> failed (st1, cy)
                   | Some status \<Rightarrow>
                       (case resume_active uuid world t status (st1, cy\<lparr>cy_matching := Suc (cy_matching cy)\<rparr>) of
                          (sc1, None) \<Rightarrow> sc1
                        | (sc1, Some status1) \<Rightarrow>
                            unsubscribe_idle uuid world t status1 (publish_thread t status1 sc1))))))"

definition finish_cycle :: "recovery \<times> recovery_cycle \<Rightarrow> recovery" where
  "finish_cycle sc =
     (case sc of (st, cy) \<Rightarrow>
        let st1 = st\<lparr>rv_refreshing := False\<rparr> in
        if rv_disposed st1 then st1 else log_action (Reported cy) st1)"

definition refresh :: "(nat \<Rightarrow> string) \<Rightarrow> (nat \<Rightarrow> recovery_event list) \<Rightarrow> recovery \<Rightarrow> recovery" where
  "refresh uuid world st =
     (if rv_refreshing st \<or> rv_disposed st then st
      else
        (case list_pages uuid world 100 None [] [] (st\<lparr>rv_refreshing := True\<rparr>) of
           (st1, Inl e) \<Rightarrow> finish_cycle (failed (st1, new_cycle))
         | (st1, Inr loaded) \<Rightarrow>
             finish_cycle (foldl (visit_thread uuid world)
               (drop_unlisted loaded st1, new_cycle\<lparr>cy_listed := length loaded\<rparr>) loaded)))"

datatype recovery_op =
    Refresh "nat \<Rightarrow> recovery_event list"
  | Meanwhile recovery_event

fun meanwhile :: "recovery_event \<Rightarrow> recovery \<Rightarrow> recovery" where
  "meanwhile (Arrives m) st = arrives m st"
| "meanwhile (Indexed e) st = st\<lparr>rv_index := index_step (rv_index st) e\<rparr>"
| "meanwhile (Root r) st = st\<lparr>rv_root := r\<rparr>"
| "meanwhile Disposes st = dispose st"
| "meanwhile _ st = st"

fun recovery_step :: "(nat \<Rightarrow> string) \<Rightarrow> recovery \<Rightarrow> recovery_op \<Rightarrow> recovery" where
  "recovery_step uuid st (Refresh world) = refresh uuid world st"
| "recovery_step uuid st (Meanwhile e) = meanwhile e st"

section \<open>The recovery leaves the shown thread alone\<close>

definition resumed_in :: "recovery_action list \<Rightarrow> string \<Rightarrow> bool" where
  "resumed_in pre t =
     list_ex (\<lambda>a. case a of Sent sel meth params \<Rightarrow> meth = ''thread/resume'' \<and> params = resume_params t | _ \<Rightarrow> False) pre"

fun allowed_after :: "recovery_action list \<Rightarrow> recovery_action \<Rightarrow> bool" where
  "allowed_after pre (Sent sel meth params) =
     (if meth = ''thread/resume''
      then (case sprop params ''threadId'' of None \<Rightarrow> False | Some t \<Rightarrow> params = resume_params t \<and> sel \<noteq> Some t)
      else if meth = ''thread/unsubscribe''
      then (case sprop params ''threadId'' of None \<Rightarrow> False | Some t \<Rightarrow> sel \<noteq> Some t \<and> resumed_in pre t)
      else meth = ''thread/loaded/list'' \<or> meth = ''thread/read'')"
| "allowed_after pre _ = True"

fun all_allowed :: "recovery_action list \<Rightarrow> recovery_action list \<Rightarrow> bool" where
  "all_allowed pre [] = True"
| "all_allowed pre (a # as) = (allowed_after pre a \<and> all_allowed (pre @ [a]) as)"

lemma all_allowed_append: "all_allowed pre (xs @ ys) = (all_allowed pre xs \<and> all_allowed (pre @ xs) ys)"
  by (induction xs arbitrary: pre) auto

lemma resumed_in_append [simp]: "resumed_in (xs @ ys) t = (resumed_in xs t \<or> resumed_in ys t)"
  by (simp add: resumed_in_def)

definition rec_inv :: "recovery \<Rightarrow> bool" where
  "rec_inv st \<longleftrightarrow>
     all_allowed [] (rv_log st) \<and> list_all (resumed_in (rv_log st)) (rv_subscribed st) \<and> rv_pending st = []"

text \<open>One stretch of a cycle: at most \<open>n\<close> requests, the invariant kept.\<close>

definition stretch :: "nat \<Rightarrow> recovery \<Rightarrow> recovery \<Rightarrow> bool" where
  "stretch n st st' \<longleftrightarrow>
     (rec_inv st \<longrightarrow> rec_inv st') \<and> rv_clock st' \<le> rv_clock st + n \<and> rv_refreshing st' = rv_refreshing st"

lemma stretch_refl: "stretch n st st"
  by (simp add: stretch_def)

lemma stretch_trans: "stretch a st st1 \<Longrightarrow> stretch b st1 st2 \<Longrightarrow> stretch (a + b) st st2"
  by (auto simp: stretch_def)

lemma stretch_mono: "stretch a st st' \<Longrightarrow> a \<le> b \<Longrightarrow> stretch b st st'"
  by (auto simp: stretch_def)

lemma stretch_foldl:
  assumes "\<And>st x. stretch a st (f st x)"
  shows "stretch (a * length xs) st (foldl f st xs)"
proof (induction xs arbitrary: st)
  case (Cons x xs)
  show ?case using stretch_trans [OF assms Cons.IH, of st x] by simp
qed (simp add: stretch_refl)

text \<open>What waiting may change.\<close>

definition waits :: "recovery \<Rightarrow> recovery \<Rightarrow> bool" where
  "waits st st' \<longleftrightarrow>
     rv_log st' = rv_log st \<and> set (rv_subscribed st') \<subseteq> set (rv_subscribed st) \<and>
     set (rv_pending st') \<subseteq> set (rv_pending st) \<and> rv_clock st' = rv_clock st \<and>
     rv_refreshing st' = rv_refreshing st"

lemma waits_refl [simp]: "waits st st"
  by (simp add: waits_def)

lemma waits_trans: "waits st st1 \<Longrightarrow> waits st1 st2 \<Longrightarrow> waits st st2"
  by (auto simp: waits_def)

lemma waits_pending: "waits st (st\<lparr>rv_pending := jm_del (rv_pending st) i\<rparr>)"
  by (auto simp: waits_def set_jm_del)

lemma waits_dispose: "waits st (dispose st)"
  by (simp add: waits_def dispose_def)

lemma waits_index: "waits st (st\<lparr>rv_index := ix\<rparr>)" "waits st (st\<lparr>rv_root := r\<rparr>)"
  by (simp_all add: waits_def)

lemma waits_observe_status: "waits st (observe_status m st)"
  by (auto simp: waits_def observe_status_def split: option.split)

lemma waits_observe: "waits st (fst (observe m st))"
  by (auto simp: observe_def waits_pending waits_observe_status split: option.split)

lemma waits_arrives: "waits st (arrives m st)"
proof -
  have "waits (fst (observe m st)) (arrives m st)"
    by (auto simp: arrives_def waits_index split: prod.split bool.split option.split)
  with waits_observe show ?thesis by (rule waits_trans)
qed

lemma waits_meanwhile: "waits st (meanwhile e st)"
  by (cases e) (simp_all add: waits_arrives waits_index waits_dispose)

lemma waits_rec_inv: "waits st st' \<Longrightarrow> rec_inv st \<Longrightarrow> rec_inv st'"
  by (auto simp: waits_def rec_inv_def list_all_iff)

lemma settled_pending: "settled_by m st = Some (i, ans) \<Longrightarrow> rv_pending (arrives m st) = jm_del (rv_pending st) i"
  by (simp add: arrives_def observe_def)

lemma await_waits:
  "waits st (fst (await_answer i meth es st)) \<and> i \<notin> fst ` set (rv_pending (fst (await_answer i meth es st)))"
proof (induction i meth es st rule: await_answer.induct)
  case (2 i meth m es st)
  show ?case
  proof (cases "settled_by m st")
    case None
    then show ?thesis using "2.IH"(1) [OF None] waits_arrives [of st m] by (auto intro: waits_trans)
  next
    case (Some p)
    obtain j ans where p: "p = (j, ans)" by (cases p)
    show ?thesis
    proof (cases "j = i")
      case True
      then show ?thesis using Some p waits_arrives [of st m] settled_pending [of m st i ans]
        by (auto simp: set_jm_del)
    next
      case False
      then show ?thesis using "2.IH"(2) [OF Some p [symmetric] False] Some p waits_arrives [of st m] by (auto intro: waits_trans)
    qed
  qed
qed (auto simp: waits_pending waits_dispose set_jm_del intro: waits_trans waits_index, simp add: dispose_def)

lemma ask_stretch:
  assumes "rec_inv st \<Longrightarrow> allowed_after (rv_log st) (Sent (ti_selected (rv_index st)) meth params)"
  shows "stretch 1 st (fst (ask_server uuid world meth params st))"
proof (cases "rv_disposed st")
  case False
  define i where "i = recovery_prefix @ uuid (rv_clock st)"
  define st1 where "st1 = log_action (Sent (ti_selected (rv_index st)) meth params)
    (st\<lparr>rv_pending := jm_set (rv_pending st) i meth, rv_clock := Suc (rv_clock st)\<rparr>)"
  define st2 where "st2 = fst (await_answer i meth (world (rv_clock st)) st1)"
  have st2: "fst (ask_server uuid world meth params st) = st2"
    using False by (simp add: ask_server_def Let_def i_def st1_def st2_def)
  have w: "waits st1 st2" "i \<notin> fst ` set (rv_pending st2)"
    using await_waits [of st1 i meth "world (rv_clock st)"] by (auto simp: st2_def)
  have "rec_inv st2" if inv: "rec_inv st"
  proof -
    have "set (rv_pending st2) \<subseteq> {(i, meth)}"
      using w(1) inv by (auto simp: waits_def st1_def log_action_def rec_inv_def jm_set_def)
    with w(2) have "rv_pending st2 = []" by (cases "rv_pending st2") auto
    then show ?thesis
      using w(1) inv assms [OF inv]
      by (auto simp: waits_def st1_def log_action_def rec_inv_def all_allowed_append list_all_iff)
  qed
  then show ?thesis using w(1) by (auto simp: st2 stretch_def waits_def st1_def log_action_def)
qed (simp add: ask_server_def stretch_def)

lemma ask_sent:
  assumes "ask_server uuid world meth params st = (st1, Inr res)"
  shows "Sent (ti_selected (rv_index st)) meth params \<in> set (rv_log st1)"
proof -
  let ?i = "recovery_prefix @ uuid (rv_clock st)"
  let ?st = "log_action (Sent (ti_selected (rv_index st)) meth params)
    (st\<lparr>rv_pending := jm_set (rv_pending st) ?i meth, rv_clock := Suc (rv_clock st)\<rparr>)"
  have "waits ?st st1"
    using assms await_waits [of ?st ?i meth "world (rv_clock st)"]
    by (auto simp: ask_server_def Let_def split: if_splits)
  then show ?thesis by (simp add: waits_def log_action_def)
qed

text \<open>The changes of the state between requests.\<close>

lemma stretch_subscribed:
  "resumed_in (rv_log st) t \<Longrightarrow> stretch 0 st (st\<lparr>rv_subscribed := set_add (rv_subscribed st) t\<rparr>)"
  by (auto simp: stretch_def rec_inv_def list_all_iff)

lemma stretch_emit: "stretch 0 st (emit meth params st)"
  by (simp add: stretch_def rec_inv_def emit_def log_action_def all_allowed_append list_all_iff)

lemma stretch_publish: "stretch 0 st (st\<lparr>rv_published := p\<rparr>)"
  by (simp add: stretch_def rec_inv_def)

lemma stretch_unsubscribed: "set ts \<subseteq> set (rv_subscribed st) \<Longrightarrow> stretch 0 st (st\<lparr>rv_subscribed := ts\<rparr>)"
  by (auto simp: stretch_def rec_inv_def list_all_iff)

lemma stretch_drop_unlisted: "stretch 0 st (drop_unlisted loaded st)"
proof -
  have one: "stretch 0 st (emit ''thread/closed'' p (st\<lparr>rv_subscribed := removeAll t (rv_subscribed st)\<rparr>))" for st t p
    using stretch_trans [OF stretch_unsubscribed stretch_emit, of "removeAll t (rv_subscribed st)" st] by auto
  have "stretch 0 st (foldl (\<lambda>st t. emit ''thread/closed'' [(''threadId'', JStr t)]
      (st\<lparr>rv_subscribed := removeAll t (rv_subscribed st)\<rparr>)) st ts)" for ts
    using stretch_foldl [of 0 "\<lambda>st t. emit ''thread/closed'' [(''threadId'', JStr t)]
      (st\<lparr>rv_subscribed := removeAll t (rv_subscribed st)\<rparr>)", OF one, of ts st] by simp
  then show ?thesis unfolding drop_unlisted_def Let_def
    using stretch_trans [OF _ stretch_publish, of 0] by simp
qed

lemma stretch_publish_status: "stretch 0 st (fst (publish_status t status st))"
  unfolding publish_status_def Let_def
  using stretch_trans [OF stretch_emit stretch_publish] by (simp add: stretch_refl)

lemma ask_plain:
  "meth = ''thread/loaded/list'' \<or> meth = ''thread/read'' \<Longrightarrow> stretch 1 st (fst (ask_server uuid world meth params st))"
  by (rule ask_stretch) auto

lemma stretch_list_pages:
  "stretch k st (fst (list_pages uuid world k cursor cursors loaded st))"
proof (induction k arbitrary: cursor cursors loaded st)
  case (Suc k)
  let ?ask = "ask_server uuid world ''thread/loaded/list''
    ((''limit'', JInt 100) # (case cursor of None \<Rightarrow> [] | Some c \<Rightarrow> [(''cursor'', JStr c)])) st"
  obtain st1 r where ask: "?ask = (st1, r)" by (cases ?ask)
  have one: "stretch 1 st st1" using ask_plain [of "''thread/loaded/list''" st] ask by (metis fst_conv)
  show ?case
  proof (cases "fst (list_pages uuid world (Suc k) cursor cursors loaded st) = st1")
    case True
    with one show ?thesis by (simp add: stretch_mono)
  next
    case False
    then obtain c cs l where
      "fst (list_pages uuid world (Suc k) cursor cursors loaded st) = fst (list_pages uuid world k c cs l st1)"
      using ask by (auto split: sum.splits option.splits if_splits)
    then show ?thesis using stretch_trans [OF one Suc.IH] by simp
  qed
qed (simp add: stretch_refl)

text \<open>A visited thread: at most three requests, at most one error.\<close>

definition counts_ok :: "nat \<Rightarrow> recovery_cycle \<Rightarrow> bool" where
  "counts_ok n cy \<longleftrightarrow>
     cy_matching cy \<le> n \<and> cy_errors cy \<le> n \<and> cy_resumed cy \<le> cy_matching cy \<and>
     cy_published cy \<le> cy_matching cy \<and> cy_unsubscribed cy \<le> cy_matching cy"

lemma fst_failed [simp]: "fst (failed sc) = fst sc"
  by (simp add: failed_def)

lemma stretch_publish_thread: "stretch 0 (fst sc) (fst (publish_thread t status sc))"
  using stretch_publish_status [of "fst sc" t status]
  by (auto simp: publish_thread_def split: prod.split)

lemma stretch_resume: "stretch 1 (fst sc) (fst (fst (resume_active uuid world t status sc)))"
proof -
  obtain st cy where sc: "sc = (st, cy)" by (cases sc)
  show ?thesis
  proof (cases "status_is ''active'' status \<and> t \<notin> set (rv_subscribed st) \<and> \<not> shown t st")
    case True
    obtain st1 r where ask: "ask_server uuid world ''thread/resume'' (resume_params t) st = (st1, r)"
      by (cases "ask_server uuid world ''thread/resume'' (resume_params t) st")
    have one: "stretch 1 st st1"
      using ask_stretch [of st "''thread/resume''" "resume_params t" uuid world] ask True
      by (simp add: shown_def resume_params_def oget_def jm_get_def)
    have two: "stretch 0 st1 (st1\<lparr>rv_subscribed := set_add (rv_subscribed st1) t\<rparr>)" if "r = Inr res" for res
      using ask_sent [of uuid world "''thread/resume''" "resume_params t" st st1 res] ask that
      by (intro stretch_subscribed) (force simp: resumed_in_def list_ex_iff)
    show ?thesis
      using one stretch_trans [OF one two] ask True
      by (auto simp: resume_active_def sc split: sum.split option.split)
  next
    case False
    then show ?thesis using stretch_refl by (auto simp: resume_active_def sc)
  qed
qed

lemma stretch_unsubscribe: "stretch 1 (fst sc) (fst (unsubscribe_idle uuid world t status sc))"
proof -
  obtain st cy where sc: "sc = (st, cy)" by (cases sc)
  show ?thesis
  proof (cases "status_is ''idle'' status \<and> t \<in> set (rv_subscribed st) \<and> \<not> shown t st")
    case True
    obtain st1 r where ask: "ask_server uuid world ''thread/unsubscribe'' [(''threadId'', JStr t)] st = (st1, r)"
      by (cases "ask_server uuid world ''thread/unsubscribe'' [(''threadId'', JStr t)] st")
    have one: "stretch 1 st st1"
      using ask_stretch [of st "''thread/unsubscribe''" "[(''threadId'', JStr t)]" uuid world] ask True
      by (simp add: shown_def oget_def jm_get_def rec_inv_def list_all_iff)
    have two: "stretch 0 st1 (st1\<lparr>rv_subscribed := removeAll t (rv_subscribed st1)\<rparr>)"
      by (rule stretch_unsubscribed) auto
    show ?thesis
      using one stretch_trans [OF one two] ask True
      by (auto simp: unsubscribe_idle_def sc split: sum.split)
  next
    case False
    then show ?thesis using stretch_refl by (auto simp: unsubscribe_idle_def sc)
  qed
qed

lemma stretch_visit: "stretch 3 (fst sc) (fst (visit_thread uuid world sc t))"
proof -
  obtain st cy where sc: "sc = (st, cy)" by (cases sc)
  obtain st1 r where ask:
    "ask_server uuid world ''thread/read'' [(''threadId'', JStr t), (''includeTurns'', JBool False)] st = (st1, r)"
    by (cases "ask_server uuid world ''thread/read'' [(''threadId'', JStr t), (''includeTurns'', JBool False)] st")
  have one: "stretch 1 st st1" using ask_plain [of "''thread/read''" st] ask by (metis fst_conv)
  have two: "stretch 2 st (fst sc1)" if "resume_active uuid world t s (st1, cy1) = (sc1, x)" for s cy1 sc1 x
    using stretch_trans [OF one] stretch_resume [of "(st1, cy1)" uuid world t s] that by (fastforce simp: numeral_2_eq_2)
  have three: "stretch 3 st (fst (unsubscribe_idle uuid world t s2 (publish_thread t s2 sc1)))"
    if "resume_active uuid world t s (st1, cy1) = (sc1, x)" for s cy1 sc1 x s2
    using stretch_trans [OF stretch_trans [OF two [OF that] stretch_publish_thread] stretch_unsubscribe] by simp
  show ?thesis
    using ask stretch_mono [OF one, of 3] stretch_mono [OF two, of _ _ _ _ 3] three
    by (fastforce simp: visit_thread_def sc split: sum.split option.split prod.split)
qed

lemma resume_counts:
  "resume_active uuid world t status (st, cy) = ((st1, cy1), r) \<Longrightarrow>
   cy1 = cy \<or> r \<noteq> None \<and> cy1 = cy\<lparr>cy_resumed := Suc (cy_resumed cy)\<rparr> \<or>
   r = None \<and> cy1 = cy\<lparr>cy_errors := Suc (cy_errors cy)\<rparr>"
  by (auto simp: resume_active_def failed_def split: if_splits prod.splits sum.splits option.splits)

lemma publish_counts:
  "publish_thread t status (st, cy) = (st1, cy1) \<Longrightarrow>
   cy1 = cy \<or> cy1 = cy\<lparr>cy_published := Suc (cy_published cy)\<rparr>"
  by (auto simp: publish_thread_def split: if_splits prod.splits)

lemma unsubscribe_counts:
  "unsubscribe_idle uuid world t status (st, cy) = (st1, cy1) \<Longrightarrow>
   cy1 = cy \<or> cy1 = cy\<lparr>cy_unsubscribed := Suc (cy_unsubscribed cy)\<rparr> \<or>
   cy1 = cy\<lparr>cy_errors := Suc (cy_errors cy)\<rparr>"
  by (auto simp: unsubscribe_idle_def failed_def split: if_splits prod.splits sum.splits)

lemma visit_counts:
  assumes "counts_ok n cy" "visit_thread uuid world (st, cy) t = (st', cy')"
  shows "counts_ok (Suc n) cy' \<and> cy_listed cy' = cy_listed cy"
proof -
  let ?cy = "cy\<lparr>cy_matching := Suc (cy_matching cy)\<rparr>"
  consider "cy' = cy" | "cy' = cy\<lparr>cy_errors := Suc (cy_errors cy)\<rparr>" |
    s st1 where "resume_active uuid world t s (st1, ?cy) = ((st', cy'), None)" |
    s st1 sc1 s1 where "resume_active uuid world t s (st1, ?cy) = (sc1, Some s1)"
      "unsubscribe_idle uuid world t s1 (publish_thread t s1 sc1) = (st', cy')"
    using assms(2)
    by (auto simp: visit_thread_def failed_def split: if_splits prod.splits sum.splits option.splits)
  then show ?thesis
  proof cases
    case (3 s st1)
    then show ?thesis using assms(1) resume_counts [OF 3] by (auto simp: counts_ok_def)
  next
    case (4 s st1 sc1 s1)
    obtain st2 cy2 where sc1: "sc1 = (st2, cy2)" by (cases sc1)
    obtain st3 cy3 where p: "publish_thread t s1 sc1 = (st3, cy3)" by (cases "publish_thread t s1 sc1")
    show ?thesis
      using assms(1) resume_counts [OF 4(1) [unfolded sc1]] publish_counts [OF p [unfolded sc1]]
        unsubscribe_counts [OF 4(2) [unfolded p]]
      by (auto simp: counts_ok_def)
  qed (use assms(1) in \<open>auto simp: counts_ok_def\<close>)
qed

lemma visits_counts:
  "counts_ok n cy \<Longrightarrow> foldl (visit_thread uuid world) (st, cy) ts = (st', cy') \<Longrightarrow>
   counts_ok (n + length ts) cy' \<and> cy_listed cy' = cy_listed cy"
proof (induction ts arbitrary: n st cy)
  case (Cons t ts)
  obtain st1 cy1 where v: "visit_thread uuid world (st, cy) t = (st1, cy1)" by (cases "visit_thread uuid world (st, cy) t")
  show ?case using Cons.IH [of "Suc n" cy1 st1] visit_counts [OF Cons.prems(1) v] Cons.prems(2) v by simp
qed simp

lemma stretch_visits: "stretch (3 * length ts) (fst sc) (fst (foldl (visit_thread uuid world) sc ts))"
proof (induction ts arbitrary: sc)
  case (Cons t ts)
  show ?case using stretch_trans [OF stretch_visit Cons.IH, of sc uuid world t] by simp
qed (simp add: stretch_refl)

lemma stretch_refreshing: "rec_inv (st\<lparr>rv_refreshing := b\<rparr>) = rec_inv st"
  by (simp add: rec_inv_def)

lemma rec_inv_finish: "rec_inv (fst sc) \<Longrightarrow> rec_inv (finish_cycle sc)"
  by (cases sc) (simp add: finish_cycle_def rec_inv_def log_action_def all_allowed_append list_all_iff Let_def)

lemma finish_simps [simp]:
  "rv_refreshing (finish_cycle sc) = False" "rv_clock (finish_cycle sc) = rv_clock (fst sc)"
  "rv_disposed (finish_cycle sc) = rv_disposed (fst sc)"
  by (cases sc; simp add: finish_cycle_def log_action_def Let_def)+

lemma finish_reports: "\<not> rv_disposed (fst sc) \<Longrightarrow> rv_log (finish_cycle sc) = rv_log (fst sc) @ [Reported (snd sc)]"
  by (cases sc) (simp add: finish_cycle_def log_action_def Let_def)

text \<open>A cycle is the listing and the visits, then its report.\<close>

lemma refresh_cases:
  assumes "\<not> rv_refreshing st" "\<not> rv_disposed st"
  obtains sc n where "refresh uuid world st = finish_cycle sc" "stretch (100 + 3 * n) (st\<lparr>rv_refreshing := True\<rparr>) (fst sc)"
    "\<not> rv_disposed (fst sc) \<Longrightarrow> cy_listed (snd sc) = n \<and> counts_ok (max 1 n) (snd sc)"
proof -
  let ?st = "st\<lparr>rv_refreshing := True\<rparr>"
  obtain st1 r where pages: "list_pages uuid world 100 None [] [] ?st = (st1, r)"
    by (cases "list_pages uuid world 100 None [] [] ?st")
  have one: "stretch 100 ?st st1" using stretch_list_pages [of 100 ?st uuid world None "[]" "[]"] pages by simp
  show thesis
  proof (cases r)
    case (Inl e)
    then show ?thesis using that [of "failed (st1, new_cycle)" 0] one pages assms
      by (auto simp: refresh_def failed_def counts_ok_def new_cycle_def)
  next
    case (Inr loaded)
    let ?cy = "new_cycle\<lparr>cy_listed := length loaded\<rparr>"
    obtain st2 cy2 where v: "foldl (visit_thread uuid world) (drop_unlisted loaded st1, ?cy) loaded = (st2, cy2)"
      by (cases "foldl (visit_thread uuid world) (drop_unlisted loaded st1, ?cy) loaded")
    have "stretch (100 + 0 + 3 * length loaded) ?st st2"
      using stretch_trans [OF stretch_trans [OF one stretch_drop_unlisted]
          stretch_visits [of loaded "(drop_unlisted loaded st1, ?cy)" uuid world, simplified]] v by simp
    moreover
    have "counts_ok (0 + length loaded) cy2 \<and> cy_listed cy2 = cy_listed ?cy"
      using visits_counts [OF _ v, of 0] by (simp add: counts_ok_def new_cycle_def)
    then have "cy_listed cy2 = length loaded" "counts_ok (max 1 (length loaded)) cy2" by (auto simp: counts_ok_def)
    ultimately show ?thesis using that [of "(st2, cy2)" "length loaded"] pages Inr v assms
      by (simp add: refresh_def)
  qed
qed

definition recovery_ok :: "recovery \<Rightarrow> bool" where
  "recovery_ok st \<longleftrightarrow> rec_inv st \<and> \<not> rv_refreshing st"

lemma recovery_ok_new: "recovery_ok (new_recovery root ix)"
  by (simp add: recovery_ok_def rec_inv_def new_recovery_def)

lemma recovery_ok_refresh: "recovery_ok st \<Longrightarrow> recovery_ok (refresh uuid world st)"
proof (cases "rv_disposed st")
  case False
  assume ok: "recovery_ok st"
  obtain sc n where "refresh uuid world st = finish_cycle sc" "stretch (100 + 3 * n) (st\<lparr>rv_refreshing := True\<rparr>) (fst sc)"
    using refresh_cases [of st uuid world] ok False unfolding recovery_ok_def by metis
  with ok show ?thesis by (simp add: recovery_ok_def stretch_def stretch_refreshing rec_inv_finish)
qed (simp add: refresh_def)

interpretation recovery: invariant_machine "recovery_step uuid" recovery_ok
proof
  fix st e
  assume ok: "recovery_ok st"
  show "recovery_ok (recovery_step uuid st e)"
  proof (cases e)
    case (Refresh world)
    then show ?thesis using recovery_ok_refresh [OF ok] by simp
  next
    case (Meanwhile ev)
    then show ?thesis using waits_meanwhile [of st ev] waits_rec_inv [OF waits_meanwhile] ok
      by (simp add: recovery_ok_def waits_def)
  qed
qed

lemma all_allowed_split: "all_allowed pre (xs @ a # ys) \<Longrightarrow> allowed_after (pre @ xs) a"
  by (simp add: all_allowed_append)

definition recovery_answer :: "nat \<Rightarrow> jobj \<Rightarrow> recovery_event list" where
  "recovery_answer n res =
     [Arrives [(''id'', JStr (recovery_prefix @ replicate n (CHR ''u''))), (''result'', JObj res)]]"

definition active_thread :: jobj where
  "active_thread =
     [(''thread'', JObj [(''id'', JStr ''t''), (''cwd'', JStr ''/w''),
        (''status'', JObj [(''type'', JStr ''active'')])])]"

definition recovery_world :: "nat \<Rightarrow> recovery_event list" where
  "recovery_world n =
     (if n = 0 then recovery_answer 0 [(''data'', JArr [JStr ''t'']), (''nextCursor'', JNull)]
      else if n < 3 then recovery_answer n active_thread else [])"

definition recovery_uuid :: "nat \<Rightarrow> string" where
  "recovery_uuid n = replicate n (CHR ''u'')"

text \<open>C29. The recovery leaves the shown thread alone. In the log of what it asks the server, over any
  number of cycles and whatever happens while it waits, there are only listings, reads, resumes
  and unsubscribes; it resumes a thread (without its history) and unsubscribes from a thread only
  while the editor does not show it, and it unsubscribes only from threads it has resumed itself.
\<close>

theorem recovery_spares_shown:
  assumes "rv_log (run (recovery_step uuid) (new_recovery root ix) ops) = xs @ Sent sel meth params # ys"
  shows "meth \<in> {''thread/loaded/list'', ''thread/read'', ''thread/resume'', ''thread/unsubscribe''} \<and>
    (meth = ''thread/resume'' \<longrightarrow> (\<exists>t. params = resume_params t \<and> sel \<noteq> Some t)) \<and>
    (meth = ''thread/unsubscribe'' \<longrightarrow> (\<exists>t. sprop params ''threadId'' = Some t \<and> sel \<noteq> Some t \<and> resumed_in xs t))"
proof -
  have "recovery_ok (run (recovery_step uuid) (new_recovery root ix) ops)"
    by (rule recovery.run_inv) (rule recovery_ok_new)
  then have "all_allowed [] (xs @ Sent sel meth params # ys)"
    using assms by (simp add: recovery_ok_def rec_inv_def)
  then have "allowed_after xs (Sent sel meth params)" using all_allowed_split by fastforce
  then show ?thesis by (auto split: if_splits option.splits)
qed

lemma recovery_spares_shown_witness:
  "\<exists>xs ys. rv_log (run (recovery_step recovery_uuid) (new_recovery (Some ''/w'') new_index) [Refresh recovery_world]) =
     xs @ Sent None ''thread/resume'' (resume_params ''t'') # ys \<and> length xs = 2 \<and> None \<noteq> Some ''t''"
proof -
  let ?log = "rv_log (run (recovery_step recovery_uuid) (new_recovery (Some ''/w'') new_index) [Refresh recovery_world])"
  have "?log = take 2 ?log @ Sent None ''thread/resume'' (resume_params ''t'') # drop 3 ?log" "length (take 2 ?log) = 2"
    by code_simp+
  with recovery_spares_shown [OF this(1)] show ?thesis by (metis option.distinct(1))
qed

text \<open>C30. A recovery cycle ends, and its cost is bounded by what it found. Whatever the server answers,
  or if it never answers, a cycle started at rest leaves no request pending and the guard against
  a second cycle open; unless the session ended meanwhile, its last act is its report, it has
  sent at most a hundred requests and three for every listed thread, and the numbers reported are
  in order.
\<close>

theorem recovery_cycle_ends:
  assumes "st = run (recovery_step uuid) (new_recovery root ix) ops" "\<not> rv_disposed st"
  shows "rv_pending (refresh uuid world st) = [] \<and> \<not> rv_refreshing (refresh uuid world st) \<and>
    (rv_disposed (refresh uuid world st) \<or>
     (\<exists>log cy. rv_log (refresh uuid world st) = log @ [Reported cy] \<and>
        rv_clock (refresh uuid world st) \<le> rv_clock st + 100 + 3 * cy_listed cy \<and>
        cy_resumed cy \<le> cy_matching cy \<and> cy_published cy \<le> cy_matching cy \<and>
        cy_unsubscribed cy \<le> cy_matching cy \<and> cy_matching cy \<le> max 1 (cy_listed cy) \<and>
        cy_errors cy \<le> max 1 (cy_listed cy)))"
proof -
  have ok: "recovery_ok st" unfolding assms(1) by (rule recovery.run_inv) (rule recovery_ok_new)
  obtain sc n where r: "refresh uuid world st = finish_cycle sc" "stretch (100 + 3 * n) (st\<lparr>rv_refreshing := True\<rparr>) (fst sc)"
    "\<not> rv_disposed (fst sc) \<Longrightarrow> cy_listed (snd sc) = n \<and> counts_ok (max 1 n) (snd sc)"
    using refresh_cases [of st uuid world] ok assms(2) unfolding recovery_ok_def by metis
  have "recovery_ok (refresh uuid world st)" using recovery_ok_refresh [OF ok] .
  moreover have "rv_disposed (fst sc) \<or> (\<exists>log cy. rv_log (refresh uuid world st) = log @ [Reported cy] \<and>
        rv_clock (refresh uuid world st) \<le> rv_clock st + 100 + 3 * cy_listed cy \<and>
        cy_resumed cy \<le> cy_matching cy \<and> cy_published cy \<le> cy_matching cy \<and>
        cy_unsubscribed cy \<le> cy_matching cy \<and> cy_matching cy \<le> max 1 (cy_listed cy) \<and>
        cy_errors cy \<le> max 1 (cy_listed cy))"
    using r by (auto simp: finish_reports stretch_def counts_ok_def)
  ultimately show ?thesis using r(1) by (auto simp: recovery_ok_def rec_inv_def)
qed

lemma recovery_cycle_ends_witness:
  "\<exists>log cy. rv_log (refresh recovery_uuid recovery_world (new_recovery (Some ''/w'') new_index)) = log @ [Reported cy] \<and>
     cy_errors cy \<le> max 1 (cy_listed cy) \<and>
     length (rv_subscribed (refresh recovery_uuid recovery_world (new_recovery (Some ''/w'') new_index))) = 1"
proof -
  let ?st = "refresh recovery_uuid recovery_world (new_recovery (Some ''/w'') new_index)"
  have "\<not> rv_disposed ?st" "length (rv_subscribed ?st) = 1" by code_simp+
  then show ?thesis
    using recovery_cycle_ends [of "new_recovery (Some ''/w'') new_index" recovery_uuid "Some ''/w''" new_index "[]" recovery_world]
    by (auto simp: new_recovery_def)
qed

end
