(* ===== verification/Requests.thy ===== *)
theory Requests
  imports Errors
begin

text \<open>
  Requests that travel under a public identifier and are answered once:
  \<^verbatim>\<open>src/shim/service-requests.ts\<close> (requests of the app server shown to every client, the first
  answer counts) and \<^verbatim>\<open>src/shim/request-callback-queue.ts\<close> (requests to a client, with a
  limit, a time limit and the end of the connection). The random part of an identifier is an
  argument. A connection and a promise are named by a number; what is sent on a connection or
  resolved is the output of a step. A lane of the queue is
  the list of its operations that have not settled, the first one running.
\<close>

section \<open>Answers\<close>

fun opened_keys :: "('e \<Rightarrow> 'k option) \<Rightarrow> 'e list \<Rightarrow> 'k list" where
  "opened_keys opens [] = []"
| "opened_keys opens (e # es) = (case opens e of None \<Rightarrow> opened_keys opens es | Some k \<Rightarrow> k # opened_keys opens es)"

lemma set_opened: "set (opened_keys opens (e # es)) = set_option (opens e) \<union> set (opened_keys opens es)"
  by (auto split: option.split)

lemma opened_append [simp]: "opened_keys opens (xs @ ys) = opened_keys opens xs @ opened_keys opens ys"
  by (induction xs) (auto split: option.split)

text \<open>A table of pending keys: an event opens a key or answers keys that are pending.\<close>

locale answer_once =
  fixes step :: "'s \<Rightarrow> 'e \<Rightarrow> 's \<times> ('k \<times> 'o) list"
    and pending :: "'s \<Rightarrow> 'k set"
    and opens :: "'e \<Rightarrow> 'k option"
    and ok :: "'s \<Rightarrow> bool"
  assumes ok_step: "ok s \<Longrightarrow> ok (fst (step s e))"
    and pending_step: "ok s \<Longrightarrow> pending (fst (step s e)) \<subseteq> pending s \<union> set_option (opens e)"
    and answers_pending: "ok s \<Longrightarrow> fst ` set (snd (step s e)) \<subseteq> pending s \<union> set_option (opens e)"
    and answers_distinct: "ok s \<Longrightarrow> distinct (map fst (snd (step s e)))"
    and answered_gone: "ok s \<Longrightarrow> set_option (opens e) \<inter> pending s = {} \<Longrightarrow>
      fst ` set (snd (step s e)) \<inter> pending (fst (step s e)) = {}"
begin

lemma answered_once:
  "ok s \<Longrightarrow> distinct (opened_keys opens es) \<Longrightarrow> set (opened_keys opens es) \<inter> pending s = {} \<Longrightarrow>
   distinct (map fst (outputs step s es)) \<and>
   fst ` set (outputs step s es) \<subseteq> pending s \<union> set (opened_keys opens es)"
proof (induction es arbitrary: s)
  case (Cons e es)
  let ?s = "fst (step s e)" and ?out = "fst ` set (snd (step s e))"
  have fresh: "set_option (opens e) \<inter> pending s = {}" "set_option (opens e) \<inter> set (opened_keys opens es) = {}"
    and es: "distinct (opened_keys opens es)" "set (opened_keys opens es) \<inter> pending s = {}"
    using Cons.prems by (auto split: option.splits)
  have sub: "pending ?s \<subseteq> pending s \<union> set_option (opens e)" "?out \<subseteq> pending s \<union> set_option (opens e)"
    using pending_step answers_pending Cons.prems(1) by auto
  then have disj: "set (opened_keys opens es) \<inter> pending ?s = {}" using es fresh by blast
  have IH: "distinct (map fst (outputs step ?s es))"
    "fst ` set (outputs step ?s es) \<subseteq> pending ?s \<union> set (opened_keys opens es)"
    using Cons.IH [OF ok_step es(1) disj] Cons.prems(1) by auto
  have "?out \<inter> (pending ?s \<union> set (opened_keys opens es)) = {}"
    using answered_gone [OF Cons.prems(1) fresh(1)] sub es fresh by blast
  with IH answers_distinct [OF Cons.prems(1)] have "distinct (map fst (outputs step s (e # es)))" by auto
  moreover have "fst ` set (outputs step s (e # es)) \<subseteq> pending s \<union> set (opened_keys opens (e # es))"
    using IH(2) sub unfolding set_opened outputs.simps set_append image_Un by blast
  ultimately show ?case ..
qed simp

end

text \<open>Where nothing is forgotten without an answer.\<close>

locale answer_all = answer_once +
  assumes conserved: "ok s \<Longrightarrow> set_option (opens e) \<inter> pending s = {} \<Longrightarrow>
    pending s \<union> set_option (opens e) \<subseteq> pending (fst (step s e)) \<union> fst ` set (snd (step s e))"
begin

lemma answered_or_pending:
  "ok s \<Longrightarrow> distinct (opened_keys opens es) \<Longrightarrow> set (opened_keys opens es) \<inter> pending s = {} \<Longrightarrow>
   pending s \<union> set (opened_keys opens es) \<subseteq>
     pending (run (\<lambda>s e. fst (step s e)) s es) \<union> fst ` set (outputs step s es)"
proof (induction es arbitrary: s)
  case (Cons e es)
  let ?s = "fst (step s e)"
  have fresh: "set_option (opens e) \<inter> pending s = {}" "set_option (opens e) \<inter> set (opened_keys opens es) = {}"
    and es: "distinct (opened_keys opens es)" "set (opened_keys opens es) \<inter> pending s = {}"
    using Cons.prems by (auto split: option.splits)
  have "pending ?s \<subseteq> pending s \<union> set_option (opens e)" using pending_step Cons.prems(1) by auto
  then have disj: "set (opened_keys opens es) \<inter> pending ?s = {}" using es fresh by blast
  from Cons.IH [OF ok_step es(1) disj] Cons.prems(1) conserved [OF Cons.prems(1) fresh(1)]
  show ?case unfolding set_opened outputs.simps set_append image_Un run.simps by blast
qed simp

end

section \<open>Service requests\<close>

definition service_request_prefix :: string where
  "service_request_prefix = ''bridge_service_request_''"

record service_request =
  sq_source :: string
  sq_message :: jobj
  sq_reply :: nat

type_synonym service_requests = "(string, service_request) jsmap"

text \<open>\<open>{ ...message, id }\<close>.\<close>

definition with_id :: "jobj \<Rightarrow> json \<Rightarrow> jobj" where
  "with_id m i = jm_set m ''id'' i"

definition publish_request :: "string \<Rightarrow> string \<Rightarrow> jobj \<Rightarrow> nat \<Rightarrow> service_requests \<Rightarrow> service_requests \<times> jobj option" where
  "publish_request uuid source m reply p =
     (if \<not> is_rpc_request m then (p, None)
      else let i = service_request_prefix @ uuid in
        (jm_set p i \<lparr>sq_source = source, sq_message = m, sq_reply = reply\<rparr>, Some (with_id m (JStr i))))"

text \<open>The public identifier a response answers.\<close>

definition answered_id :: "string \<Rightarrow> jobj \<Rightarrow> string option" where
  "answered_id prefix m =
     (if \<not> is_rpc_response m then None
      else case sprop m ''id'' of
        None \<Rightarrow> None
      | Some i \<Rightarrow> if starts_with i prefix then Some i else None)"

definition original_id :: "jobj \<Rightarrow> json" where
  "original_id m = (case rpc_id (oget m ''id'') of None \<Rightarrow> JNull | Some i \<Rightarrow> i)"

definition respond_request :: "jobj \<Rightarrow> service_requests \<Rightarrow> service_requests \<times> bool \<times> (nat \<times> jobj) option" where
  "respond_request m p =
     (case answered_id service_request_prefix m of
        None \<Rightarrow> (p, False, None)
      | Some i \<Rightarrow>
          (case jm_get p i of
             None \<Rightarrow> (p, True, None)
           | Some q \<Rightarrow>
               if is_rpc_request (sq_message q)
               then (jm_del p i, True, Some (sq_reply q, with_id m (original_id (sq_message q))))
               else (p, True, None)))"

definition replay_requests :: "service_requests \<Rightarrow> jobj list" where
  "replay_requests p = map (\<lambda>(i, q). with_id (sq_message q) (JStr i)) p"

definition has_source :: "string \<Rightarrow> service_requests \<Rightarrow> bool" where
  "has_source source p \<longleftrightarrow> list_ex (\<lambda>(i, q). sq_source q = source) p"

definition remove_source :: "string \<Rightarrow> service_requests \<Rightarrow> service_requests" where
  "remove_source source p = filter (\<lambda>(i, q). sq_source q \<noteq> source) p"

datatype service_event =
    Publish string string jobj nat
  | Respond jobj
  | RemoveSource string

text \<open>The answers of a step: the public identifier, the connection and what is sent on it.\<close>

fun service_step :: "service_requests \<Rightarrow> service_event \<Rightarrow> service_requests \<times> (string \<times> nat \<times> jobj) list" where
  "service_step p (Publish uuid source m reply) = (fst (publish_request uuid source m reply p), [])"
| "service_step p (Respond m) =
     (case respond_request m p of
        (p', handled, None) \<Rightarrow> (p', [])
      | (p', handled, Some r) \<Rightarrow> (p', case answered_id service_request_prefix m of None \<Rightarrow> [] | Some i \<Rightarrow> [(i, r)]))"
| "service_step p (RemoveSource source) = (remove_source source p, [])"

fun published :: "service_event \<Rightarrow> string option" where
  "published (Publish uuid source m reply) = Some (service_request_prefix @ uuid)"
| "published _ = None"

section \<open>Callbacks\<close>

definition callback_prefix :: string where
  "callback_prefix = ''bridge_callback_''"

definition max_callbacks :: nat where
  "max_callbacks = 1024"

type_synonym callbacks = "(string, json) jsmap"

definition error_answer :: "json \<Rightarrow> int \<Rightarrow> string \<Rightarrow> jobj" where
  "error_answer i code msg = [(''id'', i), (''error'', JObj [(''code'', JInt code), (''message'', JStr msg)])]"

text \<open>\<open>receive\<close>: whether the message was one of ours, and the promise it resolves.\<close>

definition receive_callback :: "jobj \<Rightarrow> callbacks \<Rightarrow> callbacks \<times> bool \<times> (string \<times> jobj) list" where
  "receive_callback m cs =
     (case answered_id callback_prefix m of
        None \<Rightarrow> (cs, False, [])
      | Some i \<Rightarrow>
          (case jm_get cs i of
             None \<Rightarrow> (cs, True, [])
           | Some original \<Rightarrow> (jm_del cs i, True, [(i, with_id m original)])))"

definition request_callback :: "string \<Rightarrow> jobj \<Rightarrow> bool \<Rightarrow> callbacks \<Rightarrow> callbacks \<times> (string \<times> jobj) list" where
  "request_callback uuid m sent cs =
     (let i = callback_prefix @ uuid in
      if length cs \<ge> max_callbacks
      then (cs, [(i, error_answer (original_id m) (- 32001) ''Client callback queue is full'')])
      else
        let cs' = jm_set cs i (original_id m) in
        if sent then (cs', [])
        else case receive_callback (error_answer (JStr i) (- 32002) ''Transport lost; execution outcome is unknown'') cs' of
          (cs'', handled, out) \<Rightarrow> (cs'', out))"

text \<open>The timer of a callback is cleared when it is answered, so it fires only while it is pending.\<close>

definition callback_timeout :: "string \<Rightarrow> callbacks \<Rightarrow> callbacks \<times> (string \<times> jobj) list" where
  "callback_timeout i cs =
     (case jm_get cs i of
        None \<Rightarrow> (cs, [])
      | Some original \<Rightarrow> (jm_del cs i, [(i, error_answer original (- 32002)
          ''Response timed out; execution outcome is unknown. Do not automatically resubmit.'')]))"

definition close_callbacks :: "callbacks \<Rightarrow> callbacks \<times> (string \<times> jobj) list" where
  "close_callbacks cs =
     foldl (\<lambda>(m, out) i.
        case receive_callback (error_answer (JStr i) (- 32002) ''Client detached; execution outcome is unknown'') m of
          (m', handled, o') \<Rightarrow> (m', out @ o')) (cs, []) (map fst cs)"

datatype callback_event =
    Request string jobj bool
  | Receive jobj
  | TimesOut string
  | CloseQueue

fun callback_step :: "callbacks \<Rightarrow> callback_event \<Rightarrow> callbacks \<times> (string \<times> jobj) list" where
  "callback_step cs (Request uuid m sent) = request_callback uuid m sent cs"
| "callback_step cs (Receive m) = (case receive_callback m cs of (cs', handled, out) \<Rightarrow> (cs', out))"
| "callback_step cs (TimesOut i) = callback_timeout i cs"
| "callback_step cs CloseQueue = close_callbacks cs"

fun requested :: "callback_event \<Rightarrow> string option" where
  "requested (Request uuid m sent) = Some (callback_prefix @ uuid)"
| "requested _ = None"

text \<open>Lanes: an operation starts when the one before it has settled.\<close>

type_synonym lanes = "(string, nat list) jsmap"

definition lane_queue :: "lanes \<Rightarrow> string \<Rightarrow> nat list" where
  "lane_queue ls lane = (case jm_get ls lane of None \<Rightarrow> [] | Some q \<Rightarrow> q)"

definition enqueue :: "string \<Rightarrow> nat \<Rightarrow> lanes \<Rightarrow> lanes \<times> (string + unit)" where
  "enqueue lane op ls =
     (if length ls \<ge> max_callbacks \<and> jm_get ls lane = None then (ls, Inl ''Too many request lanes'')
      else (jm_set ls lane (lane_queue ls lane @ [op]), Inr ()))"

definition lane_settles :: "string \<Rightarrow> lanes \<Rightarrow> lanes" where
  "lane_settles lane ls =
     (case lane_queue ls lane of
        [] \<Rightarrow> ls
      | [op] \<Rightarrow> jm_del ls lane
      | op # ops \<Rightarrow> jm_set ls lane ops)"

section \<open>Properties\<close>

lemma service_step_cases:
  obtains "snd (service_step p e) = []" "set (fst (service_step p e)) \<subseteq> set p \<or> published e \<noteq> None"
  | m i q where "e = Respond m" "answered_id service_request_prefix m = Some i" "jm_get p i = Some q"
      "service_step p e = (jm_del p i, [(i, sq_reply q, with_id m (original_id (sq_message q)))])"
proof (cases e)
  case (Respond m)
  show ?thesis
  proof (cases "answered_id service_request_prefix m")
    case None
    with Respond show ?thesis by (intro that(1)) (simp_all add: respond_request_def)
  next
    case (Some i)
    show ?thesis
    proof (cases "jm_get p i")
      case None
      with Respond Some show ?thesis by (intro that(1)) (simp_all add: respond_request_def)
    next
      case q: (Some q)
      show ?thesis
      proof (cases "is_rpc_request (sq_message q)")
        case True
        with Respond Some q show ?thesis by (intro that(2)) (simp_all add: respond_request_def)
      next
        case False
        with Respond Some q show ?thesis by (intro that(1)) (simp_all add: respond_request_def)
      qed
    qed
  qed
next
  case (RemoveSource s)
  then show ?thesis by (intro that(1)) (auto simp: remove_source_def)
qed (rule that(1), simp_all)

interpretation service: answer_once service_step "\<lambda>p. fst ` set p" published jm_ok
proof
  fix p :: service_requests and e
  show "jm_ok p \<Longrightarrow> jm_ok (fst (service_step p e))"
    by (cases e) (auto simp: publish_request_def Let_def respond_request_def remove_source_def jm_ok_filter
        jm.ok_put jm.ok_del split: option.splits prod.splits if_splits)
  show "fst ` set (fst (service_step p e)) \<subseteq> fst ` set p \<union> set_option (published e)"
    by (cases e) (auto simp: publish_request_def Let_def respond_request_def remove_source_def keys_jm_set
        set_jm_del split: option.splits prod.splits if_splits)
  show "fst ` set (snd (service_step p e)) \<subseteq> fst ` set p \<union> set_option (published e)"
    by (rule service_step_cases [of p e]) (auto dest: jm_get_mem intro: rev_image_eqI)
  show "distinct (map fst (snd (service_step p e)))"
    by (rule service_step_cases [of p e]) auto
  show "fst ` set (snd (service_step p e)) \<inter> fst ` set (fst (service_step p e)) = {}"
    by (rule service_step_cases [of p e]) (auto simp: set_jm_del)
qed


text \<open>Every answer belongs to a request of the table or of the past.\<close>

lemma service_outputs_from:
  "(i, c, r) \<in> set (outputs service_step p evs) \<Longrightarrow>
   \<exists>m resp. ((\<exists>q. (i, q) \<in> set p \<and> sq_message q = m \<and> sq_reply q = c) \<or>
       (\<exists>uuid source. Publish uuid source m c \<in> set evs \<and> i = service_request_prefix @ uuid)) \<and>
     Respond resp \<in> set evs \<and> answered_id service_request_prefix resp = Some i \<and>
     r = with_id resp (original_id m)"
proof (induction evs arbitrary: p)
  case (Cons e evs)
  let ?p = "fst (service_step p e)"
  show ?case
  proof (cases "(i, c, r) \<in> set (snd (service_step p e))")
    case True
    show ?thesis
      by (rule service_step_cases [of p e]) (use True in \<open>auto dest!: jm_get_mem\<close>)
  next
    case False
    with Cons.prems have "(i, c, r) \<in> set (outputs service_step ?p evs)" by simp
    from Cons.IH [OF this] obtain m resp where
      src: "(\<exists>q. (i, q) \<in> set ?p \<and> sq_message q = m \<and> sq_reply q = c) \<or>
        (\<exists>uuid source. Publish uuid source m c \<in> set evs \<and> i = service_request_prefix @ uuid)"
      and resp: "Respond resp \<in> set evs" "answered_id service_request_prefix resp = Some i"
        "r = with_id resp (original_id m)"
      by blast
    have "(i, q) \<in> set ?p \<Longrightarrow> (i, q) \<in> set p \<or>
        (\<exists>uuid source. e = Publish uuid source (sq_message q) (sq_reply q) \<and> i = service_request_prefix @ uuid)" for q
      by (cases e) (auto simp: publish_request_def Let_def respond_request_def remove_source_def set_jm_del
          dest!: in_jm_set split: option.splits prod.splits if_splits)
    with src have "(\<exists>q. (i, q) \<in> set p \<and> sq_message q = m \<and> sq_reply q = c) \<or>
        (\<exists>uuid source. Publish uuid source m c \<in> set (e # evs) \<and> i = service_request_prefix @ uuid)"
      by fastforce
    with resp show ?thesis by (metis list.set_intros(2))
  qed
qed simp


text \<open>A published request is answered by the first response that names it.\<close>

lemma pending_kept:
  assumes "jm_ok p" "jm_get p i = Some q" "\<forall>r. Respond r \<in> set evs \<longrightarrow> answered_id service_request_prefix r \<noteq> Some i"
    and "RemoveSource (sq_source q) \<notin> set evs" "i \<notin> set (opened_keys published evs)"
  shows "jm_get (run (\<lambda>s e. fst (service_step s e)) p evs) i = Some q"
  using assms
proof (induction evs arbitrary: p)
  case (Cons e evs)
  have "jm_get (fst (service_step p e)) i = Some q"
  proof (cases e)
    case (Publish uuid source m c)
    with Cons.prems show ?thesis by (auto simp: publish_request_def Let_def)
  next
    case (Respond m)
    show ?thesis
      by (rule service_step_cases [of p e]) (use Cons.prems Respond in \<open>auto simp: respond_request_def split: option.splits\<close>)
  next
    case (RemoveSource s)
    with Cons.prems show ?thesis by (simp add: remove_source_def jm_get_filter)
  qed
  moreover have "jm_ok (fst (service_step p e))" using Cons.prems(1) by (rule service.ok_step)
  moreover have "i \<notin> set (opened_keys published evs)" using Cons.prems(5) unfolding set_opened by blast
  ultimately show ?case using Cons.IH Cons.prems by simp
qed simp

lemma filter_key:
  "distinct (map fst ps) \<Longrightarrow> (k, v) \<in> set ps \<Longrightarrow> filter (\<lambda>(i, a). i = k) ps = [(k, v)]"
proof (induction ps)
  case (Cons p ps)
  obtain k' v' where p: "p = (k', v')" by (cases p)
  show ?case
  proof (cases "k' = k")
    case True
    with Cons.prems p have "k \<notin> fst ` set ps" by simp
    then have "filter (\<lambda>(i, a). i = k) ps = []" "(k, v) \<notin> set ps"
      by (auto simp: filter_empty_conv image_iff)
    with Cons.prems p True show ?thesis by simp
  qed (use Cons p in auto)
qed simp

lemma run_ok: "jm_ok p \<Longrightarrow> jm_ok (run (\<lambda>s e. fst (service_step s e)) p evs)"
  by (induction evs arbitrary: p) (auto intro: service.ok_step)

text \<open>The first answer counts, once. A request of the app server shown under a fresh
  identifier is answered with the first response that names it, whoever of the clients sends
  it: on the connection the request came from, under the identifier it had there. No request is
  answered twice, and whatever is sent to the app server answers a request that was published.
\<close>

theorem first_answer_counts:
  assumes evs: "evs = xs @ Publish uuid source m c # ys @ Respond r # zs"
    and fresh: "distinct (opened_keys published evs)" and request: "is_rpc_request m"
    and first: "\<forall>r'. Respond r' \<in> set ys \<longrightarrow> answered_id service_request_prefix r' \<noteq> Some (service_request_prefix @ uuid)"
    and connected: "RemoveSource source \<notin> set ys" and answer: "answered_id service_request_prefix r = Some (service_request_prefix @ uuid)"
  shows "filter (\<lambda>(i, a). i = service_request_prefix @ uuid) (outputs service_step [] evs) =
      [(service_request_prefix @ uuid, c, with_id r (original_id m))] \<and>
    (\<forall>(i, c', a) \<in> set (outputs service_step [] evs).
       \<exists>u s m'. Publish u s m' c' \<in> set evs \<and> i = service_request_prefix @ u \<and> oget a ''id'' = Some (original_id m'))"
proof -
  let ?i = "service_request_prefix @ uuid" and ?run = "run (\<lambda>s e. fst (service_step s e))"
  let ?q = "\<lparr>sq_source = source, sq_message = m, sq_reply = c\<rparr>"
  have once: "distinct (map fst (outputs service_step [] evs))"
    using service.answered_once [of "[]" evs] fresh by simp
  have "jm_get (?run [] (xs @ [Publish uuid source m c])) ?i = Some ?q"
    using request by (simp add: run_append publish_request_def Let_def)
  moreover have "?i \<notin> set (opened_keys published ys)" using fresh evs by auto
  ultimately have "jm_get (?run (?run [] (xs @ [Publish uuid source m c])) ys) ?i = Some ?q"
    using first connected pending_kept [OF run_ok [OF jm_ok_Nil]] by simp
  then have "snd (service_step (?run [] (xs @ [Publish uuid source m c] @ ys)) (Respond r)) =
      [(?i, c, with_id r (original_id m))]"
    using request answer by (simp add: run_append respond_request_def)
  then have mem: "(?i, c, with_id r (original_id m)) \<in> set (outputs service_step [] evs)"
    unfolding evs by (simp add: outputs_append run_append)
  have "\<forall>(i, c', a) \<in> set (outputs service_step [] evs).
      \<exists>u s m'. Publish u s m' c' \<in> set evs \<and> i = service_request_prefix @ u \<and> oget a ''id'' = Some (original_id m')"
    using service_outputs_from [of _ _ _ "[]" evs] by (fastforce simp: with_id_def)
  with filter_key [OF once mem] show ?thesis by blast
qed


text \<open>A request of the app server, answered by two clients.\<close>

definition ask_message :: jobj where
  "ask_message = [(''id'', JInt 3), (''method'', JStr ''item/ask'')]"

definition answer_message :: "string \<Rightarrow> jobj" where
  "answer_message s = [(''id'', JStr (service_request_prefix @ ''u'')), (''result'', JStr s)]"

theorem first_answer_counts_witness:
  "filter (\<lambda>(i, a). i = service_request_prefix @ ''u'') (outputs service_step []
      [Publish ''u'' ''cli'' ask_message 0, Respond (answer_message ''yes''), Respond (answer_message ''no'')]) =
    [(service_request_prefix @ ''u'', 0, [(''id'', JInt 3), (''result'', JStr ''yes'')])]"
proof -
  have 1: "is_rpc_request ask_message" by code_simp
  have 2: "answered_id service_request_prefix (answer_message ''yes'') = Some (service_request_prefix @ ''u'')" by code_simp
  have 3: "with_id (answer_message ''yes'') (original_id ask_message) = [(''id'', JInt 3), (''result'', JStr ''yes'')]"
    by code_simp
  show ?thesis
    using first_answer_counts [of _ "[]" "''u''" "''cli''" ask_message 0 "[]" "answer_message ''yes''"
        "[Respond (answer_message ''no'')]", OF refl _ 1 _ _ 2] 3
    by simp
qed

section \<open>Callbacks are settled once\<close>

lemma jm_get_key: "jm_get m k = Some v \<Longrightarrow> k \<in> fst ` set m"
  using jm_get_None [of m k] by auto

lemma keys_jm_del: "fst ` set (jm_del m k) = fst ` set m - {k}"
  by (auto simp: set_jm_del)

lemma receive_cases:
  obtains "receive_callback m cs = (cs, False, [])"
  | "receive_callback m cs = (cs, True, [])"
  | i v where "jm_get cs i = Some v" "receive_callback m cs = (jm_del cs i, True, [(i, with_id m v)])"
proof (cases "answered_id callback_prefix m")
  case None
  then show ?thesis by (intro that(1)) (simp add: receive_callback_def)
next
  case (Some i)
  show ?thesis
  proof (cases "jm_get cs i")
    case None
    with Some show ?thesis by (intro that(2)) (simp add: receive_callback_def)
  next
    case v: (Some v)
    with Some show ?thesis by (intro that(3)) (simp_all add: receive_callback_def)
  qed
qed

text \<open>Every key of the table carries the prefix, so an error the queue makes up finds its callback.\<close>

definition callbacks_ok :: "callbacks \<Rightarrow> bool" where
  "callbacks_ok cs \<longleftrightarrow> jm_ok cs \<and> length cs \<le> max_callbacks \<and> (\<forall>i\<in>fst ` set cs. starts_with i callback_prefix)"

lemma answered_error: "starts_with i callback_prefix \<Longrightarrow> answered_id callback_prefix (error_answer (JStr i) code msg) = Some i"
  by (simp add: answered_id_def error_answer_def is_rpc_response_def oget_def jm_get_Cons)

lemma callbacks_ok_del: "callbacks_ok cs \<Longrightarrow> callbacks_ok (jm_del cs i)"
  by (auto simp: callbacks_ok_def jm.ok_del set_jm_del jm.size_del)

lemma receive_error:
  assumes "starts_with i callback_prefix" "jm_get cs i = Some v"
  shows "receive_callback (error_answer (JStr i) code msg) cs =
    (jm_del cs i, True, [(i, with_id (error_answer (JStr i) code msg) v)])"
  using assms by (simp add: receive_callback_def answered_error)

lemma del_head: "jm_ok ((k, v) # m) \<Longrightarrow> jm_del ((k, v) # m) k = m"
  by (force simp: jm_ok_def jm_del_def AList.delete_eq intro!: filter_True)

text \<open>The loop of \<open>close\<close> empties the table and answers every key of it.\<close>

lemma close_loop:
  "callbacks_ok cs \<Longrightarrow>
   foldl (\<lambda>(m, out) i. case receive_callback (error_answer (JStr i) c msg) m of (m', handled, o') \<Rightarrow> (m', out @ o'))
     (cs, out) (map fst cs) =
   ([], out @ map (\<lambda>(i, v). (i, with_id (error_answer (JStr i) c msg) v)) cs)"
proof (induction cs arbitrary: out)
  case (Cons p cs)
  obtain i v where p: "p = (i, v)" by (cases p)
  have del: "jm_del ((i, v) # cs) i = cs" using Cons.prems p by (simp add: del_head callbacks_ok_def)
  have "receive_callback (error_answer (JStr i) c msg) ((i, v) # cs) =
      (cs, True, [(i, with_id (error_answer (JStr i) c msg) v)])"
    using Cons.prems p receive_error [of i "(i, v) # cs" v] del by (simp add: callbacks_ok_def jm_get_Cons)
  moreover have "callbacks_ok cs" using callbacks_ok_del [OF Cons.prems, of i] del p by simp
  ultimately show ?case using Cons.IH p by simp
qed simp

lemma close_empties:
  "callbacks_ok cs \<Longrightarrow> fst (close_callbacks cs) = [] \<and> map fst (snd (close_callbacks cs)) = map fst cs"
  unfolding close_callbacks_def by (simp only: close_loop) (auto simp: comp_def case_prod_beta)

lemma callback_step_cases:
  assumes ok: "callbacks_ok cs"
  obtains "callback_step cs e = (cs, [])" "requested e = None"
  | k x where "callback_step cs e = (cs, [(k, x)])" "requested e = Some k"
  | u v where "callback_step cs e = (jm_set cs (callback_prefix @ u) v, [])" "requested e = Some (callback_prefix @ u)"
      "length cs < max_callbacks"
  | u v x where "callback_step cs e = (jm_del (jm_set cs (callback_prefix @ u) v) (callback_prefix @ u), [(callback_prefix @ u, x)])"
      "requested e = Some (callback_prefix @ u)" "length cs < max_callbacks"
  | i v x where "callback_step cs e = (jm_del cs i, [(i, x)])" "requested e = None" "jm_get cs i = Some v"
  | "fst (callback_step cs e) = []" "map fst (snd (callback_step cs e)) = map fst cs"
      "fst ` set (snd (callback_step cs e)) = fst ` set cs" "requested e = None"
proof (cases e)
  case (Request u m s)
  show ?thesis
  proof (cases "length cs \<ge> max_callbacks")
    case True
    with Request show ?thesis by (intro that(2)) (simp_all add: request_callback_def)
  next
    case False
    then show ?thesis
    proof (cases s)
      case True
      with Request False show ?thesis by (intro that(3)) (simp_all add: request_callback_def Let_def)
    next
      case s: False
      with Request False show ?thesis
        by (intro that(4)) (simp_all add: request_callback_def Let_def receive_error)
    qed
  qed
next
  case (Receive m)
  show ?thesis
    by (rule receive_cases [of m cs]) (use Receive in \<open>auto intro: that(1,5)\<close>)
next
  case (TimesOut i)
  show ?thesis
  proof (cases "jm_get cs i")
    case None
    with TimesOut show ?thesis by (intro that(1)) (simp_all add: callback_timeout_def)
  next
    case (Some v)
    with TimesOut show ?thesis by (intro that(5)) (simp_all add: callback_timeout_def)
  qed
next
  case CloseQueue
  have "fst ` set (snd (close_callbacks cs)) = fst ` set cs"
    using close_empties [OF ok] by (metis set_map)
  with CloseQueue close_empties [OF ok] show ?thesis by (intro that(6)) simp_all
qed

interpretation callback: answer_all callback_step "\<lambda>cs. fst ` set cs" requested callbacks_ok
proof
  fix cs e
  assume ok: "callbacks_ok cs"
  have new: "callbacks_ok (jm_set cs (callback_prefix @ u) v)" if "length cs < max_callbacks" for u v
    using ok that by (auto simp: callbacks_ok_def jm.ok_put jm.size_put keys_jm_set)
  show "callbacks_ok (fst (callback_step cs e))"
    by (rule callback_step_cases [OF ok, of e]) (auto simp: ok new callbacks_ok_del callbacks_ok_def [of "[]"])
  show "fst ` set (fst (callback_step cs e)) \<subseteq> fst ` set cs \<union> set_option (requested e)"
    by (rule callback_step_cases [OF ok, of e]) (simp_all add: keys_jm_set keys_jm_del, auto)
  show "fst ` set (snd (callback_step cs e)) \<subseteq> fst ` set cs \<union> set_option (requested e)"
    by (rule callback_step_cases [OF ok, of e]) (simp_all add: jm_get_key)
  have "distinct (map fst cs)" using ok by (simp add: callbacks_ok_def jm_ok_def)
  then show "distinct (map fst (snd (callback_step cs e)))"
    by (rule_tac callback_step_cases [OF ok, of e]) simp_all
  assume fresh: "set_option (requested e) \<inter> fst ` set cs = {}"
  show "fst ` set (snd (callback_step cs e)) \<inter> fst ` set (fst (callback_step cs e)) = {}"
    by (rule callback_step_cases [OF ok, of e]) (use fresh in \<open>simp_all add: keys_jm_del\<close>)
next
  fix cs e
  assume ok: "callbacks_ok cs" and fresh: "set_option (requested e) \<inter> fst ` set cs = {}"
  show "fst ` set cs \<union> set_option (requested e) \<subseteq>
      fst ` set (fst (callback_step cs e)) \<union> fst ` set (snd (callback_step cs e))"
    by (rule callback_step_cases [OF ok, of e])
      (simp_all add: keys_jm_set keys_jm_del subset_insertI)
qed

lemma callbacks_ok_Nil: "callbacks_ok []"
  by (simp add: callbacks_ok_def)

lemma callbacks_run_ok: "callbacks_ok cs \<Longrightarrow> callbacks_ok (run (\<lambda>s e. fst (callback_step s e)) cs evs)"
  by (induction evs arbitrary: cs) (auto intro: callback.ok_step)

text \<open>C27. Every callback is settled exactly once. Whatever is requested, received and timed out,
  and whichever sends fail, at most 1024 callbacks are pending, no promise is resolved twice,
  and once the queue is closed every promise has been resolved.
\<close>

theorem callbacks_settle_once:
  assumes "distinct (opened_keys requested evs)"
  shows "length (run (\<lambda>s e. fst (callback_step s e)) [] evs) \<le> max_callbacks \<and>
    distinct (map fst (outputs callback_step [] (evs @ [CloseQueue]))) \<and>
    fst ` set (outputs callback_step [] (evs @ [CloseQueue])) = set (opened_keys requested evs)"
proof -
  let ?run = "run (\<lambda>s e. fst (callback_step s e)) []"
  have ok: "callbacks_ok (?run evs)" using callbacks_ok_Nil by (rule callbacks_run_ok)
  have once: "distinct (map fst (outputs callback_step [] (evs @ [CloseQueue])))"
    "fst ` set (outputs callback_step [] (evs @ [CloseQueue])) \<subseteq> set (opened_keys requested evs)"
    using callback.answered_once [of "[]" "evs @ [CloseQueue]"] assms callbacks_ok_Nil by simp_all
  have "fst (callback_step (?run evs) CloseQueue) = []" using close_empties [OF ok] by simp
  then have "fst ` set (?run (evs @ [CloseQueue])) = {}" by (simp add: run_append)
  with callback.answered_or_pending [of "[]" "evs @ [CloseQueue]"] assms callbacks_ok_Nil
  have "set (opened_keys requested evs) \<subseteq> fst ` set (outputs callback_step [] (evs @ [CloseQueue]))"
    by simp
  with once ok show ?thesis by (auto simp: callbacks_ok_def)
qed

definition callback_events :: "callback_event list" where
  "callback_events = [Request ''a'' ask_message True, Request ''b'' ask_message False, Request ''c'' ask_message True,
     Receive (error_answer (JStr (callback_prefix @ ''a'')) 0 []), TimesOut (callback_prefix @ ''a'')]"

theorem callbacks_settle_once_witness:
  "distinct (map fst (outputs callback_step [] (callback_events @ [CloseQueue]))) \<and>
   fst ` set (outputs callback_step [] (callback_events @ [CloseQueue])) =
     {callback_prefix @ ''a'', callback_prefix @ ''b'', callback_prefix @ ''c''}"
proof -
  have keys: "opened_keys requested callback_events = [callback_prefix @ ''a'', callback_prefix @ ''b'', callback_prefix @ ''c'']"
    by (simp add: callback_events_def)
  then have "distinct (opened_keys requested callback_events)" by simp
  from callbacks_settle_once [OF this] keys show ?thesis by simp
qed

end
