(* ===== verification/ToolCalls.thy ===== *)
theory ToolCalls
  imports Errors
begin

text \<open>
  From \<^verbatim>\<open>src/shim/proxy.ts\<close>: \<open>RemoteToolCallCoordinator\<close>, which lets several sessions of one app
  server receive the same tool call and runs it once, in the session of the highest priority that
  asks in time, and \<open>RemoteTurnClientTracker\<close>, which remembers the client behind a turn. A call
  is an object in a store; the operation a session offers is named by a number, and the log says
  which operation of which call was started, with the state of its abort signal. The encoding of
  the parameters (\<open>JSON.stringify\<close>) is an argument.
\<close>

section \<open>The coordinator\<close>

record tool_call =
  tc_fp :: string
  tc_op :: nat
  tc_priority :: int
  tc_settled :: bool
  tc_started :: bool
  tc_timer :: bool
  tc_aborted :: bool
  tc_thread :: string
  tc_turn :: string

record coordinator =
  co_heap :: "nat \<Rightarrow> tool_call option"
  co_next :: nat
  co_calls :: "(string, nat) jsmap"
  co_log :: "(nat \<times> nat \<times> bool) list"

definition new_coordinator :: coordinator where
  "new_coordinator = \<lparr>co_heap = (\<lambda>_. None), co_next = 0, co_calls = [], co_log = []\<rparr>"

definition call_identity :: "jobj \<Rightarrow> (string \<times> string \<times> string) option" where
  "call_identity m =
     (case rprop m ''params'' of
        None \<Rightarrow> None
      | Some params \<Rightarrow>
          (case (sprop params ''threadId'', sprop params ''turnId'', sprop params ''callId'') of
             (Some t, Some u, Some c) \<Rightarrow> Some (t, u, c)
           | _ \<Rightarrow> None))"

fun call_key :: "string \<times> string \<times> string \<Rightarrow> string" where
  "call_key (t, u, c) = t @ [NUL] @ u @ [NUL] @ c"

definition start_call :: "nat \<Rightarrow> coordinator \<Rightarrow> coordinator" where
  "start_call r co =
     (case co_heap co r of
        None \<Rightarrow> co
      | Some c \<Rightarrow>
          if tc_started c then co
          else co\<lparr>co_heap := (co_heap co)(r \<mapsto> c\<lparr>tc_started := True, tc_timer := False\<rparr>),
                  co_log := co_log co @ [(r, tc_op c, tc_aborted c)]\<rparr>)"

definition upd_call :: "nat \<Rightarrow> (tool_call \<Rightarrow> tool_call) \<Rightarrow> coordinator \<Rightarrow> coordinator" where
  "upd_call r f co = co\<lparr>co_heap := (co_heap co)(r := map_option f (co_heap co r))\<rparr>"

definition run_call ::
  "(json option \<Rightarrow> string) \<Rightarrow> jobj \<Rightarrow> int \<Rightarrow> nat \<Rightarrow> coordinator \<Rightarrow> coordinator \<times> (string + nat)" where
  "run_call encode m priority op co =
     (case call_identity m of
        None \<Rightarrow> (co, Inl ''Remote tool call is missing thread, turn, or item identity'')
      | Some (t, u, c) \<Rightarrow>
          let key = call_key (t, u, c); fp = encode (oget m ''params'') in
          (case jm_get (co_calls co) key of
             Some r \<Rightarrow>
               (case co_heap co r of
                  None \<Rightarrow> (co, Inl ''dangling call'')
                | Some e \<Rightarrow>
                    if tc_fp e \<noteq> fp
                    then (co, Inl ''Remote tool call identity was reused with different parameters'')
                    else if \<not> tc_started e \<and> priority < tc_priority e
                    then (start_call r (upd_call r (\<lambda>e. e\<lparr>tc_priority := priority, tc_op := op\<rparr>) co), Inr r)
                    else (co, Inr r))
           | None \<Rightarrow>
               let r = co_next co;
                   e = \<lparr>tc_fp = fp, tc_op = op, tc_priority = priority, tc_settled = False, tc_started = False,
                        tc_timer = (\<not> priority \<le> 0), tc_aborted = False, tc_thread = t, tc_turn = u\<rparr>;
                   co1 = co\<lparr>co_heap := (co_heap co)(r \<mapsto> e), co_next := Suc r, co_calls := jm_set (co_calls co) key r\<rparr>
               in (if priority \<le> 0 then start_call r co1 else co1, Inr r)))"

definition timer_fires :: "nat \<Rightarrow> coordinator \<Rightarrow> coordinator" where
  "timer_fires r co =
     (case co_heap co r of
        None \<Rightarrow> co
      | Some e \<Rightarrow> if tc_timer e then start_call r co else co)"

definition call_settles :: "nat \<Rightarrow> coordinator \<Rightarrow> coordinator" where
  "call_settles r co = upd_call r (\<lambda>e. e\<lparr>tc_settled := True\<rparr>) co"

text \<open>The retention timer of a settled call.\<close>

definition delete_call :: "string \<Rightarrow> nat \<Rightarrow> coordinator \<Rightarrow> coordinator" where
  "delete_call key r co =
     (if jm_get (co_calls co) key = Some r then co\<lparr>co_calls := jm_del (co_calls co) key\<rparr> else co)"

definition cancel_call :: "string \<Rightarrow> string \<Rightarrow> coordinator \<times> nat \<Rightarrow> nat \<Rightarrow> coordinator \<times> nat" where
  "cancel_call t u cn r =
     (case cn of (co, n) \<Rightarrow>
        (case co_heap co r of
           None \<Rightarrow> (co, n)
         | Some e \<Rightarrow>
             if tc_thread e \<noteq> t \<or> tc_turn e \<noteq> u \<or> tc_settled e \<or> tc_aborted e then (co, n)
             else
               let co1 = upd_call r (\<lambda>e. e\<lparr>tc_aborted := True\<rparr>) co in
               (if tc_started e then co1 else start_call r co1, Suc n)))"

definition cancel_turn :: "string \<Rightarrow> string \<Rightarrow> coordinator \<Rightarrow> coordinator \<times> nat" where
  "cancel_turn t u co = foldl (cancel_call t u) (co, 0) (map snd (co_calls co))"

datatype call_event =
    RunCall jobj int nat
  | TimerFires nat
  | CallSettles nat
  | DeleteCall string nat
  | CancelTurn string string

fun call_step :: "(json option \<Rightarrow> string) \<Rightarrow> coordinator \<Rightarrow> call_event \<Rightarrow> coordinator" where
  "call_step encode co (RunCall m p op) = fst (run_call encode m p op co)"
| "call_step encode co (TimerFires r) = timer_fires r co"
| "call_step encode co (CallSettles r) = call_settles r co"
| "call_step encode co (DeleteCall key r) = delete_call key r co"
| "call_step encode co (CancelTurn t u) = fst (cancel_turn t u co)"

section \<open>The clients of turns\<close>

record client_identity =
  ci_id :: string
  ci_source :: string

record turn_clients =
  tn_clients :: "(string, client_identity) jsmap"
  tn_max :: nat

definition new_turn_clients :: "int \<Rightarrow> string + turn_clients" where
  "new_turn_clients n =
     (if n < 1 then Inl ''Remote turn client tracker maxEntries must be positive''
      else Inr \<lparr>tn_clients = [], tn_max = nat n\<rparr>)"

definition turn_key :: "string \<Rightarrow> string \<Rightarrow> string" where
  "turn_key t u = t @ [NUL] @ u"

definition record_turn :: "string \<Rightarrow> string \<Rightarrow> client_identity \<Rightarrow> turn_clients \<Rightarrow> turn_clients" where
  "record_turn t u ident tn =
     (let m = jm_set (jm_del (tn_clients tn) (turn_key t u)) (turn_key t u) ident in
      tn\<lparr>tn_clients := drop (length m - tn_max tn) m\<rparr>)"

definition resolve_turn :: "string \<Rightarrow> string \<Rightarrow> client_identity \<Rightarrow> turn_clients \<Rightarrow> client_identity" where
  "resolve_turn t u fallback tn =
     (case jm_get (tn_clients tn) (turn_key t u) of None \<Rightarrow> fallback | Some i \<Rightarrow> i)"

definition complete_turn :: "string \<Rightarrow> string \<Rightarrow> turn_clients \<Rightarrow> turn_clients" where
  "complete_turn t u tn = tn\<lparr>tn_clients := jm_del (tn_clients tn) (turn_key t u)\<rparr>"

text \<open>The key is taken apart at its first NUL.\<close>

definition split_key :: "string \<Rightarrow> (string \<times> string) list" where
  "split_key key =
     (let t = takeWhile (\<lambda>c. c \<noteq> NUL) key; rest = dropWhile (\<lambda>c. c \<noteq> NUL) key in
      if t \<noteq> [] \<and> length rest > 1 then [(t, tl rest)] else [])"

definition take_for_client :: "string \<Rightarrow> turn_clients \<Rightarrow> turn_clients \<times> (string \<times> string) list" where
  "take_for_client cid tn =
     (tn\<lparr>tn_clients := filter (\<lambda>(k, i). ci_id i \<noteq> cid) (tn_clients tn)\<rparr>,
      concat (map (\<lambda>(k, i). if ci_id i = cid then split_key k else []) (tn_clients tn)))"

section \<open>A call runs once\<close>

definition coord_inv :: "coordinator \<Rightarrow> bool" where
  "coord_inv co \<longleftrightarrow>
     (\<forall>r. co_heap co r \<noteq> None \<longrightarrow> r < co_next co) \<and>
     (\<forall>k r. jm_get (co_calls co) k = Some r \<longrightarrow> co_heap co r \<noteq> None) \<and>
     distinct (map fst (co_log co)) \<and>
     (\<forall>r\<in>fst ` set (co_log co). \<exists>e. co_heap co r = Some e \<and> tc_started e) \<and>
     (\<forall>r e. co_heap co r = Some e \<longrightarrow> (if tc_started e then r \<in> fst ` set (co_log co) else tc_timer e))"

lemma coord_inv_new: "coord_inv new_coordinator"
  by (simp add: coord_inv_def new_coordinator_def)

lemma coord_inv_start: "coord_inv co \<Longrightarrow> coord_inv (start_call r co)"
  by (auto simp: coord_inv_def start_call_def split: option.splits)

lemma coord_inv_upd:
  "coord_inv co \<Longrightarrow> (\<And>e. tc_started (f e) = tc_started e \<and> tc_timer (f e) = tc_timer e) \<Longrightarrow>
   coord_inv (upd_call r f co)"
  by (auto simp: coord_inv_def upd_call_def)

lemma coord_inv_insert:
  fixes k :: string
  assumes "coord_inv co" "\<not> tc_started e"
  defines "co1 \<equiv> co\<lparr>co_heap := (co_heap co)(co_next co \<mapsto> e), co_next := Suc (co_next co),
     co_calls := jm_set (co_calls co) k (co_next co)\<rparr>"
  shows "tc_timer e \<Longrightarrow> coord_inv co1" and "coord_inv (start_call (co_next co) co1)"
proof -
  have new: "co_next co \<notin> fst ` set (co_log co)" using assms(1) by (fastforce simp: coord_inv_def)
  show "tc_timer e \<Longrightarrow> coord_inv co1"
    using assms(1,2) new by (auto simp: co1_def coord_inv_def less_SucI split: if_splits)
  show "coord_inv (start_call (co_next co) co1)"
    using assms(1,2) new by (auto simp: co1_def coord_inv_def start_call_def less_SucI split: if_splits)
qed

lemma coord_inv_cancel: "coord_inv (fst cn) \<Longrightarrow> coord_inv (fst (cancel_call t u cn r))"
  by (cases cn) (auto simp: cancel_call_def Let_def coord_inv_start coord_inv_upd split: option.split)

lemma coord_inv_cancels: "coord_inv (fst cn) \<Longrightarrow> coord_inv (fst (foldl (cancel_call t u) cn rs))"
  by (induction rs arbitrary: cn) (simp_all add: coord_inv_cancel)

lemma coord_inv_run: "coord_inv co \<Longrightarrow> coord_inv (fst (run_call encode m p op co))"
  by (auto simp: run_call_def Let_def coord_inv_start coord_inv_upd coord_inv_insert split: option.splits)

lemma coord_inv_delete: "coord_inv co \<Longrightarrow> coord_inv (delete_call k r co)"
  by (auto simp: coord_inv_def delete_call_def)

lemma coord_inv_step: "coord_inv co \<Longrightarrow> coord_inv (call_step encode co ev)"
  by (cases ev) (auto simp: coord_inv_run timer_fires_def call_settles_def cancel_turn_def coord_inv_delete
      coord_inv_upd coord_inv_start coord_inv_cancels split: option.split)

interpretation coordinator: invariant_machine "call_step encode" coord_inv
  by unfold_locales (rule coord_inv_step)

text \<open>While its key is not deleted, a call keeps its object and its fingerprint.\<close>

definition call_held :: "string \<Rightarrow> nat \<Rightarrow> string \<Rightarrow> coordinator \<Rightarrow> bool" where
  "call_held k r fp co \<longleftrightarrow> jm_get (co_calls co) k = Some r \<and> (\<exists>e. co_heap co r = Some e \<and> tc_fp e = fp)"

lemma held_start: "call_held k r fp co \<Longrightarrow> call_held k r fp (start_call r' co)"
  by (auto simp: call_held_def start_call_def split: option.splits)

lemma held_upd: "call_held k r fp co \<Longrightarrow> (\<And>e. tc_fp (f e) = tc_fp e) \<Longrightarrow> call_held k r fp (upd_call r' f co)"
  by (auto simp: call_held_def upd_call_def)

lemma held_cancel: "call_held k r fp (fst cn) \<Longrightarrow> call_held k r fp (fst (cancel_call t u cn r'))"
  by (cases cn) (auto simp: cancel_call_def Let_def held_start held_upd split: option.split)

lemma held_cancels: "call_held k r fp (fst cn) \<Longrightarrow> call_held k r fp (fst (foldl (cancel_call t u) cn rs))"
  by (induction rs arbitrary: cn) (simp_all add: held_cancel)

lemma held_insert:
  assumes "call_held k r fp co" "coord_inv co" "jm_get (co_calls co) k' = None"
  shows "call_held k r fp (co\<lparr>co_heap := (co_heap co)(co_next co \<mapsto> e), co_next := Suc (co_next co),
     co_calls := jm_set (co_calls co) k' (co_next co)\<rparr>)"
  using assms by (auto simp: call_held_def coord_inv_def)

lemma held_run: "call_held k r fp co \<Longrightarrow> coord_inv co \<Longrightarrow> call_held k r fp (fst (run_call encode m p op co))"
  by (auto simp: run_call_def Let_def held_start held_upd held_insert split: option.splits)

lemma held_delete: "call_held k r fp co \<Longrightarrow> (k', r') \<noteq> (k, r) \<Longrightarrow> call_held k r fp (delete_call k' r' co)"
  by (auto simp: call_held_def delete_call_def)

lemma held_step:
  "call_held k r fp co \<Longrightarrow> coord_inv co \<Longrightarrow> ev \<noteq> DeleteCall k r \<Longrightarrow> call_held k r fp (call_step encode co ev)"
  by (cases ev) (auto simp: held_run timer_fires_def call_settles_def cancel_turn_def
      held_upd held_start held_cancels held_delete split: option.split)

lemma held_steps:
  "call_held k r fp co \<Longrightarrow> coord_inv co \<Longrightarrow> DeleteCall k r \<notin> set evs \<Longrightarrow>
   call_held k r fp (run (call_step encode) co evs)"
  by (induction evs arbitrary: co) (auto simp: held_step coord_inv_step)

lemma run_call_held:
  assumes "run_call encode m p op co = (co', Inr r)" "call_identity m = Some i"
  shows "call_held (call_key i) r (encode (oget m ''params'')) co'"
proof -
  obtain t u c where i: "i = (t, u, c)" by (cases i)
  show ?thesis
  proof (cases "jm_get (co_calls co) (call_key i)")
    case None
    then have "call_held (call_key i) (co_next co) (encode (oget m ''params''))
        (co\<lparr>co_heap := (co_heap co)(co_next co \<mapsto> \<lparr>tc_fp = encode (oget m ''params''), tc_op = op, tc_priority = p,
           tc_settled = False, tc_started = False, tc_timer = (\<not> p \<le> 0), tc_aborted = False, tc_thread = t,
           tc_turn = u\<rparr>), co_next := Suc (co_next co), co_calls := jm_set (co_calls co) (call_key i) (co_next co)\<rparr>)"
      by (simp add: call_held_def)
    with assms i None show ?thesis by (auto simp: run_call_def Let_def held_start split: if_splits)
  next
    case (Some r')
    then obtain e where e: "co_heap co r' = Some e" "tc_fp e = encode (oget m ''params'')" "r' = r"
      using assms i by (auto simp: run_call_def Let_def split: option.splits if_splits)
    then have "call_held (call_key i) r (encode (oget m ''params'')) co" using Some by (simp add: call_held_def)
    with assms i Some e show ?thesis
      by (auto simp: run_call_def Let_def held_start held_upd split: if_splits)
  qed
qed

text \<open>C28. A remote tool call runs once. However many sessions receive it, in whatever order and
  with whatever priority, and whatever timers fire and turns are cancelled meanwhile, until the
  retention of the settled call ends every receipt of the same call joins the first one, a
  receipt with other parameters is refused, no operation is started twice, and by the end of
  the grace period of the call its operation has been started.
\<close>

theorem tool_call_runs_once:
  assumes inv: "coord_inv co" and first: "run_call encode m p op co = (co1, Inr r)"
    and ident: "call_identity m = Some i" "call_identity m' = Some i"
    and kept: "DeleteCall (call_key i) r \<notin> set evs"
    and again: "run_call encode m' p' op' (run (call_step encode) co1 evs) = (co2, res)"
  shows "(if encode (oget m' ''params'') = encode (oget m ''params'') then res = Inr r else \<exists>msg. res = Inl msg) \<and>
    distinct (map fst (co_log co2)) \<and> r \<in> fst ` set (co_log (timer_fires r co2))"
proof -
  have inv1: "coord_inv co1" using coord_inv_run [OF inv, of encode m p op] first by simp
  have held: "call_held (call_key i) r (encode (oget m ''params'')) (run (call_step encode) co1 evs)"
    using run_call_held [OF first ident(1)] inv1 kept by (rule held_steps)
  then obtain e where e: "jm_get (co_calls (run (call_step encode) co1 evs)) (call_key i) = Some r"
    "co_heap (run (call_step encode) co1 evs) r = Some e" "tc_fp e = encode (oget m ''params'')"
    by (auto simp: call_held_def)
  obtain t u c where i: "i = (t, u, c)" by (cases i)
  have inv2: "coord_inv co2"
    using coord_inv_run [OF coordinator.run_inv [OF inv1], of encode m' p' op' encode evs] again by simp
  from inv2 have once: "distinct (map fst (co_log co2))" by (simp add: coord_inv_def)
  have "call_held (call_key i) r (encode (oget m ''params'')) co2"
    using held_run [OF held coordinator.run_inv [OF inv1], of encode m' p' op'] again by simp
  then obtain e2 where "co_heap co2 r = Some e2" by (auto simp: call_held_def)
  with inv2 have "r \<in> fst ` set (co_log (timer_fires r co2))"
    by (auto simp: coord_inv_def timer_fires_def start_call_def split: if_splits)
  with once again ident(2) e i show ?thesis by (auto simp: run_call_def Let_def split: if_splits)
qed

text \<open>A call that an external session receives first.\<close>

definition tool_message :: jobj where
  "tool_message = [(''params'', JObj [(''threadId'', JStr ''t''), (''turnId'', JStr ''u''), (''callId'', JStr ''c'')])]"

theorem tool_call_runs_once_witness:
  "\<exists>co1 co2. run_call (\<lambda>_. ''f'') tool_message 1 7 new_coordinator = (co1, Inr 0) \<and>
     run_call (\<lambda>_. ''f'') tool_message 0 8 (run (call_step (\<lambda>_. ''f'')) co1 [CallSettles 5]) = (co2, Inr 0) \<and>
     distinct (map fst (co_log co2)) \<and> 0 \<in> fst ` set (co_log (timer_fires 0 co2))"
proof -
  have ident: "call_identity tool_message = Some (''t'', ''u'', ''c'')" by code_simp
  obtain co1 where first: "run_call (\<lambda>_. ''f'') tool_message 1 7 new_coordinator = (co1, Inr 0)"
    by (simp add: run_call_def ident new_coordinator_def Let_def)
  obtain co2 res where again: "run_call (\<lambda>_. ''f'') tool_message 0 8
      (run (call_step (\<lambda>_. ''f'')) co1 [CallSettles 5]) = (co2, res)"
    by (rule prod.exhaust)
  from tool_call_runs_once [OF coord_inv_new first ident ident _ again] first again show ?thesis by auto
qed

end
