(* ===== verification/SharedServer.thy ===== *)
theory SharedServer
  imports Threads Requests ToolCalls
begin

text \<open>
  The shared app server of \<^verbatim>\<open>src/shim/shared-app-server.ts\<close>: one official app server behind several
  clients, the editor on standard input and output (the client \<open>stdio\<close>) and others on web
  sockets. Here are the admission of a client, the arguments of the child process, the relay of
  notifications, the table of clients with their pending requests, the service requests of
  \<open>Requests\<close>, the index of \<open>Threads\<close> and the turn clients of \<open>ToolCalls\<close>. What a session
  (\<open>ShimProxy\<close>) makes of a message is left open: it is handed over as an output and what it writes
  to its client is an event. \<open>JSON.stringify\<close> is an argument, time and random identifiers
  are parts of the events.
\<close>

section \<open>Admission and arguments\<close>

definition is_url_safe :: "char \<Rightarrow> bool" where
  "is_url_safe c \<longleftrightarrow> is_alnum c \<or> c = CHR ''_'' \<or> c = CHR ''-''"

text \<open>\<open>/^Bearer ([A-Za-z0-9_-]+)$/\<close>.\<close>

definition bearer_token :: "string option \<Rightarrow> string option" where
  "bearer_token auth =
     (case auth of
        None \<Rightarrow> None
      | Some a \<Rightarrow>
          let t = drop 7 a in
          if starts_with a ''Bearer '' \<and> t \<noteq> [] \<and> list_all is_url_safe t then Some t else None)"

definition secret_matches :: "string option \<Rightarrow> string \<Rightarrow> bool" where
  "secret_matches actual expected =
     (case actual of
        None \<Rightarrow> False
      | Some a \<Rightarrow> a \<noteq> [] \<and> length a = length expected \<and> list_all2 (=) a expected)"

datatype lifecycle = Starting | ReadyState | Stopping | Detached | FailedState

definition admits :: "string option \<Rightarrow> lifecycle \<Rightarrow> string option \<Rightarrow> string \<Rightarrow> bool" where
  "admits origin life auth token \<longleftrightarrow>
     (origin = None \<or> origin = Some []) \<and> life = ReadyState \<and> secret_matches (bearer_token auth) token"

definition transport_flags :: "string list" where
  "transport_flags =
     [''--ws-auth'', ''--ws-token-file'', ''--ws-token-sha256'', ''--ws-shared-secret-file'', ''--ws-issuer'',
      ''--ws-audience'', ''--ws-max-clock-skew-seconds'']"

fun strip_transport :: "string list \<Rightarrow> string list" where
  "strip_transport [] = []"
| "strip_transport (a # as) =
     (if a = ''--stdio'' then strip_transport as
      else if a = ''--listen'' then strip_transport (drop 1 as)
      else if starts_with a ''--listen='' then strip_transport as
      else if a \<in> set transport_flags then strip_transport (drop 1 as)
      else a # strip_transport as)"

definition with_shared_transport :: "string list \<Rightarrow> string \<Rightarrow> string \<Rightarrow> string list" where
  "with_shared_transport as endpoint token_path =
     strip_transport as @ [''--listen'', endpoint, ''--ws-auth'', ''capability-token'', ''--ws-token-file'', token_path]"

section \<open>The relay of notifications\<close>

record relayed =
  re_expires :: int
  re_sources :: "string list"

record relay =
  rl_recent :: "(string, relayed) jsmap"
  rl_stdio :: bool
  rl_writers :: "string list"
  rl_counts :: "(string, nat) jsmap"

definition new_relay :: relay where
  "new_relay = \<lparr>rl_recent = [], rl_stdio = False, rl_writers = [], rl_counts = []\<rparr>"

definition dedup_ms :: int where
  "dedup_ms = 1000"

definition max_recent :: nat where
  "max_recent = 256"

text \<open>Above the limit, the expired entries go, then the oldest ones.\<close>

definition evict_recent :: "int \<Rightarrow> (string, relayed) jsmap \<Rightarrow> (string, relayed) jsmap" where
  "evict_recent now m =
     (if length m > max_recent
      then let live = filter (\<lambda>(k, v). \<not> re_expires v \<le> now) m in drop (length live - max_recent) live
      else m)"

definition relay_targets :: "relay \<Rightarrow> string list" where
  "relay_targets rl = (if rl_stdio rl then [''stdio''] else []) @ rl_writers rl"

definition relay_count :: "relay \<Rightarrow> string \<Rightarrow> nat" where
  "relay_count rl c = (case jm_get (rl_counts rl) c of None \<Rightarrow> 0 | Some n \<Rightarrow> n)"

definition is_repeat :: "int \<Rightarrow> string \<Rightarrow> relayed \<Rightarrow> bool" where
  "is_repeat now src e \<longleftrightarrow> re_expires e > now \<and> src \<notin> set (re_sources e)"

definition broadcast :: "(jobj \<Rightarrow> string) \<Rightarrow> int \<Rightarrow> string \<Rightarrow> jobj \<Rightarrow> relay \<Rightarrow> relay \<times> (string \<times> jobj) list" where
  "broadcast encode now src m rl =
     (let fp = encode m;
          send = (rl\<lparr>rl_recent := evict_recent now (jm_set (rl_recent rl) fp \<lparr>re_expires = now + dedup_ms, re_sources = [src]\<rparr>),
                     rl_counts := (if src \<noteq> ''stdio'' \<and> rl_stdio rl
                                   then jm_set (rl_counts rl) src (Suc (relay_count rl src)) else rl_counts rl)\<rparr>,
                  map (\<lambda>c. (c, m)) (relay_targets rl))
      in (case jm_get (rl_recent rl) fp of
            None \<Rightarrow> send
          | Some e \<Rightarrow>
              if is_repeat now src e
              then (rl\<lparr>rl_recent := jm_set (rl_recent rl) fp (e\<lparr>re_sources := re_sources e @ [src]\<rparr>)\<rparr>, [])
              else send))"

text \<open>The relay with clients that come and go.\<close>

datatype relay_event =
    Notifies int string jobj
  | Joins string
  | Leaves string

fun relay_step :: "(jobj \<Rightarrow> string) \<Rightarrow> relay \<Rightarrow> relay_event \<Rightarrow> relay \<times> (string \<times> jobj) list" where
  "relay_step encode rl (Notifies now src m) = broadcast encode now src m rl"
| "relay_step encode rl (Joins c) =
     ((if c = ''stdio'' then rl\<lparr>rl_stdio := True\<rparr> else rl\<lparr>rl_writers := set_add (rl_writers rl) c\<rparr>), [])"
| "relay_step encode rl (Leaves c) =
     ((if c = ''stdio'' then rl\<lparr>rl_stdio := False\<rparr>
       else rl\<lparr>rl_writers := removeAll c (rl_writers rl), rl_counts := jm_del (rl_counts rl) c\<rparr>), [])"

definition arrivals :: "(jobj \<Rightarrow> string) \<Rightarrow> string \<Rightarrow> string \<Rightarrow> relay_event list \<Rightarrow> nat" where
  "arrivals encode fp src es =
     length (filter (\<lambda>e. case e of Notifies now s m \<Rightarrow> s = src \<and> encode m = fp | _ \<Rightarrow> False) es)"

definition deliveries :: "(jobj \<Rightarrow> string) \<Rightarrow> string \<Rightarrow> string \<Rightarrow> (string \<times> jobj) list \<Rightarrow> nat" where
  "deliveries encode fp c out = length (filter (\<lambda>(d, m). d = c \<and> encode m = fp) out)"

definition connected :: "string \<Rightarrow> relay \<Rightarrow> bool" where
  "connected c rl \<longleftrightarrow> c \<in> set (relay_targets rl)"

text \<open>The broadcast a source may still have suppressed: an earlier one of another source.\<close>

definition credit :: "string \<Rightarrow> string \<Rightarrow> relay \<Rightarrow> nat" where
  "credit fp src rl =
     (case jm_get (rl_recent rl) fp of None \<Rightarrow> 0 | Some e \<Rightarrow> if src \<in> set (re_sources e) then 0 else 1)"

lemma evict_sub: "set (evict_recent now m) \<subseteq> set m"
  by (auto simp: evict_recent_def Let_def dest: in_set_dropD split: if_splits)

lemma evict_bound: "length (evict_recent now m) \<le> max_recent"
  unfolding evict_recent_def Let_def by (auto simp del: max_recent_def)

lemma evict_ok: "jm_ok m \<Longrightarrow> jm_ok (evict_recent now m)"
  by (simp add: evict_recent_def Let_def jm_ok_def drop_map [symmetric] distinct_drop distinct_map_filter)

definition relay_ok :: "relay \<Rightarrow> bool" where
  "relay_ok rl \<longleftrightarrow> jm_ok (rl_recent rl) \<and> length (rl_recent rl) \<le> max_recent"

lemma evict_get:
  assumes "jm_ok m" "jm_get (evict_recent now m) k = Some e"
  shows "jm_get m k = Some e"
  using assms evict_sub [of now m] evict_ok [OF assms(1), of now] by (auto simp: jm_get_in)

lemma broadcast_cases:
  assumes "relay_ok rl"
  obtains (repeat) e where "jm_get (rl_recent rl) (encode m) = Some e" "is_repeat now src e"
      "broadcast encode now src m rl =
        (rl\<lparr>rl_recent := jm_set (rl_recent rl) (encode m) (e\<lparr>re_sources := re_sources e @ [src]\<rparr>)\<rparr>, [])"
  | (send) "snd (broadcast encode now src m rl) = map (\<lambda>c. (c, m)) (relay_targets rl)"
      "rl_recent (fst (broadcast encode now src m rl)) =
        evict_recent now (jm_set (rl_recent rl) (encode m) \<lparr>re_expires = now + dedup_ms, re_sources = [src]\<rparr>)"
      "relay_targets (fst (broadcast encode now src m rl)) = relay_targets rl"
proof (cases "\<exists>e. jm_get (rl_recent rl) (encode m) = Some e \<and> is_repeat now src e")
  case True
  then show ?thesis using repeat by (auto simp: broadcast_def Let_def)
next
  case False
  then show ?thesis using send by (cases "jm_get (rl_recent rl) (encode m)") (auto simp: broadcast_def Let_def relay_targets_def)
qed

lemma relay_ok_step: "relay_ok rl \<Longrightarrow> relay_ok (fst (relay_step encode rl e))"
proof (cases e)
  case (Notifies now src m)
  assume ok: "relay_ok rl"
  from ok show ?thesis
  proof (cases rule: broadcast_cases [of rl encode m now src])
    case (repeat e)
    then show ?thesis using ok Notifies by (simp add: relay_ok_def jm.ok_put jm.size_put)
  next
    case send
    then show ?thesis using ok Notifies by (simp add: relay_ok_def jm.ok_put evict_ok evict_bound)
  qed
qed (auto simp: relay_ok_def)

interpretation relay: invariant_machine "\<lambda>rl e. fst (relay_step encode rl e)" relay_ok
  by unfold_locales (rule relay_ok_step)

lemma deliveries_append [simp]: "deliveries encode fp c (xs @ ys) = deliveries encode fp c xs + deliveries encode fp c ys"
  by (simp add: deliveries_def)

lemma delivered_to_all:
  "c \<in> set cs \<Longrightarrow> encode m = fp \<Longrightarrow> 1 \<le> deliveries encode fp c (map (\<lambda>c. (c, m)) cs)"
  by (induction cs) (auto simp: deliveries_def)

lemma connected_step: "connected c rl \<Longrightarrow> e \<noteq> Leaves c \<Longrightarrow> connected c (fst (relay_step encode rl e))"
  by (cases e) (auto simp: connected_def relay_targets_def broadcast_def Let_def split: option.splits if_splits)

lemma credit_step:
  assumes "relay_ok rl" "connected c rl"
  shows "arrivals encode fp src [e] + credit fp src (fst (relay_step encode rl e))
    \<le> deliveries encode fp c (snd (relay_step encode rl e)) + credit fp src rl"
proof (cases e)
  case (Notifies now s m)
  from assms(1) show ?thesis
  proof (cases rule: broadcast_cases [of rl encode m now s])
    case (repeat e')
    then show ?thesis using Notifies by (auto simp: arrivals_def deliveries_def credit_def is_repeat_def)
  next
    case send
    let ?rl = "fst (relay_step encode rl e)"
    show ?thesis
    proof (cases "encode m = fp")
      case True
      have one: "1 \<le> deliveries encode fp c (snd (relay_step encode rl e))"
        using send(1) delivered_to_all [of c "relay_targets rl" encode m fp] assms(2) True Notifies by (simp add: connected_def)
      have "arrivals encode fp src [e] + credit fp src ?rl \<le> 1"
      proof (cases "jm_get (rl_recent ?rl) fp")
        case (Some e')
        have "jm_get (jm_set (rl_recent rl) fp \<lparr>re_expires = now + dedup_ms, re_sources = [s]\<rparr>) fp = Some e'"
          using evict_get [of "jm_set (rl_recent rl) fp \<lparr>re_expires = now + dedup_ms, re_sources = [s]\<rparr>" now fp e']
            Some send(2) assms(1) True Notifies by (simp add: relay_ok_def jm.ok_put)
        then show ?thesis using Some Notifies True by (auto simp: arrivals_def credit_def)
      qed (auto simp: arrivals_def credit_def)
      with one show ?thesis by simp
    next
      case False
      have "credit fp src ?rl \<le> credit fp src rl"
      proof (cases "jm_get (rl_recent ?rl) fp")
        case (Some e')
        have "jm_get (rl_recent rl) fp = Some e'"
          using evict_get [of "jm_set (rl_recent rl) (encode m) \<lparr>re_expires = now + dedup_ms, re_sources = [s]\<rparr>" now fp e']
            Some send(2) assms(1) False Notifies by (simp add: relay_ok_def jm.ok_put)
        then show ?thesis using Some by (simp add: credit_def)
      qed (simp add: credit_def)
      then show ?thesis using False Notifies by (simp add: arrivals_def)
    qed
  qed
qed (auto simp: arrivals_def deliveries_def credit_def)

lemma credit_run:
  assumes "relay_ok rl" "connected c rl" "Leaves c \<notin> set es"
  shows "arrivals encode fp src es \<le> deliveries encode fp c (outputs (relay_step encode) rl es) + credit fp src rl"
  using assms
proof (induction es arbitrary: rl)
  case (Cons e es)
  let ?rl = "fst (relay_step encode rl e)"
  have "arrivals encode fp src (e # es) = arrivals encode fp src [e] + arrivals encode fp src es"
    by (simp add: arrivals_def)
  moreover have "arrivals encode fp src es \<le> deliveries encode fp c (outputs (relay_step encode) ?rl es) + credit fp src ?rl"
    using Cons.IH [OF relay_ok_step connected_step] Cons.prems by auto
  moreover note credit_step [OF Cons.prems(1,2), of encode fp src e]
  ultimately show ?case by simp
qed (simp add: arrivals_def)

text \<open>C17. The relay loses no notification. The app server sends a notification on the connection of
  every client; the relay shows each client one copy instead of one for every connection. However
  the copies interleave, in whatever time, with clients coming and going and entries evicted: as
  often as a notification (told by its encoding) arrived on any one connection, so often at
  least it was delivered to every client that stayed. The table of recent notifications never
  holds more than 256 entries.
\<close>

theorem relay_loses_nothing:
  assumes "Leaves c \<notin> set es"
  shows "arrivals encode fp src es
      \<le> deliveries encode fp c (outputs (relay_step encode) (fst (relay_step encode new_relay (Joins c))) es) \<and>
    length (rl_recent (run (\<lambda>rl e. fst (relay_step encode rl e)) new_relay es)) \<le> 256"
proof -
  let ?rl = "fst (relay_step encode new_relay (Joins c))"
  have new: "relay_ok new_relay" by (simp add: relay_ok_def new_relay_def)
  then have "relay_ok ?rl" by (rule relay_ok_step)
  moreover have "connected c ?rl" "credit fp src ?rl = 0"
    by (auto simp: connected_def relay_targets_def new_relay_def credit_def)
  ultimately have "arrivals encode fp src es \<le> deliveries encode fp c (outputs (relay_step encode) ?rl es)"
    using credit_run [of ?rl c es encode fp src] assms by simp
  moreover have "relay_ok (run (\<lambda>rl e. fst (relay_step encode rl e)) new_relay es)"
    using relay.run_inv [OF new] .
  ultimately show ?thesis by (simp add: relay_ok_def max_recent_def)
qed

text \<open>Two notifications of the same content, each on two connections: delivered three times.\<close>

definition tick_message :: jobj where
  "tick_message = [(''method'', JStr ''tick'')]"

definition relay_events :: "relay_event list" where
  "relay_events = [Notifies 0 ''a'' tick_message, Notifies 1 ''a'' tick_message,
     Notifies 2 ''b'' tick_message, Notifies 3 ''b'' tick_message]"

lemma relay_loses_nothing_witness:
  "2 = arrivals (\<lambda>m. ''f'') ''f'' ''a'' relay_events \<and>
   2 \<le> deliveries (\<lambda>m. ''f'') ''f'' ''stdio''
     (outputs (relay_step (\<lambda>m. ''f'')) (fst (relay_step (\<lambda>m. ''f'') new_relay (Joins ''stdio''))) relay_events)"
proof -
  have "2 = arrivals (\<lambda>m. ''f'') ''f'' ''a'' relay_events" by code_simp
  moreover have "Leaves ''stdio'' \<notin> set relay_events" by (simp add: relay_events_def)
  ultimately show ?thesis
    using relay_loses_nothing [of "''stdio''" relay_events "\<lambda>m. ''f''" "''f''" "''a''"] by linarith
qed

lemma relay_delivers_three:
  "deliveries (\<lambda>m. ''f'') ''f'' ''stdio''
     (outputs (relay_step (\<lambda>m. ''f'')) (fst (relay_step (\<lambda>m. ''f'') new_relay (Joins ''stdio''))) relay_events) = 3"
  by code_simp

section \<open>Admission\<close>

lemma starts_with_split: "starts_with a p \<and> drop (length p) a = t \<longleftrightarrow> a = p @ t"
  by (metis append_eq_conv_conj append_take_drop_id starts_with_def)

text \<open>Admission to the gateway. A client is let in exactly when its request carries no browser
  origin, the gateway is ready and the authorization header is the bearer form of the secret, which
  has to be a word of URL-safe characters; an unset (empty) secret admits nobody.
\<close>

theorem admission_exact:
  "admits origin life auth token =
     ((origin = None \<or> origin = Some []) \<and> life = ReadyState \<and> auth = Some (''Bearer '' @ token) \<and>
      token \<noteq> [] \<and> list_all is_url_safe token)"
proof -
  have seven: "length ''Bearer '' = 7" by simp
  have "starts_with a ''Bearer '' \<and> drop 7 a = token \<longleftrightarrow> a = ''Bearer '' @ token" for a
    by (metis starts_with_split seven)
  then have "bearer_token auth = Some token \<longleftrightarrow> auth = Some (''Bearer '' @ token) \<and> token \<noteq> [] \<and> list_all is_url_safe token"
    by (cases auth) (auto simp: bearer_token_def Let_def simp del: append.simps)
  moreover have "secret_matches v token \<longleftrightarrow> v = Some token \<and> token \<noteq> []" for v
    by (auto simp: secret_matches_def list.rel_eq split: option.split)
  ultimately show ?thesis by (auto simp: admits_def)
qed

lemma strip_has_no_flags:
  "a \<in> set (strip_transport as) \<Longrightarrow>
   a \<noteq> ''--stdio'' \<and> a \<noteq> ''--listen'' \<and> \<not> starts_with a ''--listen='' \<and> a \<notin> set transport_flags"
  by (induction as rule: strip_transport.induct) (auto split: if_splits)

lemma strip_keeps_plain:
  "list_all (\<lambda>a. a \<noteq> ''--stdio'' \<and> a \<noteq> ''--listen'' \<and> \<not> starts_with a ''--listen='' \<and> a \<notin> set transport_flags) as \<Longrightarrow>
   strip_transport as = as"
  by (induction as) auto

section \<open>The clients\<close>

record client_request =
  cr_identity :: client_identity
  cr_method :: string
  cr_thread :: "string option"
  cr_turn :: "string option"

record client =
  cl_conn :: nat
  cl_identity :: client_identity
  cl_initialized :: bool
  cl_replayed :: bool
  cl_closed :: bool
  cl_external :: "(json, jobj) jsmap"
  cl_requests :: "(json, client_request) jsmap"

record server =
  sv_service :: bool
  sv_configured :: bool
  sv_persistent :: bool
  sv_stopping :: bool
  sv_vscode_ready :: bool
  sv_idle :: bool
  sv_root :: string
  sv_pid :: int
  sv_app_pid :: "int option"
  sv_clients :: "(string, client) jsmap"
  sv_relay :: relay
  sv_requests :: service_requests
  sv_threads :: thread_index
  sv_active :: "(string, string) jsmap"
  sv_turns :: turn_clients
  sv_orphans :: "string list"

text \<open>What the server does to the outside.\<close>

datatype server_output =
    Deliver string jobj
  | Reply nat jobj
  | Handle string jobj
  | Interrupt nat string string
  | CloseClient string
  | StopSoon

text \<open>Reading of the parameters of a request: \<open>isRecord(message.params) ? message.params : {}\<close>.\<close>

definition params_of :: "jobj \<Rightarrow> jobj" where
  "params_of m = (case rprop m ''params'' of None \<Rightarrow> [] | Some p \<Rightarrow> p)"

definition observed_methods :: "string list" where
  "observed_methods =
     [''initialize'', ''thread/start'', ''thread/read'', ''thread/resume'', ''thread/fork'', ''thread/unsubscribe'',
      ''thread/archive'', ''thread/delete'', ''turn/start'', ''turn/steer'']"

definition observe_client_message :: "jobj \<Rightarrow> client_identity \<Rightarrow> (json, client_request) jsmap \<Rightarrow> (json, client_request) jsmap" where
  "observe_client_message m ident pend =
     (if \<not> is_rpc_request m then pend
      else case (sprop m ''method'', oget m ''id'') of
        (Some meth, Some i) \<Rightarrow>
          if meth \<in> set observed_methods
          then jm_set pend i \<lparr>cr_identity = ident, cr_method = meth, cr_thread = sprop (params_of m) ''threadId'',
                             cr_turn = sprop (params_of m) ''expectedTurnId''\<rparr>
          else pend
      | _ \<Rightarrow> pend)"

definition starting_methods :: "string list" where
  "starting_methods = [''thread/start'', ''thread/resume'', ''thread/fork'']"

definition is_vscode :: "client_identity \<Rightarrow> bool" where
  "is_vscode ident \<longleftrightarrow> ci_source ident = ''vscode''"

definition started_cwd :: "jobj \<Rightarrow> string option" where
  "started_cwd res =
     (case rprop res ''thread'' of
        None \<Rightarrow> None
      | Some th \<Rightarrow> (case sprop th ''cwd'' of None \<Rightarrow> None | Some d \<Rightarrow> if starts_with d ''/'' then Some d else None))"

definition started_turn :: "jobj \<Rightarrow> string option" where
  "started_turn ob = (case rprop ob ''turn'' of None \<Rightarrow> None | Some tn \<Rightarrow> sprop tn ''id'')"

text \<open>A response to a request of a client; \<open>ok\<close> is \<open>!message.error\<close>.\<close>

definition observe_answer :: "client_request \<Rightarrow> bool \<Rightarrow> jobj \<Rightarrow> server \<Rightarrow> server" where
  "observe_answer rq ok res sv =
     (let vs = is_vscode (cr_identity rq);
          sv1 = (if ok \<and> cr_method rq = ''initialize'' \<and> vs then sv\<lparr>sv_vscode_ready := True\<rparr> else sv);
          sv2 = (if ok
                 then sv1\<lparr>sv_threads := index_response (cr_method rq) (cr_thread rq) (Some (JObj res)) (\<not> sv_service sv \<and> vs)
                                       (sv_threads sv1),
                          sv_root := (if \<not> sv_service sv \<and> \<not> sv_configured sv \<and> vs \<and> cr_method rq \<in> set starting_methods
                                      then (case started_cwd res of None \<Rightarrow> sv_root sv1 | Some d \<Rightarrow> d) else sv_root sv1)\<rparr>
                 else sv1)
      in (case cr_thread rq of
            None \<Rightarrow> sv2
          | Some t \<Rightarrow>
              if t = [] then sv2
              else if cr_method rq = ''turn/start''
              then (case started_turn res of
                      None \<Rightarrow> sv2
                    | Some u \<Rightarrow>
                        sv2\<lparr>sv_active := (if ok then jm_set (sv_active sv2) t u else sv_active sv2),
                            sv_turns := record_turn t u (cr_identity rq) (sv_turns sv2)\<rparr>)
              else if ok \<and> cr_method rq = ''turn/steer''
              then (case cr_turn rq of
                      None \<Rightarrow> sv2
                    | Some u \<Rightarrow> if u = [] then sv2
                        else sv2\<lparr>sv_turns := record_turn t u (cr_identity rq) (sv_turns sv2)\<rparr>)
              else sv2))"

text \<open>The threads with a turn that runs.\<close>

definition observe_active :: "string \<Rightarrow> jobj \<Rightarrow> (string, string) jsmap \<Rightarrow> (string, string) jsmap" where
  "observe_active meth params act =
     (case sprop params ''threadId'' of
        None \<Rightarrow> act
      | Some t \<Rightarrow>
          if meth = ''turn/started'' \<and> started_turn params \<noteq> None
          then jm_set act t (the (started_turn params))
          else if meth = ''turn/completed'' \<and> rprop params ''turn'' \<noteq> None \<and>
             map_option JStr (jm_get act t) = oget (the (rprop params ''turn'')) ''id''
          then jm_del act t
          else if meth \<in> set closed_methods then jm_del act t
          else if meth = ''thread/status/changed'' \<and> rprop params ''status'' \<noteq> None
          then (let ty = oget (the (rprop params ''status'')) ''type'' in
                if ty = Some (JStr ''active'') \<and> jm_get act t = None then jm_set act t ''unknown''
                else if ty = Some (JStr ''idle'') \<and> jm_get act t = Some ''unknown'' then jm_del act t
                else act)
          else act)"

definition observe_notice :: "string \<Rightarrow> jobj \<Rightarrow> server \<Rightarrow> server" where
  "observe_notice meth params sv =
     sv\<lparr>sv_threads := index_notification meth (Some (JObj params)) (sv_threads sv),
        sv_active := observe_active meth params (sv_active sv),
        sv_turns :=
          (if meth = ''turn/completed''
           then (case (sprop params ''threadId'', started_turn params) of
                   (Some t, Some u) \<Rightarrow> complete_turn t u (sv_turns sv)
                 | _ \<Rightarrow> sv_turns sv)
           else sv_turns sv)\<rparr>"

definition observe_server_message :: "string \<Rightarrow> jobj \<Rightarrow> server \<Rightarrow> server" where
  "observe_server_message c m sv =
     (case jm_get (sv_clients sv) c of
        None \<Rightarrow> sv
      | Some cl \<Rightarrow>
          if is_rpc_response m
          then (case jm_get (cl_requests cl) (the (oget m ''id'')) of
                  None \<Rightarrow> sv
                | Some rq \<Rightarrow>
                    observe_answer rq (\<not> truthy (oget m ''error''))
                      (case rprop m ''result'' of None \<Rightarrow> [] | Some r \<Rightarrow> r)
                      (sv\<lparr>sv_clients := jm_set (sv_clients sv) c
                           (cl\<lparr>cl_requests := jm_del (cl_requests cl) (the (oget m ''id''))\<rparr>)\<rparr>))
          else (case (sprop m ''method'', rprop m ''params'') of
                  (Some meth, Some params) \<Rightarrow> observe_notice meth params sv
                | _ \<Rightarrow> sv))"

text \<open>\<open>isVsCodeConversationClientName\<close>: the prefix and a version 1 to 8 UUID, in either case.\<close>

definition client_name_prefix :: string where
  "client_name_prefix = ''codex_remote_bridge_external_client_''"

definition is_hex :: "char \<Rightarrow> bool" where
  "is_hex c \<longleftrightarrow> is_digit c \<or> c \<in> set ''abcdefABCDEF''"

definition uuid_at :: "nat \<Rightarrow> char \<Rightarrow> bool" where
  "uuid_at i c =
     (if i \<in> {8, 13, 18, 23} then c = CHR ''-''
      else if i = 14 then c \<in> set ''12345678''
      else if i = 19 then c \<in> set ''89abAB''
      else is_hex c)"

definition is_uuid :: "string \<Rightarrow> bool" where
  "is_uuid s \<longleftrightarrow> length s = 36 \<and> list_all (\<lambda>i. uuid_at i (s ! i)) [0..<36]"

definition is_conversation_client :: "json option \<Rightarrow> bool" where
  "is_conversation_client v =
     (case as_string v of
        None \<Rightarrow> False
      | Some s \<Rightarrow> starts_with s client_name_prefix \<and> is_uuid (drop (length client_name_prefix) s))"

definition is_external_mcp_initialize :: "jobj \<Rightarrow> bool" where
  "is_external_mcp_initialize m \<longleftrightarrow>
     sprop m ''method'' = Some ''initialize'' \<and>
     (case rprop m ''params'' of
        None \<Rightarrow> False
      | Some params \<Rightarrow>
          (case rprop params ''clientInfo'' of None \<Rightarrow> False | Some info \<Rightarrow> is_conversation_client (oget info ''name'')))"

text \<open>\<open>#externalRequestAuditDetails\<close>: the method and the identifiers, nothing else of the parameters.\<close>

definition audit_keys :: "string list" where
  "audit_keys = [''threadId'', ''turnId'', ''expectedTurnId'', ''callId'']"

definition audit_details :: "jobj \<Rightarrow> jobj" where
  "audit_details m =
     (case oget m ''method'' of
        None \<Rightarrow> []
      | Some meth \<Rightarrow>
          (''method'', meth) #
            concat (map (\<lambda>k. case sprop (params_of m) k of None \<Rightarrow> [] | Some v \<Rightarrow> [(k, JStr v)]) audit_keys))"

section \<open>Messages of a client on a web socket\<close>

definition upd_client :: "string \<Rightarrow> (client \<Rightarrow> client) \<Rightarrow> server \<Rightarrow> server" where
  "upd_client c f sv =
     (case jm_get (sv_clients sv) c of None \<Rightarrow> sv | Some cl \<Rightarrow> sv\<lparr>sv_clients := jm_set (sv_clients sv) c (f cl)\<rparr>)"

definition service_busy :: "client \<Rightarrow> server \<Rightarrow> bool" where
  "service_busy cl sv \<longleftrightarrow>
     \<not> sv_idle sv \<or> ti_loaded (sv_threads sv) \<noteq> [] \<or> sv_orphans sv \<noteq> [] \<or>
     length (rl_writers (sv_relay sv)) > 1 \<or> cl_external cl \<noteq> []"

definition service_status :: "bool \<Rightarrow> server \<Rightarrow> json" where
  "service_status busy sv =
     JObj ([(''pid'', JInt (sv_pid sv))] @ (case sv_app_pid sv of None \<Rightarrow> [] | Some p \<Rightarrow> [(''appServerPid'', JInt p)]) @
       [(''clients'', JInt (int (length (rl_writers (sv_relay sv))))),
       (''activeThreads'', JArr (map (JStr \<circ> fst) (sv_active sv))),
       (''loadedThreads'', JArr (map JStr (ti_loaded (sv_threads sv)))), (''canStop'', JBool (\<not> busy))])"

definition refusal :: json where
  "refusal = JObj [(''code'', JInt (- 32000)),
     (''message'', JStr ''Service still has clients, loaded threads or unconfirmed work; refusing shutdown'')]"

text \<open>\<open>writeExternal\<close>: what reaches the socket of a client, and what a response changes.\<close>

definition write_external :: "string \<Rightarrow> jobj \<Rightarrow> server \<Rightarrow> server \<times> server_output list" where
  "write_external c m sv =
     (case jm_get (sv_clients sv) c of
        None \<Rightarrow> (sv, [])
      | Some cl \<Rightarrow>
          if \<not> is_rpc_response m then (sv, [Deliver c m])
          else
            let i = the (oget m ''id'');
                cl1 = (case jm_get (cl_external cl) i of
                         None \<Rightarrow> cl
                       | Some details \<Rightarrow>
                           cl\<lparr>cl_external := jm_del (cl_external cl) i,
                              cl_initialized := cl_initialized cl \<or>
                                (oget details ''method'' = Some (JStr ''initialize'') \<and> \<not> truthy (oget m ''error''))\<rparr>);
                sv1 = sv\<lparr>sv_clients := jm_set (sv_clients sv) c cl1\<rparr>
            in (if cl_initialized cl1 \<and> \<not> cl_closed cl1
                then (let sv2 = sv1\<lparr>sv_relay := fst (relay_step (\<lambda>_. []) (sv_relay sv1) (Joins c))\<rparr> in
                      if sv_service sv \<and> \<not> cl_replayed cl1
                      then (sv2\<lparr>sv_clients := jm_set (sv_clients sv2) c (cl1\<lparr>cl_replayed := True\<rparr>)\<rparr>,
                            Deliver c m # map (Deliver c) (replay_requests (sv_requests sv2)))
                      else (sv2, [Deliver c m]))
                else (sv1, [Deliver c m])))"

text \<open>What a session writes to its client; the client \<open>stdio\<close> has no service requests.\<close>

definition write_client :: "(jobj \<Rightarrow> string) \<Rightarrow> int \<Rightarrow> string \<Rightarrow> string \<Rightarrow> jobj \<Rightarrow> server \<Rightarrow> server \<times> server_output list" where
  "write_client encode now uuid c m sv =
     (if c \<noteq> ''stdio'' \<and> sv_service sv \<and> is_rpc_request m
      then (case jm_get (sv_clients sv) c of
              None \<Rightarrow> (sv, [])
            | Some cl \<Rightarrow>
                (case publish_request uuid c m (cl_conn cl) (sv_requests sv) of
                   (p, None) \<Rightarrow> (sv, [])
                 | (p, Some exposed) \<Rightarrow>
                     (sv\<lparr>sv_requests := p\<rparr>, map (\<lambda>d. Deliver d exposed) (rl_writers (sv_relay sv)))))
      else if is_rpc_notification m
      then (case broadcast encode now c m (sv_relay sv) of
              (rl, out) \<Rightarrow> (sv\<lparr>sv_relay := rl\<rparr>, map (\<lambda>(d, m). Deliver d m) out))
      else if c = ''stdio'' then (sv, [Deliver c m])
      else write_external c m sv)"

definition service_methods :: "string list" where
  "service_methods = [''bridge/service/status'', ''bridge/service/stop'']"

definition answer_with :: "json \<Rightarrow> string \<Rightarrow> json \<Rightarrow> jobj" where
  "answer_with i key v = [(''id'', i), (key, v)]"

text \<open>The requests the service answers itself.\<close>

definition service_request_of :: "client \<Rightarrow> jobj \<Rightarrow> server \<Rightarrow> (json \<times> string) option" where
  "service_request_of cl m sv =
     (if sv_service sv \<and> cl_initialized cl \<and> is_rpc_request m
      then (case (oget m ''id'', sprop m ''method'') of
              (Some i, Some meth) \<Rightarrow> if meth \<in> set service_methods then Some (i, meth) else None
            | _ \<Rightarrow> None)
      else None)"

definition serve_request :: "string \<Rightarrow> client \<Rightarrow> json \<Rightarrow> string \<Rightarrow> server \<Rightarrow> server \<times> server_output list" where
  "serve_request c cl i meth sv =
     (let busy = service_busy cl sv in
      if meth = ''bridge/service/stop'' \<and> busy then write_external c (answer_with i ''error'' refusal) sv
      else (case write_external c (answer_with i ''result'' (service_status busy sv)) sv of
              (sv1, out) \<Rightarrow> (sv1, out @ (if meth = ''bridge/service/stop'' then [StopSoon] else []))))"

text \<open>\<open>handleClient\<close>, for a message that was parsed.\<close>

definition take_message :: "string \<Rightarrow> client \<Rightarrow> jobj \<Rightarrow> server \<Rightarrow> server" where
  "take_message c cl m sv =
     sv\<lparr>sv_clients := jm_set (sv_clients sv) c
       (cl\<lparr>cl_requests := observe_client_message m (cl_identity cl) (cl_requests cl),
           cl_external := (if is_rpc_request m then jm_set (cl_external cl) (the (oget m ''id'')) (audit_details m)
                           else cl_external cl),
           cl_identity := (if is_external_mcp_initialize m then (cl_identity cl)\<lparr>ci_source := ''external-mcp''\<rparr>
                           else cl_identity cl)\<rparr>)\<rparr>"

definition handle_client :: "string \<Rightarrow> jobj \<Rightarrow> server \<Rightarrow> server \<times> server_output list" where
  "handle_client c m sv =
     (case jm_get (sv_clients sv) c of
        None \<Rightarrow> (sv, [])
      | Some cl \<Rightarrow>
          if c = ''stdio''
          then (sv\<lparr>sv_clients := jm_set (sv_clients sv) c
                  (cl\<lparr>cl_requests := observe_client_message m (cl_identity cl) (cl_requests cl)\<rparr>)\<rparr>, [Handle c m])
          else
            (case (if sv_service sv then respond_request m (sv_requests sv) else (sv_requests sv, False, None)) of
               (p, True, None) \<Rightarrow> (sv\<lparr>sv_requests := p\<rparr>, [])
             | (p, True, Some (conn, r)) \<Rightarrow> (sv\<lparr>sv_requests := p\<rparr>, [Reply conn r])
             | (p, False, _) \<Rightarrow>
                 (case service_request_of cl m sv of
                    Some (i, meth) \<Rightarrow> serve_request c cl i meth sv
                  | None \<Rightarrow> (take_message c cl m sv, [Handle c m]))))"

section \<open>Connections\<close>

definition fresh_client :: "string \<Rightarrow> nat \<Rightarrow> bool \<Rightarrow> client" where
  "fresh_client c conn vscode =
     \<lparr>cl_conn = conn, cl_identity = \<lparr>ci_id = c, ci_source = if vscode then ''vscode'' else ''external-cli''\<rparr>,
      cl_initialized = False, cl_replayed = False, cl_closed = False, cl_external = [], cl_requests = []\<rparr>"

definition connect_client :: "string \<Rightarrow> nat \<Rightarrow> bool \<Rightarrow> server \<Rightarrow> server" where
  "connect_client c conn vscode sv =
     (if c = ''stdio''
      then sv\<lparr>sv_clients := jm_set (sv_clients sv) c (fresh_client c conn True),
              sv_relay := fst (relay_step (\<lambda>_. []) (sv_relay sv) (Joins c))\<rparr>
      else sv\<lparr>sv_clients := jm_set (sv_clients sv) c (fresh_client c conn vscode),
              sv_relay := (sv_relay sv)\<lparr>rl_counts := jm_set (rl_counts (sv_relay sv)) c 0\<rparr>\<rparr>)"

text \<open>
  The socket of a client closes: a service keeps the session as an orphan, otherwise the client is
  cleaned up and its turns are interrupted, unless the server itself stops and will be taken over.
\<close>

definition close_client :: "string \<Rightarrow> server \<Rightarrow> server \<times> server_output list" where
  "close_client c sv =
     (case jm_get (sv_clients sv) c of
        None \<Rightarrow> (sv, [])
      | Some cl \<Rightarrow>
          if cl_closed cl then (sv, [])
          else
            let sv1 = sv\<lparr>sv_clients := jm_set (sv_clients sv) c (cl\<lparr>cl_closed := True\<rparr>),
                         sv_relay := fst (relay_step (\<lambda>_. []) (sv_relay sv) (Leaves c))\<rparr>
            in (if sv_service sv \<and> \<not> sv_stopping sv then (sv1\<lparr>sv_orphans := set_add (sv_orphans sv) c\<rparr>, [])
                else
                  let sv2 = upd_client c (\<lambda>cl. cl\<lparr>cl_external := []\<rparr>) sv1
                  in (if sv_service sv \<or> sv_persistent sv \<and> sv_stopping sv then (sv2, [])
                      else (case take_for_client c (sv_turns sv2) of
                              (tn, turns) \<Rightarrow>
                                (sv2\<lparr>sv_turns := tn\<rparr>, map (\<lambda>(t, u). Interrupt (cl_conn cl) t u) turns)))))"

text \<open>The upstream connection of a client closes.\<close>

definition upstream_closes :: "string \<Rightarrow> server \<Rightarrow> server \<times> server_output list" where
  "upstream_closes c sv = (sv\<lparr>sv_requests := remove_source c (sv_requests sv)\<rparr>, [CloseClient c])"

text \<open>The monitor of a service drops the orphans whose work is over.\<close>

definition orphan_done :: "string list \<Rightarrow> server \<Rightarrow> string \<Rightarrow> bool" where
  "orphan_done gone sv c \<longleftrightarrow>
     c \<in> set gone \<or>
     sv_active sv = [] \<and>
     (case jm_get (sv_clients sv) c of None \<Rightarrow> True | Some cl \<Rightarrow> cl_external cl = []) \<and>
     \<not> has_source c (sv_requests sv)"

definition drop_orphan :: "string list \<Rightarrow> server \<Rightarrow> string \<Rightarrow> server" where
  "drop_orphan gone sv c =
     (if orphan_done gone sv c
      then sv\<lparr>sv_requests := remove_source c (sv_requests sv), sv_orphans := removeAll c (sv_orphans sv)\<rparr>
      else sv)"

definition monitor :: "string list \<Rightarrow> server \<Rightarrow> server" where
  "monitor gone sv = foldl (drop_orphan gone) sv (sv_orphans sv)"

datatype server_event =
    Connects string nat bool
  | FromClient string jobj
  | ToClient int string string jobj
  | FromServer string jobj
  | HandlingFails string json
  | ClosesClient string
  | ClosesUpstream string
  | Monitors "string list"
  | Idle bool
  | Stops

fun server_step :: "(jobj \<Rightarrow> string) \<Rightarrow> server \<Rightarrow> server_event \<Rightarrow> server \<times> server_output list" where
  "server_step encode sv (Connects c conn vscode) = (connect_client c conn vscode sv, [])"
| "server_step encode sv (FromClient c m) = handle_client c m sv"
| "server_step encode sv (ToClient now uuid c m) = write_client encode now uuid c m sv"
| "server_step encode sv (FromServer c m) = (observe_server_message c m sv, [])"
| "server_step encode sv (HandlingFails c i) =
     (upd_client c (\<lambda>cl. cl\<lparr>cl_external := jm_del (cl_external cl) i\<rparr>) sv, [])"
| "server_step encode sv (ClosesClient c) = close_client c sv"
| "server_step encode sv (ClosesUpstream c) = upstream_closes c sv"
| "server_step encode sv (Monitors gone) = (if sv_service sv then monitor gone sv else sv, [])"
| "server_step encode sv (Idle b) = (sv\<lparr>sv_idle := b\<rparr>, [])"
| "server_step encode sv Stops = (sv\<lparr>sv_stopping := True\<rparr>, [])"

section \<open>Service requests are shown once\<close>

definition shown_in :: "string \<Rightarrow> string \<Rightarrow> server_output list \<Rightarrow> nat" where
  "shown_in c i out =
     length (filter (\<lambda>x. case x of Deliver d m \<Rightarrow> d = c \<and> is_rpc_request m \<and> oget m ''id'' = Some (JStr i) | _ \<Rightarrow> False) out)"

lemma shown_append [simp]: "shown_in c i (xs @ ys) = shown_in c i xs + shown_in c i ys"
  by (simp add: shown_in_def)

lemma shown_Nil [simp]: "shown_in c i [] = 0"
  by (simp add: shown_in_def)

lemma shown_Cons: "shown_in c i (x # xs) = shown_in c i [x] + shown_in c i xs"
  by (simp add: shown_in_def)

lemma shown_not_request [simp]: "\<not> is_rpc_request m \<Longrightarrow> shown_in c i [Deliver d m] = 0"
  by (simp add: shown_in_def)

lemma shown_none: "(\<And>d m. Deliver d m \<in> set xs \<Longrightarrow> \<not> is_rpc_request m) \<Longrightarrow> shown_in c i xs = 0"
  by (auto simp: shown_in_def filter_empty_conv split: server_output.split)

text \<open>What the argument needs of a client: whether it exists, was replayed to, is closed.\<close>

definition flags :: "server \<Rightarrow> string \<Rightarrow> (bool \<times> bool) option" where
  "flags sv c = map_option (\<lambda>cl. (cl_replayed cl, cl_closed cl)) (jm_get (sv_clients sv) c)"

abbreviation writers :: "server \<Rightarrow> string list" where
  "writers sv \<equiv> rl_writers (sv_relay sv)"

definition table_inv :: "string set \<Rightarrow> string set \<Rightarrow> server \<Rightarrow> bool" where
  "table_inv U C sv \<longleftrightarrow>
     sv_service sv \<and> jm_ok (sv_requests sv) \<and> fst ` set (sv_requests sv) \<subseteq> U \<and>
     (\<forall>q \<in> snd ` set (sv_requests sv). is_rpc_request (sq_message q)) \<and>
     (\<forall>c. flags sv c \<noteq> None \<longrightarrow> c \<in> C) \<and> distinct (writers sv) \<and>
     (\<forall>c. c \<in> set (writers sv) \<longleftrightarrow> c \<noteq> ''stdio'' \<and> flags sv c = Some (True, False))"

definition shown_inv :: "string set \<Rightarrow> server \<Rightarrow> server_output list \<Rightarrow> bool" where
  "shown_inv U sv out \<longleftrightarrow>
     (\<forall>c i. c \<noteq> ''stdio'' \<longrightarrow>
        shown_in c i out \<le> 1 \<and>
        (shown_in c i out \<noteq> 0 \<longrightarrow> i \<in> U \<and> (\<exists>b. flags sv c = Some (True, b))) \<and>
        (c \<in> set (writers sv) \<longrightarrow> i \<in> fst ` set (sv_requests sv) \<longrightarrow> shown_in c i out = 1))"

definition server_inv :: "string set \<Rightarrow> string set \<Rightarrow> server \<Rightarrow> server_output list \<Rightarrow> bool" where
  "server_inv U C sv out \<longleftrightarrow> table_inv U C sv \<and> shown_inv U sv out"

text \<open>A step that shows no request and leaves clients and writers as they are.\<close>

definition quiet_step :: "server \<Rightarrow> server \<Rightarrow> server_output list \<Rightarrow> bool" where
  "quiet_step sv sv' out \<longleftrightarrow>
     sv_service sv' = sv_service sv \<and> flags sv' = flags sv \<and> writers sv' = writers sv \<and>
     (jm_ok (sv_requests sv) \<longrightarrow> jm_ok (sv_requests sv')) \<and> set (sv_requests sv') \<subseteq> set (sv_requests sv) \<and>
     (\<forall>c i. c \<noteq> ''stdio'' \<longrightarrow> shown_in c i out = 0)"

lemma quiet_table: "quiet_step sv sv' o' \<Longrightarrow> table_inv U C sv \<Longrightarrow> table_inv U C sv'"
  by (auto simp: quiet_step_def table_inv_def image_subset_iff)

lemma quiet_shown: "quiet_step sv sv' o' \<Longrightarrow> shown_inv U sv out \<Longrightarrow> shown_inv U sv' (out @ o')"
  by (auto simp: quiet_step_def shown_inv_def)

lemma quiet_inv: "quiet_step sv sv' o' \<Longrightarrow> server_inv U C sv out \<Longrightarrow> server_inv U C sv' (out @ o')"
  by (simp add: server_inv_def quiet_table quiet_shown)

lemma quiet_refl [simp]: "quiet_step sv sv []"
  by (simp add: quiet_step_def)

lemma quiet_trans: "quiet_step sv sv1 o1 \<Longrightarrow> quiet_step sv1 sv2 o2 \<Longrightarrow> quiet_step sv sv2 (o1 @ o2)"
  by (auto simp: quiet_step_def)

lemma flags_set: "flags (sv\<lparr>sv_clients := jm_set (sv_clients sv) c cl\<rparr>) d =
    (if d = c then Some (cl_replayed cl, cl_closed cl) else flags sv d)"
  by (simp add: flags_def)

lemma quiet_client:
  assumes "jm_get (sv_clients sv) c = Some cl" "cl_replayed cl' = cl_replayed cl" "cl_closed cl' = cl_closed cl"
  shows "quiet_step sv (sv\<lparr>sv_clients := jm_set (sv_clients sv) c cl'\<rparr>) []"
  using assms by (auto simp: quiet_step_def fun_eq_iff flags_def)

lemma quiet_same:
  assumes "sv_service sv' = sv_service sv" "sv_clients sv' = sv_clients sv" "sv_relay sv' = sv_relay sv"
    "sv_requests sv' = sv_requests sv"
  shows "quiet_step sv sv' []"
  using assms by (simp add: quiet_step_def flags_def fun_eq_iff)

lemma quiet_upd:
  "(\<And>cl. cl_replayed (f cl) = cl_replayed cl \<and> cl_closed (f cl) = cl_closed cl) \<Longrightarrow> quiet_step sv (upd_client c f sv) []"
  by (cases "jm_get (sv_clients sv) c") (simp_all add: upd_client_def quiet_client)

lemma quiet_answer: "quiet_step sv (observe_answer rq ok res sv) []"
  by (rule quiet_same) (simp_all add: observe_answer_def Let_def split: option.split)

lemma quiet_server_message: "quiet_step sv (observe_server_message c m sv) []"
proof (cases "jm_get (sv_clients sv) c")
  case (Some cl)
  have n: "quiet_step sv (observe_notice meth params sv) []" for meth params
    by (rule quiet_same) (simp_all add: observe_notice_def)
  show ?thesis
    using Some n quiet_trans [OF quiet_client [OF Some] quiet_answer]
    by (auto simp: observe_server_message_def split: option.split)
qed (simp add: observe_server_message_def)

lemma shown_responses: "is_rpc_response m \<Longrightarrow> shown_in c i [Deliver d m] = 0"
  using rpc_kinds_disjoint(2) [of m] by simp

lemma shown_to:
  "shown_in c i (map (\<lambda>d. Deliver d m) ds) =
     (if is_rpc_request m \<and> oget m ''id'' = Some (JStr i) then length (filter ((=) c) ds) else 0)"
  by (induction ds) (auto simp: shown_in_def)

lemma count_in: "distinct ds \<Longrightarrow> length (filter ((=) c) ds) = (if c \<in> set ds then 1 else 0)"
  by (induction ds) auto

text \<open>A client that joins is shown what is pending, the first time.\<close>

lemma with_id_request [simp]: "is_rpc_request m \<Longrightarrow> is_rpc_request (with_id m (JStr i))"
  by (simp add: is_rpc_request_def with_id_def)

lemma oget_with_id [simp]: "oget (with_id m v) ''id'' = Some v"
  by (simp add: with_id_def)

lemma shown_replay:
  assumes "jm_ok p" "\<forall>q \<in> snd ` set p. is_rpc_request (sq_message q)"
  shows "shown_in c i (map (Deliver d) (replay_requests p)) = (if c = d \<and> i \<in> fst ` set p then 1 else 0)"
  using assms
proof (induction p)
  case (Cons kq p)
  obtain k q where kq: "kq = (k, q)" by (cases kq)
  have "shown_in c i (map (Deliver d) (replay_requests (kq # p))) =
      shown_in c i [Deliver d (with_id (sq_message q) (JStr k))] + shown_in c i (map (Deliver d) (replay_requests p))"
    by (subst shown_Cons [symmetric]) (simp add: replay_requests_def kq)
  also have "shown_in c i [Deliver d (with_id (sq_message q) (JStr k))] = (if c = d \<and> i = k then 1 else 0)"
    using Cons.prems(2) by (auto simp: shown_in_def kq)
  finally show ?case using Cons by (auto simp: kq jm_ok_def)
qed (simp add: replay_requests_def)

definition joined :: "string \<Rightarrow> client \<Rightarrow> server \<Rightarrow> server" where
  "joined c cl sv =
     sv\<lparr>sv_relay := fst (relay_step (\<lambda>_. []) (sv_relay sv) (Joins c)),
        sv_clients := jm_set (sv_clients sv) c (cl\<lparr>cl_replayed := True\<rparr>)\<rparr>"

lemma join_inv:
  assumes inv: "server_inv U C sv out" and c: "c \<noteq> ''stdio''" "jm_get (sv_clients sv) c = Some cl" "\<not> cl_closed cl"
    and res: "is_rpc_response m" and new: "\<not> cl_replayed cl"
  shows "server_inv U C (joined c cl sv) (out @ Deliver c m # map (Deliver c) (replay_requests (sv_requests sv)))"
proof -
  let ?sv = "joined c cl sv" and ?o = "Deliver c m # map (Deliver c) (replay_requests (sv_requests sv))"
  have fl: "flags ?sv d = (if d = c then Some (True, False) else flags sv d)" for d
    using c by (simp add: joined_def flags_def)
  have w: "writers ?sv = set_add (writers sv) c" using c by (simp add: joined_def)
  have sh: "shown_in d i ?o = (if d = c \<and> i \<in> fst ` set (sv_requests sv) then 1 else 0)" for d i
    using shown_replay [of "sv_requests sv" d i c] inv res
    by (subst shown_Cons) (simp add: shown_responses server_inv_def table_inv_def)
  have none: "shown_in c i out = 0" for i
    using inv c new by (auto simp: server_inv_def shown_inv_def flags_def)
  have C: "c \<in> C" using inv c by (auto simp: server_inv_def table_inv_def flags_def)
  have "table_inv U C ?sv"
    using inv C c(1) unfolding server_inv_def table_inv_def fl w by (auto simp: joined_def)
  moreover have "shown_inv U ?sv (out @ ?o)"
    unfolding shown_inv_def shown_append sh fl w
    using inv none by (auto simp: server_inv_def shown_inv_def table_inv_def joined_def)
  ultimately show ?thesis by (simp add: server_inv_def)
qed

lemma rejoin_quiet:
  assumes "server_inv U C sv out" "c \<noteq> ''stdio''" "jm_get (sv_clients sv) c = Some cl" "\<not> cl_closed cl" "cl_replayed cl"
  shows "fst (relay_step (\<lambda>_. []) (sv_relay sv) (Joins c)) = sv_relay sv"
proof -
  have "c \<in> set (writers sv)"
    using assms by (simp add: server_inv_def table_inv_def flags_def)
  then show ?thesis using assms(2) by (simp add: set_add_def)
qed

lemma write_external_inv:
  assumes inv: "server_inv U C sv out" and c: "c \<noteq> ''stdio''" and m: "\<not> is_rpc_request m"
  shows "server_inv U C (fst (write_external c m sv)) (out @ snd (write_external c m sv))"
proof (cases "jm_get (sv_clients sv) c")
  case None
  then show ?thesis using inv by (simp add: write_external_def)
next
  case (Some cl)
  show ?thesis
  proof (cases "is_rpc_response m")
    case False
    have "quiet_step sv sv [Deliver c m]" using m by (simp add: quiet_step_def)
    from quiet_inv [OF this inv] show ?thesis using Some False by (simp add: write_external_def)
  next
    case True
    define cl1 where "cl1 = (case jm_get (cl_external cl) (the (oget m ''id'')) of
        None \<Rightarrow> cl
      | Some details \<Rightarrow>
          cl\<lparr>cl_external := jm_del (cl_external cl) (the (oget m ''id'')),
             cl_initialized := cl_initialized cl \<or>
               (oget details ''method'' = Some (JStr ''initialize'') \<and> \<not> truthy (oget m ''error''))\<rparr>)"
    define sv1 where "sv1 = sv\<lparr>sv_clients := jm_set (sv_clients sv) c cl1\<rparr>"
    have f: "cl_replayed cl1 = cl_replayed cl" "cl_closed cl1 = cl_closed cl"
      by (auto simp: cl1_def split: option.split)
    have inv1: "server_inv U C sv1 out"
      using quiet_inv [OF quiet_client [OF Some f] inv] by (simp add: sv1_def)
    have get: "jm_get (sv_clients sv1) c = Some cl1" by (simp add: sv1_def)
    have serv: "sv_service sv" using inv by (simp add: server_inv_def table_inv_def)
    consider "cl_initialized cl1" "\<not> cl_closed cl1" "\<not> cl_replayed cl1" |
      "cl_initialized cl1" "\<not> cl_closed cl1" "cl_replayed cl1" | "\<not> (cl_initialized cl1 \<and> \<not> cl_closed cl1)"
      by blast
    then show ?thesis
    proof cases
      case 1
      have "write_external c m sv = (joined c cl1 sv1, Deliver c m # map (Deliver c) (replay_requests (sv_requests sv1)))"
        using Some True 1 serv by (simp add: write_external_def Let_def cl1_def [symmetric] sv1_def joined_def)
      then show ?thesis using join_inv [OF inv1 c get 1(2) True 1(3)] by simp
    next
      case 2
      have "write_external c m sv = (sv1, [Deliver c m])"
        using Some True 2 rejoin_quiet [OF inv1 c get 2(2,3)]
        by (simp add: write_external_def Let_def cl1_def [symmetric] sv1_def)
      moreover have "quiet_step sv1 sv1 [Deliver c m]" using m by (simp add: quiet_step_def)
      ultimately show ?thesis using quiet_inv [OF _ inv1] by fastforce
    next
      case 3
      have "write_external c m sv = (sv1, [Deliver c m])"
        using Some True 3 by (auto simp: write_external_def Let_def cl1_def [symmetric] sv1_def)
      moreover have "quiet_step sv1 sv1 [Deliver c m]" using m by (simp add: quiet_step_def)
      ultimately show ?thesis using quiet_inv [OF _ inv1] by fastforce
    qed
  qed
qed

lemma server_inv_mono: "server_inv U C sv out \<Longrightarrow> U \<subseteq> U' \<Longrightarrow> C \<subseteq> C' \<Longrightarrow> server_inv U' C' sv out"
  by (auto simp: server_inv_def table_inv_def shown_inv_def)

lemma publish_inv:
  assumes inv: "server_inv U C sv out" and req: "is_rpc_request m" and new: "i \<notin> U" and q: "is_rpc_request (sq_message q)"
    and m: "oget m ''id'' = Some (JStr i)"
  shows "server_inv (insert i U) C (sv\<lparr>sv_requests := jm_set (sv_requests sv) i q\<rparr>)
    (out @ map (\<lambda>d. Deliver d m) (writers sv))"
proof -
  let ?sv = "sv\<lparr>sv_requests := jm_set (sv_requests sv) i q\<rparr>" and ?o = "map (\<lambda>d. Deliver d m) (writers sv)"
  have fl: "flags ?sv = flags sv" by (simp add: flags_def fun_eq_iff)
  have sh: "shown_in c j ?o = (if j = i \<and> c \<in> set (writers sv) then 1 else 0)" for c j
    using inv req m by (auto simp: shown_to count_in server_inv_def table_inv_def)
  have "jm_get (sv_requests sv) i = None" using inv new by (auto simp: jm_get_None server_inv_def table_inv_def)
  then have inew: "i \<notin> fst ` set (sv_requests sv)" and req': "jm_set (sv_requests sv) i q = sv_requests sv @ [(i, q)]"
    by (simp_all add: jm_set_new jm_get_None)
  have zero: "c \<noteq> ''stdio'' \<Longrightarrow> shown_in c i out = 0" for c
    using inv new by (auto simp: server_inv_def shown_inv_def)
  have ok: "jm_ok (jm_set (sv_requests sv) i q)" using inv by (simp add: jm.ok_put server_inv_def table_inv_def)
  have "table_inv (insert i U) C ?sv"
    using inv ok q unfolding server_inv_def table_inv_def fl by (auto simp: req')
  moreover have "shown_inv (insert i U) ?sv (out @ ?o)"
    unfolding shown_inv_def shown_append sh fl
    using inv zero inew by (auto simp: server_inv_def shown_inv_def table_inv_def req')
  ultimately show ?thesis by (simp add: server_inv_def)
qed

lemma quiet_requests:
  "set p \<subseteq> set (sv_requests sv) \<Longrightarrow> (jm_ok (sv_requests sv) \<Longrightarrow> jm_ok p) \<Longrightarrow> quiet_step sv (sv\<lparr>sv_requests := p\<rparr>) []"
  by (simp add: quiet_step_def flags_def fun_eq_iff)

lemma respond_sub: "respond_request m p = (p', h, r) \<Longrightarrow> set p' \<subseteq> set p \<and> (jm_ok p \<longrightarrow> jm_ok p')"
  by (auto simp: respond_request_def set_jm_del jm.ok_del split: option.splits if_splits)

lemma quiet_out: "quiet_step sv sv' [] \<Longrightarrow> (\<And>c i. shown_in c i o' = 0) \<Longrightarrow> quiet_step sv sv' o'"
  by (simp add: quiet_step_def)

lemma shown_other [simp]:
  "shown_in c i [Handle d m] = 0" "shown_in c i [Reply n m] = 0" "shown_in c i [CloseClient d] = 0" "shown_in c i [StopSoon] = 0"
  by (simp_all add: shown_in_def)

lemma shown_interrupts [simp]: "shown_in c i (map (\<lambda>(t, u). Interrupt n t u) ts) = 0"
  by (auto simp: shown_in_def filter_empty_conv)

lemma serve_inv:
  assumes inv: "server_inv U C sv out" and c: "c \<noteq> ''stdio''"
  shows "server_inv U C (fst (serve_request c cl i meth sv)) (out @ snd (serve_request c cl i meth sv))"
proof -
  have no: "\<not> is_rpc_request (answer_with i key v)" if "key \<in> {''error'', ''result''}" for key v
    using that by (auto simp: is_rpc_request_def answer_with_def oget_def jm_get_def)
  show ?thesis
  proof (cases "meth = ''bridge/service/stop'' \<and> service_busy cl sv")
    case True
    then show ?thesis using write_external_inv [OF inv c no, of "''error''" refusal] by (simp add: serve_request_def)
  next
    case False
    obtain sv1 o1 where w: "write_external c (answer_with i ''result'' (service_status (service_busy cl sv) sv)) sv = (sv1, o1)"
      by (cases "write_external c (answer_with i ''result'' (service_status (service_busy cl sv) sv)) sv")
    have inv1: "server_inv U C sv1 (out @ o1)"
      using write_external_inv [OF inv c no, of "''result''" "service_status (service_busy cl sv) sv"] w by simp
    have "quiet_step sv1 sv1 [StopSoon]" by (simp add: quiet_step_def)
    from quiet_inv [OF this inv1] inv1 show ?thesis using w False by (simp add: serve_request_def Let_def)
  qed
qed

lemma handle_inv:
  assumes inv: "server_inv U C sv out"
  shows "server_inv U C (fst (handle_client c m sv)) (out @ snd (handle_client c m sv))"
proof (cases "jm_get (sv_clients sv) c")
  case None
  then show ?thesis using inv by (simp add: handle_client_def)
next
  case (Some cl)
  have take: "quiet_step sv (take_message c cl m sv) [Handle c m]"
    unfolding take_message_def by (rule quiet_out [OF quiet_client [OF Some]]) simp_all
  show ?thesis
  proof (cases "c = ''stdio''")
    case True
    have "quiet_step sv (sv\<lparr>sv_clients := jm_set (sv_clients sv) c
        (cl\<lparr>cl_requests := observe_client_message m (cl_identity cl) (cl_requests cl)\<rparr>)\<rparr>) [Handle c m]"
      by (rule quiet_out [OF quiet_client [OF Some]]) simp_all
    from quiet_inv [OF this inv] show ?thesis using Some True by (simp add: handle_client_def)
  next
    case False
    obtain p h r where resp: "(if sv_service sv then respond_request m (sv_requests sv) else (sv_requests sv, False, None)) = (p, h, r)"
      by (cases "if sv_service sv then respond_request m (sv_requests sv) else (sv_requests sv, False, None)")
    have sub: "set p \<subseteq> set (sv_requests sv)" "jm_ok (sv_requests sv) \<Longrightarrow> jm_ok p"
      using resp respond_sub [of m "sv_requests sv" p h r] by (auto split: if_splits)
    have q: "quiet_step sv (sv\<lparr>sv_requests := p\<rparr>) o'" if "\<And>c i. shown_in c i o' = 0" for o'
      using quiet_out [OF quiet_requests [OF sub] that] .
    show ?thesis
      using Some False resp quiet_inv [OF take inv] serve_inv [OF inv False, of cl] quiet_inv [OF q [of "[]"] inv]
        quiet_inv [OF q [of "[Reply _ _]"] inv]
      by (cases h; cases r) (auto simp: handle_client_def split: option.split)
  qed
qed

lemma write_client_inv:
  assumes inv: "server_inv U C sv out" and new: "service_request_prefix @ uuid \<notin> U"
  shows "server_inv (insert (service_request_prefix @ uuid) U) C (fst (write_client encode now uuid c m sv))
    (out @ snd (write_client encode now uuid c m sv))" (is "server_inv ?U C ?sv ?out")
proof -
  have up: "server_inv ?U C sv out" using server_inv_mono [OF inv] by blast
  have serv: "sv_service sv" using inv by (simp add: server_inv_def table_inv_def)
  consider "c \<noteq> ''stdio''" "is_rpc_request m" | "\<not> (c \<noteq> ''stdio'' \<and> is_rpc_request m)" "is_rpc_notification m" |
    "c = ''stdio''" "\<not> is_rpc_notification m" | "c \<noteq> ''stdio''" "\<not> is_rpc_request m" "\<not> is_rpc_notification m"
    by blast
  then show ?thesis
  proof cases
    case 1
    then show ?thesis using serv up
        publish_inv [OF inv _ new, of "with_id m (JStr (service_request_prefix @ uuid))" "\<lparr>sq_source = c, sq_message = m, sq_reply = _\<rparr>"]
      by (auto simp: write_client_def publish_request_def Let_def split: option.split)
  next
    case 2
    have nr: "\<not> is_rpc_request m" using 2(2) rpc_kinds_disjoint(1) [of m] by blast
    obtain rl os where b: "broadcast encode now c m (sv_relay sv) = (rl, os)" by (cases "broadcast encode now c m (sv_relay sv)")
    have rl: "rl_writers rl = writers sv" and os: "\<forall>x\<in>set os. snd x = m"
      using b by (auto simp: broadcast_def Let_def split: option.splits if_splits)
    have "shown_in d i (map (\<lambda>(d, m). Deliver d m) os) = 0" for d i
      using os nr by (intro shown_none) auto
    then have "quiet_step sv (sv\<lparr>sv_relay := rl\<rparr>) (map (\<lambda>(d, m). Deliver d m) os)"
      using rl by (simp add: quiet_step_def flags_def fun_eq_iff)
    from quiet_inv [OF this up] show ?thesis using 2 b nr by (simp add: write_client_def)
  next
    case 3
    have "quiet_step sv sv [Deliver c m]" using 3 by (auto simp: quiet_step_def shown_in_def)
    from quiet_inv [OF this up] show ?thesis using 3 by (simp add: write_client_def)
  next
    case 4
    then show ?thesis using write_external_inv [OF up 4(1,2)] by (simp add: write_client_def)
  qed
qed

lemma connect_inv:
  assumes inv: "server_inv U C sv out" and new: "c \<notin> C"
  shows "server_inv U (insert c C) (connect_client c conn vscode sv) out"
proof -
  let ?sv = "connect_client c conn vscode sv"
  have fl: "flags ?sv d = (if d = c then Some (False, False) else flags sv d)" for d
    by (simp add: connect_client_def flags_def fresh_client_def)
  have w: "writers ?sv = writers sv" by (simp add: connect_client_def)
  have old: "flags sv c = None" using inv new by (auto simp: server_inv_def table_inv_def)
  have same: "sv_service ?sv = sv_service sv" "sv_requests ?sv = sv_requests sv" by (simp_all add: connect_client_def)
  have "table_inv U (insert c C) ?sv"
    using inv old unfolding server_inv_def table_inv_def fl w same by (auto split: if_splits)
  moreover have "shown_inv U ?sv out"
    using inv old unfolding server_inv_def shown_inv_def fl w same by (auto split: if_splits)
  ultimately show ?thesis by (simp add: server_inv_def)
qed

lemma close_inv:
  assumes inv: "server_inv U C sv out"
  shows "server_inv U C (fst (close_client c sv)) (out @ snd (close_client c sv))"
proof (cases "\<exists>cl. jm_get (sv_clients sv) c = Some cl \<and> \<not> cl_closed cl")
  case False
  then show ?thesis using inv by (auto simp: close_client_def split: option.split)
next
  case True
  then obtain cl where cl: "jm_get (sv_clients sv) c = Some cl" "\<not> cl_closed cl" by blast
  define sv1 where "sv1 = sv\<lparr>sv_clients := jm_set (sv_clients sv) c (cl\<lparr>cl_closed := True\<rparr>),
    sv_relay := fst (relay_step (\<lambda>_. []) (sv_relay sv) (Leaves c))\<rparr>"
  have fl: "flags sv1 d = (if d = c then Some (cl_replayed cl, True) else flags sv d)" for d
    by (simp add: sv1_def flags_def)
  have old: "flags sv c = Some (cl_replayed cl, False)" using cl by (simp add: flags_def)
  have w: "set (writers sv1) = set (writers sv) - {c}" "distinct (writers sv) \<Longrightarrow> distinct (writers sv1)"
    using inv by (auto simp: sv1_def distinct_removeAll server_inv_def table_inv_def)
  have same: "sv_service sv1 = sv_service sv" "sv_requests sv1 = sv_requests sv" by (simp_all add: sv1_def)
  have "table_inv U C sv1"
  proof -
    have t: "table_inv U C sv" using inv by (simp add: server_inv_def)
    have tw: "d \<in> set (writers sv) \<longleftrightarrow> d \<noteq> ''stdio'' \<and> flags sv d = Some (True, False)"
      and tc: "flags sv d \<noteq> None \<longrightarrow> d \<in> C" for d
      using t unfolding table_inv_def by blast+
    have w1: "d \<in> set (writers sv1) \<longleftrightarrow> d \<in> set (writers sv) \<and> d \<noteq> c" for d using w(1) by blast
    have a: "d \<in> set (writers sv1) \<longleftrightarrow> d \<noteq> ''stdio'' \<and> flags sv1 d = Some (True, False)" for d
      unfolding w1 fl using tw [of d] by simp
    have b: "flags sv1 d \<noteq> None \<longrightarrow> d \<in> C" for d
      unfolding fl using tc [of d] tc [of c] old by simp
    have parts: "sv_service sv" "jm_ok (sv_requests sv)" "fst ` set (sv_requests sv) \<subseteq> U" "distinct (writers sv)"
      "\<forall>q \<in> snd ` set (sv_requests sv). is_rpc_request (sq_message q)"
      using t unfolding table_inv_def by iprover+
    show ?thesis unfolding table_inv_def same by (intro conjI allI parts a b w(2))
  qed
  moreover have "shown_inv U sv1 out"
    unfolding shown_inv_def fl same
  proof (intro allI impI)
    fix d i
    assume d: "d \<noteq> ''stdio''"
    have "shown_in d i out \<le> 1 \<and> (shown_in d i out \<noteq> 0 \<longrightarrow> i \<in> U \<and> (\<exists>b. flags sv d = Some (True, b))) \<and>
      (d \<in> set (writers sv) \<longrightarrow> i \<in> fst ` set (sv_requests sv) \<longrightarrow> shown_in d i out = 1)"
      using inv d by (simp add: server_inv_def shown_inv_def)
    then show "shown_in d i out \<le> 1 \<and>
      (shown_in d i out \<noteq> 0 \<longrightarrow> i \<in> U \<and> (\<exists>b. (if d = c then Some (cl_replayed cl, True) else flags sv d) = Some (True, b))) \<and>
      (d \<in> set (writers sv1) \<longrightarrow> i \<in> fst ` set (sv_requests sv) \<longrightarrow> shown_in d i out = 1)"
      using old w(1) by (cases "d = c") auto
  qed
  ultimately have inv1: "server_inv U C sv1 out" by (simp add: server_inv_def)
  have serv: "sv_service sv" using inv by (simp add: server_inv_def table_inv_def)
  have o: "quiet_step sv1 (sv1\<lparr>sv_orphans := set_add (sv_orphans sv) c\<rparr>) []" by (rule quiet_same) simp_all
  have e: "quiet_step sv1 (upd_client c (\<lambda>cl. cl\<lparr>cl_external := []\<rparr>) sv1) []" by (rule quiet_upd) simp
  have "close_client c sv =
      (if \<not> sv_stopping sv then (sv1\<lparr>sv_orphans := set_add (sv_orphans sv) c\<rparr>, [])
       else (upd_client c (\<lambda>cl. cl\<lparr>cl_external := []\<rparr>) sv1, []))"
    using cl serv by (simp add: close_client_def Let_def sv1_def upd_client_def)
  then show ?thesis using quiet_inv [OF o inv1] quiet_inv [OF e inv1] by simp
qed

lemma remove_sub: "set (remove_source c p) \<subseteq> set p \<and> (jm_ok p \<longrightarrow> jm_ok (remove_source c p))"
  by (auto simp: remove_source_def jm_ok_filter)

lemma quiet_monitor: "quiet_step sv (monitor gone sv) []"
proof -
  have one: "quiet_step sv (drop_orphan gone sv c) []" for sv c
    using remove_sub [of c "sv_requests sv"]
    by (simp add: drop_orphan_def quiet_step_def flags_def fun_eq_iff)
  have "quiet_step sv (foldl (drop_orphan gone) sv cs) []" for cs
  proof (induction cs arbitrary: sv)
    case (Cons c cs)
    show ?case using quiet_trans [OF one Cons.IH, of sv c] by simp
  qed simp
  then show ?thesis by (simp add: monitor_def)
qed

fun names_uuid :: "server_event \<Rightarrow> string option" where
  "names_uuid (ToClient now uuid c m) = Some (service_request_prefix @ uuid)"
| "names_uuid _ = None"

fun names_client :: "server_event \<Rightarrow> string option" where
  "names_client (Connects c conn vscode) = Some c"
| "names_client _ = None"

lemma server_step_inv:
  assumes inv: "server_inv U C sv out" and new: "set_option (names_uuid e) \<inter> U = {}" "set_option (names_client e) \<inter> C = {}"
  shows "server_inv (U \<union> set_option (names_uuid e)) (C \<union> set_option (names_client e))
    (fst (server_step encode sv e)) (out @ snd (server_step encode sv e))"
proof (cases e)
  case (Connects c conn vscode)
  then show ?thesis using connect_inv [OF inv, of c conn vscode] new by simp
next
  case (ToClient now uuid c m)
  then show ?thesis using write_client_inv [OF inv, of uuid encode now c m] new by simp
next
  case (FromClient c m)
  then show ?thesis using handle_inv [OF inv] by simp
next
  case (ClosesClient c)
  then show ?thesis using close_inv [OF inv] by simp
next
  case (ClosesUpstream c)
  have "quiet_step sv (fst (upstream_closes c sv)) (snd (upstream_closes c sv))"
    using remove_sub [of c "sv_requests sv"] by (simp add: upstream_closes_def quiet_step_def flags_def fun_eq_iff)
  with ClosesUpstream show ?thesis using quiet_inv [OF _ inv] by simp
next
  case (HandlingFails c i)
  have "quiet_step sv (upd_client c (\<lambda>cl. cl\<lparr>cl_external := jm_del (cl_external cl) i\<rparr>) sv) []" by (rule quiet_upd) simp
  with HandlingFails show ?thesis using quiet_inv [OF _ inv] by fastforce
next
  case (Idle b)
  have "quiet_step sv (sv\<lparr>sv_idle := b\<rparr>) []" by (rule quiet_same) simp_all
  with Idle show ?thesis using quiet_inv [OF _ inv] by fastforce
next
  case Stops
  have "quiet_step sv (sv\<lparr>sv_stopping := True\<rparr>) []" by (rule quiet_same) simp_all
  with Stops show ?thesis using quiet_inv [OF _ inv] by fastforce
qed (use quiet_inv [OF quiet_server_message inv] quiet_inv [OF quiet_monitor inv] inv in \<open>auto\<close>)

lemma server_run_inv:
  "server_inv U C sv out \<Longrightarrow> distinct (opened_keys names_uuid es) \<Longrightarrow> set (opened_keys names_uuid es) \<inter> U = {} \<Longrightarrow>
   distinct (opened_keys names_client es) \<Longrightarrow> set (opened_keys names_client es) \<inter> C = {} \<Longrightarrow>
   \<exists>U' C'. server_inv U' C' (run (\<lambda>sv e. fst (server_step encode sv e)) sv es) (out @ outputs (server_step encode) sv es)"
proof (induction es arbitrary: U C sv out)
  case Nil
  then show ?case by auto
next
  case (Cons e es)
  have "set_option (names_uuid e) \<inter> U = {}" "set_option (names_client e) \<inter> C = {}"
    and d: "distinct (opened_keys names_uuid es)" "distinct (opened_keys names_client es)"
    and f: "set (opened_keys names_uuid es) \<inter> (U \<union> set_option (names_uuid e)) = {}"
      "set (opened_keys names_client es) \<inter> (C \<union> set_option (names_client e)) = {}"
    using Cons.prems by (auto split: option.splits)
  then show ?case
    using Cons.IH [OF server_step_inv [OF Cons.prems(1)] d(1) f(1) d(2) f(2), of encode] by simp
qed

definition new_server :: "bool \<Rightarrow> bool \<Rightarrow> bool \<Rightarrow> string \<Rightarrow> int \<Rightarrow> int option \<Rightarrow> turn_clients \<Rightarrow> server" where
  "new_server service configured persistent root pid app tn =
     \<lparr>sv_service = service, sv_configured = configured, sv_persistent = persistent, sv_stopping = False,
      sv_vscode_ready = False, sv_idle = False, sv_root = root, sv_pid = pid, sv_app_pid = app, sv_clients = [],
      sv_relay = new_relay, sv_requests = [], sv_threads = new_index, sv_active = [], sv_turns = tn, sv_orphans = []\<rparr>"

text \<open>C31. Every client sees every service request once. In a service the app server's requests are
  shown to all clients under public identifiers, broadcast to those that have initialized and replayed
  to one that initializes later. Whatever the order of connections, initializations,
  requests, answers and closed sockets: no request is shown to a client twice, and a request
  that is still open has been shown, once, to every client that is initialized and connected.
\<close>

theorem service_request_shown_once:
  fixes encode :: "jobj \<Rightarrow> string" and es :: "server_event list" and configured persistent :: bool
    and root :: string and pid :: int and app :: "int option" and tn :: turn_clients
  defines "sv0 \<equiv> new_server True configured persistent root pid app tn"
  assumes fresh: "distinct (opened_keys names_uuid es)" "distinct (opened_keys names_client es)"
    and client: "c \<noteq> ''stdio''"
  shows "shown_in c i (outputs (server_step encode) sv0 es) \<le> 1 \<and>
    (c \<in> set (writers (run (\<lambda>sv e. fst (server_step encode sv e)) sv0 es)) \<and>
     i \<in> fst ` set (sv_requests (run (\<lambda>sv e. fst (server_step encode sv e)) sv0 es)) \<longrightarrow>
     shown_in c i (outputs (server_step encode) sv0 es) = 1)"
proof -
  have "server_inv {} {} sv0 []"
    by (simp add: sv0_def new_server_def server_inv_def table_inv_def shown_inv_def flags_def new_relay_def)
  from server_run_inv [OF this fresh(1) _ fresh(2), of encode] obtain U C where
    "server_inv U C (run (\<lambda>sv e. fst (server_step encode sv e)) sv0 es) (outputs (server_step encode) sv0 es)" by auto
  then show ?thesis using client by (auto simp: server_inv_def shown_inv_def)
qed

text \<open>A client that initializes after a request was published, and one that saw it broadcast.\<close>

definition initialize_request :: jobj where
  "initialize_request = [(''id'', JInt 1), (''method'', JStr ''initialize'')]"

definition initialize_answer :: jobj where
  "initialize_answer = [(''id'', JInt 1), (''result'', JObj [])]"

definition server_events :: "server_event list" where
  "server_events =
     [Connects ''a'' 1 False, FromClient ''a'' initialize_request, ToClient 0 ''x'' ''a'' initialize_answer,
      ToClient 1 ''r'' ''a'' [(''id'', JInt 7), (''method'', JStr ''ask'')],
      Connects ''b'' 2 False, FromClient ''b'' initialize_request, ToClient 2 ''y'' ''b'' initialize_answer]"

lemma service_request_shown_once_witness:
  "shown_in ''a'' ''bridge_service_request_r'' (outputs (server_step (\<lambda>_. []))
     (new_server True False False ''/'' 1 None \<lparr>tn_clients = [], tn_max = 8\<rparr>) server_events) = 1 \<and>
   shown_in ''b'' ''bridge_service_request_r'' (outputs (server_step (\<lambda>_. []))
     (new_server True False False ''/'' 1 None \<lparr>tn_clients = [], tn_max = 8\<rparr>) server_events) = 1"
proof -
  let ?sv = "run (\<lambda>sv e. fst (server_step (\<lambda>_. []) sv e))
    (new_server True False False ''/'' 1 None \<lparr>tn_clients = [], tn_max = 8\<rparr>) server_events"
  have "writers ?sv = [''a'', ''b'']" "map fst (sv_requests ?sv) = [''bridge_service_request_r'']" by code_simp+
  moreover have "fst ` set (sv_requests ?sv) = set (map fst (sv_requests ?sv))" by simp
  moreover have "distinct (opened_keys names_uuid server_events)" "distinct (opened_keys names_client server_events)"
    by code_simp+
  ultimately show ?thesis
    using service_request_shown_once [of server_events "''a''" "''bridge_service_request_r''" "\<lambda>_. []" False False "''/''" 1 None "\<lparr>tn_clients = [], tn_max = 8\<rparr>"]
      service_request_shown_once [of server_events "''b''" "''bridge_service_request_r''" "\<lambda>_. []" False False "''/''" 1 None "\<lparr>tn_clients = [], tn_max = 8\<rparr>"]
    by simp
qed

end
