(* ===== verification/TransportServer.thy ===== *)
theory TransportServer
  imports Errors
begin

text \<open>
  The end of the transport in the local window, \<^verbatim>\<open>src/extension/vscode-transport-server.ts\<close>, with the
  message guards of \<^verbatim>\<open>src/core/vscode-transport.ts\<close>. A shim opens one connection for one request:
  the first line is authenticated and handed to the controller or to the remote extension, further
  lines are the input of a remote process. A connection is a number; what is written to it and
  what is asked of the remote side are outputs; each \<open>await\<close> ends a step. The result of
  \<open>JSON.parse\<close> is part of the event (\<open>None\<close> a syntax error), the clock and the configuration are too.
\<close>

section \<open>Guards\<close>

definition controller_operations :: "string list" where
  "controller_operations =
     [''deleteConversationResources'', ''resolveConversationResources'', ''resolveEditorContext'',
      ''resolveFuzzyFileSearch'', ''localApplyPatch'', ''localCanonicalPath'', ''localCreateDirectory'',
      ''localDeletePath'', ''localGitStatus'', ''localListDirectory'', ''localListTree'', ''localReadFile'',
      ''localRenamePath'', ''localSearch'', ''localWriteFile'', ''openWorkspaceResource'',
      ''registerWorkspaceResource'', ''showWorkspaceDiff'']"

definition request_operations :: "string list" where
  "request_operations =
     [''backgroundCancel'', ''backgroundLog'', ''backgroundStart'', ''backgroundStatus'', ''canonicalPath'',
      ''cancel'', ''execute'', ''listDirectory'', ''listTree'', ''probe'', ''readFile'', ''resultStatus'',
      ''search'', ''stdioStart'', ''workspaceStop''] @ controller_operations"

definition is_channel :: "json option \<Rightarrow> bool" where
  "is_channel v \<longleftrightarrow> v = Some (JStr ''stdout'') \<or> v = Some (JStr ''stderr'')"

definition has_string :: "jobj \<Rightarrow> string \<Rightarrow> bool" where
  "has_string ob k \<longleftrightarrow> as_string (oget ob k) \<noteq> None"

definition is_output_event :: "json \<Rightarrow> bool" where
  "is_output_event v =
     (case is_record v of
        None \<Rightarrow> False
      | Some ev \<Rightarrow> has_string ev ''id'' \<and> has_string ev ''chunk'' \<and> is_channel (oget ev ''channel''))"

definition is_accepted :: "json option \<Rightarrow> bool" where
  "is_accepted v = (case as_record v of None \<Rightarrow> False | Some ob \<Rightarrow> oget ob ''accepted'' = Some (JBool True))"

fun as_bool :: "json option \<Rightarrow> bool option" where
  "as_bool (Some (JBool b)) = Some b"
| "as_bool _ = None"

definition is_completed_event :: "json \<Rightarrow> bool" where
  "is_completed_event v =
     (case is_record v of
        None \<Rightarrow> False
      | Some ev \<Rightarrow>
          oget ev ''event'' = Some (JStr ''executionComplete'') \<and> has_string ev ''id'' \<and>
          (case rprop ev ''response'' of None \<Rightarrow> False | Some r \<Rightarrow> as_bool (oget r ''ok'') \<noteq> None))"

definition is_stdio_event :: "json \<Rightarrow> bool" where
  "is_stdio_event v =
     (case is_record v of
        None \<Rightarrow> False
      | Some ev \<Rightarrow>
          has_string ev ''id'' \<and>
          (if oget ev ''event'' = Some (JStr ''data'')
           then has_string ev ''chunk'' \<and> is_channel (oget ev ''channel'')
           else oget ev ''event'' = Some (JStr ''exit'') \<and>
             (oget ev ''exitCode'' = Some JNull \<or> is_number (oget ev ''exitCode'')) \<and>
             (oget ev ''signal'' = Some JNull \<or> has_string ev ''signal'')))"

definition is_stdio_input :: "json \<Rightarrow> bool" where
  "is_stdio_input v =
     (case is_record v of
        None \<Rightarrow> False
      | Some ob \<Rightarrow>
          has_string ob ''id'' \<and>
          (oget ob ''type'' = Some (JStr ''stdioInput'') \<and> has_string ob ''chunk'' \<or>
           oget ob ''type'' = Some (JStr ''stdioEnd'')))"

definition is_controller_operation :: "string \<Rightarrow> bool" where
  "is_controller_operation op \<longleftrightarrow> op \<in> set controller_operations"

definition is_transport_request :: "json \<Rightarrow> bool" where
  "is_transport_request v =
     (case is_record v of
        None \<Rightarrow> False
      | Some ob \<Rightarrow>
          has_string ob ''id'' \<and> has_string ob ''token'' \<and> has_string ob ''hostId'' \<and> has_string ob ''workspaceRoot'' \<and>
          has_string ob ''outputCommand'' \<and> rprop ob ''policy'' \<noteq> None \<and>
          (case sprop ob ''operation'' of None \<Rightarrow> False | Some op \<Rightarrow> op \<in> set request_operations) \<and>
          rprop ob ''params'' \<noteq> None)"

section \<open>State\<close>

record transport_config =
  tg_mode :: string
  tg_host :: string
  tg_root :: string
  tg_timeout :: int
  tg_max_output :: int

record exec_request =
  er_id :: string
  er_host :: string
  er_root :: string
  er_operation :: string
  er_params :: jobj
  er_timeout :: int
  er_max_output :: int

record active_request =
  ac_socket :: nat
  ac_request :: exec_request
  ac_ack :: "int option"
  ac_first :: "int option"
  ac_events :: nat
  ac_started :: int

record connection =
  cn_handled :: bool
  cn_stdio :: "exec_request option"
  cn_open :: bool
  cn_queue :: "json option list"
  cn_sending :: bool

record transport =
  tp_token :: string
  tp_conns :: "(nat, connection) jsmap"
  tp_active :: "(string, active_request) jsmap"
  tp_pending :: "(string, nat) jsmap"
  tp_stdio :: "(string, exec_request \<times> nat) jsmap"
  tp_waiting :: "(nat, exec_request) jsmap"

definition new_transport :: "string \<Rightarrow> transport" where
  "new_transport token =
     \<lparr>tp_token = token, tp_conns = [], tp_active = [], tp_pending = [], tp_stdio = [], tp_waiting = []\<rparr>"

text \<open>An error in a response is one of this window or what the remote side answered.\<close>

datatype answer_error = Own payload | Theirs json

datatype frame =
    Output string jobj
  | StdioOutput string string string
  | StdioReady string
  | StdioExit string json json
  | Response string "answer_error option" "json option"

datatype transport_output =
    Write nat frame
  | EndSocket nat
  | DestroySocket nat
  | Command exec_request
  | Controller exec_request

definition is_open :: "transport \<Rightarrow> nat \<Rightarrow> bool" where
  "is_open tp k \<longleftrightarrow> (case jm_get (tp_conns tp) k of None \<Rightarrow> False | Some cn \<Rightarrow> cn_open cn)"

definition upd_conn :: "nat \<Rightarrow> (connection \<Rightarrow> connection) \<Rightarrow> transport \<Rightarrow> transport" where
  "upd_conn k f tp =
     (case jm_get (tp_conns tp) k of None \<Rightarrow> tp | Some cn \<Rightarrow> tp\<lparr>tp_conns := jm_set (tp_conns tp) k (f cn)\<rparr>)"

section \<open>The first line\<close>

definition token_matches :: "string \<Rightarrow> string \<Rightarrow> bool" where
  "token_matches expected actual \<longleftrightarrow> length expected = length actual \<and> list_all2 (=) expected actual"

definition own_error :: "thrown \<Rightarrow> answer_error" where
  "own_error t = Own (to_payload (as_bridge_error t REMOTE_TRANSPORT_DISCONNECTED))"

definition refusal_of :: "error_code \<Rightarrow> string \<Rightarrow> thrown" where
  "refusal_of code msg = ThrownBridge (BridgeError code msg None)"

lemma token_matches_eq [simp]: "token_matches xs ys \<longleftrightarrow> xs = ys"
  by (auto simp: token_matches_def list.rel_eq)

text \<open>The \<open>finally\<close> block, and what follows a request that ends here.\<close>

definition forget_request :: "string \<Rightarrow> transport \<Rightarrow> transport" where
  "forget_request i tp = tp\<lparr>tp_active := jm_del (tp_active tp) i, tp_pending := jm_del (tp_pending tp) i\<rparr>"

definition end_request :: "nat \<Rightarrow> string \<Rightarrow> transport \<Rightarrow> frame \<Rightarrow> transport \<times> transport_output list" where
  "end_request k i tp f =
     (let tp1 = forget_request i tp in
      (tp1\<lparr>tp_stdio := jm_del (tp_stdio tp1) i, tp_waiting := jm_del (tp_waiting tp1) k\<rparr>, [Write k f, EndSocket k]))"

definition fail_request :: "nat \<Rightarrow> string \<Rightarrow> thrown \<Rightarrow> transport \<Rightarrow> transport \<times> transport_output list" where
  "fail_request k i t tp = end_request k i tp (Response i (Some (own_error t)) None)"

definition unknown_id :: string where
  "unknown_id = ''unknown''"

text \<open>The checks of \<open>#handleLine\<close> in order: the request to run, or the identifier to answer and the error.\<close>

definition str_of :: "jobj \<Rightarrow> string \<Rightarrow> string" where
  "str_of ob k = (case sprop ob k of None \<Rightarrow> [] | Some s \<Rightarrow> s)"

definition matches_config :: "transport_config option \<Rightarrow> jobj \<Rightarrow> bool" where
  "matches_config cfg ob =
     (case cfg of
        None \<Rightarrow> False
      | Some c \<Rightarrow> tg_mode c = ''vscode-remote'' \<and> str_of ob ''hostId'' = tg_host c \<and> str_of ob ''workspaceRoot'' = tg_root c)"

definition request_of :: "transport_config \<Rightarrow> jobj \<Rightarrow> exec_request" where
  "request_of c ob =
     \<lparr>er_id = str_of ob ''id'', er_host = str_of ob ''hostId'', er_root = str_of ob ''workspaceRoot'',
      er_operation = str_of ob ''operation'', er_params = (case rprop ob ''params'' of None \<Rightarrow> [] | Some p \<Rightarrow> p),
      er_timeout = tg_timeout c, er_max_output = tg_max_output c\<rparr>"

definition check_line ::
  "json option \<Rightarrow> transport_config option \<Rightarrow> transport \<Rightarrow> (string \<times> thrown) + exec_request" where
  "check_line line cfg tp =
     (case line of
        None \<Rightarrow> Inl (unknown_id, ThrownError ''SyntaxError'')
      | Some v \<Rightarrow>
          (case (is_transport_request v, is_record v) of
             (True, Some ob) \<Rightarrow>
               let i = str_of ob ''id'' in
               if \<not> token_matches (tp_token tp) (str_of ob ''token'')
               then Inl (i, refusal_of COMMAND_DENIED ''VS Code transport authentication failed'')
               else if \<not> matches_config cfg ob
               then Inl (i, refusal_of REMOTE_TRANSPORT_DISCONNECTED
                      ''VS Code transport request does not match the active remote workspace'')
               else if jm_get (tp_pending tp) i \<noteq> None
               then Inl (i, refusal_of PROTOCOL_MISMATCH ''Duplicate VS Code transport request id'')
               else Inr (request_of (the cfg) ob)
           | _ \<Rightarrow> Inl (unknown_id, refusal_of PROTOCOL_MISMATCH ''Invalid VS Code transport request'')))"

text \<open>The step up to the call of the controller or of the remote extension.\<close>

definition start_request :: "bool \<Rightarrow> nat \<Rightarrow> int \<Rightarrow> exec_request \<Rightarrow> transport \<Rightarrow> transport \<times> transport_output list" where
  "start_request has_controller k now rq tp =
     (let i = er_id rq; tp1 = tp\<lparr>tp_pending := jm_set (tp_pending tp) i k\<rparr> in
      if is_controller_operation (er_operation rq)
      then (if \<not> has_controller
            then fail_request k i (refusal_of COMMAND_DENIED ''Controller workspace execution is unavailable'') tp1
            else (tp1\<lparr>tp_waiting := jm_set (tp_waiting tp1) k rq\<rparr>, [Controller rq]))
      else
        let tp2 = (if er_operation rq = ''stdioStart'' then tp1\<lparr>tp_stdio := jm_set (tp_stdio tp1) i (rq, k)\<rparr> else tp1);
            tp3 = (if er_operation rq = ''execute''
                   then tp2\<lparr>tp_active := jm_set (tp_active tp2) i
                     \<lparr>ac_socket = k, ac_request = rq, ac_ack = None, ac_first = None, ac_events = 0, ac_started = now\<rparr>\<rparr>
                   else tp2)
        in (tp3\<lparr>tp_waiting := jm_set (tp_waiting tp3) k rq\<rparr>, [Command rq]))"

definition first_line ::
  "bool \<Rightarrow> nat \<Rightarrow> json option \<Rightarrow> transport_config option \<Rightarrow> int \<Rightarrow> transport \<Rightarrow> transport \<times> transport_output list" where
  "first_line has_controller k line cfg now tp =
     (case check_line line cfg tp of
        Inl (i, t) \<Rightarrow> fail_request k i t tp
      | Inr rq \<Rightarrow> start_request has_controller k now rq tp)"

section \<open>The answer of the other side\<close>

datatype command_outcome =
    Resolved "json option"
  | Rejected thrown

definition stays_open :: "nat \<Rightarrow> transport \<Rightarrow> transport" where
  "stays_open k tp = tp\<lparr>tp_waiting := jm_del (tp_waiting tp) k\<rparr>"

definition settle_execute :: "nat \<Rightarrow> exec_request \<Rightarrow> int \<Rightarrow> json option \<Rightarrow> transport \<Rightarrow> transport \<times> transport_output list" where
  "settle_execute k rq now res tp =
     (let i = er_id rq;
          tp1 = (case jm_get (tp_active tp) i of
                   None \<Rightarrow> tp
                 | Some ac \<Rightarrow> tp\<lparr>tp_active := jm_set (tp_active tp) i (ac\<lparr>ac_ack := Some (now - ac_started ac)\<rparr>)\<rparr>)
      in (if is_accepted res then (stays_open k tp1, [])
          else fail_request k i
            (refusal_of PROTOCOL_MISMATCH ''Remote Executor did not acknowledge the asynchronous execute protocol'') tp1))"

definition settle_command :: "nat \<Rightarrow> exec_request \<Rightarrow> int \<Rightarrow> json option \<Rightarrow> transport \<Rightarrow> transport \<times> transport_output list" where
  "settle_command k rq now response tp =
     (let i = er_id rq in
      case (case as_record response of None \<Rightarrow> None | Some ob \<Rightarrow> map_option (\<lambda>b. (b, ob)) (as_bool (oget ob ''ok''))) of
        None \<Rightarrow> fail_request k i
          (refusal_of REMOTE_TRANSPORT_DISCONNECTED
             ''Remote Executor extension is unavailable in the current Remote SSH window'') tp
      | Some (ok, ob) \<Rightarrow>
          if ok \<and> er_operation rq = ''execute'' then settle_execute k rq now (oget ob ''result'') tp
          else if ok \<and> er_operation rq = ''stdioStart''
          then (upd_conn k (\<lambda>cn. cn\<lparr>cn_stdio := Some rq\<rparr>) (stays_open k (forget_request i tp)), [Write k (StdioReady i)])
          else if ok then end_request k i tp (Response i None (oget ob ''result''))
          else end_request k i tp (Response i (map_option Theirs (oget ob ''error'')) None))"

definition settle_controller :: "nat \<Rightarrow> exec_request \<Rightarrow> json option \<Rightarrow> transport \<Rightarrow> transport \<times> transport_output list" where
  "settle_controller k rq res tp =
     (let tp1 = forget_request (er_id rq) tp in (stays_open k tp1, [Write k (Response (er_id rq) None res), EndSocket k]))"

definition settle_line :: "nat \<Rightarrow> int \<Rightarrow> command_outcome \<Rightarrow> transport \<Rightarrow> transport \<times> transport_output list" where
  "settle_line k now outcome tp =
     (case jm_get (tp_waiting tp) k of
        None \<Rightarrow> (tp, [])
      | Some rq \<Rightarrow>
          (case outcome of
             Rejected t \<Rightarrow> fail_request k (er_id rq) t tp
           | Resolved v \<Rightarrow>
               if is_controller_operation (er_operation rq) then settle_controller k rq v tp
               else settle_command k rq now v tp))"

section \<open>Events of the remote side\<close>

definition handle_stdio_output :: "jobj \<Rightarrow> transport \<Rightarrow> transport \<times> transport_output list" where
  "handle_stdio_output ev tp =
     (let i = str_of ev ''id'' in
      case jm_get (tp_stdio tp) i of
        None \<Rightarrow> (tp, [])
      | Some (rq, k) \<Rightarrow>
          if \<not> is_open tp k then (tp, [])
          else if oget ev ''event'' = Some (JStr ''data'')
          then (tp, [Write k (StdioOutput i (str_of ev ''channel'') (str_of ev ''chunk''))])
          else (tp\<lparr>tp_stdio := jm_del (tp_stdio tp) i\<rparr>,
                [Write k (StdioExit i (the (oget ev ''exitCode'')) (the (oget ev ''signal''))), EndSocket k]))"

definition timing_of :: "int \<Rightarrow> active_request \<Rightarrow> jobj" where
  "timing_of now ac =
     [(''controllerCommandAckMs'', case ac_ack ac of None \<Rightarrow> JNull | Some t \<Rightarrow> JInt t),
      (''controllerCompletionMs'', JInt (now - ac_started ac))] @
     (case ac_first ac of None \<Rightarrow> [] | Some t \<Rightarrow> [(''controllerFirstOutputMs'', JInt t)]) @
     [(''controllerOutputEvents'', JInt (int (ac_events ac)))]"

text \<open>What \<open>{ ...value }\<close> copies of a value.\<close>

definition indexed :: "json list \<Rightarrow> jobj" where
  "indexed xs = map (\<lambda>i. (nat_text i, xs ! i)) [0..<length xs]"

fun spread_value :: "json option \<Rightarrow> jobj" where
  "spread_value (Some (JObj ob)) = ob"
| "spread_value (Some (JArr xs)) = indexed xs"
| "spread_value (Some (JStr s)) = indexed (map (\<lambda>c. JStr [c]) s)"
| "spread_value _ = []"

definition member_of :: "json \<Rightarrow> string \<Rightarrow> json option" where
  "member_of v k = (case is_record v of None \<Rightarrow> None | Some ob \<Rightarrow> oget ob k)"

text \<open>The response with the timing of the transport: its error and its result.\<close>

definition timed_response :: "jobj \<Rightarrow> jobj \<Rightarrow> json option \<times> json option" where
  "timed_response timing r =
     (if oget r ''ok'' = Some (JBool True)
      then (oget r ''error'',
            case rprop r ''result'' of
              None \<Rightarrow> oget r ''result''
            | Some ob \<Rightarrow> Some (JObj (jm_set ob ''transportTiming'' (JObj timing))))
      else (if truthy (oget r ''error'')
            then (let e = the (oget r ''error'') in
                  Some (JObj (jm_set (spread_value (Some e)) ''details''
                    (JObj (jm_set (spread_value (member_of e ''details'')) ''transportTiming'' (JObj timing))))))
            else oget r ''error'',
            oget r ''result''))"

definition handle_completed :: "int \<Rightarrow> jobj \<Rightarrow> transport \<Rightarrow> transport \<times> transport_output list" where
  "handle_completed now ev tp =
     (let i = str_of ev ''id'' in
      case jm_get (tp_active tp) i of
        None \<Rightarrow> (tp, [])
      | Some ac \<Rightarrow>
          if \<not> is_open tp (ac_socket ac) then (tp, [])
          else
            (case timed_response (timing_of now ac) (case rprop ev ''response'' of None \<Rightarrow> [] | Some r \<Rightarrow> r) of
               (e, res) \<Rightarrow>
                 (forget_request i tp,
                  [Write (ac_socket ac) (Response i (if truthy e then Some (Theirs (the e)) else None) res),
                   EndSocket (ac_socket ac)])))"

definition handle_output :: "int \<Rightarrow> json \<Rightarrow> transport \<Rightarrow> transport \<times> transport_output list" where
  "handle_output now v tp =
     (case is_record v of
        None \<Rightarrow> (tp, [])
      | Some ev \<Rightarrow>
          if is_stdio_event v then handle_stdio_output ev tp
          else if is_completed_event v then handle_completed now ev tp
          else if \<not> is_output_event v then (tp, [])
          else
            let i = str_of ev ''id'' in
            (case jm_get (tp_pending tp) i of
               None \<Rightarrow> (tp, [])
             | Some k \<Rightarrow>
                 if \<not> is_open tp k then (tp, [])
                 else ((case jm_get (tp_active tp) i of
                          None \<Rightarrow> tp
                        | Some ac \<Rightarrow>
                            tp\<lparr>tp_active := jm_set (tp_active tp) i
                              (ac\<lparr>ac_events := Suc (ac_events ac),
                                  ac_first := (case ac_first ac of None \<Rightarrow> Some (now - ac_started ac) | Some t \<Rightarrow> Some t)\<rparr>)\<rparr>),
                       [Write k (Output i (jm_set ev ''type'' (JStr ''output'')))])))"

section \<open>Input of a process, and the end of a connection\<close>

definition control_request :: "exec_request \<Rightarrow> string \<Rightarrow> jobj \<Rightarrow> exec_request" where
  "control_request rq op params = rq\<lparr>er_operation := op, er_params := params\<rparr>"

definition cancel_request :: "exec_request \<Rightarrow> exec_request" where
  "cancel_request rq =
     rq\<lparr>er_id := er_id rq @ '':cancel'', er_operation := ''cancel'', er_params := [(''operationId'', JStr (er_id rq))]\<rparr>"

definition input_command :: "exec_request \<Rightarrow> json option \<Rightarrow> thrown + exec_request" where
  "input_command rq line =
     (case line of
        None \<Rightarrow> Inl (refusal_of PROTOCOL_MISMATCH ''Invalid remote stdio input frame'')
      | Some v \<Rightarrow>
          (case (is_stdio_input v, is_record v) of
             (True, Some ob) \<Rightarrow>
               if str_of ob ''id'' \<noteq> er_id rq
               then Inl (refusal_of PROTOCOL_MISMATCH ''Mismatched remote stdio input frame'')
               else if oget ob ''type'' = Some (JStr ''stdioInput'')
               then Inr (control_request rq ''stdioWrite'' [(''chunk'', JStr (str_of ob ''chunk''))])
               else Inr (control_request rq ''stdioEnd'' [])
           | _ \<Rightarrow> Inl (refusal_of PROTOCOL_MISMATCH ''Mismatched remote stdio input frame'')))"

text \<open>The queue of input lines: the next line is taken up when the one before has settled.\<close>

definition input_failed :: "nat \<Rightarrow> exec_request \<Rightarrow> thrown \<Rightarrow> transport_output list" where
  "input_failed k rq t = [Write k (Response (er_id rq) (Some (own_error t)) None), EndSocket k]"

fun pump :: "nat \<Rightarrow> exec_request \<Rightarrow> json option list \<Rightarrow> transport_output list \<Rightarrow> json option list \<times> bool \<times> transport_output list" where
  "pump k rq [] out = ([], False, out)"
| "pump k rq (line # lines) out =
     (case input_command rq line of
        Inl t \<Rightarrow> pump k rq lines (out @ input_failed k rq t)
      | Inr c \<Rightarrow> (lines, True, out @ [Command c]))"

definition pump_conn :: "nat \<Rightarrow> connection \<Rightarrow> exec_request \<Rightarrow> json option list \<Rightarrow> transport_output list \<Rightarrow> transport \<Rightarrow> transport \<times> transport_output list" where
  "pump_conn k cn rq lines out tp =
     (case pump k rq lines out of
        (rest, sending, out1) \<Rightarrow>
          (tp\<lparr>tp_conns := jm_set (tp_conns tp) k (cn\<lparr>cn_queue := rest, cn_sending := sending\<rparr>)\<rparr>, out1))"

definition input_settles :: "nat \<Rightarrow> thrown option \<Rightarrow> transport \<Rightarrow> transport \<times> transport_output list" where
  "input_settles k err tp =
     (case jm_get (tp_conns tp) k of
        None \<Rightarrow> (tp, [])
      | Some cn \<Rightarrow>
          (case cn_stdio cn of
             None \<Rightarrow> (tp, [])
           | Some rq \<Rightarrow>
               if \<not> cn_sending cn then (tp, [])
               else pump_conn k cn rq (cn_queue cn) (case err of None \<Rightarrow> [] | Some t \<Rightarrow> input_failed k rq t) tp))"

definition receive_line ::
  "bool \<Rightarrow> nat \<Rightarrow> json option \<Rightarrow> transport_config option \<Rightarrow> int \<Rightarrow> transport \<Rightarrow> transport \<times> transport_output list" where
  "receive_line has_controller k line cfg now tp =
     (case jm_get (tp_conns tp) k of
        None \<Rightarrow> (tp, [])
      | Some cn \<Rightarrow>
          if \<not> cn_open cn then (tp, [])
          else if \<not> cn_handled cn
          then first_line has_controller k line cfg now (tp\<lparr>tp_conns := jm_set (tp_conns tp) k (cn\<lparr>cn_handled := True\<rparr>)\<rparr>)
          else (case cn_stdio cn of
                  None \<Rightarrow> (upd_conn k (\<lambda>cn. cn\<lparr>cn_open := False\<rparr>) tp, [DestroySocket k])
                | Some rq \<Rightarrow>
                    if cn_sending cn
                    then (tp\<lparr>tp_conns := jm_set (tp_conns tp) k (cn\<lparr>cn_queue := cn_queue cn @ [line]\<rparr>)\<rparr>, [])
                    else pump_conn k cn rq (cn_queue cn @ [line]) [] tp))"

definition accept_socket :: "nat \<Rightarrow> transport \<Rightarrow> transport" where
  "accept_socket k tp =
     tp\<lparr>tp_conns := jm_set (tp_conns tp) k
       \<lparr>cn_handled = False, cn_stdio = None, cn_open = True, cn_queue = [], cn_sending = False\<rparr>\<rparr>"

text \<open>\<open>cleanup\<close>: what the connection had running is cancelled.\<close>

definition cleanup_socket :: "nat \<Rightarrow> transport \<Rightarrow> transport \<times> transport_output list" where
  "cleanup_socket k tp =
     (upd_conn k (\<lambda>cn. cn\<lparr>cn_open := False\<rparr>)
        (tp\<lparr>tp_pending := filter (\<lambda>(i, s). s \<noteq> k) (tp_pending tp),
            tp_active := filter (\<lambda>(i, ac). ac_socket ac \<noteq> k) (tp_active tp),
            tp_stdio := filter (\<lambda>(i, rq, s). s \<noteq> k) (tp_stdio tp)\<rparr>),
      map (\<lambda>(i, ac). Command (cancel_request (ac_request ac))) (filter (\<lambda>(i, ac). ac_socket ac = k) (tp_active tp)) @
      map (\<lambda>(i, rq, s). Command (control_request rq ''stdioStop'' [])) (filter (\<lambda>(i, rq, s). s = k) (tp_stdio tp)))"

text \<open>\<open>close\<close>, in the three steps its awaits leave.\<close>

definition close_active :: "transport \<Rightarrow> transport_output list" where
  "close_active tp = map (\<lambda>(i, ac). Command (cancel_request (ac_request ac))) (tp_active tp)"

definition close_stdio :: "transport \<Rightarrow> transport \<times> transport_output list" where
  "close_stdio tp =
     (tp\<lparr>tp_active := []\<rparr>, map (\<lambda>(i, rq, s). Command (control_request rq ''stdioStop'' [])) (tp_stdio tp))"

definition close_sockets :: "transport \<Rightarrow> transport \<times> transport_output list" where
  "close_sockets tp =
     (tp\<lparr>tp_stdio := [], tp_pending := [], tp_conns := map (\<lambda>(k, cn). (k, cn\<lparr>cn_open := False\<rparr>)) (tp_conns tp)\<rparr>,
      map (\<lambda>(k, cn). DestroySocket k) (filter (\<lambda>(k, cn). cn_open cn) (tp_conns tp)))"

datatype transport_event =
    Accepts nat
  | Line nat "json option" "transport_config option" int
  | Settles nat int command_outcome
  | InputSettles nat "thrown option"
  | RemoteEvent int json
  | Disconnects nat
  | ClosesActive
  | ClosesStdio
  | ClosesSockets

fun transport_step :: "bool \<Rightarrow> transport \<Rightarrow> transport_event \<Rightarrow> transport \<times> transport_output list" where
  "transport_step hc tp (Accepts k) = (accept_socket k tp, [])"
| "transport_step hc tp (Line k line cfg now) = receive_line hc k line cfg now tp"
| "transport_step hc tp (Settles k now outcome) = settle_line k now outcome tp"
| "transport_step hc tp (InputSettles k err) = input_settles k err tp"
| "transport_step hc tp (RemoteEvent now v) = handle_output now v tp"
| "transport_step hc tp (Disconnects k) = cleanup_socket k tp"
| "transport_step hc tp ClosesActive = (tp, close_active tp)"
| "transport_step hc tp ClosesStdio = close_stdio tp"
| "transport_step hc tp ClosesSockets = close_sockets tp"

section \<open>A connection sees its own request only\<close>

definition granted :: "string \<Rightarrow> transport_event \<Rightarrow> (nat \<times> exec_request) option" where
  "granted token e =
     (case e of
        Line k (Some (JObj ob)) (Some c) now \<Rightarrow>
          if is_transport_request (JObj ob) \<and> str_of ob ''token'' = token \<and> matches_config (Some c) ob
          then Some (k, request_of c ob) else None
      | _ \<Rightarrow> None)"

definition named :: "transport_event \<Rightarrow> (nat \<times> string) option" where
  "named e =
     (case e of
        Line k (Some (JObj ob)) cfg now \<Rightarrow>
          if is_transport_request (JObj ob) then Some (k, str_of ob ''id'') else None
      | _ \<Rightarrow> None)"

definition derived :: "exec_request \<Rightarrow> exec_request \<Rightarrow> bool" where
  "derived rq0 rq \<longleftrightarrow>
     rq = rq0 \<or> rq = cancel_request rq0 \<or>
     (\<exists>op p. op \<in> {''stdioWrite'', ''stdioEnd'', ''stdioStop''} \<and> rq = control_request rq0 op p)"

fun frame_id :: "frame \<Rightarrow> string" where
  "frame_id (Output i ev) = i"
| "frame_id (StdioOutput i ch chunk) = i"
| "frame_id (StdioReady i) = i"
| "frame_id (StdioExit i code sig) = i"
| "frame_id (Response i e res) = i"

fun own_failure :: "frame \<Rightarrow> bool" where
  "own_failure (Response i (Some (Own p)) None) = True"
| "own_failure _ = False"

text \<open>
  Every output, given the granted requests \<open>G\<close> and the identifiers \<open>N\<close> named on a connection.
\<close>

definition output_ok :: "(nat \<times> exec_request) set \<Rightarrow> (nat \<times> string) set \<Rightarrow> transport_output \<Rightarrow> bool" where
  "output_ok G N x =
     (case x of
        Write k f \<Rightarrow>
          (\<exists>rq. (k, rq) \<in> G \<and> er_id rq = frame_id f) \<or>
          own_failure f \<and> (frame_id f = unknown_id \<or> (k, frame_id f) \<in> N)
      | Command rq \<Rightarrow> (\<exists>k rq0. (k, rq0) \<in> G \<and> derived rq0 rq)
      | Controller rq \<Rightarrow> (\<exists>k. (k, rq) \<in> G)
      | _ \<Rightarrow> True)"

definition transport_inv :: "(nat \<times> exec_request) set \<Rightarrow> transport \<Rightarrow> bool" where
  "transport_inv G tp \<longleftrightarrow>
     (\<forall>(i, k) \<in> set (tp_pending tp). \<exists>rq. (k, rq) \<in> G \<and> er_id rq = i) \<and>
     (\<forall>(i, ac) \<in> set (tp_active tp). (ac_socket ac, ac_request ac) \<in> G \<and> er_id (ac_request ac) = i) \<and>
     (\<forall>(i, rq, k) \<in> set (tp_stdio tp). (k, rq) \<in> G \<and> er_id rq = i) \<and>
     (\<forall>(k, rq) \<in> set (tp_waiting tp). (k, rq) \<in> G) \<and>
     (\<forall>(k, cn) \<in> set (tp_conns tp). \<forall>rq. cn_stdio cn = Some rq \<longrightarrow> (k, rq) \<in> G)"

definition step_ok :: "(nat \<times> exec_request) set \<Rightarrow> (nat \<times> string) set \<Rightarrow> transport \<times> transport_output list \<Rightarrow> bool" where
  "step_ok G N r \<longleftrightarrow> transport_inv G (fst r) \<and> (\<forall>x \<in> set (snd r). output_ok G N x)"

lemma step_okI: "transport_inv G tp \<Longrightarrow> (\<And>x. x \<in> set out \<Longrightarrow> output_ok G N x) \<Longrightarrow> step_ok G N (tp, out)"
  by (simp add: step_ok_def)

text \<open>The updates of the tables.\<close>

lemma inv_pending: "transport_inv G tp \<Longrightarrow> (k, rq) \<in> G \<Longrightarrow> transport_inv G (tp\<lparr>tp_pending := jm_set (tp_pending tp) (er_id rq) k\<rparr>)"
  by (auto simp: transport_inv_def dest!: in_jm_set)

lemma inv_waiting: "transport_inv G tp \<Longrightarrow> (k, rq) \<in> G \<Longrightarrow> transport_inv G (tp\<lparr>tp_waiting := jm_set (tp_waiting tp) k rq\<rparr>)"
  by (auto simp: transport_inv_def dest!: in_jm_set)

lemma inv_stdio: "transport_inv G tp \<Longrightarrow> (k, rq) \<in> G \<Longrightarrow> transport_inv G (tp\<lparr>tp_stdio := jm_set (tp_stdio tp) (er_id rq) (rq, k)\<rparr>)"
  by (auto simp: transport_inv_def dest!: in_jm_set)

lemma inv_active:
  "transport_inv G tp \<Longrightarrow> (ac_socket ac, ac_request ac) \<in> G \<Longrightarrow> er_id (ac_request ac) = i \<Longrightarrow>
   transport_inv G (tp\<lparr>tp_active := jm_set (tp_active tp) i ac\<rparr>)"
  by (auto simp: transport_inv_def dest!: in_jm_set)

lemma inv_conn:
  "transport_inv G tp \<Longrightarrow> (\<And>rq. cn_stdio cn = Some rq \<Longrightarrow> (k, rq) \<in> G) \<Longrightarrow>
   transport_inv G (tp\<lparr>tp_conns := jm_set (tp_conns tp) k cn\<rparr>)"
  by (auto simp: transport_inv_def dest!: in_jm_set)

lemma inv_forget: "transport_inv G tp \<Longrightarrow> transport_inv G (forget_request i tp)"
  by (auto simp: transport_inv_def forget_request_def set_jm_del)

lemma inv_stays: "transport_inv G tp \<Longrightarrow> transport_inv G (stays_open k tp)"
  by (auto simp: transport_inv_def stays_open_def set_jm_del)

lemma inv_del_stdio: "transport_inv G tp \<Longrightarrow> transport_inv G (tp\<lparr>tp_stdio := jm_del (tp_stdio tp) i\<rparr>)"
  by (auto simp: transport_inv_def set_jm_del)

lemma inv_mono: "transport_inv G tp \<Longrightarrow> G \<subseteq> G' \<Longrightarrow> transport_inv G' tp"
  by (fastforce simp: transport_inv_def)

lemma output_mono: "output_ok G N x \<Longrightarrow> G \<subseteq> G' \<Longrightarrow> N \<subseteq> N' \<Longrightarrow> output_ok G' N' x"
  unfolding output_ok_def by (cases x) (simp_all, blast+)

lemma conn_stdio:
  "transport_inv G tp \<Longrightarrow> jm_get (tp_conns tp) k = Some cn \<Longrightarrow> cn_stdio cn = Some rq \<Longrightarrow> (k, rq) \<in> G"
  using jm_get_mem [of "tp_conns tp" k cn] by (fastforce simp: transport_inv_def)

lemma inv_upd_conn:
  "transport_inv G tp \<Longrightarrow> (\<And>cn rq. jm_get (tp_conns tp) k = Some cn \<Longrightarrow> cn_stdio (f cn) = Some rq \<Longrightarrow> (k, rq) \<in> G) \<Longrightarrow>
   transport_inv G (upd_conn k f tp)"
  by (cases "jm_get (tp_conns tp) k") (simp_all add: upd_conn_def inv_conn)

lemmas inv_updates = inv_pending inv_waiting inv_stdio inv_active inv_forget inv_stays inv_del_stdio

lemma end_request_ok:
  assumes "transport_inv G tp" "output_ok G N (Write k f)"
  shows "step_ok G N (end_request k i tp f)"
proof -
  have "transport_inv G (fst (end_request k i tp f))"
    using assms(1) by (auto simp: end_request_def Let_def forget_request_def transport_inv_def set_jm_del)
  then show ?thesis using assms(2) by (simp add: step_ok_def end_request_def Let_def output_ok_def)
qed

lemma fail_request_ok:
  "transport_inv G tp \<Longrightarrow> i = unknown_id \<or> (k, i) \<in> N \<Longrightarrow> step_ok G N (fail_request k i t tp)"
  unfolding fail_request_def by (rule end_request_ok) (simp_all add: output_ok_def own_error_def)

text \<open>Every step, for identifiers that include those of the granted requests.\<close>

definition covers :: "(nat \<times> exec_request) set \<Rightarrow> (nat \<times> string) set \<Rightarrow> bool" where
  "covers G N \<longleftrightarrow> (\<forall>(k, rq) \<in> G. (k, er_id rq) \<in> N)"

lemma coversD: "covers G N \<Longrightarrow> (k, rq) \<in> G \<Longrightarrow> (k, er_id rq) \<in> N"
  by (auto simp: covers_def)

lemma write_ok: "(k, rq) \<in> G \<Longrightarrow> frame_id f = er_id rq \<Longrightarrow> output_ok G N (Write k f)"
  by (auto simp: output_ok_def)

lemma output_ok_simps [simp]:
  "output_ok G N (EndSocket k)" "output_ok G N (DestroySocket k)"
  "output_ok G N (Controller rq) = (\<exists>k. (k, rq) \<in> G)"
  "output_ok G N (Command rq) = (\<exists>k rq0. (k, rq0) \<in> G \<and> derived rq0 rq)"
  by (simp_all add: output_ok_def)

lemma start_request_ok:
  assumes inv: "transport_inv G tp" and rq: "(k, rq) \<in> G" and N: "covers G N"
  shows "step_ok G N (start_request hc k now rq tp)"
proof -
  let ?tp1 = "tp\<lparr>tp_pending := jm_set (tp_pending tp) (er_id rq) k\<rparr>"
  have 1: "transport_inv G ?tp1" using inv_pending [OF inv rq] .
  let ?tp2 = "if er_operation rq = ''stdioStart'' then ?tp1\<lparr>tp_stdio := jm_set (tp_stdio ?tp1) (er_id rq) (rq, k)\<rparr> else ?tp1"
  have 2: "transport_inv G ?tp2" using 1 inv_stdio [OF 1 rq] by simp
  have "transport_inv G (if b then t\<lparr>tp_active := jm_set (tp_active t) (er_id rq)
      \<lparr>ac_socket = k, ac_request = rq, ac_ack = None, ac_first = None, ac_events = 0, ac_started = now\<rparr>\<rparr> else t)"
    if "transport_inv G t" for b t using that rq by (simp add: inv_active)
  note 3 = this [OF 2]
  have "derived rq rq" by (simp add: derived_def)
  then show ?thesis
    unfolding start_request_def Let_def
    using inv_waiting [OF 1 rq] inv_waiting [OF 3 rq] fail_request_ok [OF 1, of "er_id rq" k N] coversD [OF N rq] rq
    by (auto simp: step_ok_def)
qed

lemma check_line_granted:
  assumes "check_line line cfg tp = Inr rq"
  shows "granted (tp_token tp) (Line k line cfg now) = Some (k, rq)"
proof (cases line)
  case (Some v)
  with assms show ?thesis
    by (cases "is_transport_request v"; cases "is_record v"; cases cfg)
      (auto simp: check_line_def granted_def matches_config_def Let_def split: if_splits)
qed (use assms in \<open>simp add: check_line_def\<close>)

lemma check_line_named:
  "check_line line cfg tp = Inl (i, t) \<Longrightarrow> i = unknown_id \<or> named (Line k line cfg now) = Some (k, i)"
  by (cases line; cases "is_transport_request (the line)"; cases "is_record (the line)")
    (auto simp: check_line_def named_def Let_def split: if_splits)

lemma first_line_ok:
  assumes inv: "transport_inv G tp" and N: "covers G N"
    and g: "set_option (granted (tp_token tp) (Line k line cfg now)) \<subseteq> G"
    and n: "set_option (named (Line k line cfg now)) \<subseteq> N"
  shows "step_ok G N (first_line hc k line cfg now tp)"
proof (cases "check_line line cfg tp")
  case (Inl p)
  obtain i t where p: "p = (i, t)" by (cases p)
  show ?thesis using Inl p fail_request_ok [OF inv, of i k N t] check_line_named [of line cfg tp i t k now] n
    by (auto simp: first_line_def)
next
  case (Inr rq)
  then have "(k, rq) \<in> G" using check_line_granted [of line cfg tp rq k now] g by simp
  with Inr show ?thesis using start_request_ok [OF inv _ N] by (simp add: first_line_def)
qed

lemma settle_execute_ok:
  assumes inv: "transport_inv G tp" and rq: "(k, rq) \<in> G" and N: "covers G N"
  shows "step_ok G N (settle_execute k rq now res tp)"
proof -
  let ?tp = "case jm_get (tp_active tp) (er_id rq) of
      None \<Rightarrow> tp
    | Some ac \<Rightarrow> tp\<lparr>tp_active := jm_set (tp_active tp) (er_id rq) (ac\<lparr>ac_ack := Some (now - ac_started ac)\<rparr>)\<rparr>"
  have "transport_inv G ?tp"
  proof (cases "jm_get (tp_active tp) (er_id rq)")
    case (Some ac)
    then have "(ac_socket ac, ac_request ac) \<in> G" "er_id (ac_request ac) = er_id rq"
      using inv jm_get_mem [OF Some] by (auto simp: transport_inv_def)
    then show ?thesis using Some inv_active [OF inv] by simp
  qed (use inv in simp)
  then show ?thesis
    unfolding settle_execute_def Let_def
    using fail_request_ok [of G ?tp "er_id rq" k N] coversD [OF N rq] inv_stays [of G ?tp k]
    by (auto simp: step_ok_def)
qed

lemma settle_line_ok:
  assumes inv: "transport_inv G tp" and N: "covers G N"
  shows "step_ok G N (settle_line k now outcome tp)"
proof (cases "jm_get (tp_waiting tp) k")
  case None
  then show ?thesis using inv by (simp add: settle_line_def step_ok_def)
next
  case (Some rq)
  have rq: "(k, rq) \<in> G" using inv jm_get_mem [OF Some] by (auto simp: transport_inv_def)
  note fail = fail_request_ok [OF inv, of "er_id rq" k N, OF disjI2, OF coversD [OF N rq]]
  have open': "transport_inv G (upd_conn k (\<lambda>cn. cn\<lparr>cn_stdio := Some rq\<rparr>) (stays_open k (forget_request (er_id rq) tp)))"
    using rq by (intro inv_upd_conn inv_stays inv_forget inv) simp
  have ready: "step_ok G N (upd_conn k (\<lambda>cn. cn\<lparr>cn_stdio := Some rq\<rparr>) (stays_open k (forget_request (er_id rq) tp)),
      [Write k (StdioReady (er_id rq))])"
    using open' by (simp add: step_ok_def write_ok [OF rq])
  have ends: "step_ok G N (end_request k (er_id rq) tp (Response (er_id rq) e v))" for e v
    by (rule end_request_ok [OF inv write_ok [OF rq]]) simp
  have command: "step_ok G N (settle_command k rq now v tp)" for v
    by (simp add: settle_command_def Let_def fail settle_execute_ok [OF inv rq N] ready ends split: option.split)
  have controller: "step_ok G N (settle_controller k rq v tp)" for v
    using inv_stays [OF inv_forget [OF inv]] by (simp add: settle_controller_def Let_def step_ok_def write_ok [OF rq])
  show ?thesis using Some fail command controller by (simp add: settle_line_def split: command_outcome.split)
qed

lemma handle_output_ok:
  assumes inv: "transport_inv G tp"
  shows "step_ok G N (handle_output now v tp)"
proof (cases "is_record v")
  case None
  then show ?thesis using inv by (simp add: handle_output_def step_ok_def)
next
  case (Some ev)
  let ?i = "str_of ev ''id''"
  have same: "step_ok G N (tp, [])" using inv by (simp add: step_ok_def)
  have stdio: "step_ok G N (handle_stdio_output ev tp)"
  proof (cases "jm_get (tp_stdio tp) ?i")
    case (Some p)
    obtain rq k where p: "p = (rq, k)" by (cases p)
    have "(k, rq) \<in> G" "er_id rq = ?i" using inv jm_get_mem [OF Some] p by (auto simp: transport_inv_def)
    then show ?thesis using Some p inv inv_del_stdio [OF inv, of ?i]
      by (auto simp: handle_stdio_output_def step_ok_def Let_def intro!: write_ok)
  qed (simp add: handle_stdio_output_def same)
  have completed: "step_ok G N (handle_completed now ev tp)"
  proof (cases "jm_get (tp_active tp) ?i")
    case (Some ac)
    have "(ac_socket ac, ac_request ac) \<in> G" "er_id (ac_request ac) = ?i"
      using inv jm_get_mem [OF Some] by (auto simp: transport_inv_def)
    then show ?thesis using Some inv inv_forget [OF inv, of ?i]
      by (auto simp: handle_completed_def step_ok_def Let_def split: prod.split intro!: write_ok)
  qed (simp add: handle_completed_def same)
  have "step_ok G N (tp', [Write k (Output ?i m)])"
    if get: "jm_get (tp_pending tp) ?i = Some k" and inv': "transport_inv G tp'" for k tp' m
  proof -
    obtain rq where "(k, rq) \<in> G" "er_id rq = ?i" using inv jm_get_mem [OF get] by (auto simp: transport_inv_def)
    then show ?thesis using inv' by (auto simp: step_ok_def intro!: write_ok)
  qed
  moreover have "transport_inv G (tp\<lparr>tp_active := jm_set (tp_active tp) ?i (ac\<lparr>ac_events := n, ac_first := t\<rparr>)\<rparr>)"
    if "jm_get (tp_active tp) ?i = Some ac" for ac n t
    using inv jm_get_mem [OF that] by (intro inv_active [OF inv]) (auto simp: transport_inv_def)
  ultimately show ?thesis using Some stdio completed same inv
    by (simp add: handle_output_def Let_def split: option.split)
qed

lemma input_command_derived: "input_command rq line = Inr c \<Longrightarrow> derived rq c"
  by (auto simp: input_command_def derived_def split: option.splits bool.splits if_splits)

lemma input_failed_ok: "(k, rq) \<in> G \<Longrightarrow> x \<in> set (input_failed k rq t) \<Longrightarrow> output_ok G N x"
  by (auto simp: input_failed_def intro: write_ok)

lemma pump_ok:
  "(k, rq) \<in> G \<Longrightarrow> \<forall>x \<in> set out. output_ok G N x \<Longrightarrow> \<forall>x \<in> set (snd (snd (pump k rq lines out))). output_ok G N x"
proof (induction k rq lines out rule: pump.induct)
  case (2 k rq line lines out)
  show ?case
  proof (cases "input_command rq line")
    case (Inl t)
    then show ?thesis using "2.IH" [OF Inl] "2.prems" input_failed_ok [OF "2.prems"(1), of _ t N] by auto
  next
    case (Inr c)
    then show ?thesis using "2.prems" input_command_derived [OF Inr] by auto
  qed
qed simp

lemma pump_conn_ok:
  assumes inv: "transport_inv G tp" and cn: "cn_stdio cn = Some rq" and rq: "(k, rq) \<in> G"
    and out: "\<forall>x \<in> set out. output_ok G N x"
  shows "step_ok G N (pump_conn k cn rq lines out tp)"
proof -
  obtain rest sending out1 where p: "pump k rq lines out = (rest, sending, out1)" by (cases "pump k rq lines out")
  have "\<forall>x \<in> set out1. output_ok G N x" using pump_ok [OF rq out, of lines] p by simp
  moreover have "transport_inv G (tp\<lparr>tp_conns := jm_set (tp_conns tp) k (cn\<lparr>cn_queue := rest, cn_sending := sending\<rparr>)\<rparr>)"
    by (rule inv_conn [OF inv]) (use cn rq in simp)
  ultimately show ?thesis using p by (simp add: pump_conn_def step_ok_def)
qed

lemma input_settles_ok:
  assumes inv: "transport_inv G tp"
  shows "step_ok G N (input_settles k err tp)"
proof (cases "jm_get (tp_conns tp) k")
  case (Some cn)
  show ?thesis
  proof (cases "cn_stdio cn")
    case rq: (Some rq)
    note g = conn_stdio [OF inv Some rq]
    show ?thesis
      using Some rq inv pump_conn_ok [OF inv rq g, of "case err of None \<Rightarrow> [] | Some t \<Rightarrow> input_failed k rq t"]
        input_failed_ok [OF g]
      by (auto simp: input_settles_def step_ok_def split: option.splits)
  qed (use Some inv in \<open>simp add: input_settles_def step_ok_def\<close>)
qed (use inv in \<open>simp add: input_settles_def step_ok_def\<close>)

lemma receive_line_ok:
  assumes inv: "transport_inv G tp" and N: "covers G N"
    and g: "set_option (granted (tp_token tp) (Line k line cfg now)) \<subseteq> G"
    and n: "set_option (named (Line k line cfg now)) \<subseteq> N"
  shows "step_ok G N (receive_line hc k line cfg now tp)"
proof (cases "jm_get (tp_conns tp) k")
  case None
  then show ?thesis using inv by (simp add: receive_line_def step_ok_def)
next
  case (Some cn)
  have keep: "transport_inv G (tp\<lparr>tp_conns := jm_set (tp_conns tp) k cn'\<rparr>)" if "cn_stdio cn' = cn_stdio cn" for cn'
    by (rule inv_conn [OF inv]) (use conn_stdio [OF inv Some] that in simp)
  have first: "step_ok G N (first_line hc k line cfg now (tp\<lparr>tp_conns := jm_set (tp_conns tp) k (cn\<lparr>cn_handled := True\<rparr>)\<rparr>))"
    using first_line_ok [OF keep N] g n by simp
  have gone: "step_ok G N (upd_conn k (\<lambda>cn. cn\<lparr>cn_open := False\<rparr>) tp, [DestroySocket k])"
    using keep [of "cn\<lparr>cn_open := False\<rparr>"] Some by (simp add: step_ok_def upd_conn_def)
  have queue: "step_ok G N (tp\<lparr>tp_conns := jm_set (tp_conns tp) k (cn\<lparr>cn_queue := q\<rparr>)\<rparr>, [])" for q
    using keep by (simp add: step_ok_def)
  have pump: "step_ok G N (pump_conn k cn rq lines [] tp)" if "cn_stdio cn = Some rq" for rq lines
    by (rule pump_conn_ok [OF inv that conn_stdio [OF inv Some that]]) simp
  show ?thesis using Some inv first gone queue pump
    by (auto simp: receive_line_def step_ok_def [of G N "(tp, [])"] split: option.split)
qed

lemma cleanup_ok:
  assumes inv: "transport_inv G tp"
  shows "step_ok G N (cleanup_socket k tp)"
proof -
  have "transport_inv G (tp\<lparr>tp_pending := filter (\<lambda>(i, s). s \<noteq> k) (tp_pending tp),
      tp_active := filter (\<lambda>(i, ac). ac_socket ac \<noteq> k) (tp_active tp),
      tp_stdio := filter (\<lambda>(i, rq, s). s \<noteq> k) (tp_stdio tp)\<rparr>)" (is "transport_inv G ?tp")
    using inv by (auto simp: transport_inv_def)
  then have "transport_inv G (upd_conn k (\<lambda>cn. cn\<lparr>cn_open := False\<rparr>) ?tp)"
    by (rule inv_upd_conn) (use conn_stdio [OF inv] in auto)
  moreover have "derived rq (cancel_request rq)" "derived rq (control_request rq ''stdioStop'' [])" for rq
    by (auto simp: derived_def)
  moreover have "\<exists>k. (k, ac_request ac) \<in> G" if "(i, ac) \<in> set (tp_active tp)" for i ac
    using inv that by (auto simp: transport_inv_def)
  moreover have "\<exists>k. (k, rq) \<in> G" if "(i, rq, s) \<in> set (tp_stdio tp)" for i rq s
    using inv that by (auto simp: transport_inv_def)
  ultimately show ?thesis unfolding cleanup_socket_def by (intro step_okI) (auto, blast+)
qed

lemma close_ok:
  assumes inv: "transport_inv G tp"
  shows "step_ok G N (tp, close_active tp)" "step_ok G N (close_stdio tp)" "step_ok G N (close_sockets tp)"
proof -
  have d: "derived rq (cancel_request rq)" "derived rq (control_request rq ''stdioStop'' [])" for rq
    by (auto simp: derived_def)
  have a: "\<exists>k. (k, ac_request ac) \<in> G" if "(i, ac) \<in> set (tp_active tp)" for i ac
    using inv that by (auto simp: transport_inv_def)
  have b: "\<exists>k. (k, rq) \<in> G" if "(i, rq, s) \<in> set (tp_stdio tp)" for i rq s
    using inv that by (auto simp: transport_inv_def)
  show "step_ok G N (tp, close_active tp)"
    unfolding close_active_def using inv by (intro step_okI) (use a d(1) in \<open>auto, blast\<close>)
  show "step_ok G N (close_stdio tp)"
    unfolding close_stdio_def using inv
    by (intro step_okI) (use b d(2) in \<open>auto simp: transport_inv_def, blast\<close>)
  show "step_ok G N (close_sockets tp)"
    unfolding close_sockets_def using inv by (intro step_okI) (auto simp: transport_inv_def)
qed

text \<open>The secret never changes.\<close>

lemma token_end [simp]: "tp_token (fst (end_request k i tp f)) = tp_token tp"
  by (simp add: end_request_def forget_request_def Let_def)

lemma token_fail [simp]: "tp_token (fst (fail_request k i t tp)) = tp_token tp"
  by (simp add: fail_request_def)

lemma token_simps [simp]:
  "tp_token (upd_conn k f tp) = tp_token tp" "tp_token (stays_open k tp) = tp_token tp"
  "tp_token (forget_request i tp) = tp_token tp" "tp_token (fst (pump_conn k cn rq lines out tp)) = tp_token tp"
  by (simp_all add: upd_conn_def stays_open_def forget_request_def pump_conn_def split: option.split prod.split)

lemma token_start [simp]: "tp_token (fst (start_request hc k now rq tp)) = tp_token tp"
  by (simp add: start_request_def Let_def)

lemma token_settle [simp]: "tp_token (fst (settle_line k now outcome tp)) = tp_token tp"
  by (auto simp: settle_line_def settle_command_def settle_execute_def settle_controller_def Let_def
      split: option.split command_outcome.split)

lemma token_output [simp]: "tp_token (fst (handle_output now v tp)) = tp_token tp"
  by (auto simp: handle_output_def handle_stdio_output_def handle_completed_def Let_def split: option.split prod.split)

lemma token_line [simp]: "tp_token (fst (receive_line hc k line cfg now tp)) = tp_token tp"
  by (auto simp: receive_line_def first_line_def split: option.split sum.split)

lemma token_kept: "tp_token (fst (transport_step hc tp e)) = tp_token tp"
  by (cases e) (auto simp: accept_socket_def input_settles_def cleanup_socket_def close_stdio_def close_sockets_def
      split: option.split)

lemma transport_step_ok:
  assumes "transport_inv G tp" "covers G N" "set_option (granted (tp_token tp) e) \<subseteq> G" "set_option (named e) \<subseteq> N"
  shows "step_ok G N (transport_step hc tp e)"
proof (cases e)
  case (Accepts k)
  then show ?thesis using assms(1) by (auto simp: step_ok_def accept_socket_def intro!: inv_conn)
qed (use assms receive_line_ok settle_line_ok input_settles_ok handle_output_ok cleanup_ok close_ok in simp_all)

definition grants :: "string \<Rightarrow> transport_event list \<Rightarrow> (nat \<times> exec_request) set" where
  "grants token es = (\<Union>e \<in> set es. set_option (granted token e))"

definition names :: "transport_event list \<Rightarrow> (nat \<times> string) set" where
  "names es = (\<Union>e \<in> set es. set_option (named e))"

lemma covers_grants: "covers (grants token es) (names es)"
  by (auto simp: covers_def grants_def names_def granted_def named_def request_of_def
      split: transport_event.splits option.splits json.splits if_splits; force)

lemma outs_ok:
  "transport_inv G tp \<Longrightarrow> covers G N \<Longrightarrow> grants (tp_token tp) es \<subseteq> G \<Longrightarrow> names es \<subseteq> N \<Longrightarrow>
   \<forall>x \<in> set (outputs (transport_step hc) tp es). output_ok G N x"
proof (induction es arbitrary: tp)
  case (Cons e es)
  let ?tp = "fst (transport_step hc tp e)"
  have "step_ok G N (transport_step hc tp e)"
    using Cons.prems by (intro transport_step_ok) (auto simp: grants_def names_def)
  moreover have "grants (tp_token ?tp) es \<subseteq> G" "names es \<subseteq> N"
    using Cons.prems by (auto simp: token_kept grants_def names_def)
  ultimately show ?case using Cons.IH [of ?tp] Cons.prems(2) by (auto simp: step_ok_def)
qed simp

text \<open>C13. A connection sees its own request only. Whatever is written to a connection answers a
  request that came with the secret and for the workspace of the window on that same connection, except
  the error this window makes itself, which repeats the identifier the connection sent; and
  whatever is run remotely or given to the controller is such a request, or its cancellation,
  stop or input. No order of lines, answers, remote events and disconnects changes this.
\<close>

theorem transport_isolated:
  assumes "x \<in> set (outputs (transport_step hc) (new_transport token) es)"
  shows "(\<forall>k f. x = Write k f \<longrightarrow>
      (\<exists>e \<in> set es. \<exists>rq. granted token e = Some (k, rq) \<and> er_id rq = frame_id f) \<or>
      own_failure f \<and> (frame_id f = unknown_id \<or> (\<exists>e \<in> set es. named e = Some (k, frame_id f)))) \<and>
    (\<forall>rq. x = Command rq \<longrightarrow> (\<exists>e \<in> set es. \<exists>k rq0. granted token e = Some (k, rq0) \<and> derived rq0 rq)) \<and>
    (\<forall>rq. x = Controller rq \<longrightarrow> (\<exists>e \<in> set es. \<exists>k. granted token e = Some (k, rq)))"
proof -
  have "transport_inv (grants token es) (new_transport token)" by (simp add: transport_inv_def new_transport_def)
  moreover have "tp_token (new_transport token) = token" by (simp add: new_transport_def)
  ultimately have "output_ok (grants token es) (names es) x"
    using outs_ok [of "grants token es" "new_transport token" "names es" es hc] covers_grants [of token es] assms by simp
  then show ?thesis by (auto simp: output_ok_def grants_def names_def) blast+
qed

text \<open>A frame of input that fails does not stop the ones behind it: the process misses a piece.\<close>

lemma input_goes_on_after_failure:
  assumes "jm_get (tp_conns tp) k = Some cn" "cn_stdio cn = Some rq" "cn_sending cn" "cn_queue cn = line # rest"
    and "input_command rq line = Inr c"
  shows "snd (input_settles k (Some t) tp) = input_failed k rq t @ [Command c]"
  using assms by (simp add: input_settles_def pump_conn_def)

definition line_request :: "string \<Rightarrow> string \<Rightarrow> string \<Rightarrow> json" where
  "line_request token i op =
     JObj [(''id'', JStr i), (''token'', JStr token), (''hostId'', JStr ''h''), (''workspaceRoot'', JStr ''/w''),
       (''outputCommand'', JStr ''o''), (''policy'', JObj []), (''operation'', JStr op), (''params'', JObj [])]"

definition window_config :: transport_config where
  "window_config = \<lparr>tg_mode = ''vscode-remote'', tg_host = ''h'', tg_root = ''/w'', tg_timeout = 1, tg_max_output = 1\<rparr>"

definition execute_events :: "transport_event list" where
  "execute_events =
     [Accepts 1, Line 1 (Some (line_request ''s'' ''a'' ''execute'')) (Some window_config) 0,
      Settles 1 1 (Resolved (Some (JObj [(''ok'', JBool True), (''result'', JObj [(''accepted'', JBool True)])])))]"

definition completion :: transport_event where
  "completion = RemoteEvent 2 (JObj [(''event'', JStr ''executionComplete''), (''id'', JStr ''a''),
     (''response'', JObj [(''ok'', JBool True), (''result'', JInt 7)])])"

lemma transport_isolated_witness:
  "\<exists>e \<in> set (execute_events @ [completion]). \<exists>rq. granted ''s'' e = Some (1, rq) \<and> er_id rq = ''a''"
proof -
  let ?out = "outputs (transport_step True) (new_transport ''s'') (execute_events @ [completion])"
  have "Write 1 (Response ''a'' None (Some (JInt 7))) \<in> set ?out" by code_simp
  from transport_isolated [OF this] show ?thesis by auto
qed

text \<open>C32. A refused request makes the server forget the accepted one of the same identifier. When a
  connection sends a line with a wrong secret, the request that another connection has running
  under that identifier is unregistered: its completion and its output are then dropped, and the other
  connection is never answered.
\<close>

theorem refused_line_forgets_other:
  fixes cfg :: "transport_config option" and hc :: bool and now later :: int
  assumes "jm_get (tp_conns tp) k = Some cn" "cn_open cn" "\<not> cn_handled cn"
    and "is_transport_request (JObj ob)" "str_of ob ''token'' \<noteq> tp_token tp"
    and "\<not> is_stdio_event v" "is_record v = Some ev" "str_of ev ''id'' = str_of ob ''id''"
  defines "tp1 \<equiv> fst (transport_step hc tp (Line k (Some (JObj ob)) cfg now))"
  shows "jm_get (tp_active tp1) (str_of ob ''id'') = None \<and> jm_get (tp_pending tp1) (str_of ob ''id'') = None \<and>
    jm_get (tp_stdio tp1) (str_of ob ''id'') = None \<and> transport_step hc tp1 (RemoteEvent later v) = (tp1, [])"
proof -
  have "check_line (Some (JObj ob)) cfg (tp\<lparr>tp_conns := jm_set (tp_conns tp) k (cn\<lparr>cn_handled := True\<rparr>)\<rparr>) =
      Inl (str_of ob ''id'', refusal_of COMMAND_DENIED ''VS Code transport authentication failed'')"
    using assms(4,5) by (simp add: check_line_def Let_def)
  then have "tp1 = fst (fail_request k (str_of ob ''id'')
      (refusal_of COMMAND_DENIED ''VS Code transport authentication failed'')
      (tp\<lparr>tp_conns := jm_set (tp_conns tp) k (cn\<lparr>cn_handled := True\<rparr>)\<rparr>))"
    using assms(1,2,3) by (simp add: tp1_def receive_line_def first_line_def)
  then have gone: "jm_get (tp_active tp1) (str_of ob ''id'') = None" "jm_get (tp_pending tp1) (str_of ob ''id'') = None"
    "jm_get (tp_stdio tp1) (str_of ob ''id'') = None"
    by (simp_all add: fail_request_def end_request_def forget_request_def Let_def)
  then show ?thesis using assms(6,7,8) by (simp add: handle_output_def handle_completed_def Let_def)
qed

lemma refused_line_forgets_other_witness:
  "outputs (transport_step True) (new_transport ''s'')
     (execute_events @ [Accepts 2, Line 2 (Some (line_request ''x'' ''a'' ''probe'')) (Some window_config) 1]) =
   [Command (request_of window_config (the (is_record (line_request ''s'' ''a'' ''execute'')))),
    Write 2 (Response ''a'' (Some (own_error (refusal_of COMMAND_DENIED ''VS Code transport authentication failed''))) None),
    EndSocket 2] \<and>
   snd (transport_step True (run (\<lambda>tp e. fst (transport_step True tp e)) (new_transport ''s'')
     (execute_events @ [Accepts 2, Line 2 (Some (line_request ''x'' ''a'' ''probe'')) (Some window_config) 1])) completion) = []"
proof -
  let ?tp = "run (\<lambda>tp e. fst (transport_step True tp e)) (new_transport ''s'') (execute_events @ [Accepts 2])"
  let ?cn = "\<lparr>cn_handled = False, cn_stdio = None, cn_open = True, cn_queue = [], cn_sending = False\<rparr>"
  let ?ob = "the (is_record (line_request ''x'' ''a'' ''probe''))"
  let ?v = "JObj [(''event'', JStr ''executionComplete''), (''id'', JStr ''a''),
     (''response'', JObj [(''ok'', JBool True), (''result'', JInt 7)])]"
  have facts: "jm_get (tp_conns ?tp) 2 = Some ?cn" "is_transport_request (JObj ?ob)" "str_of ?ob ''token'' \<noteq> tp_token ?tp"
    "\<not> is_stdio_event ?v" "str_of (the (is_record ?v)) ''id'' = str_of ?ob ''id''"
    by code_simp+
  have "snd (transport_step True (fst (transport_step True ?tp (Line 2 (Some (JObj ?ob)) (Some window_config) 1))) (RemoteEvent 2 ?v)) = []"
    using refused_line_forgets_other [OF facts(1) _ _ facts(2,3,4) _ facts(5), where hc = True and cfg = "Some window_config" and now = 1 and later = 2]
    by simp
  moreover have "JObj ?ob = line_request ''x'' ''a'' ''probe''" by (simp add: line_request_def)
  moreover have "outputs (transport_step True) (new_transport ''s'')
     (execute_events @ [Accepts 2, Line 2 (Some (line_request ''x'' ''a'' ''probe'')) (Some window_config) 1]) =
   [Command (request_of window_config (the (is_record (line_request ''s'' ''a'' ''execute'')))),
    Write 2 (Response ''a'' (Some (own_error (refusal_of COMMAND_DENIED ''VS Code transport authentication failed''))) None),
    EndSocket 2]" by code_simp
  ultimately show ?thesis by (simp add: run_append completion_def)
qed

end
