(* ===== verification/RemoteCommand.thy ===== *)
theory RemoteCommand
  imports NodePath Errors
begin

text \<open>
  \<^verbatim>\<open>src/shim/remote-command.ts\<close>: the arguments of a remote command as \<open>parseRemoteExecArguments\<close>
  reads them, and the command line that is shown to the user. The line is compared with the words
  a POSIX shell reads in it.
\<close>

section \<open>Arguments\<close>

record exec_args =
  xa_argv :: "string list"
  xa_cwd :: "string option"
  xa_env :: "(string \<times> string option) list option"
  xa_timeout :: "int option"

fun text_of :: "json \<Rightarrow> string option" where
  "text_of (JStr s) = Some s"
| "text_of _ = None"

fun texts_of :: "json list \<Rightarrow> string list option" where
  "texts_of [] = Some []"
| "texts_of (v # vs) =
     (case (text_of v, texts_of vs) of (Some s, Some ss) \<Rightarrow> Some (s # ss) | _ \<Rightarrow> None)"

fun env_entries :: "jobj \<Rightarrow> (string \<times> string option) list option" where
  "env_entries [] = Some []"
| "env_entries ((k, v) # es) =
     (case (v, env_entries es) of
        (JStr s, Some xs) \<Rightarrow> Some ((k, Some s) # xs)
      | (JNull, Some xs) \<Rightarrow> Some ((k, None) # xs)
      | _ \<Rightarrow> None)"

definition argv_of :: "json option \<Rightarrow> bridge_error + string list" where
  "argv_of v =
     (case as_array v of
        None \<Rightarrow> throw PROTOCOL_MISMATCH ''remote_exec argv must be a non-empty string array''
      | Some vs \<Rightarrow>
          if vs = [] then throw PROTOCOL_MISMATCH ''remote_exec argv must be a non-empty string array''
          else (case texts_of vs of
            None \<Rightarrow> throw PROTOCOL_MISMATCH ''remote_exec argv must contain only NUL-free strings''
          | Some ss \<Rightarrow>
              if list_ex (\<lambda>s. NUL \<in> set s) ss
              then throw PROTOCOL_MISMATCH ''remote_exec argv must contain only NUL-free strings''
              else Inr ss))"

definition env_of :: "json option \<Rightarrow> bridge_error + (string \<times> string option) list option" where
  "env_of v =
     (case v of
        None \<Rightarrow> Inr None
      | Some e \<Rightarrow>
          (case is_record e of
             None \<Rightarrow> throw PROTOCOL_MISMATCH ''remote_exec env must be an object''
           | Some es \<Rightarrow>
               (case env_entries es of
                  None \<Rightarrow> throw PROTOCOL_MISMATCH ''remote_exec env values must be strings or null''
                | Some xs \<Rightarrow> Inr (Some xs))))"

definition max_foreground :: int where
  "max_foreground = 3600000"

definition clamp_timeout :: "int \<Rightarrow> json option \<Rightarrow> int option" where
  "clamp_timeout hi v = map_option (\<lambda>t. max 1000 (min t hi)) (as_integer v)"

definition parse_remote_exec :: "int \<Rightarrow> json \<Rightarrow> bridge_error + exec_args" where
  "parse_remote_exec hi v =
     (case is_record v of
        None \<Rightarrow> throw PROTOCOL_MISMATCH ''remote_exec argv must be a non-empty string array''
      | Some ob \<Rightarrow>
          bind_res (argv_of (oget ob ''argv'')) (\<lambda>argv.
          bind_res (env_of (oget ob ''env'')) (\<lambda>env.
          Inr \<lparr>xa_argv = argv, xa_cwd = (case sprop ob ''cwd'' of Some (c # cs) \<Rightarrow> Some (c # cs) | _ \<Rightarrow> None),
               xa_env = env, xa_timeout = clamp_timeout hi (oget ob ''timeoutMs'')\<rparr>)))"

section \<open>Display\<close>

abbreviation QUOTE :: char where
  "QUOTE \<equiv> CHR 0x27"

abbreviation DQUOTE :: char where
  "DQUOTE \<equiv> CHR 0x22"

definition plain_char :: "char \<Rightarrow> bool" where
  "plain_char c \<longleftrightarrow> is_alnum c \<or> c \<in> set ''_@%+=:,./-''"

definition quote_char :: "char \<Rightarrow> string" where
  "quote_char c = (if c = QUOTE then [QUOTE, DQUOTE, QUOTE, DQUOTE, QUOTE] else [c])"

definition quote_for_display :: "string \<Rightarrow> string" where
  "quote_for_display v =
     (if v \<noteq> [] \<and> list_all plain_char v then v else QUOTE # concat (map quote_char v) @ [QUOTE])"

definition format_remote_command :: "string list \<Rightarrow> string" where
  "format_remote_command argv = join_with '' '' (map quote_for_display argv)"

text \<open>The words of the shown command: the variables to unset, those to set, and the command.\<close>

fun unset_words :: "string \<times> string option \<Rightarrow> string list" where
  "unset_words (k, None) = [''-u'', k]"
| "unset_words (k, Some v) = []"

fun set_words :: "string \<times> string option \<Rightarrow> string list" where
  "set_words (k, None) = []"
| "set_words (k, Some v) = [k @ ''='' @ v]"

definition request_words :: "exec_args \<Rightarrow> string list" where
  "request_words r =
     (case xa_env r of
        None \<Rightarrow> xa_argv r
      | Some es \<Rightarrow>
          if es = [] then xa_argv r
          else ''env'' # concat (map unset_words es) @ concat (map set_words es) @ xa_argv r)"

definition format_remote_exec_request :: "exec_args \<Rightarrow> string" where
  "format_remote_exec_request r = format_remote_command (request_words r)"

section \<open>What a shell reads\<close>

text \<open>
  Word splitting of a POSIX shell on lines of plain characters, blanks and both kinds of quotes; a
  character that would start an expansion or another construct is refused.
\<close>

datatype shell_mode = Between | Bare string | Single string | Double string

fun shell_words :: "shell_mode \<Rightarrow> string \<Rightarrow> string list option" where
  "shell_words Between [] = Some []"
| "shell_words (Bare w) [] = Some [w]"
| "shell_words (Single w) [] = None"
| "shell_words (Double w) [] = None"
| "shell_words Between (c # cs) =
     (if c = CHR '' '' then shell_words Between cs
      else if c = QUOTE then shell_words (Single []) cs
      else if c = DQUOTE then shell_words (Double []) cs
      else if plain_char c then shell_words (Bare [c]) cs else None)"
| "shell_words (Bare w) (c # cs) =
     (if c = CHR '' '' then map_option ((#) w) (shell_words Between cs)
      else if c = QUOTE then shell_words (Single w) cs
      else if c = DQUOTE then shell_words (Double w) cs
      else if plain_char c then shell_words (Bare (w @ [c])) cs else None)"
| "shell_words (Single w) (c # cs) =
     (if c = QUOTE then shell_words (Bare w) cs else shell_words (Single (w @ [c])) cs)"
| "shell_words (Double w) (c # cs) =
     (if c = DQUOTE then shell_words (Bare w) cs
      else if c \<in> set ''$`!'' \<or> c = CHR 0x5C then None
      else shell_words (Double (w @ [c])) cs)"

lemma plain_not_special:
  "plain_char c \<Longrightarrow> c \<noteq> CHR '' '' \<and> c \<noteq> QUOTE \<and> c \<noteq> DQUOTE"
  by (auto simp: plain_char_def is_alnum_def is_alpha_def is_lower_def is_upper_def is_digit_def)

lemma shell_bare:
  "list_all plain_char v \<Longrightarrow> shell_words (Bare w) (v @ rest) = shell_words (Bare (w @ v)) rest"
  by (induction v arbitrary: w) (auto dest: plain_not_special)

lemma shell_single:
  "shell_words (Single w) (concat (map quote_char v) @ QUOTE # rest) = shell_words (Bare (w @ v)) rest"
  by (induction v arbitrary: w) (simp_all add: quote_char_def)

lemma shell_quoted: "shell_words Between (quote_for_display v @ rest) = shell_words (Bare v) rest"
proof (cases "v \<noteq> [] \<and> list_all plain_char v")
  case True
  then obtain c cs where v: "v = c # cs" "plain_char c" "list_all plain_char cs" by (cases v) auto
  then show ?thesis using shell_bare [of cs "[c]" rest] True
    by (auto simp: quote_for_display_def dest: plain_not_special)
next
  case False
  then show ?thesis using shell_single [of "[]" v rest] by (auto simp: quote_for_display_def)
qed

lemma shell_command: "shell_words Between (format_remote_command argv) = Some argv"
  unfolding format_remote_command_def
proof (induction argv rule: induct_list012)
  case (2 v)
  show ?case using shell_quoted [of v "[]"] by simp
next
  case (3 v w vs)
  then show ?case using shell_quoted [of v "CHR '' '' # join_with '' '' (map quote_for_display (w # vs))"] by simp
qed simp

text \<open>C33. The command line that is shown for a remote command is exact: a POSIX shell reads in it
  precisely the words of the command, whatever characters its arguments contain, and when variables
  are changed, precisely the call of \<open>env\<close> that changes them before the command.
\<close>

theorem shown_command_exact: "shell_words Between (format_remote_exec_request r) = Some (request_words r)"
  unfolding format_remote_exec_request_def by (rule shell_command)

end
