(* ===== verification/Config.thy ===== *)
theory Config
  imports NodePath Errors
begin

text \<open>
  The configuration of the bridge, \<^verbatim>\<open>src/core/config.ts\<close>: \<open>parseBridgeConfig\<close> with the workspace
  roots. A number that is not an integer is never accepted; the functions of \<open>path.win32\<close> are
  used only to ask whether an absolute path is its own normal form, which is the predicate
  \<open>win32_normal\<close>. A parsed configuration is written back as the object literal the parser
  returns.
\<close>

section \<open>Fields\<close>

definition config_string :: "json option \<Rightarrow> string \<Rightarrow> bridge_error + string" where
  "config_string v name =
     (case as_string v of
        None \<Rightarrow> throw INVALID_CONFIG (name @ '' must be a non-empty string'')
      | Some s \<Rightarrow>
          if trim s = [] then throw INVALID_CONFIG (name @ '' must be a non-empty string'')
          else if NUL \<in> set s then throw INVALID_CONFIG (name @ '' must not contain NUL'')
          else Inr s)"

definition nullish :: "json option \<Rightarrow> bool" where
  "nullish v \<longleftrightarrow> v = None \<or> v = Some JNull"

definition integer_in_range :: "json option \<Rightarrow> int \<Rightarrow> int \<Rightarrow> int \<Rightarrow> string \<Rightarrow> bridge_error + int" where
  "integer_in_range v fallback lo hi name =
     (case as_integer (if nullish v then Some (JInt fallback) else v) of
        None \<Rightarrow> throw INVALID_CONFIG (name @ '' must be an integer from '' @ int_text lo @ '' to '' @ int_text hi)
      | Some i \<Rightarrow>
          if i < lo \<or> i > hi
          then throw INVALID_CONFIG (name @ '' must be an integer from '' @ int_text lo @ '' to '' @ int_text hi)
          else Inr i)"

definition normalized_remote_root :: "json option \<Rightarrow> string \<Rightarrow> bridge_error + string" where
  "normalized_remote_root v name =
     bind_res (config_string v name) (\<lambda>p.
     bind_res (ensure (is_absolute p \<and> normalize p = p \<and> p \<noteq> ''/'')
       (BridgeError INVALID_CONFIG (name @ '' must be a normalized absolute POSIX path other than /'') None)) (\<lambda>_.
     Inr p))"

text \<open>
  \<open>/^[A-Za-z]:[\\/]|^\\\\/\<close> and, for such a path, whether \<open>win32.isAbsolute(p) && win32.normalize(p) === p\<close>:
  a drive or a share with single backslashes between segments that are not empty, \<open>.\<close> or \<open>..\<close>;
  one backslash may end it.
\<close>

abbreviation BACKSLASH :: char where
  "BACKSLASH \<equiv> CHR 0x5C"

definition win32_sep :: "char \<Rightarrow> bool" where
  "win32_sep c \<longleftrightarrow> c = CHR ''/'' \<or> c = BACKSLASH"

definition looks_win32 :: "string \<Rightarrow> bool" where
  "looks_win32 p \<longleftrightarrow>
     (case p of
        a # b # c # _ \<Rightarrow> is_alpha a \<and> b = CHR '':'' \<and> win32_sep c \<or> a = BACKSLASH \<and> b = BACKSLASH
      | [a, b] \<Rightarrow> a = BACKSLASH \<and> b = BACKSLASH
      | _ \<Rightarrow> False)"

definition win32_tail :: "string \<Rightarrow> bool" where
  "win32_tail t \<longleftrightarrow>
     CHR ''/'' \<notin> set t \<and>
     (t = [] \<or>
      (let ss = split_on BACKSLASH t; body = (if last ss = [] then butlast ss else ss) in
       body \<noteq> [] \<and> list_all (\<lambda>s. s \<noteq> [] \<and> s \<noteq> ''.'' \<and> s \<noteq> ''..'') body))"

text \<open>The root of such a path, as \<open>win32.parse(p).root\<close>, and what follows it.\<close>

definition win32_split :: "string \<Rightarrow> (string \<times> string) option" where
  "win32_split p =
     (case p of
        a # b # c # t \<Rightarrow>
          if is_alpha a \<and> b = CHR '':'' \<and> c = BACKSLASH then Some ([a, b, c], t)
          else if a = BACKSLASH \<and> b = BACKSLASH
          then (let server = takeWhile (\<lambda>x. \<not> win32_sep x) (c # t); r1 = dropWhile (\<lambda>x. \<not> win32_sep x) (c # t);
                    share = takeWhile (\<lambda>x. \<not> win32_sep x) (tl r1); r2 = dropWhile (\<lambda>x. \<not> win32_sep x) (tl r1) in
                if server \<noteq> [] \<and> r1 \<noteq> [] \<and> hd r1 = BACKSLASH \<and> share \<noteq> [] \<and> r2 \<noteq> [] \<and> hd r2 = BACKSLASH
                then Some ([BACKSLASH, BACKSLASH] @ server @ [BACKSLASH] @ share @ [BACKSLASH], tl r2) else None)
          else None
      | _ \<Rightarrow> None)"

definition win32_normal :: "string \<Rightarrow> bool" where
  "win32_normal p \<longleftrightarrow> (case win32_split p of None \<Rightarrow> False | Some (root, t) \<Rightarrow> win32_tail t)"

definition win32_root :: "string \<Rightarrow> bool" where
  "win32_root p \<longleftrightarrow> (case win32_split p of None \<Rightarrow> False | Some (root, t) \<Rightarrow> t = [])"

definition local_normal :: "string \<Rightarrow> bool" where
  "local_normal p \<longleftrightarrow> (if looks_win32 p then win32_normal p else is_absolute p \<and> normalize p = p)"

definition local_root_path :: "string \<Rightarrow> bool" where
  "local_root_path p \<longleftrightarrow> (if looks_win32 p then win32_root p else p = ''/'')"

definition normalized_local_root :: "json option \<Rightarrow> string \<Rightarrow> bool \<Rightarrow> bridge_error + string" where
  "normalized_local_root v name allow_root =
     bind_res (config_string v name) (\<lambda>p.
     bind_res (ensure (local_normal p \<and> (allow_root \<or> \<not> local_root_path p))
       (BridgeError INVALID_CONFIG
         (name @ '' must be a normalized absolute local path other than a filesystem root'') None)) (\<lambda>_.
     Inr p))"

section \<open>Roots\<close>

record workspace_root =
  wr_id :: string
  wr_remote :: bool
  wr_primary :: bool
  wr_path :: string
  wr_name :: string

definition remote_primary_root :: "string \<Rightarrow> string \<Rightarrow> workspace_root" where
  "remote_primary_root path name =
     \<lparr>wr_id = ''remote-primary'', wr_remote = True, wr_primary = True, wr_path = path, wr_name = name\<rparr>"

definition default_primary_root :: "string \<Rightarrow> workspace_root" where
  "default_primary_root path = remote_primary_root path (basename path)"

definition home_access_id :: string where
  "home_access_id = ''remote-home-access''"

definition full_access_id :: string where
  "full_access_id = ''local-full-access''"

definition home_access_root :: "string \<Rightarrow> bridge_error + workspace_root" where
  "home_access_root home =
     bind_res (normalized_remote_root (Some (JStr home)) ''remote home directory'') (\<lambda>p.
     Inr \<lparr>wr_id = home_access_id, wr_remote = True, wr_primary = False, wr_path = p, wr_name = ''Remote user home''\<rparr>)"

text \<open>\<open>/^[A-Za-z0-9][A-Za-z0-9._-]{0,63}$/\<close>.\<close>

definition safe_id :: "string \<Rightarrow> bool" where
  "safe_id s \<longleftrightarrow>
     (case s of
        [] \<Rightarrow> False
      | c # cs \<Rightarrow> is_alnum c \<and> length cs \<le> 63 \<and> list_all (\<lambda>x. is_alnum x \<or> x \<in> set ''._-'') cs)"

definition choice :: "json option \<Rightarrow> string \<Rightarrow> string \<Rightarrow> string \<Rightarrow> bridge_error + bool" where
  "choice v yes no msg =
     (if v = Some (JStr yes) then Inr True else if v = Some (JStr no) then Inr False else throw INVALID_CONFIG msg)"

definition parse_workspace_root :: "json \<Rightarrow> nat \<Rightarrow> bridge_error + workspace_root" where
  "parse_workspace_root v index =
     (let name = ''roots['' @ nat_text index @ '']'' in
      case is_record v of
        None \<Rightarrow> throw INVALID_CONFIG (name @ '' must be an object'')
      | Some input \<Rightarrow>
          bind_res (config_string (oget input ''id'') (name @ ''.id'')) (\<lambda>raw_id. let i = trim raw_id in
          bind_res (ensure (safe_id i) (BridgeError INVALID_CONFIG
            (name @ ''.id must contain 1-64 letters, digits, dots, underscores, or hyphens'') None)) (\<lambda>_.
          bind_res (choice (oget input ''target'') ''remote'' ''local'' (name @ ''.target must be local or remote'')) (\<lambda>remote.
          bind_res (choice (oget input ''role'') ''primary'' ''secondary'' (name @ ''.role must be primary or secondary'')) (\<lambda>primary.
          bind_res (config_string (oget input ''displayName'') (name @ ''.displayName'')) (\<lambda>raw_name. let d = trim raw_name in
          bind_res (ensure (length d \<le> 128) (BridgeError INVALID_CONFIG
            (name @ ''.displayName must not exceed 128 characters'') None)) (\<lambda>_.
          bind_res (if remote then normalized_remote_root (oget input ''path'') (name @ ''.path'')
                    else normalized_local_root (oget input ''path'') (name @ ''.path'') (i = full_access_id \<and> \<not> primary)) (\<lambda>p.
          Inr \<lparr>wr_id = i, wr_remote = remote, wr_primary = primary, wr_path = p, wr_name = d\<rparr>))))))))"

text \<open>\<open>input.roots.map(parseWorkspaceRoot)\<close>, from the index \<open>i\<close> on.\<close>

fun parse_roots :: "nat \<Rightarrow> json list \<Rightarrow> bridge_error + workspace_root list" where
  "parse_roots i [] = Inr []"
| "parse_roots i (v # vs) =
     bind_res (parse_workspace_root v i) (\<lambda>r. bind_res (parse_roots (Suc i) vs) (\<lambda>rs. Inr (r # rs)))"

text \<open>The loop that refuses duplicates, with the sets of identifiers and of target and path.\<close>

fun unique_roots :: "string list \<Rightarrow> (bool \<times> string) list \<Rightarrow> workspace_root list \<Rightarrow> bridge_error + unit" where
  "unique_roots ids paths [] = Inr ()"
| "unique_roots ids paths (r # rs) =
     (if wr_id r \<in> set ids then throw INVALID_CONFIG (''Duplicate root id: '' @ wr_id r)
      else if (wr_remote r, wr_path r) \<in> set paths
      then throw INVALID_CONFIG (''Duplicate '' @ (if wr_remote r then ''remote'' else ''local'') @ '' root path: '' @ wr_path r)
      else unique_roots (wr_id r # ids) ((wr_remote r, wr_path r) # paths) rs)"

definition primary_path :: "workspace_root list \<Rightarrow> string option" where
  "primary_path rs =
     (case filter wr_primary rs of
        [r] \<Rightarrow> if wr_remote r then Some (wr_path r) else None
      | _ \<Rightarrow> None)"

definition parse_workspace_roots :: "jobj \<Rightarrow> bool \<Rightarrow> bridge_error + workspace_root list \<times> string" where
  "parse_workspace_roots input version2 =
     (if \<not> version2
      then bind_res (ensure (oget input ''roots'' = None)
             (BridgeError INVALID_CONFIG ''roots require bridge configuration version 2'' None)) (\<lambda>_.
           bind_res (normalized_remote_root (oget input ''workspaceRoot'') ''workspaceRoot'') (\<lambda>p.
           Inr ([default_primary_root p], p)))
      else
        (case as_array (oget input ''roots'') of
           None \<Rightarrow> throw INVALID_CONFIG ''roots must contain from 1 to 16 root records''
         | Some vs \<Rightarrow>
             if vs = [] \<or> length vs > 16
             then throw INVALID_CONFIG ''roots must contain from 1 to 16 root records''
             else
               bind_res (parse_roots 0 vs) (\<lambda>rs.
               bind_res (unique_roots [] [] rs) (\<lambda>_.
               (case primary_path rs of
                  None \<Rightarrow> throw INVALID_CONFIG ''roots must contain exactly one remote primary root''
                | Some p \<Rightarrow>
                    if oget input ''workspaceRoot'' = None then Inr (rs, p)
                    else bind_res (normalized_remote_root (oget input ''workspaceRoot'') ''workspaceRoot'') (\<lambda>q.
                         if q = p then Inr (rs, p)
                         else throw INVALID_CONFIG ''workspaceRoot must match the remote primary root path''))))))"

section \<open>The configuration\<close>

record bridge_config =
  bc_host :: string
  bc_roots :: "workspace_root list"
  bc_workspace_root :: string
  bc_vscode :: bool
  bc_user :: "string option"
  bc_port :: "int option"
  bc_identity :: "string option"
  bc_ssh :: string
  bc_mcp_local :: bool
  bc_mcp_all :: bool
  bc_command_timeout :: int
  bc_max_output :: int
  bc_max_reads :: int
  bc_connect_timeout :: int
  bc_transport :: "(string \<times> string \<times> string) option"

definition concrete_host :: "string \<Rightarrow> bool" where
  "concrete_host h \<longleftrightarrow>
     \<not> starts_with h ''-'' \<and>
     list_all (\<lambda>c. \<not> is_space c \<and> c \<notin> set ''*?![]'' \<and> c \<noteq> CHR ''/'' \<and> c \<noteq> BACKSLASH) h"

definition parse_host :: "jobj \<Rightarrow> bridge_error + string" where
  "parse_host input =
     bind_res (config_string (oget input ''host'') ''host'') (\<lambda>raw.
     bind_res (ensure (concrete_host (trim raw)) (BridgeError INVALID_CONFIG
       ''host must be a concrete OpenSSH host alias without whitespace or wildcards'' None)) (\<lambda>_.
     Inr (trim raw)))"

definition parse_version :: "jobj \<Rightarrow> bridge_error + bool" where
  "parse_version input =
     (let v = oget input ''version'' in
      if v = None \<or> v = Some (JInt 1) then Inr False
      else if v = Some (JInt 2) then Inr True
      else throw INVALID_CONFIG ''Unsupported bridge configuration version'')"

text \<open>An optional field that may only be absent or one of two strings.\<close>

definition one_of :: "jobj \<Rightarrow> string \<Rightarrow> string \<Rightarrow> string \<Rightarrow> string \<Rightarrow> bridge_error + unit" where
  "one_of input key a b msg =
     ensure (oget input key \<in> {None, Some (JStr a), Some (JStr b)}) (BridgeError INVALID_CONFIG msg None)"

definition blank_field :: "json option \<Rightarrow> bool" where
  "blank_field v \<longleftrightarrow> nullish v \<or> v = Some (JStr [])"

definition ssh_user_name :: "string \<Rightarrow> bool" where
  "ssh_user_name s \<longleftrightarrow>
     (case s of
        [] \<Rightarrow> False
      | c # cs \<Rightarrow> (is_alpha c \<or> c = CHR ''_'') \<and> list_all (\<lambda>x. is_alnum x \<or> x \<in> set ''._-'') cs)"

definition parse_user :: "jobj \<Rightarrow> bridge_error + string option" where
  "parse_user input =
     (if blank_field (oget input ''sshUser'') then Inr None
      else bind_res (config_string (oget input ''sshUser'') ''sshUser'') (\<lambda>u.
           if ssh_user_name u then Inr (Some u)
           else throw INVALID_CONFIG ''sshUser contains unsupported characters''))"

definition parse_port :: "jobj \<Rightarrow> bridge_error + int option" where
  "parse_port input =
     (if nullish (oget input ''sshPort'') then Inr None
      else bind_res (integer_in_range (oget input ''sshPort'') 22 1 65535 ''sshPort'') (\<lambda>n. Inr (Some n)))"

definition parse_identity :: "jobj \<Rightarrow> bridge_error + string option" where
  "parse_identity input =
     (if blank_field (oget input ''identityFile'') then Inr None
      else bind_res (config_string (oget input ''identityFile'') ''identityFile'') (\<lambda>p.
           if local_normal p then Inr (Some p)
           else throw INVALID_CONFIG ''identityFile must be a normalized absolute local path''))"

definition parse_transport :: "jobj \<Rightarrow> bool \<Rightarrow> bridge_error + (string \<times> string \<times> string) option" where
  "parse_transport input vscode =
     (case oget input ''vscodeTransport'' of
        None \<Rightarrow> Inr None
      | Some v \<Rightarrow>
          (case is_record v of
             None \<Rightarrow> throw INVALID_CONFIG ''vscodeTransport must be an object''
           | Some t \<Rightarrow>
               bind_res (config_string (oget t ''endpoint'') ''vscodeTransport.endpoint'') (\<lambda>e.
               bind_res (config_string (oget t ''sessionId'') ''vscodeTransport.sessionId'') (\<lambda>s.
               bind_res (config_string (oget t ''token'') ''vscodeTransport.token'') (\<lambda>k.
               if length k < 32
               then throw INVALID_CONFIG ''vscodeTransport.token must contain at least 32 characters''
               else if \<not> vscode
               then throw INVALID_CONFIG ''vscodeTransport is only valid with the vscode-remote connection mode''
               else Inr (Some (e, s, k)))))))"

definition parse_choices :: "jobj \<Rightarrow> bridge_error + unit" where
  "parse_choices input =
     bind_res (one_of input ''localExecution'' ''deny'' ''allow'' ''localExecution must be allow'') (\<lambda>_.
     bind_res (one_of input ''connectionMode'' ''openssh'' ''vscode-remote''
       ''connectionMode must be vscode-remote or openssh'') (\<lambda>_.
     bind_res (one_of input ''remoteHelper'' ''none'' ''vscode-extension''
       ''remoteHelper must be none or vscode-extension'') (\<lambda>_.
     bind_res (ensure (oget input ''maxParallelWrites'' \<in> {None, Some (JInt 1)})
       (BridgeError INVALID_CONFIG ''maxParallelWrites is fixed to 1'' None)) (\<lambda>_.
     bind_res (one_of input ''remoteMcpRouting'' ''auto'' ''local'' ''remoteMcpRouting must be auto or local'') (\<lambda>_.
     one_of input ''remoteMcpAccess'' ''enabled'' ''all'' ''remoteMcpAccess must be enabled or all'')))))"

definition parse_limits :: "jobj \<Rightarrow> bridge_error + int \<times> int \<times> int \<times> int" where
  "parse_limits input =
     bind_res (integer_in_range (oget input ''commandTimeoutMs'') 120000 1000 3600000 ''commandTimeoutMs'') (\<lambda>a.
     bind_res (integer_in_range (oget input ''maxOutputBytes'') (10 * 1024 * 1024) 1024 (100 * 1024 * 1024) ''maxOutputBytes'') (\<lambda>b.
     bind_res (integer_in_range (oget input ''maxParallelReads'') 8 1 64 ''maxParallelReads'') (\<lambda>c.
     bind_res (integer_in_range (oget input ''connectTimeoutSeconds'') 10 1 120 ''connectTimeoutSeconds'') (\<lambda>d.
     Inr (a, b, c, d)))))"

definition helper_of :: "bool \<Rightarrow> string" where
  "helper_of vscode = (if vscode then ''vscode-extension'' else ''none'')"

definition ssh_command :: "jobj \<Rightarrow> string" where
  "ssh_command input =
     (case sprop input ''sshExecutable'' of None \<Rightarrow> ''ssh'' | Some s \<Rightarrow> if trim s = [] then ''ssh'' else s)"

definition parse_bridge_config :: "json \<Rightarrow> bridge_error + bridge_config" where
  "parse_bridge_config v =
     (case is_record v of
        None \<Rightarrow> throw INVALID_CONFIG ''Bridge configuration must be an object''
      | Some input \<Rightarrow>
          bind_res (parse_host input) (\<lambda>host.
          bind_res (parse_version input) (\<lambda>version2.
          bind_res (parse_workspace_roots input version2) (\<lambda>(roots, root).
          bind_res (parse_choices input) (\<lambda>_.
          bind_res (parse_user input) (\<lambda>user.
          bind_res (parse_port input) (\<lambda>port.
          bind_res (parse_identity input) (\<lambda>identity.
          let vscode = (oget input ''connectionMode'' = Some (JStr ''vscode-remote'')) in
          bind_res (ensure (oget input ''remoteHelper'' \<in> {None, Some (JStr (helper_of vscode))})
            (BridgeError INVALID_CONFIG ''remoteHelper does not match the selected connectionMode'' None)) (\<lambda>_.
          bind_res (parse_transport input vscode) (\<lambda>transport.
          bind_res (parse_limits input) (\<lambda>(timeout, output, reads, connect).
          Inr \<lparr>bc_host = host, bc_roots = roots, bc_workspace_root = root, bc_vscode = vscode, bc_user = user,
               bc_port = port, bc_identity = identity, bc_ssh = ssh_command input,
               bc_mcp_local = (oget input ''remoteMcpRouting'' = Some (JStr ''local'')),
               bc_mcp_all = (oget input ''remoteMcpAccess'' = Some (JStr ''all'')),
               bc_command_timeout = timeout, bc_max_output = output, bc_max_reads = reads,
               bc_connect_timeout = connect, bc_transport = transport\<rparr>)))))))))))"

section \<open>What a parsed configuration guarantees\<close>

definition plain_text :: "string \<Rightarrow> bool" where
  "plain_text s \<longleftrightarrow> trim s \<noteq> [] \<and> NUL \<notin> set s"

definition remote_path_ok :: "string \<Rightarrow> bool" where
  "remote_path_ok p \<longleftrightarrow> plain_text p \<and> is_absolute p \<and> normalize p = p \<and> p \<noteq> ''/''"

definition workspace_root_ok :: "workspace_root \<Rightarrow> bool" where
  "workspace_root_ok r \<longleftrightarrow>
     safe_id (wr_id r) \<and> plain_text (wr_id r) \<and> trim (wr_id r) = wr_id r \<and>
     plain_text (wr_name r) \<and> trim (wr_name r) = wr_name r \<and> length (wr_name r) \<le> 128 \<and>
     (if wr_remote r then remote_path_ok (wr_path r)
      else plain_text (wr_path r) \<and> local_normal (wr_path r) \<and>
        (wr_id r = full_access_id \<and> \<not> wr_primary r \<or> \<not> local_root_path (wr_path r)))"

definition workspace_roots_ok :: "workspace_root list \<Rightarrow> string \<Rightarrow> bool" where
  "workspace_roots_ok rs p \<longleftrightarrow>
     rs \<noteq> [] \<and> length rs \<le> 16 \<and> list_all workspace_root_ok rs \<and> distinct (map wr_id rs) \<and>
     distinct (map (\<lambda>r. (wr_remote r, wr_path r)) rs) \<and> primary_path rs = Some p"

definition transport_ok :: "string \<times> string \<times> string \<Rightarrow> bool" where
  "transport_ok t \<longleftrightarrow> (case t of (e, s, k) \<Rightarrow> plain_text e \<and> plain_text s \<and> plain_text k \<and> length k \<ge> 32)"

text \<open>An alias that \<open>ssh\<close> cannot read as an option, a pattern or a path.\<close>

definition alias_ok :: "string \<Rightarrow> bool" where
  "alias_ok h \<longleftrightarrow>
     h \<noteq> [] \<and> hd h \<noteq> CHR ''-'' \<and> (\<forall>c\<in>set h. \<not> is_space c \<and> c \<notin> set ''*?![]/'' \<and> c \<noteq> BACKSLASH)"

definition settings_ok :: "bridge_config \<Rightarrow> bool" where
  "settings_ok c \<longleftrightarrow>
     plain_text (bc_host c) \<and> alias_ok (bc_host c) \<and>
     (\<forall>u. bc_user c = Some u \<longrightarrow> plain_text u \<and> ssh_user_name u) \<and>
     (\<forall>n. bc_port c = Some n \<longrightarrow> 1 \<le> n \<and> n \<le> 65535) \<and>
     (\<forall>p. bc_identity c = Some p \<longrightarrow> plain_text p \<and> local_normal p) \<and>
     trim (bc_ssh c) \<noteq> [] \<and>
     1000 \<le> bc_command_timeout c \<and> bc_command_timeout c \<le> 3600000 \<and>
     1024 \<le> bc_max_output c \<and> bc_max_output c \<le> 100 * 1024 * 1024 \<and>
     1 \<le> bc_max_reads c \<and> bc_max_reads c \<le> 64 \<and> 1 \<le> bc_connect_timeout c \<and> bc_connect_timeout c \<le> 120 \<and>
     (\<forall>t. bc_transport c = Some t \<longrightarrow> transport_ok t \<and> bc_vscode c)"

definition config_ok :: "bridge_config \<Rightarrow> bool" where
  "config_ok c \<longleftrightarrow> settings_ok c \<and> workspace_roots_ok (bc_roots c) (bc_workspace_root c)"

text \<open>What version 1 gives instead of checked roots: one root, named by the last segment of its path.\<close>

definition single_root :: "bridge_config \<Rightarrow> bool" where
  "single_root c \<longleftrightarrow> bc_roots c = [default_primary_root (bc_workspace_root c)] \<and> remote_path_ok (bc_workspace_root c)"

lemma set_trim: "set (trim s) \<subseteq> set s"
  by (auto simp: trim_def dest!: set_dropWhileD)

lemma trim_trim [simp]: "trim (trim s) = trim s"
proof -
  let ?a = "dropWhile is_space s"
  let ?t = "rev (dropWhile is_space (rev ?a))"
  have t: "trim s = ?t" by (simp add: trim_def)
  have "dropWhile is_space ?t = ?t"
  proof (cases "?t = []")
    case False
    have "hd ?t = hd ?a"
    proof -
      have "?a = ?t @ rev (takeWhile is_space (rev ?a))"
        by (metis rev_append rev_rev_ident takeWhile_dropWhile_id)
      then show ?thesis using False by (metis hd_append2)
    qed
    moreover have "?a \<noteq> []"
    proof
      assume "?a = []"
      then have "?t = []" by (simp only: rev.simps dropWhile.simps)
      with False show False ..
    qed
    ultimately have "\<not> is_space (hd ?t)" using hd_dropWhile by metis
    then show ?thesis using False by (cases ?t) auto
  next
    case True
    then show ?thesis by (simp only: dropWhile.simps)
  qed
  moreover have "dropWhile is_space (rev ?t) = rev ?t" by simp
  ultimately show ?thesis unfolding t trim_def by simp
qed

lemma config_string_Inr: "config_string v name = Inr s \<longleftrightarrow> v = Some (JStr s) \<and> plain_text s"
  by (auto simp: config_string_def plain_text_def split: option.split)

lemma plain_trim: "plain_text s \<Longrightarrow> plain_text (trim s)"
  unfolding plain_text_def trim_trim using set_trim [of s] by auto

lemma remote_root_Inr: "normalized_remote_root v name = Inr p \<longleftrightarrow> v = Some (JStr p) \<and> remote_path_ok p"
  by (auto simp: normalized_remote_root_def config_string_Inr remote_path_ok_def)

lemma local_root_Inr:
  "normalized_local_root v name b = Inr p \<longleftrightarrow>
   v = Some (JStr p) \<and> plain_text p \<and> local_normal p \<and> (b \<or> \<not> local_root_path p)"
  by (auto simp: normalized_local_root_def config_string_Inr)

lemma range_Inr: "integer_in_range v d lo hi name = Inr i \<longleftrightarrow>
    (if nullish v then i = d else v = Some (JInt i)) \<and> lo \<le> i \<and> i \<le> hi"
  by (auto simp: integer_in_range_def nullish_def split: option.splits if_splits)

lemma choice_Inr: "yes \<noteq> no \<Longrightarrow> choice v yes no msg = Inr b \<longleftrightarrow> v = Some (JStr (if b then yes else no))"
  by (auto simp: choice_def)

section \<open>Writing it back\<close>

definition json_of_root :: "workspace_root \<Rightarrow> json" where
  "json_of_root r =
     JObj [(''id'', JStr (wr_id r)), (''target'', JStr (if wr_remote r then ''remote'' else ''local'')),
       (''role'', JStr (if wr_primary r then ''primary'' else ''secondary'')), (''path'', JStr (wr_path r)),
       (''displayName'', JStr (wr_name r))]"

definition opt_field :: "string \<Rightarrow> json option \<Rightarrow> (string \<times> json) list" where
  "opt_field k v = (case v of None \<Rightarrow> [] | Some x \<Rightarrow> [(k, x)])"

definition config_object :: "bridge_config \<Rightarrow> jobj" where
  "config_object c =
     [(''version'', JInt 2), (''host'', JStr (bc_host c)), (''roots'', JArr (map json_of_root (bc_roots c))),
      (''workspaceRoot'', JStr (bc_workspace_root c)),
      (''connectionMode'', JStr (if bc_vscode c then ''vscode-remote'' else ''openssh'')),
      (''localExecution'', JStr ''allow''), (''remoteHelper'', JStr (helper_of (bc_vscode c)))] @
     opt_field ''sshUser'' (map_option JStr (bc_user c)) @
     opt_field ''sshPort'' (map_option JInt (bc_port c)) @
     opt_field ''identityFile'' (map_option JStr (bc_identity c)) @
     [(''sshExecutable'', JStr (bc_ssh c)),
      (''remoteMcpRouting'', JStr (if bc_mcp_local c then ''local'' else ''auto'')),
      (''remoteMcpAccess'', JStr (if bc_mcp_all c then ''all'' else ''enabled'')),
      (''commandTimeoutMs'', JInt (bc_command_timeout c)), (''maxOutputBytes'', JInt (bc_max_output c)),
      (''maxParallelReads'', JInt (bc_max_reads c)), (''maxParallelWrites'', JInt 1),
      (''connectTimeoutSeconds'', JInt (bc_connect_timeout c))] @
     opt_field ''vscodeTransport''
       (map_option (\<lambda>(e, s, k). JObj [(''endpoint'', JStr e), (''sessionId'', JStr s), (''token'', JStr k)]) (bc_transport c))"

lemma oget_append: "oget (a @ b) k = (case oget a k of None \<Rightarrow> oget b k | Some v \<Rightarrow> Some v)"
  unfolding oget_def jm_get_def by (simp add: map_add_def split: option.split)

lemma oget_opt: "oget (opt_field k v) k' = (if k' = k then v else None)"
  by (cases v) (auto simp: opt_field_def oget_def jm_get_def)

lemma oget_Cons': "oget ((k', v) # m) k = (if k = k' then Some v else oget m k)"
  by (simp add: oget_def jm_get_Cons)

lemma oget_Nil': "oget [] k = None"
  by (simp add: oget_def)

lemmas config_gets = config_object_def oget_append oget_opt oget_Cons' oget_Nil'

lemma config_fields:
  "oget (config_object c) ''version'' = Some (JInt 2)"
  "oget (config_object c) ''host'' = Some (JStr (bc_host c))"
  "oget (config_object c) ''roots'' = Some (JArr (map json_of_root (bc_roots c)))"
  "oget (config_object c) ''workspaceRoot'' = Some (JStr (bc_workspace_root c))"
  "oget (config_object c) ''connectionMode'' = Some (JStr (if bc_vscode c then ''vscode-remote'' else ''openssh''))"
  "oget (config_object c) ''localExecution'' = Some (JStr ''allow'')"
  "oget (config_object c) ''remoteHelper'' = Some (JStr (helper_of (bc_vscode c)))"
  "oget (config_object c) ''sshUser'' = map_option JStr (bc_user c)"
  "oget (config_object c) ''sshPort'' = map_option JInt (bc_port c)"
  "oget (config_object c) ''identityFile'' = map_option JStr (bc_identity c)"
  "oget (config_object c) ''sshExecutable'' = Some (JStr (bc_ssh c))"
  "oget (config_object c) ''remoteMcpRouting'' = Some (JStr (if bc_mcp_local c then ''local'' else ''auto''))"
  "oget (config_object c) ''remoteMcpAccess'' = Some (JStr (if bc_mcp_all c then ''all'' else ''enabled''))"
  "oget (config_object c) ''commandTimeoutMs'' = Some (JInt (bc_command_timeout c))"
  "oget (config_object c) ''maxOutputBytes'' = Some (JInt (bc_max_output c))"
  "oget (config_object c) ''maxParallelReads'' = Some (JInt (bc_max_reads c))"
  "oget (config_object c) ''maxParallelWrites'' = Some (JInt 1)"
  "oget (config_object c) ''connectTimeoutSeconds'' = Some (JInt (bc_connect_timeout c))"
  "oget (config_object c) ''vscodeTransport'' =
     map_option (\<lambda>(e, s, k). JObj [(''endpoint'', JStr e), (''sessionId'', JStr s), (''token'', JStr k)]) (bc_transport c)"
  by (simp_all add: config_gets split: option.split)


lemmas parse_Inr = config_string_Inr remote_root_Inr local_root_Inr range_Inr choice_Inr

lemma not_plain_Nil: "\<not> plain_text []"
  by (simp add: plain_text_def trim_def)

lemma parse_host_Inr: "parse_host input = Inr h \<Longrightarrow> plain_text h \<and> alias_ok h"
proof -
  assume "parse_host input = Inr h"
  then obtain raw where raw: "plain_text raw" "concrete_host (trim raw)" and h: "h = trim raw"
    by (auto simp: parse_host_def parse_Inr)
  from raw(1) have plain: "plain_text h" unfolding h by (rule plain_trim)
  then have "h \<noteq> []" by (auto simp: not_plain_Nil)
  with raw(2) have "alias_ok h"
    unfolding h [symmetric] by (cases h) (auto simp: concrete_host_def alias_ok_def list_all_iff starts_with_def)
  with plain show ?thesis ..
qed

lemma alias_trim: "alias_ok h \<Longrightarrow> trim h = h"
proof -
  assume h: "alias_ok h"
  then have "dropWhile is_space h = h" by (cases h) (auto simp: alias_ok_def)
  moreover from h have "dropWhile is_space (rev h) = rev h" by (cases "rev h") (auto simp: alias_ok_def)
  ultimately show ?thesis by (simp add: trim_def)
qed

lemma alias_concrete: "alias_ok h \<Longrightarrow> concrete_host h"
  by (cases h) (auto simp: alias_ok_def concrete_host_def list_all_iff starts_with_def)

lemma parse_root_ok: "parse_workspace_root v i = Inr r \<Longrightarrow> workspace_root_ok r"
  unfolding parse_workspace_root_def Let_def
  by (auto simp: parse_Inr plain_trim workspace_root_ok_def split: option.splits if_splits)
    (metis plain_trim trim_trim)+

lemma parse_roots_ok: "parse_roots i vs = Inr rs \<Longrightarrow> list_all workspace_root_ok rs \<and> length rs = length vs"
  by (induction vs arbitrary: i rs) (fastforce dest: parse_root_ok)+

lemma unique_roots_Inr:
  "unique_roots ids ps rs = Inr u \<longleftrightarrow>
   distinct (map wr_id rs) \<and> set ids \<inter> set (map wr_id rs) = {} \<and>
   distinct (map (\<lambda>r. (wr_remote r, wr_path r)) rs) \<and> set ps \<inter> set (map (\<lambda>r. (wr_remote r, wr_path r)) rs) = {}"
  by (induction ids ps rs rule: unique_roots.induct) auto



lemma pair_Inr: "bind_res r (\<lambda>(a, b). f a b) = Inr z \<longleftrightarrow> (\<exists>a b. r = Inr (a, b) \<and> f a b = Inr z)"
  by (cases r) auto

lemma parse_workspace_roots_v1:
  "parse_workspace_roots input False = Inr (rs, p) \<longleftrightarrow>
   oget input ''roots'' = None \<and> oget input ''workspaceRoot'' = Some (JStr p) \<and> remote_path_ok p \<and>
   rs = [default_primary_root p]"
  by (auto simp: parse_workspace_roots_def remote_root_Inr)

lemma parse_workspace_roots_v2:
  "parse_workspace_roots input True = Inr (rs, p) \<longleftrightarrow>
   (\<exists>vs. oget input ''roots'' = Some (JArr vs) \<and> vs \<noteq> [] \<and> length vs \<le> 16 \<and> parse_roots 0 vs = Inr rs \<and>
     unique_roots [] [] rs = Inr () \<and> primary_path rs = Some p \<and>
     (oget input ''workspaceRoot'' = None \<or> oget input ''workspaceRoot'' = Some (JStr p) \<and> remote_path_ok p))"
  unfolding parse_workspace_roots_def
  by (cases "oget input ''roots''" rule: as_array.cases)
    (auto simp: remote_root_Inr split: option.splits if_splits)

lemma parse_workspace_roots_ok:
  "parse_workspace_roots input True = Inr (rs, p) \<Longrightarrow> workspace_roots_ok rs p"
  by (auto simp: parse_workspace_roots_v2 workspace_roots_ok_def unique_roots_Inr dest!: parse_roots_ok)

lemma primary_path_ok:
  assumes "primary_path rs = Some p" "list_all workspace_root_ok rs"
  shows "remote_path_ok p"
proof -
  from assms(1) obtain r where r: "filter wr_primary rs = [r]" "wr_remote r" "p = wr_path r"
    by (auto simp: primary_path_def split: list.splits if_splits)
  then have "r \<in> set (filter wr_primary rs)" by simp
  then have "r \<in> set rs" by simp
  with assms(2) r show ?thesis by (simp add: list_all_iff workspace_root_ok_def)
qed

lemma parse_root_Inr:
  assumes "oget input ''id'' = Some (JStr i)" "plain_text i" "safe_id (trim i)"
    "oget input ''target'' = Some (JStr (if remote then ''remote'' else ''local''))"
    "oget input ''role'' = Some (JStr (if primary then ''primary'' else ''secondary''))"
    "oget input ''displayName'' = Some (JStr d)" "plain_text d" "length (trim d) \<le> 128"
    "oget input ''path'' = Some (JStr p)"
    "if remote then remote_path_ok p
     else plain_text p \<and> local_normal p \<and> (trim i = full_access_id \<and> \<not> primary \<or> \<not> local_root_path p)"
  shows "parse_workspace_root (JObj input) n =
    Inr \<lparr>wr_id = trim i, wr_remote = remote, wr_primary = primary, wr_path = p, wr_name = trim d\<rparr>"
proof -
  have "choice (oget input ''target'') ''remote'' ''local'' m = Inr remote"
    "choice (oget input ''role'') ''primary'' ''secondary'' m = Inr primary" for m
    using assms(4,5) by (simp_all add: choice_Inr)
  moreover have "config_string (oget input ''id'') m = Inr i" "config_string (oget input ''displayName'') m = Inr d" for m
    using assms by (simp_all add: parse_Inr)
  moreover have "(if remote then normalized_remote_root (oget input ''path'') m
      else normalized_local_root (oget input ''path'') m (trim i = full_access_id \<and> \<not> primary)) = Inr p" for m
    using assms(9,10) by (simp add: parse_Inr split: if_splits)
  ultimately show ?thesis
    using assms(3,8) unfolding parse_workspace_root_def Let_def is_record.simps option.case
    by (simp only: bind_res.simps ensure_def if_True)
qed

lemma parse_written_root:
  assumes "workspace_root_ok r"
  shows "parse_workspace_root (json_of_root r) n = Inr r"
proof -
  have "parse_workspace_root (json_of_root r) n =
      Inr \<lparr>wr_id = trim (wr_id r), wr_remote = wr_remote r, wr_primary = wr_primary r, wr_path = wr_path r,
           wr_name = trim (wr_name r)\<rparr>"
    unfolding json_of_root_def using assms
    by (intro parse_root_Inr) (simp_all add: workspace_root_ok_def oget_Cons')
  with assms show ?thesis by (simp add: workspace_root_ok_def)
qed

lemma parse_written_roots:
  "list_all workspace_root_ok rs \<Longrightarrow> parse_roots i (map json_of_root rs) = Inr rs"
  by (induction rs arbitrary: i) (simp_all add: parse_written_root)


definition vscode_mode :: "jobj \<Rightarrow> bool" where
  "vscode_mode input \<longleftrightarrow> oget input ''connectionMode'' = Some (JStr ''vscode-remote'')"

lemma parse_bridge_config_Inr:
  "parse_bridge_config v = Inr c \<longleftrightarrow>
   (\<exists>input host v2 roots root user port identity transport a b r d u.
     v = JObj input \<and> parse_host input = Inr host \<and> parse_version input = Inr v2 \<and>
     parse_workspace_roots input v2 = Inr (roots, root) \<and> parse_choices input = Inr u \<and>
     parse_user input = Inr user \<and> parse_port input = Inr port \<and> parse_identity input = Inr identity \<and>
     oget input ''remoteHelper'' \<in> {None, Some (JStr (helper_of (vscode_mode input)))} \<and>
     parse_transport input (vscode_mode input) = Inr transport \<and> parse_limits input = Inr (a, b, r, d) \<and>
     c = \<lparr>bc_host = host, bc_roots = roots, bc_workspace_root = root, bc_vscode = vscode_mode input, bc_user = user,
       bc_port = port, bc_identity = identity, bc_ssh = ssh_command input,
       bc_mcp_local = (oget input ''remoteMcpRouting'' = Some (JStr ''local'')),
       bc_mcp_all = (oget input ''remoteMcpAccess'' = Some (JStr ''all'')),
       bc_command_timeout = a, bc_max_output = b, bc_max_reads = r, bc_connect_timeout = d, bc_transport = transport\<rparr>)"
  (is "?L \<longleftrightarrow> ?R")
proof
  assume ?L
  then show ?R
    unfolding parse_bridge_config_def Let_def vscode_mode_def [symmetric]
    by (simp add: pair_Inr split: option.splits) metis
next
  assume ?R
  then show ?L
    unfolding parse_bridge_config_def Let_def vscode_mode_def [symmetric] by (elim exE conjE) simp
qed

lemma parse_user_Inr: "parse_user input = Inr u \<Longrightarrow> u = Some x \<Longrightarrow> plain_text x \<and> ssh_user_name x"
  by (auto simp: parse_user_def parse_Inr split: if_splits)

lemma parse_port_Inr: "parse_port input = Inr u \<Longrightarrow> u = Some n \<Longrightarrow> 1 \<le> n \<and> n \<le> 65535"
  by (auto simp: parse_port_def parse_Inr split: if_splits)

lemma parse_identity_Inr: "parse_identity input = Inr u \<Longrightarrow> u = Some p \<Longrightarrow> plain_text p \<and> local_normal p"
  by (auto simp: parse_identity_def parse_Inr split: if_splits)

lemma parse_transport_Inr: "parse_transport input b = Inr u \<Longrightarrow> u = Some t \<Longrightarrow> transport_ok t \<and> b"
  by (auto simp: parse_transport_def transport_ok_def parse_Inr split: option.splits if_splits)

lemma parse_limits_Inr:
  "parse_limits input = Inr (a, b, r, d) \<Longrightarrow>
   1000 \<le> a \<and> a \<le> 3600000 \<and> 1024 \<le> b \<and> b \<le> 100 * 1024 * 1024 \<and> 1 \<le> r \<and> r \<le> 64 \<and> 1 \<le> d \<and> d \<le> 120"
  by (auto simp: parse_limits_def parse_Inr)

lemma ssh_command_nonblank: "trim (ssh_command input) \<noteq> []"
  by (auto simp: ssh_command_def trim_def is_space_def split: option.split)

lemma parse_version_Inr: "parse_version input = Inr b \<Longrightarrow> b = (oget input ''version'' = Some (JInt 2))"
  by (auto simp: parse_version_def Let_def split: if_splits)


lemma parsed_settings_ok:
  assumes "parse_bridge_config v = Inr c"
  shows "settings_ok c"
proof -
  from assms obtain input u where "parse_host input = Inr (bc_host c)" "parse_user input = Inr (bc_user c)"
    "parse_port input = Inr (bc_port c)" "parse_identity input = Inr (bc_identity c)"
    "parse_transport input (bc_vscode c) = Inr (bc_transport c)"
    "parse_limits input = Inr (bc_command_timeout c, bc_max_output c, bc_max_reads c, bc_connect_timeout c)"
    "bc_ssh c = ssh_command input"
    unfolding parse_bridge_config_Inr by (elim exE conjE) simp
  then show ?thesis
    unfolding settings_ok_def
    by (auto dest: parse_host_Inr parse_user_Inr parse_port_Inr parse_identity_Inr parse_transport_Inr parse_limits_Inr
        simp: ssh_command_nonblank)
qed

lemma parsed_roots_ok:
  assumes "parse_bridge_config v = Inr c"
  shows "config_ok c \<or> single_root c"
proof -
  from assms obtain input v2 where "parse_workspace_roots input v2 = Inr (bc_roots c, bc_workspace_root c)"
    unfolding parse_bridge_config_Inr by (elim exE conjE) simp
  then show ?thesis using parsed_settings_ok [OF assms]
    by (cases v2) (auto simp: parse_workspace_roots_v1 config_ok_def single_root_def dest: parse_workspace_roots_ok)
qed

lemma parse_written:
  assumes ok: "config_ok c"
  shows "parse_bridge_config (JObj (config_object c)) = Inr c"
proof -
  let ?i = "config_object c"
  have s: "settings_ok c" and r: "workspace_roots_ok (bc_roots c) (bc_workspace_root c)"
    using ok by (simp_all add: config_ok_def)
  have vs: "vscode_mode ?i = bc_vscode c" by (simp add: vscode_mode_def config_fields)
  have roots: "parse_workspace_roots ?i True = Inr (bc_roots c, bc_workspace_root c)"
    using r primary_path_ok [of "bc_roots c" "bc_workspace_root c"]
    by (simp add: parse_workspace_roots_v2 config_fields workspace_roots_ok_def parse_written_roots unique_roots_Inr)
  have host: "parse_host ?i = Inr (bc_host c)"
    using s by (simp add: parse_host_def config_fields settings_ok_def parse_Inr alias_trim alias_concrete)
  have version: "parse_version ?i = Inr True" by (simp add: parse_version_def config_fields)
  have choices: "parse_choices ?i = Inr ()"
    by (simp add: parse_choices_def one_of_def config_fields helper_of_def)
  have user: "parse_user ?i = Inr (bc_user c)"
    using s by (cases "bc_user c")
      (auto simp: parse_user_def config_fields settings_ok_def blank_field_def nullish_def parse_Inr not_plain_Nil)
  have port: "parse_port ?i = Inr (bc_port c)"
    using s by (cases "bc_port c") (auto simp: parse_port_def config_fields settings_ok_def nullish_def parse_Inr)
  have identity: "parse_identity ?i = Inr (bc_identity c)"
    using s by (cases "bc_identity c")
      (auto simp: parse_identity_def config_fields settings_ok_def blank_field_def nullish_def parse_Inr not_plain_Nil)
  have transport: "parse_transport ?i (bc_vscode c) = Inr (bc_transport c)"
    using s by (cases "bc_transport c")
      (auto simp: parse_transport_def config_fields settings_ok_def transport_ok_def parse_Inr oget_Cons')
  have limits: "parse_limits ?i = Inr (bc_command_timeout c, bc_max_output c, bc_max_reads c, bc_connect_timeout c)"
    using s by (simp add: parse_limits_def config_fields settings_ok_def nullish_def parse_Inr)
  have ssh: "ssh_command ?i = bc_ssh c"
    using s by (simp add: ssh_command_def config_fields settings_ok_def)
  show ?thesis
    unfolding parse_bridge_config_Inr
    by (intro exI conjI, rule refl, rule host, rule version, rule roots, rule choices, rule user, rule port,
        rule identity, simp add: config_fields vs, simp only: vs, rule transport, rule limits)
      (simp add: vs ssh config_fields)
qed


definition root_named :: "workspace_root \<Rightarrow> bool" where
  "root_named r \<longleftrightarrow> plain_text (wr_name r) \<and> trim (wr_name r) = wr_name r \<and> length (wr_name r) \<le> 128"

lemma written_parsed_ok:
  assumes "parse_bridge_config (JObj (config_object c)) = Inr d"
  shows "config_ok d"
proof -
  from assms obtain v2 where "parse_version (config_object c) = Inr v2"
    "parse_workspace_roots (config_object c) v2 = Inr (bc_roots d, bc_workspace_root d)"
    unfolding parse_bridge_config_Inr by (elim exE conjE) simp
  then show ?thesis using parsed_settings_ok [OF assms] parse_version_Inr
    by (force simp: config_ok_def config_fields intro: parse_workspace_roots_ok)
qed

text \<open>C16. What \<open>parseBridgeConfig\<close> returns is valid whatever it was given: the host is a non-empty alias
  without blanks, wildcards, slashes or a leading dash; user, port, identity file, limits and
  transport token are within their stated ranges, the token only with the VS Code connection mode; and
  the roots are one to sixteen valid records with distinct identifiers and distinct paths, exactly one
  of them primary, remote and at \<open>workspaceRoot\<close>, or, for version 1, that single root.
\<close>

theorem config_valid:
  assumes "parse_bridge_config v = Inr c"
  shows "settings_ok c \<and> (workspace_roots_ok (bc_roots c) (bc_workspace_root c) \<or> single_root c)"
  using parsed_settings_ok [OF assms] parsed_roots_ok [OF assms] by (auto simp: config_ok_def)

definition demo_config :: json where
  "demo_config = JObj
     [(''version'', JInt 2), (''host'', JStr '' build-1 ''),
      (''roots'', JArr
        [JObj [(''id'', JStr ''remote-primary''), (''target'', JStr ''remote''), (''role'', JStr ''primary''),
           (''path'', JStr ''/srv/app''), (''displayName'', JStr ''app'')],
         JObj [(''id'', JStr ''notes''), (''target'', JStr ''local''), (''role'', JStr ''secondary''),
           (''path'', JStr (''C:'' @ [BACKSLASH] @ ''notes'')), (''displayName'', JStr ''Notes'')]]),
      (''sshPort'', JInt 22), (''identityFile'', JNull), (''maxParallelReads'', JInt 64)]"

definition demo_parsed :: bridge_config where
  "demo_parsed =
     \<lparr>bc_host = ''build-1'',
      bc_roots =
        [\<lparr>wr_id = ''remote-primary'', wr_remote = True, wr_primary = True, wr_path = ''/srv/app'', wr_name = ''app''\<rparr>,
         \<lparr>wr_id = ''notes'', wr_remote = False, wr_primary = False, wr_path = ''C:'' @ [BACKSLASH] @ ''notes'',
          wr_name = ''Notes''\<rparr>],
      bc_workspace_root = ''/srv/app'', bc_vscode = False, bc_user = None, bc_port = Some 22, bc_identity = None,
      bc_ssh = ''ssh'', bc_mcp_local = False, bc_mcp_all = False, bc_command_timeout = 120000,
      bc_max_output = 10 * 1024 * 1024, bc_max_reads = 64, bc_connect_timeout = 10, bc_transport = None\<rparr>"

lemma demo_config_parsed: "parse_bridge_config demo_config = Inr demo_parsed"
  by code_simp

theorem config_valid_witness:
  "settings_ok demo_parsed \<and>
   (workspace_roots_ok (bc_roots demo_parsed) (bc_workspace_root demo_parsed) \<or> single_root demo_parsed)"
  by (rule config_valid [OF demo_config_parsed])

text \<open>C15. A configuration that \<open>parseBridgeConfig\<close> returned and that is given to it again, as the extension
  does when it adds roots or a transport, is returned unchanged, exactly when every root's display name
  is one the parser accepts. Only a version 1 configuration can fail this: its root is named by
  the last segment of its path, which is not checked, so a folder whose name has more than 128 characters
  is accepted once and refused the next time.
\<close>

theorem config_reparse:
  assumes "parse_bridge_config v = Inr c"
  shows "parse_bridge_config (JObj (config_object c)) = Inr c \<longleftrightarrow> list_all root_named (bc_roots c)"
proof
  assume "parse_bridge_config (JObj (config_object c)) = Inr c"
  then have "config_ok c" by (rule written_parsed_ok)
  then show "list_all root_named (bc_roots c)"
    by (auto simp: config_ok_def workspace_roots_ok_def list_all_iff workspace_root_ok_def root_named_def)
next
  assume named: "list_all root_named (bc_roots c)"
  have "workspace_roots_ok (bc_roots c) (bc_workspace_root c)" if "single_root c"
    using that named
    by (simp add: single_root_def workspace_roots_ok_def workspace_root_ok_def root_named_def default_primary_root_def
        remote_primary_root_def primary_path_def) code_simp
  then have "config_ok c" using parsed_roots_ok [OF assms] parsed_settings_ok [OF assms] by (auto simp: config_ok_def)
  then show "parse_bridge_config (JObj (config_object c)) = Inr c" by (rule parse_written)
qed

theorem config_reparse_witness:
  "parse_bridge_config (JObj (config_object demo_parsed)) = Inr demo_parsed"
  unfolding config_reparse [OF demo_config_parsed] by code_simp

end
