(* ===== verification/ToolRouter.thy ===== *)
theory ToolRouter
  imports RemoteCommand Config Dispatcher
begin

text \<open>
  \<^verbatim>\<open>src/shim/dynamic-tools.ts\<close> and \<^verbatim>\<open>src/shim/controller-workspace-executor.ts\<close>: a dynamic tool
  call of the agent becomes calls of an executor or requests to the window. What those answer is a
  parameter, as is the point at which the call is aborted; a call in progress is described by what
  it has sent so far. Two calls that the code issues together are answered in the order
  in which it issues them.
\<close>

section \<open>Tool names\<close>

definition legacy_aliases :: "(string \<times> string) list" where
  "legacy_aliases =
     [(''remote_read_file'', ''workspace_read_file''), (''remote_list_directory'', ''workspace_list_directory''),
      (''remote_list_tree'', ''workspace_list_tree''), (''remote_search'', ''workspace_search''),
      (''remote_git_status'', ''workspace_git_status'')]"

definition workspace_tools :: "string list" where
  "workspace_tools =
     [''workspace_apply_patch'', ''workspace_create_directory'', ''workspace_delete_path'', ''workspace_open_file'',
      ''workspace_read_file'', ''workspace_list_directory'', ''workspace_list_tree'', ''workspace_rename_path'',
      ''workspace_search'', ''workspace_show_diff'', ''workspace_git_status'', ''workspace_write_file'']"

definition mutation_tools :: "string list" where
  "mutation_tools =
     [''workspace_apply_patch'', ''workspace_create_directory'', ''workspace_delete_path'', ''workspace_rename_path'',
      ''workspace_write_file'']"

definition resource_tools :: "string list" where
  "resource_tools = [''workspace_open_file'', ''workspace_show_diff'']"

definition background_tools :: "string list" where
  "background_tools =
     [''remote_background_start'', ''remote_background_status'', ''remote_background_log'', ''remote_background_cancel'']"

definition remote_tools :: "string list" where
  "remote_tools = workspace_tools @ map fst legacy_aliases @ background_tools @ [''remote_exec'']"

definition is_legacy :: "string \<Rightarrow> bool" where
  "is_legacy tool \<longleftrightarrow> tool \<in> set (map fst legacy_aliases)"

definition normalize_tool :: "string \<Rightarrow> string" where
  "normalize_tool tool = (case map_of legacy_aliases tool of None \<Rightarrow> tool | Some t \<Rightarrow> t)"

section \<open>What a call sends\<close>

text \<open>\<open>WorkspaceMutationOptions\<close>; the signal is only there or not.\<close>

record change_options =
  co_hash :: "string option"
  co_key :: "string option"
  co_signal :: bool

datatype workspace_call =
    CanonicalPath string
  | ReadFile string "int option"
  | ListDirectory string
  | ListTree string int int
  | Search string "string list" int
  | GitStatus
  | WriteFile string string change_options
  | ApplyPatch string "json list" change_options
  | CreateDirectory string change_options
  | RenamePath string string change_options
  | DeletePath string change_options

text \<open>The executor the router was built with, or the one it makes for the home directory.\<close>

datatype seat = PrimarySeat | HomeSeat string

datatype outbound =
    Workspace seat workspace_call
  | Execute seat exec_args "string option"
  | StartTask string exec_args "string option"
  | TaskStatus string
  | TaskLog string int int
  | CancelTask string
  | ToController string string jobj

record peer =
  pe_answer :: "outbound list \<Rightarrow> outbound \<Rightarrow> thrown + json"
  pe_aborted :: "outbound list \<Rightarrow> bool"

type_synonym 'a talk = "outbound list \<Rightarrow> (thrown + 'a) \<times> outbound list"

definition give :: "'a \<Rightarrow> 'a talk" where
  "give x sent = (Inr x, sent)"

definition fail_with :: "thrown \<Rightarrow> 'a talk" where
  "fail_with e sent = (Inl e, sent)"

definition after :: "'a talk \<Rightarrow> ('a \<Rightarrow> 'b talk) \<Rightarrow> 'b talk" where
  "after m f sent = (case m sent of (Inl e, sent') \<Rightarrow> (Inl e, sent') | (Inr x, sent') \<Rightarrow> f x sent')"

definition checked :: "bridge_error + 'a \<Rightarrow> 'a talk" where
  "checked r = (case r of Inl e \<Rightarrow> fail_with (ThrownBridge e) | Inr x \<Rightarrow> give x)"

definition send :: "peer \<Rightarrow> outbound \<Rightarrow> json talk" where
  "send pe c sent = (pe_answer pe sent c, sent @ [c])"

text \<open>\<open>Promise.all\<close> of two calls: both are sent, the first refusal wins.\<close>

definition both :: "'a talk \<Rightarrow> 'b talk \<Rightarrow> ('a \<times> 'b) talk" where
  "both m n sent =
     (case m sent of (r, sent1) \<Rightarrow>
      case n sent1 of (q, sent2) \<Rightarrow>
        (case (r, q) of (Inl e, _) \<Rightarrow> (Inl e, sent2) | (Inr _, Inl e) \<Rightarrow> (Inl e, sent2) | (Inr x, Inr y) \<Rightarrow> (Inr (x, y), sent2)))"

section \<open>The executor of the window\<close>

text \<open>\<open>ControllerWorkspaceExecutor\<close>: the operation and the parameters of each call. On the wire an
  \<open>AbortSignal\<close> is an empty object.\<close>

definition option_fields :: "change_options \<Rightarrow> jobj" where
  "option_fields co =
     opt_field ''expectedHash'' (map_option JStr (co_hash co)) @
     opt_field ''idempotencyKey'' (map_option JStr (co_key co)) @
     opt_field ''signal'' (if co_signal co then Some (JObj []) else None)"

fun controller_call :: "workspace_call \<Rightarrow> controller_operation \<times> jobj" where
  "controller_call (CanonicalPath p) = (LocalCanonicalPath, [(''path'', JStr p)])"
| "controller_call (ReadFile p n) =
     (LocalReadFile, [(''path'', JStr p)] @ opt_field ''limitBytes'' (map_option JInt n))"
| "controller_call (ListDirectory p) = (LocalListDirectory, [(''path'', JStr p)])"
| "controller_call (ListTree p d n) =
     (LocalListTree, [(''depth'', JInt d), (''maxEntries'', JInt n), (''path'', JStr p)])"
| "controller_call (Search q ps n) =
     (LocalSearch, [(''maxResults'', JInt n), (''paths'', JArr (map JStr ps)), (''query'', JStr q)])"
| "controller_call GitStatus = (LocalGitStatus, [])"
| "controller_call (WriteFile p c co) =
     (LocalWriteFile, [(''path'', JStr p), (''contentBase64'', JStr c)] @ option_fields co)"
| "controller_call (ApplyPatch p rs co) =
     (LocalApplyPatch, [(''path'', JStr p), (''replacements'', JArr rs)] @ option_fields co)"
| "controller_call (CreateDirectory p co) = (LocalCreateDirectory, [(''path'', JStr p)] @ option_fields co)"
| "controller_call (RenamePath p d co) =
     (LocalRenamePath, [(''path'', JStr p), (''destinationPath'', JStr d)] @ option_fields co)"
| "controller_call (DeletePath p co) = (LocalDeletePath, [(''path'', JStr p)] @ option_fields co)"

definition controller_params :: "string \<Rightarrow> workspace_call \<Rightarrow> jobj" where
  "controller_params tid c = jm_set (snd (controller_call c)) ''threadId'' (JStr tid)"

datatype workspace_executor =
    RemoteExecutor seat
  | ControllerExecutor string string

fun call_workspace :: "peer \<Rightarrow> workspace_executor \<Rightarrow> workspace_call \<Rightarrow> json talk" where
  "call_workspace pe (RemoteExecutor s) c = send pe (Workspace s c)"
| "call_workspace pe (ControllerExecutor rid tid) c =
     send pe (ToController (operation_name (fst (controller_call c))) rid (controller_params tid c))"

section \<open>Roots\<close>

record router =
  ro_config :: bridge_config
  ro_controller :: bool

record observer =
  ob_resources :: "scope list"
  ob_key :: "string option"
  ob_thread :: "string option"
  ob_signal :: bool
  ob_operation :: "string option"
  ob_fresh :: string

definition scope_of_root :: "workspace_root \<Rightarrow> scope" where
  "scope_of_root r =
     \<lparr>sc_id = wr_id r, sc_local = (\<not> wr_remote r), sc_role = (if wr_primary r then PrimaryRole else SecondaryRole),
      sc_directory = True, sc_path = wr_path r, sc_thread = []\<rparr>"

definition config_scopes :: "router \<Rightarrow> scope list" where
  "config_scopes ro = map scope_of_root (bc_roots (ro_config ro))"

definition find_scope :: "bool \<Rightarrow> string \<Rightarrow> scope list \<Rightarrow> scope option" where
  "find_scope loc rid scs = List.find (\<lambda>r. sc_id r = rid \<and> sc_local r = loc) scs"

definition requested_root :: "router \<Rightarrow> scope list \<Rightarrow> jobj \<Rightarrow> bridge_error + scope" where
  "requested_root ro resources args =
     (let target = (if nullish (oget args ''target'') then Some (JStr ''remote'') else oget args ''target'');
          default = List.find (\<lambda>r. \<not> sc_local r \<and> sc_role r = PrimaryRole) (config_scopes ro) in
      if target \<noteq> Some (JStr ''local'') \<and> target \<noteq> Some (JStr ''remote'')
      then throw PROTOCOL_MISMATCH ''target must be local or remote''
      else if target = Some (JStr ''local'') \<and> oget args ''rootId'' = None
      then throw PROTOCOL_MISMATCH ''rootId is required when target is local''
      else
        (case as_string (if nullish (oget args ''rootId'') then map_option (\<lambda>r. JStr (sc_id r)) default
                         else oget args ''rootId'') of
           None \<Rightarrow> throw PROTOCOL_MISMATCH ''rootId must be a non-empty string''
         | Some rid \<Rightarrow>
             if rid = [] then throw PROTOCOL_MISMATCH ''rootId must be a non-empty string''
             else
               let loc = (target = Some (JStr ''local''));
                   root = (case find_scope loc rid (config_scopes ro) of
                             Some r \<Rightarrow> Some r
                           | None \<Rightarrow> if loc then find_scope True rid resources else None) in
               (case root of
                  None \<Rightarrow> throw_with COMMAND_DENIED ''The requested workspace root is not configured''
                    [(''rootId'', JStr rid), (''target'', JStr (if loc then ''local'' else ''remote''))]
                | Some r \<Rightarrow> Inr r)))"

definition is_remote_primary :: "router \<Rightarrow> scope \<Rightarrow> bool" where
  "is_remote_primary ro r \<longleftrightarrow>
     \<not> sc_local r \<and> sc_role r = PrimaryRole \<and> sc_path r = bc_workspace_root (ro_config ro)"

definition target_text :: "scope \<Rightarrow> string" where
  "target_text r = (if sc_local r then ''local'' else ''remote'')"

definition assert_primary :: "router \<Rightarrow> scope \<Rightarrow> bridge_error + unit" where
  "assert_primary ro r =
     ensure (is_remote_primary ro r)
       (BridgeError COMMAND_DENIED ''Remote tools can access only the configured remote primary root''
         (Some [(''rootId'', JStr (sc_id r)), (''target'', JStr (target_text r))]))"

text \<open>The executor of the home directory is made from the configuration with that one root; it
  is kept, and made again it would be the same.\<close>

definition home_seat :: "router \<Rightarrow> string \<Rightarrow> bridge_error + seat" where
  "home_seat ro path =
     bind_res (parse_bridge_config (JObj (config_object ((ro_config ro)
       \<lparr>bc_roots := [default_primary_root path], bc_workspace_root := path\<rparr>)))) (\<lambda>c.
     bind_res (ensure (bc_vscode c \<and> bc_transport c \<noteq> None) (BridgeError INVALID_CONFIG
       ''VS Code remote execution requires a window-scoped transport descriptor'' None)) (\<lambda>_.
     Inr (HomeSeat path)))"

definition remote_executor :: "router \<Rightarrow> scope \<Rightarrow> bridge_error + seat" where
  "remote_executor ro r =
     (if is_remote_primary ro r then Inr PrimarySeat
      else if sc_id r \<noteq> home_access_id \<or> sc_local r \<or> sc_role r \<noteq> SecondaryRole \<or> \<not> bc_vscode (ro_config ro)
      then throw COMMAND_DENIED ''The remote workspace root is not authorized''
      else home_seat ro (sc_path r))"

definition executor_of :: "router \<Rightarrow> scope \<Rightarrow> string option \<Rightarrow> bridge_error + workspace_executor" where
  "executor_of ro r tid =
     (if \<not> sc_local r then bind_res (remote_executor ro r) (\<lambda>s. Inr (RemoteExecutor s))
      else if sc_role r \<noteq> SecondaryRole \<and> sc_role r \<noteq> ConversationRole
      then throw_with COMMAND_DENIED ''Local workspace tools require an authorized local root or conversation resource''
        [(''rootId'', JStr (sc_id r))]
      else if \<not> ro_controller ro
      then throw_with COMMAND_DENIED ''Local workspace access requires the active VS Code Remote transport''
        [(''rootId'', JStr (sc_id r))]
      else (case tid of
          Some (c # cs) \<Rightarrow> Inr (ControllerExecutor (sc_id r) (c # cs))
        | _ \<Rightarrow> throw_with PROTOCOL_MISMATCH ''Local workspace access requires an active conversation thread ID''
            [(''rootId'', JStr (sc_id r))]))"

section \<open>Running a tool\<close>

definition mismatch :: "string \<Rightarrow> bridge_error + 'a" where
  "mismatch msg = throw PROTOCOL_MISMATCH msg"

definition text_arg :: "jobj \<Rightarrow> string \<Rightarrow> bridge_error + string" where
  "text_arg args k = (case sprop args k of None \<Rightarrow> mismatch (k @ '' must be a string'') | Some s \<Rightarrow> Inr s)"

definition int_arg :: "jobj \<Rightarrow> string \<Rightarrow> int \<Rightarrow> int \<Rightarrow> int \<Rightarrow> int" where
  "int_arg args k lo hi fallback =
     (case as_integer (oget args k) of None \<Rightarrow> fallback | Some n \<Rightarrow> max lo (min n hi))"

definition max_log_page :: int where
  "max_log_page = 256 * 1024"

definition required_task_id :: "jobj \<Rightarrow> bridge_error + string" where
  "required_task_id args =
     (case sprop args ''taskId'' of
        None \<Rightarrow> mismatch ''taskId must contain 1 to 64 safe characters''
      | Some s \<Rightarrow> if safe_id s then Inr s else mismatch ''taskId must contain 1 to 64 safe characters'')"

definition new_task_id :: "observer \<Rightarrow> string" where
  "new_task_id ob = ''bg_'' @ take 32 (case ob_key ob of None \<Rightarrow> ob_fresh ob | Some k \<Rightarrow> k)"

definition start_background :: "peer \<Rightarrow> router \<Rightarrow> observer \<Rightarrow> scope \<Rightarrow> jobj \<Rightarrow> json talk" where
  "start_background pe ro ob r args =
     after (checked (assert_primary ro r)) (\<lambda>_.
     after (checked (parse_remote_exec (24 * 60 * 60000) (JObj args))) (\<lambda>x.
     send pe (StartTask (new_task_id ob) x (ob_key ob))))"

definition background_status :: "peer \<Rightarrow> router \<Rightarrow> scope \<Rightarrow> jobj \<Rightarrow> json talk" where
  "background_status pe ro r args =
     after (checked (assert_primary ro r)) (\<lambda>_.
     after (checked (required_task_id args)) (\<lambda>i. send pe (TaskStatus i)))"

definition background_log :: "peer \<Rightarrow> router \<Rightarrow> scope \<Rightarrow> jobj \<Rightarrow> json talk" where
  "background_log pe ro r args =
     after (checked (assert_primary ro r)) (\<lambda>_.
     let cursor = (case as_integer (oget args ''cursor'') of None \<Rightarrow> 0 | Some n \<Rightarrow> max 0 n);
         limit = int_arg args ''limitBytes'' 1 max_log_page max_log_page in
     after (checked (required_task_id args)) (\<lambda>i. send pe (TaskLog i cursor limit)))"

definition background_cancel :: "peer \<Rightarrow> router \<Rightarrow> scope \<Rightarrow> jobj \<Rightarrow> json talk" where
  "background_cancel pe ro r args =
     after (checked (assert_primary ro r)) (\<lambda>_.
     after (checked (required_task_id args)) (\<lambda>i. send pe (CancelTask i)))"

definition remote_exec :: "peer \<Rightarrow> router \<Rightarrow> observer \<Rightarrow> scope \<Rightarrow> jobj \<Rightarrow> json talk" where
  "remote_exec pe ro ob r args =
     after (checked (parse_remote_exec max_foreground (JObj args))) (\<lambda>x.
     after (checked (remote_executor ro r)) (\<lambda>s. send pe (Execute s x (ob_key ob))))"

definition thread_field :: "observer \<Rightarrow> jobj" where
  "thread_field ob =
     (case ob_thread ob of Some (c # cs) \<Rightarrow> [(''threadId'', JStr (c # cs))] | _ \<Rightarrow> [])"

definition copied :: "jobj \<Rightarrow> string list \<Rightarrow> jobj" where
  "copied args ks = concat (map (\<lambda>k. opt_field k (oget args k)) ks)"

definition open_file :: "peer \<Rightarrow> router \<Rightarrow> observer \<Rightarrow> scope \<Rightarrow> jobj \<Rightarrow> workspace_executor \<Rightarrow> json talk" where
  "open_file pe ro ob r args ex =
     (if \<not> ro_controller ro
      then checked (throw COMMAND_DENIED ''Opening workspace resources requires the active VS Code Remote transport'')
      else
        after (checked (text_arg args ''path'')) (\<lambda>path.
        after (call_workspace pe ex (CanonicalPath path)) (\<lambda>canonical.
        send pe (ToController ''openWorkspaceResource'' (sc_id r)
          ((''path'', canonical) # thread_field ob @ copied args [''line'', ''column'', ''endLine'', ''endColumn''])))))"

definition show_diff :: "peer \<Rightarrow> router \<Rightarrow> observer \<Rightarrow> scope \<Rightarrow> jobj \<Rightarrow> workspace_executor \<Rightarrow> json talk" where
  "show_diff pe ro ob r args ex =
     (if \<not> ro_controller ro
      then checked (throw COMMAND_DENIED ''Showing workspace Diff requires the active VS Code Remote transport'')
      else
        after (checked (text_arg args ''beforeContentBase64'')) (\<lambda>content.
        after (checked (text_arg args ''beforeHash'')) (\<lambda>hash.
        after (checked (text_arg args ''path'')) (\<lambda>path.
        after (call_workspace pe ex (CanonicalPath path)) (\<lambda>canonical.
        send pe (ToController ''showWorkspaceDiff'' (sc_id r)
          ([(''beforeContentBase64'', JStr content), (''beforeHash'', JStr hash), (''path'', canonical)] @
           thread_field ob @ copied args [''title''])))))))"

definition options_of :: "observer \<Rightarrow> string option \<Rightarrow> change_options" where
  "options_of ob hash = \<lparr>co_hash = hash, co_key = ob_key ob, co_signal = ob_signal ob\<rparr>"

definition is_replacement :: "json \<Rightarrow> bool" where
  "is_replacement v =
     (case is_record v of None \<Rightarrow> False | Some e \<Rightarrow> sprop e ''oldText'' \<noteq> None \<and> sprop e ''newText'' \<noteq> None)"

definition replacements_arg :: "jobj \<Rightarrow> bridge_error + json list" where
  "replacements_arg args =
     (case as_array (oget args ''replacements'') of
        None \<Rightarrow> mismatch ''replacements must be text replacement objects''
      | Some rs \<Rightarrow>
          if list_all is_replacement rs then Inr rs else mismatch ''replacements must be text replacement objects'')"

definition search_paths_arg :: "jobj \<Rightarrow> bridge_error + string list" where
  "search_paths_arg args =
     (case oget args ''paths'' of
        None \<Rightarrow> Inr [''.'']
      | Some v \<Rightarrow>
          (case (case as_array (Some v) of None \<Rightarrow> None | Some vs \<Rightarrow> if length vs > 32 then None else texts_of vs) of
             None \<Rightarrow> mismatch ''paths must contain at most 32 strings''
           | Some ps \<Rightarrow> Inr (if ps = [] then [''.''] else ps)))"

fun items_of :: "json \<Rightarrow> json list" where
  "items_of (JArr xs) = xs"
| "items_of _ = []"

text \<open>The tools that read; \<open>legacy\<close> tools answer in the older form.\<close>

definition read_tool :: "peer \<Rightarrow> workspace_executor \<Rightarrow> jobj \<Rightarrow> json talk" where
  "read_tool pe ex args =
     (let limit = map_option (\<lambda>n. min n 5242880) (as_integer (oget args ''limitBytes'')) in
      after (checked (text_arg args ''path'')) (\<lambda>path. call_workspace pe ex (ReadFile path limit)))"

definition list_tool :: "peer \<Rightarrow> workspace_executor \<Rightarrow> bool \<Rightarrow> jobj \<Rightarrow> json talk" where
  "list_tool pe ex legacy args =
     after (checked (text_arg args ''path'')) (\<lambda>path.
     after (both (call_workspace pe ex (CanonicalPath path)) (call_workspace pe ex (ListDirectory path))) (\<lambda>(canonical, entries).
     give (if legacy then entries
           else JObj [(''canonicalPath'', canonical), (''entries'', entries), (''truncated'', JBool False)])))"

fun fields_of :: "json \<Rightarrow> jobj" where
  "fields_of (JObj ob) = ob"
| "fields_of _ = []"

definition tree_tool :: "peer \<Rightarrow> workspace_executor \<Rightarrow> bool \<Rightarrow> jobj \<Rightarrow> json talk" where
  "tree_tool pe ex legacy args =
     (let depth = int_arg args ''depth'' 1 4 2; entries = int_arg args ''maxEntries'' 1 2000 400 in
      after (checked (text_arg args ''path'')) (\<lambda>path.
      after (both (call_workspace pe ex (CanonicalPath path)) (call_workspace pe ex (ListTree path depth entries)))
        (\<lambda>(canonical, listing).
      give (if legacy then listing else JObj (spread [(''canonicalPath'', canonical)] (fields_of listing))))))"

definition search_tool :: "peer \<Rightarrow> workspace_executor \<Rightarrow> bool \<Rightarrow> jobj \<Rightarrow> json talk" where
  "search_tool pe ex legacy args =
     after (checked (text_arg args ''query'')) (\<lambda>query.
     after (checked (search_paths_arg args)) (\<lambda>paths.
     let results = int_arg args ''maxResults'' 1 1000 200 in
     after (call_workspace pe ex (Search query paths results)) (\<lambda>matches.
     give (if legacy then matches
           else JObj [(''matches'', matches), (''truncated'', JBool (int (length (items_of matches)) \<ge> results))]))))"

definition git_tool :: "peer \<Rightarrow> workspace_executor \<Rightarrow> json talk" where
  "git_tool pe ex =
     after (call_workspace pe ex GitStatus) (\<lambda>result.
     if oget (fields_of result) ''exitCode'' \<noteq> Some (JInt 0)
     then checked (throw_with COMMAND_DENIED ''Workspace git status failed''
       (copied (fields_of result) [''exitCode'', ''stderr'']))
     else give result)"

text \<open>The tools that change files.\<close>

definition change_tool :: "peer \<Rightarrow> observer \<Rightarrow> workspace_executor \<Rightarrow> string \<Rightarrow> jobj \<Rightarrow> json talk" where
  "change_tool pe ob ex tool args =
     (let path = text_arg args ''path''; hashed = options_of ob (sprop args ''expectedHash'') in
      if tool = ''workspace_write_file''
      then after (checked (text_arg args ''contentBase64'')) (\<lambda>content.
           after (checked path) (\<lambda>p. call_workspace pe ex (WriteFile p content hashed)))
      else if tool = ''workspace_apply_patch''
      then after (checked (replacements_arg args)) (\<lambda>rs.
           after (checked (text_arg args ''expectedHash'')) (\<lambda>_.
           after (checked path) (\<lambda>p. call_workspace pe ex (ApplyPatch p rs hashed))))
      else if tool = ''workspace_create_directory''
      then after (checked path) (\<lambda>p. call_workspace pe ex (CreateDirectory p (options_of ob None)))
      else if tool = ''workspace_rename_path''
      then after (checked (text_arg args ''destinationPath'')) (\<lambda>d.
           after (checked path) (\<lambda>p. call_workspace pe ex (RenamePath p d hashed)))
      else after (checked path) (\<lambda>p. call_workspace pe ex (DeletePath p hashed)))"

definition workspace_tool ::
  "peer \<Rightarrow> router \<Rightarrow> observer \<Rightarrow> scope \<Rightarrow> jobj \<Rightarrow> workspace_executor \<Rightarrow> string \<Rightarrow> json talk" where
  "workspace_tool pe ro ob r args ex tool =
     (let name = normalize_tool tool; legacy = is_legacy tool in
      if name = ''workspace_open_file'' then open_file pe ro ob r args ex
      else if name = ''workspace_show_diff'' then show_diff pe ro ob r args ex
      else if name \<in> set mutation_tools then change_tool pe ob ex name args
      else if name = ''workspace_read_file'' then read_tool pe ex args
      else if name = ''workspace_list_directory'' then list_tool pe ex legacy args
      else if name = ''workspace_list_tree'' then tree_tool pe ex legacy args
      else if name = ''workspace_search'' then search_tool pe ex legacy args
      else if name = ''workspace_git_status'' then git_tool pe ex
      else checked (throw COMMAND_DENIED (''Unsupported workspace tool: '' @ tool)))"

definition execute_tool :: "peer \<Rightarrow> router \<Rightarrow> observer \<Rightarrow> scope \<Rightarrow> string \<Rightarrow> jobj \<Rightarrow> json talk" where
  "execute_tool pe ro ob r tool args =
     (if tool = ''remote_background_start'' then start_background pe ro ob r args
      else if tool = ''remote_background_status'' then background_status pe ro r args
      else if tool = ''remote_background_log'' then background_log pe ro r args
      else if tool = ''remote_background_cancel'' then background_cancel pe ro r args
      else if tool = ''remote_exec'' then remote_exec pe ro ob r args
      else
        after (checked (if is_legacy tool then assert_primary ro r else Inr ())) (\<lambda>_.
        after (checked (ensure (\<not> (sc_role r = ConversationRole \<and> normalize_tool tool \<in> set mutation_tools))
          (BridgeError COMMAND_DENIED ''Resources shared with the active conversation are read-only''
            (Some ((''rootId'', JStr (sc_id r)) # opt_field ''threadId'' (map_option JStr (ob_thread ob))))))) (\<lambda>_.
        after (checked (executor_of ro r (ob_thread ob))) (\<lambda>ex.
        workspace_tool pe ro ob r args ex tool))))"

text \<open>
  \<open>#attachWorkspaceResource\<close>: the file that was read or changed is registered with the window, and
  the identifier it gets is added to the result.
\<close>

definition attached_tools :: "string list" where
  "attached_tools = [''workspace_read_file'', ''workspace_write_file'', ''workspace_apply_patch'', ''workspace_rename_path'']"

definition attach_path :: "router \<Rightarrow> string \<Rightarrow> json \<Rightarrow> string option" where
  "attach_path ro tool data =
     (case is_record data of
        None \<Rightarrow> None
      | Some d \<Rightarrow>
          if sprop d ''resourceUri'' \<noteq> None \<or> normalize_tool tool \<notin> set attached_tools then None
          else
            (case (if sprop d ''destinationCanonicalPath'' \<noteq> None then sprop d ''destinationCanonicalPath''
                   else sprop d ''canonicalPath'') of
               Some (c # cs) \<Rightarrow> if ro_controller ro then Some (c # cs) else None
             | _ \<Rightarrow> None))"

definition with_resource :: "json \<Rightarrow> json \<Rightarrow> thrown + json" where
  "with_resource data resource =
     (if resource = JNull then Inl (ThrownError ''TypeError'')
      else
        (case sprop (fields_of resource) ''resourceUri'' of
           None \<Rightarrow> Inr data
         | Some u \<Rightarrow>
             Inr (JObj (spread (fields_of data) ((''resourceUri'', JStr u) #
               opt_field ''workspaceUri'' (map_option JStr (sprop (fields_of resource) ''workspaceUri'')))))))"

definition attach_resource :: "peer \<Rightarrow> router \<Rightarrow> observer \<Rightarrow> scope \<Rightarrow> string \<Rightarrow> json \<Rightarrow> json talk" where
  "attach_resource pe ro ob r tool data =
     (case attach_path ro tool data of
        None \<Rightarrow> give data
      | Some path \<Rightarrow>
          after (send pe (ToController ''registerWorkspaceResource'' (sc_id r) ((''path'', JStr path) # thread_field ob)))
            (\<lambda>resource. case with_resource data resource of Inl e \<Rightarrow> fail_with e | Inr d \<Rightarrow> give d))"

section \<open>A call from its parameters to its answer\<close>

record tool_request =
  tr_arguments :: json
  tr_call :: string
  tr_tool :: string

definition parse_tool_call :: "json \<Rightarrow> bridge_error + tool_request" where
  "parse_tool_call v =
     (case is_record v of
        None \<Rightarrow> mismatch ''Invalid dynamic tool call parameters''
      | Some ob \<Rightarrow>
          (case (sprop ob ''callId'', sprop ob ''tool'', oget ob ''arguments'') of
             (Some i, Some t, Some args) \<Rightarrow> Inr \<lparr>tr_arguments = args, tr_call = i, tr_tool = t\<rparr>
           | _ \<Rightarrow> mismatch ''Invalid dynamic tool call parameters''))"

definition argument_object :: "json \<Rightarrow> bridge_error + jobj" where
  "argument_object v =
     (case is_record v of None \<Rightarrow> mismatch ''Dynamic tool arguments must be an object'' | Some ob \<Rightarrow> Inr ob)"

definition request_id :: "observer \<Rightarrow> tool_request \<Rightarrow> string" where
  "request_id ob tr = (if tr_call tr = [] then ''req_'' @ ob_fresh ob else tr_call tr)"

text \<open>\<open>ToolResult\<close> with \<open>success\<close>; the text of the content item is its JSON.\<close>

record tool_answer =
  an_ok :: bool
  an_request :: string
  an_root :: scope
  an_root_path :: "string option"
  an_remote_cwd :: "string option"
  an_data :: json
  an_truncated :: bool
  an_error :: "payload option"

definition result_path :: "scope \<Rightarrow> string option" where
  "result_path r = (if sc_local r then None else Some (sc_path r))"

definition success_answer :: "string \<Rightarrow> scope \<Rightarrow> json \<Rightarrow> tool_answer" where
  "success_answer i r data =
     \<lparr>an_ok = True, an_request = i, an_root = r, an_root_path = Some (sc_path r), an_remote_cwd = result_path r,
      an_data = data, an_truncated = (oget (fields_of data) ''truncated'' = Some (JBool True)), an_error = None\<rparr>"

definition failure_answer :: "string \<Rightarrow> scope \<Rightarrow> bridge_error \<Rightarrow> tool_answer" where
  "failure_answer i r e =
     \<lparr>an_ok = False, an_request = i, an_root = r, an_root_path = result_path r, an_remote_cwd = result_path r,
      an_data = JNull, an_truncated = (err_code e = OUTPUT_TRUNCATED), an_error = Some (to_payload e)\<rparr>"

text \<open>The audit log, with the part of each entry that the router chooses.\<close>

datatype audit_outcome = AuStarted | AuSucceeded | AuUnknown | AuCancelled | AuFailed

record audit_entry =
  au_request :: string
  au_operation_id :: string
  au_operation :: string
  au_root :: scope
  au_outcome :: audit_outcome
  au_details :: jobj

definition text_fields :: "jobj \<Rightarrow> string list \<Rightarrow> jobj" where
  "text_fields args ks = concat (map (\<lambda>k. opt_field k (map_option JStr (sprop args k))) ks)"

definition number_fields :: "jobj \<Rightarrow> string list \<Rightarrow> jobj" where
  "number_fields args ks = concat (map (\<lambda>k. opt_field k (if is_number (oget args k) then oget args k else None)) ks)"

definition mutation_audit :: "jobj \<Rightarrow> jobj" where
  "mutation_audit args = text_fields args [''path'', ''destinationPath'', ''expectedHash'']"

definition resource_audit :: "jobj \<Rightarrow> jobj \<Rightarrow> jobj" where
  "resource_audit args data =
     text_fields args [''path'', ''beforeHash'', ''title''] @ number_fields args [''line''] @
     text_fields data [''resourceUri'', ''workspaceUri'']"

definition first_text :: "string option list \<Rightarrow> string option" where
  "first_text xs = (case filter (\<lambda>x. x \<noteq> None) xs of [] \<Rightarrow> None | x # _ \<Rightarrow> (if x = Some [] then None else x))"

definition background_audit :: "jobj \<Rightarrow> jobj \<Rightarrow> jobj" where
  "background_audit args data =
     (let task = (case rprop data ''task'' of None \<Rightarrow> [] | Some t \<Rightarrow> t) in
      opt_field ''taskId'' (map_option JStr (first_text [sprop data ''taskId'', sprop task ''taskId'', sprop args ''taskId''])) @
      opt_field ''taskStatus'' (map_option JStr (first_text [sprop data ''status'', sprop task ''status''])) @
      number_fields args [''cursor'', ''limitBytes''])"

definition call_audit :: "string \<Rightarrow> jobj \<Rightarrow> jobj \<Rightarrow> jobj" where
  "call_audit tool args data =
     (if tool \<in> set mutation_tools then mutation_audit args else []) @
     (if tool \<in> set resource_tools then resource_audit args data else [])"

definition started_details :: "json \<Rightarrow> string \<Rightarrow> jobj \<Rightarrow> jobj" where
  "started_details rpc tool args = (''rpcId'', rpc) # call_audit tool args []"

definition succeeded_details :: "int option \<Rightarrow> string \<Rightarrow> jobj \<Rightarrow> json \<Rightarrow> jobj" where
  "succeeded_details wait tool args data =
     (case is_record data of
        None \<Rightarrow> []
      | Some d \<Rightarrow>
          opt_field ''coordinationWaitMs'' (map_option JInt wait) @
          opt_field ''remoteDurationMs'' (if is_number (oget d ''durationMs'') then oget d ''durationMs'' else None) @
          opt_field ''transportTiming'' (map_option JObj (rprop d ''transportTiming'')) @
          number_fields d [''bytesWritten''] @ text_fields d [''idempotencyOutcome''] @
          opt_field ''newHash'' (map_option JStr (sprop d ''hash'')) @
          (if tool \<in> set background_tools then background_audit args d else []) @ call_audit tool args d)"

definition failed_details :: "string \<Rightarrow> jobj \<Rightarrow> json \<Rightarrow> jobj" where
  "failed_details tool args payload_json =
     (''error'', payload_json) # (if tool \<in> set background_tools then background_audit args [] else []) @
     call_audit tool args []"

definition failure_outcome :: "bridge_error \<Rightarrow> audit_outcome" where
  "failure_outcome e =
     (if err_code e = RESULT_UNKNOWN then AuUnknown else if err_code e = CANCELLED then AuCancelled else AuFailed)"

definition cancelled_call :: thrown where
  "cancelled_call = ThrownBridge (BridgeError CANCELLED ''Workspace tool call was cancelled'' None)"

text \<open>\<open>observer.signal?.aborted\<close>, read at that moment.\<close>

definition unless_aborted :: "peer \<Rightarrow> observer \<Rightarrow> unit talk" where
  "unless_aborted pe ob sent =
     (if ob_signal ob \<and> pe_aborted pe sent then fail_with cancelled_call sent else give () sent)"

text \<open>The body of the \<open>try\<close> block.\<close>

definition run_tool :: "peer \<Rightarrow> router \<Rightarrow> observer \<Rightarrow> scope \<Rightarrow> string \<Rightarrow> jobj \<Rightarrow> json talk" where
  "run_tool pe ro ob r tool args =
     after (unless_aborted pe ob) (\<lambda>_.
     after (execute_tool pe ro ob r tool args) (\<lambda>result.
     after (attach_resource pe ro ob r tool result) (\<lambda>data.
     after (unless_aborted pe ob) (\<lambda>_. give data))))"

definition checked_call :: "router \<Rightarrow> observer \<Rightarrow> json \<Rightarrow> bridge_error + tool_request \<times> jobj \<times> scope" where
  "checked_call ro ob params =
     bind_res (parse_tool_call params) (\<lambda>tr.
     bind_res (ensure (tr_tool tr \<in> set remote_tools)
       (BridgeError COMMAND_DENIED (''Unknown remote tool: '' @ tr_tool tr) None)) (\<lambda>_.
     bind_res (argument_object (tr_arguments tr)) (\<lambda>args.
     bind_res (requested_root ro (ob_resources ob) args) (\<lambda>r. Inr (tr, args, r)))))"

definition audit_of :: "observer \<Rightarrow> tool_request \<Rightarrow> scope \<Rightarrow> audit_outcome \<Rightarrow> jobj \<Rightarrow> audit_entry" where
  "audit_of ob tr r outcome details =
     \<lparr>au_request = request_id ob tr,
      au_operation_id = (case ob_operation ob of None \<Rightarrow> request_id ob tr | Some i \<Rightarrow> i),
      au_operation = tr_tool tr, au_root = r, au_outcome = outcome, au_details = details\<rparr>"

record handled =
  hd_answer :: "bridge_error + tool_answer"
  hd_audit :: "audit_entry list"
  hd_sent :: "outbound list"

text \<open>\<open>handle\<close>; \<open>wait\<close> is \<open>coordinationWaitMs\<close> and \<open>json_of\<close> writes the payload of an error.\<close>

definition handle ::
  "(payload \<Rightarrow> json) \<Rightarrow> peer \<Rightarrow> router \<Rightarrow> observer \<Rightarrow> int option \<Rightarrow> json \<Rightarrow> json \<Rightarrow> handled" where
  "handle json_of pe ro ob wait rpc params =
     (case checked_call ro ob params of
        Inl e \<Rightarrow> \<lparr>hd_answer = Inl e, hd_audit = [], hd_sent = []\<rparr>
      | Inr (tr, args, r) \<Rightarrow>
          let i = request_id ob tr; tool = tr_tool tr;
              started = audit_of ob tr r AuStarted (started_details rpc tool args) in
          (case run_tool pe ro ob r tool args [] of
             (Inr data, sent) \<Rightarrow>
               \<lparr>hd_answer = Inr (success_answer i r data),
                hd_audit = [started, audit_of ob tr r AuSucceeded (succeeded_details wait tool args data)], hd_sent = sent\<rparr>
           | (Inl t, sent) \<Rightarrow>
               let e = as_bridge_error t SSH_DISCONNECTED in
               \<lparr>hd_answer = Inr (failure_answer i r e),
                hd_audit = [started,
                  audit_of ob tr r (failure_outcome e) (failed_details tool args (json_of (to_payload e)))],
                hd_sent = sent\<rparr>))"

definition decline :: "router \<Rightarrow> observer \<Rightarrow> json \<Rightarrow> json \<Rightarrow> string \<Rightarrow> handled" where
  "decline ro ob rpc params reason =
     (case bind_res (parse_tool_call params) (\<lambda>tr. bind_res (argument_object (tr_arguments tr)) (\<lambda>args.
             bind_res (requested_root ro (ob_resources ob) args) (\<lambda>r. Inr (tr, r)))) of
        Inl e \<Rightarrow> \<lparr>hd_answer = Inl e, hd_audit = [], hd_sent = []\<rparr>
      | Inr (tr, r) \<Rightarrow>
          \<lparr>hd_answer = Inr (failure_answer (request_id ob tr) r (BridgeError COMMAND_DENIED reason None)),
           hd_audit = [audit_of ob tr r AuCancelled [(''rpcId'', rpc), (''reason'', JStr reason)]], hd_sent = []\<rparr>)"

section \<open>Sessions\<close>

text \<open>Whatever is sent satisfies \<open>P\<close>.\<close>

definition sends :: "(outbound \<Rightarrow> bool) \<Rightarrow> 'a talk \<Rightarrow> bool" where
  "sends P m \<longleftrightarrow> (\<forall>sent r sent'. m sent = (r, sent') \<longrightarrow> (\<exists>xs. sent' = sent @ xs \<and> list_all P xs))"

named_theorems sends_intros

lemma sendsD: "sends P m \<Longrightarrow> m sent = (r, sent') \<Longrightarrow> \<exists>xs. sent' = sent @ xs \<and> list_all P xs"
  by (simp add: sends_def)

lemma sends_give [sends_intros]: "sends P (give x)"
  by (simp add: sends_def give_def)

lemma sends_fail [sends_intros]: "sends P (fail_with e)"
  by (simp add: sends_def fail_with_def)

lemma sends_checked [sends_intros]: "sends P (checked r)"
  by (simp add: checked_def sends_intros split: sum.split)

lemma sends_unless_aborted [sends_intros]: "sends P (unless_aborted pe ob)"
  by (simp add: sends_def unless_aborted_def fail_with_def give_def)

lemma sends_send [sends_intros]: "P c \<Longrightarrow> sends P (send pe c)"
  by (simp add: sends_def send_def)

lemma sends_after [sends_intros]:
  assumes "sends P m" "\<And>x. sends P (f x)"
  shows "sends P (after m f)"
  unfolding sends_def after_def
proof (intro allI impI)
  fix sent r sent'
  assume run: "(case m sent of (Inl e, sent') \<Rightarrow> (Inl e, sent') | (Inr x, sent') \<Rightarrow> f x sent') = (r, sent')"
  obtain q sent1 where m: "m sent = (q, sent1)" by (cases "m sent")
  then obtain xs where xs: "sent1 = sent @ xs" "list_all P xs" using assms(1) unfolding sends_def by blast
  show "\<exists>xs. sent' = sent @ xs \<and> list_all P xs"
  proof (cases q)
    case (Inl e)
    then show ?thesis using run m xs by auto
  next
    case (Inr x)
    then have "f x sent1 = (r, sent')" using run m by simp
    then obtain ys where "sent' = sent1 @ ys" "list_all P ys" using sendsD [OF assms(2)] by blast
    then show ?thesis using xs by (intro exI [of _ "xs @ ys"]) simp
  qed
qed

lemma sends_both [sends_intros]:
  assumes "sends P m" "sends P n"
  shows "sends P (both m n)"
  unfolding sends_def both_def
proof (intro allI impI)
  fix sent r sent'
  assume run: "(case m sent of (r, sent1) \<Rightarrow> case n sent1 of (q, sent2) \<Rightarrow>
      (case (r, q) of (Inl e, _) \<Rightarrow> (Inl e, sent2) | (Inr _, Inl e) \<Rightarrow> (Inl e, sent2)
       | (Inr x, Inr y) \<Rightarrow> (Inr (x, y), sent2))) = (r, sent')"
  obtain a sent1 where m: "m sent = (a, sent1)" by (cases "m sent")
  obtain b sent2 where n: "n sent1 = (b, sent2)" by (cases "n sent1")
  from m assms(1) obtain xs where xs: "sent1 = sent @ xs" "list_all P xs" unfolding sends_def by blast
  from n assms(2) obtain ys where ys: "sent2 = sent1 @ ys" "list_all P ys" unfolding sends_def by blast
  have "sent' = sent2" using run m n by (auto split: sum.splits)
  then show "\<exists>xs. sent' = sent @ xs \<and> list_all P xs" using xs ys by (intro exI [of _ "xs @ ys"]) simp
qed

lemma sends_if: "(b \<Longrightarrow> sends P m) \<Longrightarrow> (\<not> b \<Longrightarrow> sends P n) \<Longrightarrow> sends P (if b then m else n)"
  by simp

text \<open>After a check that succeeds, only what it guarantees has to be handled.\<close>

lemma sends_after_checked:
  assumes "\<And>x. q = Inr x \<Longrightarrow> sends P (f x)"
  shows "sends P (after (checked q) f)"
  using assms by (cases q) (auto simp: sends_def after_def checked_def fail_with_def give_def)

lemma sends_split: "sends P m \<Longrightarrow> m [] = (r, sent) \<Longrightarrow> list_all P sent"
  by (drule (1) sendsD) auto

section \<open>Authority\<close>

definition known_root :: "router \<Rightarrow> observer \<Rightarrow> scope \<Rightarrow> bool" where
  "known_root ro ob r \<longleftrightarrow> r \<in> set (config_scopes ro) \<or> sc_local r \<and> r \<in> set (ob_resources ob)"

fun call_changes :: "workspace_call \<Rightarrow> bool" where
  "call_changes (WriteFile _ _ _) = True"
| "call_changes (ApplyPatch _ _ _) = True"
| "call_changes (CreateDirectory _ _) = True"
| "call_changes (RenamePath _ _ _) = True"
| "call_changes (DeletePath _ _) = True"
| "call_changes _ = False"

text \<open>The executor that stands for a remote root: the primary root has its own, the home directory is
  the only other one, and only within a window of the editor.\<close>

definition seat_of :: "router \<Rightarrow> scope \<Rightarrow> seat \<Rightarrow> bool" where
  "seat_of ro r s \<longleftrightarrow>
     \<not> sc_local r \<and>
     (s = PrimarySeat \<and> sc_role r = PrimaryRole \<and> sc_path r = bc_workspace_root (ro_config ro) \<or>
      s = HomeSeat (sc_path r) \<and> sc_id r = home_access_id \<and> sc_role r = SecondaryRole \<and> bc_vscode (ro_config ro))"

definition window_operations :: "string list" where
  "window_operations = [''openWorkspaceResource'', ''showWorkspaceDiff'', ''registerWorkspaceResource'']"

text \<open>A request to the window concerns the selected root; for its files the thread is named, and a change needs
  a root that is not one of the resources shared with a conversation.\<close>

definition window_request_ok :: "observer \<Rightarrow> scope \<Rightarrow> string \<Rightarrow> jobj \<Rightarrow> bool" where
  "window_request_ok ob r operation params \<longleftrightarrow>
     operation \<in> set window_operations \<or>
     sc_local r \<and>
     (\<exists>c tid. operation = operation_name (fst (controller_call c)) \<and> tid \<noteq> [] \<and> ob_thread ob = Some tid \<and>
        params = controller_params tid c \<and> (call_changes c \<longrightarrow> sc_role r = SecondaryRole))"

definition allowed :: "router \<Rightarrow> observer \<Rightarrow> scope \<Rightarrow> outbound \<Rightarrow> bool" where
  "allowed ro ob r out \<longleftrightarrow>
     (case out of
        Workspace s c \<Rightarrow> seat_of ro r s \<and> (call_changes c \<longrightarrow> sc_role r \<noteq> ConversationRole)
      | Execute s x k \<Rightarrow> seat_of ro r s
      | StartTask i x k \<Rightarrow> seat_of ro r PrimarySeat
      | TaskStatus i \<Rightarrow> seat_of ro r PrimarySeat
      | TaskLog i n m \<Rightarrow> seat_of ro r PrimarySeat
      | CancelTask i \<Rightarrow> seat_of ro r PrimarySeat
      | ToController operation rid params \<Rightarrow>
          ro_controller ro \<and> rid = sc_id r \<and> window_request_ok ob r operation params)"

lemma find_scope_Some: "find_scope loc rid scs = Some r \<Longrightarrow> r \<in> set scs \<and> sc_id r = rid \<and> sc_local r = loc"
  by (auto simp: find_scope_def find_Some_iff)

lemma requested_root_known: "requested_root ro (ob_resources ob) args = Inr r \<Longrightarrow> known_root ro ob r"
  by (auto simp: requested_root_def known_root_def Let_def dest!: find_scope_Some split: option.splits if_splits)

lemma assert_primary_seat: "assert_primary ro r = Inr u \<Longrightarrow> seat_of ro r PrimarySeat"
  by (simp add: assert_primary_def is_remote_primary_def seat_of_def)

lemma remote_executor_seat: "remote_executor ro r = Inr s \<Longrightarrow> seat_of ro r s"
  by (auto simp: remote_executor_def is_remote_primary_def seat_of_def home_seat_def split: if_splits)

text \<open>What an executor that was chosen for a root may be asked.\<close>

lemma call_workspace_sends:
  assumes ex: "executor_of ro r (ob_thread ob) = Inr ex"
    and role: "call_changes c \<longrightarrow> sc_role r \<noteq> ConversationRole"
  shows "sends (allowed ro ob r) (call_workspace pe ex c)"
proof (cases ex)
  case (RemoteExecutor s)
  with ex have "remote_executor ro r = Inr s" by (auto simp: executor_of_def split: if_splits option.splits list.splits)
  then show ?thesis using role by (auto simp: RemoteExecutor allowed_def intro!: sends_send dest: remote_executor_seat)
next
  case (ControllerExecutor rid tid)
  with ex have "sc_local r" "ro_controller ro" "rid = sc_id r" "ob_thread ob = Some tid" "tid \<noteq> []"
    "sc_role r = SecondaryRole \<or> sc_role r = ConversationRole"
    by (auto simp: executor_of_def split: if_splits option.splits list.splits)
  then show ?thesis using role
    by (auto simp: ControllerExecutor allowed_def window_request_ok_def intro!: sends_send)
qed

lemma allowed_window:
  "ro_controller ro \<Longrightarrow> operation \<in> set window_operations \<Longrightarrow>
   allowed ro ob r (ToController operation (sc_id r) params)"
  by (simp add: allowed_def window_request_ok_def)

lemma background_sends:
  "sends (allowed ro ob r) (start_background pe ro ob r args)"
  "sends (allowed ro ob r) (background_status pe ro r args)"
  "sends (allowed ro ob r) (background_log pe ro r args)"
  "sends (allowed ro ob r) (background_cancel pe ro r args)"
  unfolding start_background_def background_status_def background_log_def background_cancel_def Let_def
  by (rule sends_after_checked, intro sends_intros, simp add: allowed_def assert_primary_seat)+

lemma remote_exec_sends: "sends (allowed ro ob r) (remote_exec pe ro ob r args)"
  unfolding remote_exec_def
  by (rule sends_after_checked, rule sends_after_checked, rule sends_send) (simp add: allowed_def remote_executor_seat)

lemma workspace_read_sends:
  assumes ex: "executor_of ro r (ob_thread ob) = Inr ex"
  shows "sends (allowed ro ob r) (open_file pe ro ob r args ex)"
    "sends (allowed ro ob r) (show_diff pe ro ob r args ex)"
    "sends (allowed ro ob r) (read_tool pe ex args)"
    "sends (allowed ro ob r) (list_tool pe ex legacy args)"
    "sends (allowed ro ob r) (tree_tool pe ex legacy args)"
    "sends (allowed ro ob r) (search_tool pe ex legacy args)"
    "sends (allowed ro ob r) (git_tool pe ex)"
  unfolding open_file_def show_diff_def read_tool_def list_tool_def tree_tool_def search_tool_def git_tool_def Let_def
  by (auto intro!: sends_intros call_workspace_sends [OF ex] allowed_window simp: window_operations_def)

lemma change_tool_sends:
  assumes ex: "executor_of ro r (ob_thread ob) = Inr ex" and role: "sc_role r \<noteq> ConversationRole"
  shows "sends (allowed ro ob r) (change_tool pe ob ex tool args)"
  unfolding change_tool_def Let_def using role
  by (auto intro!: sends_intros call_workspace_sends [OF ex])

lemma workspace_tool_sends:
  assumes ex: "executor_of ro r (ob_thread ob) = Inr ex"
    and role: "\<not> (sc_role r = ConversationRole \<and> normalize_tool tool \<in> set mutation_tools)"
  shows "sends (allowed ro ob r) (workspace_tool pe ro ob r args ex tool)"
  unfolding workspace_tool_def Let_def using role
  by (auto intro: workspace_read_sends [OF ex] change_tool_sends [OF ex] sends_checked)

lemma execute_tool_sends: "sends (allowed ro ob r) (execute_tool pe ro ob r tool args)"
  unfolding execute_tool_def
  by (auto intro!: background_sends remote_exec_sends sends_after_checked workspace_tool_sends)

lemma attach_resource_sends: "sends (allowed ro ob r) (attach_resource pe ro ob r tool data)"
proof (cases "attach_path ro tool data")
  case None
  then show ?thesis by (simp add: attach_resource_def sends_give)
next
  case (Some path)
  then have "ro_controller ro" by (auto simp: attach_path_def split: option.splits if_splits list.splits)
  then show ?thesis unfolding attach_resource_def Some option.case
    by (intro sends_after sends_send allowed_window) (simp_all add: window_operations_def sends_intros split: sum.split)
qed

lemma run_tool_sends: "sends (allowed ro ob r) (run_tool pe ro ob r tool args)"
  unfolding run_tool_def by (intro sends_intros execute_tool_sends attach_resource_sends)

lemma checked_call_known: "checked_call ro ob params = Inr (tr, args, r) \<Longrightarrow> known_root ro ob r"
  by (auto simp: checked_call_def dest: requested_root_known)

definition demo_router :: router where
  "demo_router =
     \<lparr>ro_config = demo_parsed\<lparr>bc_vscode := True, bc_transport := Some (''/tmp/s'', ''s1'', replicate 32 (CHR ''k''))\<rparr>,
      ro_controller = True\<rparr>"

definition demo_resource :: scope where
  "demo_resource =
     \<lparr>sc_id = ''drop-1'', sc_local = True, sc_role = ConversationRole, sc_directory = False, sc_path = ''/home/u/a.txt'',
      sc_thread = ''t1''\<rparr>"

definition demo_observer :: observer where
  "demo_observer =
     \<lparr>ob_resources = [demo_resource], ob_key = Some ''key-1'', ob_thread = Some ''t1'', ob_signal = True,
      ob_operation = None, ob_fresh = ''u''\<rparr>"

definition demo_peer :: peer where
  "demo_peer =
     \<lparr>pe_answer = (\<lambda>sent c. case c of
         Workspace s wc \<Rightarrow> Inr (JObj [(''canonicalPath'', JStr ''/srv/app/a.txt''), (''hash'', JStr ''h'')])
       | ToController operation rid params \<Rightarrow>
           (if operation = ''registerWorkspaceResource'' then Inl (ThrownError ''window closed'')
            else Inr (JObj [(''canonicalPath'', JStr ''/home/u/a.txt'')]))
       | _ \<Rightarrow> Inr JNull),
      pe_aborted = (\<lambda>sent. False)\<rparr>"

definition demo_write :: json where
  "demo_write = JObj
     [(''callId'', JStr ''c1''), (''tool'', JStr ''workspace_write_file''),
      (''arguments'', JObj [(''path'', JStr ''a.txt''), (''contentBase64'', JStr ''QQ=='')])]"

definition demo_shared_read :: json where
  "demo_shared_read = JObj
     [(''callId'', JStr ''c2''), (''tool'', JStr ''workspace_read_file''),
      (''arguments'', JObj [(''target'', JStr ''local''), (''rootId'', JStr ''drop-1''), (''path'', JStr ''.'')])]"

text \<open>C1. A tool call reaches only what the user authorised, whatever the executors and the window answer
  and whatever its arguments are. The root it names is configured, or is a resource shared with the
  conversation, and everything the call sends concerns that root: commands, background tasks and files
  of the remote side go to the executor of the primary root, or, within the editor, to the
  executor of the home directory when that root was granted; background tasks only to the primary one;
  local files only to the window, with the thread of the conversation; and nothing changes a shared
  resource. A call whose parameters are refused sends nothing.
\<close>

theorem handled_call_authorised:
  assumes "c \<in> set (hd_sent (handle json_of pe ro ob wait rpc params))"
  shows "\<exists>a. hd_answer (handle json_of pe ro ob wait rpc params) = Inr a \<and>
    known_root ro ob (an_root a) \<and> allowed ro ob (an_root a) c"
proof (cases "checked_call ro ob params")
  case (Inl e)
  with assms show ?thesis by (simp add: handle_def)
next
  case (Inr x)
  then obtain tr args r where call: "checked_call ro ob params = Inr (tr, args, r)" by (cases x) auto
  obtain q sent where run: "run_tool pe ro ob r (tr_tool tr) args [] = (q, sent)" by fastforce
  have "list_all (allowed ro ob r) sent" by (rule sends_split [OF run_tool_sends run])
  then show ?thesis using assms call run checked_call_known [OF call]
    by (auto simp: handle_def Let_def list_all_iff success_answer_def failure_answer_def split: sum.splits)
qed

theorem handled_call_authorised_witness:
  "\<exists>a. hd_answer (handle (\<lambda>_. JNull) demo_peer demo_router demo_observer None (JInt 1) demo_shared_read) = Inr a \<and>
    known_root demo_router demo_observer (an_root a) \<and>
    allowed demo_router demo_observer (an_root a)
      (ToController ''localReadFile'' ''drop-1'' [(''path'', JStr ''.''), (''threadId'', JStr ''t1'')])"
  by (rule handled_call_authorised) code_simp

section \<open>Bounds\<close>

definition exec_bounded :: "int \<Rightarrow> exec_args \<Rightarrow> bool" where
  "exec_bounded hi x \<longleftrightarrow>
     xa_argv x \<noteq> [] \<and> list_all (\<lambda>s. NUL \<notin> set s) (xa_argv x) \<and> xa_cwd x \<noteq> Some [] \<and>
     (case xa_timeout x of None \<Rightarrow> True | Some t \<Rightarrow> 1000 \<le> t \<and> t \<le> hi)"

fun call_bounded :: "observer \<Rightarrow> workspace_call \<Rightarrow> bool" where
  "call_bounded ob (ReadFile p n) = (case n of None \<Rightarrow> True | Some k \<Rightarrow> k \<le> 5242880)"
| "call_bounded ob (ListTree p d n) = (1 \<le> d \<and> d \<le> 4 \<and> 1 \<le> n \<and> n \<le> 2000)"
| "call_bounded ob (Search q ps n) = (ps \<noteq> [] \<and> length ps \<le> 32 \<and> 1 \<le> n \<and> n \<le> 1000)"
| "call_bounded ob (WriteFile p c co) = (co_key co = ob_key ob)"
| "call_bounded ob (ApplyPatch p rs co) = (co_key co = ob_key ob \<and> co_hash co \<noteq> None \<and> list_all is_replacement rs)"
| "call_bounded ob (CreateDirectory p co) = (co_key co = ob_key ob)"
| "call_bounded ob (RenamePath p d co) = (co_key co = ob_key ob)"
| "call_bounded ob (DeletePath p co) = (co_key co = ob_key ob)"
| "call_bounded ob _ = True"

fun bounded :: "observer \<Rightarrow> outbound \<Rightarrow> bool" where
  "bounded ob (Workspace s c) = call_bounded ob c"
| "bounded ob (Execute s x k) = (k = ob_key ob \<and> exec_bounded 3600000 x)"
| "bounded ob (StartTask i x k) = (k = ob_key ob \<and> exec_bounded 86400000 x \<and> length i \<le> 35)"
| "bounded ob (TaskStatus i) = safe_id i"
| "bounded ob (TaskLog i n m) = (safe_id i \<and> 0 \<le> n \<and> 1 \<le> m \<and> m \<le> 262144)"
| "bounded ob (CancelTask i) = safe_id i"
| "bounded ob (ToController operation rid params) =
     (operation \<in> set window_operations \<or>
      (\<exists>c tid. operation = operation_name (fst (controller_call c)) \<and> params = controller_params tid c \<and> call_bounded ob c))"

lemma texts_of_length: "texts_of vs = Some ss \<Longrightarrow> length ss = length vs"
  by (induction vs arbitrary: ss) (auto split: option.splits)

lemma argv_of_Inr: "argv_of v = Inr ss \<Longrightarrow> ss \<noteq> [] \<and> list_all (\<lambda>s. NUL \<notin> set s) ss"
  by (auto simp: argv_of_def list_ex_iff list_all_iff dest: texts_of_length split: option.splits if_splits)

lemma parse_remote_exec_bounded:
  assumes "parse_remote_exec hi v = Inr x" "1000 \<le> hi"
  shows "exec_bounded hi x"
proof -
  from assms(1) obtain ob env where "argv_of (oget ob ''argv'') = Inr (xa_argv x)"
    "xa_cwd x = (case sprop ob ''cwd'' of Some (c # cs) \<Rightarrow> Some (c # cs) | _ \<Rightarrow> None)"
    "xa_timeout x = clamp_timeout hi (oget ob ''timeoutMs'')"
    by (auto simp: parse_remote_exec_def split: option.splits)
  with assms(2) show ?thesis
    by (auto simp: exec_bounded_def clamp_timeout_def dest: argv_of_Inr split: option.splits list.splits)
qed

lemma int_arg_bounds: "lo \<le> hi \<Longrightarrow> lo \<le> d \<Longrightarrow> d \<le> hi \<Longrightarrow> lo \<le> int_arg args k lo hi d \<and> int_arg args k lo hi d \<le> hi"
  by (auto simp: int_arg_def split: option.split)

lemma call_workspace_bounded: "call_bounded ob c \<Longrightarrow> sends (bounded ob) (call_workspace pe ex c)"
  by (cases ex) (simp_all, (rule sends_send, force)+)

lemma search_paths_arg_bounds:
  assumes "search_paths_arg args = Inr ps"
  shows "ps \<noteq> [] \<and> length ps \<le> 32"
  using assms
  by (auto simp: search_paths_arg_def mismatch_def dest: texts_of_length split: option.splits if_splits)

lemma search_tool_bounded: "sends (bounded ob) (search_tool pe ex legacy args)"
  unfolding search_tool_def Let_def
  by (intro sends_after sends_checked sends_after_checked call_workspace_bounded sends_give)
    (auto dest: search_paths_arg_bounds intro: int_arg_bounds [THEN conjunct1] int_arg_bounds [THEN conjunct2])

lemma read_tools_bounded:
  "sends (bounded ob) (read_tool pe ex args)"
  "sends (bounded ob) (list_tool pe ex legacy args)"
  "sends (bounded ob) (tree_tool pe ex legacy args)"
  "sends (bounded ob) (git_tool pe ex)"
  unfolding read_tool_def list_tool_def tree_tool_def git_tool_def Let_def
  using int_arg_bounds [of 1 4 2 args "''depth''"] int_arg_bounds [of 1 2000 400 args "''maxEntries''"]
  by (auto intro!: sends_intros call_workspace_bounded split: option.split)

lemma window_tools_bounded:
  "sends (bounded ob) (open_file pe ro ob r args ex)"
  "sends (bounded ob) (show_diff pe ro ob r args ex)"
  "sends (bounded ob) (attach_resource pe ro ob r tool data)"
  unfolding open_file_def show_diff_def attach_resource_def
  by (auto intro!: sends_intros call_workspace_bounded simp: window_operations_def split: option.split sum.split)

lemma change_tool_bounded: "sends (bounded ob) (change_tool pe ob ex tool args)"
proof -
  have patch: "sends (bounded ob) (after (checked (replacements_arg args)) (\<lambda>rs.
      after (checked (text_arg args ''expectedHash'')) (\<lambda>_.
      after (checked (text_arg args ''path'')) (\<lambda>p.
      call_workspace pe ex (ApplyPatch p rs (options_of ob (sprop args ''expectedHash'')))))))"
    by (intro sends_after_checked call_workspace_bounded)
      (auto simp: replacements_arg_def text_arg_def mismatch_def options_of_def split: option.splits if_splits)
  show ?thesis
    unfolding change_tool_def Let_def
    by (intro sends_if patch sends_after sends_checked call_workspace_bounded) (simp_all add: options_of_def)
qed

lemma background_bounded:
  "sends (bounded ob) (start_background pe ro ob r args)"
  "sends (bounded ob) (background_status pe ro r args)"
  "sends (bounded ob) (background_log pe ro r args)"
  "sends (bounded ob) (background_cancel pe ro r args)"
  "sends (bounded ob) (remote_exec pe ro ob r args)"
proof -
  have i: "safe_id i" if "required_task_id args = Inr i" for i
    using that by (auto simp: required_task_id_def mismatch_def split: option.splits if_splits)
  have limit: "1 \<le> int_arg args ''limitBytes'' 1 max_log_page max_log_page"
    "int_arg args ''limitBytes'' 1 max_log_page max_log_page \<le> 262144"
    using int_arg_bounds [of 1 max_log_page max_log_page args "''limitBytes''"] by (simp_all add: max_log_page_def)
  show "sends (bounded ob) (start_background pe ro ob r args)"
    unfolding start_background_def
    by (intro sends_after_checked sends_send)
      (auto dest: parse_remote_exec_bounded simp: new_task_id_def split: option.split)
  show "sends (bounded ob) (background_status pe ro r args)" "sends (bounded ob) (background_cancel pe ro r args)"
    unfolding background_status_def background_cancel_def
    by (intro sends_after_checked sends_send, simp add: i)+
  show "sends (bounded ob) (background_log pe ro r args)"
    unfolding background_log_def Let_def
    by (intro sends_after_checked sends_send) (auto simp: i limit split: option.split)
  show "sends (bounded ob) (remote_exec pe ro ob r args)"
    unfolding remote_exec_def
    by (intro sends_after_checked sends_send) (auto dest: parse_remote_exec_bounded simp: max_foreground_def)
qed

lemma run_tool_bounded: "sends (bounded ob) (run_tool pe ro ob r tool args)"
proof -
  have "sends (bounded ob) (workspace_tool pe ro ob r args ex tool)" for ex
    unfolding workspace_tool_def Let_def
    by (auto intro: read_tools_bounded search_tool_bounded window_tools_bounded change_tool_bounded sends_checked)
  then have "sends (bounded ob) (execute_tool pe ro ob r tool args)"
    unfolding execute_tool_def by (auto intro!: background_bounded sends_intros)
  then show ?thesis unfolding run_tool_def by (intro sends_intros window_tools_bounded)
qed

section \<open>Changes\<close>

definition changing_operations :: "string list" where
  "changing_operations =
     map operation_name [LocalWriteFile, LocalApplyPatch, LocalCreateDirectory, LocalRenamePath, LocalDeletePath]"

fun changing :: "outbound \<Rightarrow> bool" where
  "changing (Workspace s c) = call_changes c"
| "changing (Execute s x k) = True"
| "changing (StartTask i x k) = True"
| "changing (CancelTask i) = True"
| "changing (ToController operation rid params) = (operation \<in> set changing_operations)"
| "changing _ = False"

definition changes_at_most :: "nat \<Rightarrow> 'a talk \<Rightarrow> bool" where
  "changes_at_most n m \<longleftrightarrow>
     (\<forall>sent r sent'. m sent = (r, sent') \<longrightarrow> (\<exists>xs. sent' = sent @ xs \<and> length (filter changing xs) \<le> n))"

lemma quiet_changes: "sends (\<lambda>c. \<not> changing c) m \<Longrightarrow> changes_at_most 0 m"
  by (fastforce simp: changes_at_most_def list_all_iff filter_empty_conv dest: sendsD)

lemma changes_at_mostD:
  "changes_at_most n m \<Longrightarrow> m sent = (r, sent') \<Longrightarrow> \<exists>xs. sent' = sent @ xs \<and> length (filter changing xs) \<le> n"
  by (simp add: changes_at_most_def)

lemma changes_after:
  assumes "changes_at_most n m" "\<And>x. changes_at_most k (f x)"
  shows "changes_at_most (n + k) (after m f)"
  unfolding changes_at_most_def after_def
proof (intro allI impI)
  fix sent r sent'
  assume run: "(case m sent of (Inl e, sent') \<Rightarrow> (Inl e, sent') | (Inr x, sent') \<Rightarrow> f x sent') = (r, sent')"
  obtain q sent1 where m: "m sent = (q, sent1)" by (cases "m sent")
  then obtain xs where xs: "sent1 = sent @ xs" "length (filter changing xs) \<le> n"
    using changes_at_mostD [OF assms(1)] by blast
  show "\<exists>xs. sent' = sent @ xs \<and> length (filter changing xs) \<le> n + k"
  proof (cases q)
    case (Inl e)
    then show ?thesis using run m xs by auto
  next
    case (Inr x)
    then have "f x sent1 = (r, sent')" using run m by simp
    then obtain ys where "sent' = sent1 @ ys" "length (filter changing ys) \<le> k"
      using changes_at_mostD [OF assms(2)] by blast
    then show ?thesis using xs by (intro exI [of _ "xs @ ys"]) simp
  qed
qed

lemma changes_send: "changes_at_most (Suc 0) (send pe c)"
  by (simp add: changes_at_most_def send_def)

lemma changes_mono: "changes_at_most n m \<Longrightarrow> n \<le> k \<Longrightarrow> changes_at_most k m"
  unfolding changes_at_most_def by (meson le_trans)

lemma changes_checked: "(\<And>x. changes_at_most n (f x)) \<Longrightarrow> changes_at_most n (after (checked q) f)"
proof -
  assume "\<And>x. changes_at_most n (f x)"
  then have "changes_at_most (0 + n) (after (checked q) f)" by (intro changes_after quiet_changes sends_checked)
  then show ?thesis by simp
qed

lemma changes_if:
  "changes_at_most n m \<Longrightarrow> changes_at_most n m' \<Longrightarrow> changes_at_most n (if b then m else m')"
  by simp

lemma changes_call: "changes_at_most (Suc 0) (call_workspace pe ex c)"
  by (cases ex) (simp_all add: changes_send)

lemma quiet_workspace_call: "\<not> call_changes c \<Longrightarrow> sends (\<lambda>c. \<not> changing c) (call_workspace pe ex c)"
  by (cases ex; cases c) (auto intro!: sends_send simp: changing_operations_def)

lemma quiet_tools:
  "changes_at_most 0 (open_file pe ro ob r args ex)"
  "changes_at_most 0 (show_diff pe ro ob r args ex)"
  "changes_at_most 0 (read_tool pe ex args)"
  "changes_at_most 0 (list_tool pe ex legacy args)"
  "changes_at_most 0 (tree_tool pe ex legacy args)"
  "changes_at_most 0 (search_tool pe ex legacy args)"
  "changes_at_most 0 (git_tool pe ex)"
  "changes_at_most 0 (attach_resource pe ro ob r tool data)"
  unfolding open_file_def show_diff_def read_tool_def list_tool_def tree_tool_def search_tool_def git_tool_def
    attach_resource_def Let_def
  by (rule quiet_changes, auto intro!: sends_intros quiet_workspace_call simp: changing_operations_def split: option.split sum.split)+

lemma changes_change_tool: "changes_at_most (Suc 0) (change_tool pe ob ex tool args)"
  unfolding change_tool_def Let_def by (intro changes_if changes_checked changes_call)

lemma changes_workspace_tool: "changes_at_most (Suc 0) (workspace_tool pe ro ob r args ex tool)"
  unfolding workspace_tool_def Let_def
  by (intro changes_if changes_change_tool quiet_tools [THEN changes_mono] quiet_changes [OF sends_checked, THEN changes_mono]) simp_all

lemma changes_execute_tool: "changes_at_most (Suc 0) (execute_tool pe ro ob r tool args)"
  unfolding execute_tool_def start_background_def background_status_def background_log_def background_cancel_def
    remote_exec_def Let_def
  by (intro changes_if changes_checked changes_send changes_workspace_tool)

lemma changes_run_tool: "changes_at_most (Suc 0) (run_tool pe ro ob r tool args)"
proof -
  note quiet = quiet_changes [OF sends_unless_aborted [of _ pe ob]]
  have "changes_at_most (0 + (Suc 0 + (0 + (0 + 0)))) (run_tool pe ro ob r tool args)"
    unfolding run_tool_def
    by (intro changes_after quiet changes_execute_tool quiet_tools quiet_changes [OF sends_give])
  then show ?thesis by simp
qed

lemma handle_sent:
  "hd_sent (handle json_of pe ro ob wait rpc params) = [] \<or>
   (\<exists>r tool args. hd_sent (handle json_of pe ro ob wait rpc params) = snd (run_tool pe ro ob r tool args []))"
  by (simp add: handle_def Let_def split: sum.splits prod.splits) (metis snd_conv)


text \<open>A change that succeeded is reported as failed when the file it changed cannot be registered with the
  window afterwards. The executor has answered the change and nothing is undone, but the answer of the call
  has the error of the registration and no data, and the audit log says that the call failed; when the window
  was lost, the error even says that the call can be tried again.
\<close>

theorem completed_change_reported_failed:
  fixes rpc :: json and wait :: "int option" and json_of :: "payload \<Rightarrow> json"
  assumes call: "checked_call ro ob params = Inr (tr, args, r)"
    and ran: "execute_tool pe ro ob r (tr_tool tr) args [] = (Inr data, sent)" "list_ex changing sent"
    and path: "attach_path ro (tr_tool tr) data = Some path"
    and lost: "pe_answer pe sent (ToController ''registerWorkspaceResource'' (sc_id r) ((''path'', JStr path) # thread_field ob)) =
      Inl t"
    and start: "\<not> pe_aborted pe []"
  defines "h \<equiv> handle json_of pe ro ob wait rpc params" and "e \<equiv> as_bridge_error t SSH_DISCONNECTED"
  shows "hd_answer h = Inr (failure_answer (request_id ob tr) r e) \<and> list_ex changing (hd_sent h) \<and>
    map au_outcome (hd_audit h) = [AuStarted, failure_outcome e]"
proof -
  let ?c = "ToController ''registerWorkspaceResource'' (sc_id r) ((''path'', JStr path) # thread_field ob)"
  have "run_tool pe ro ob r (tr_tool tr) args [] = (Inl t, sent @ [?c])"
    using start lost
    by (simp add: run_tool_def after_def unless_aborted_def give_def ran(1) attach_resource_def path send_def)
  then have "h = \<lparr>hd_answer = Inr (failure_answer (request_id ob tr) r e),
      hd_audit = [audit_of ob tr r AuStarted (started_details rpc (tr_tool tr) args),
        audit_of ob tr r (failure_outcome e) (failed_details (tr_tool tr) args (json_of (to_payload e)))],
      hd_sent = sent @ [?c]\<rparr>"
    by (simp add: h_def e_def handle_def call Let_def)
  then show ?thesis
    using ran(2) by (simp_all add: audit_of_def)
qed

theorem completed_change_reported_failed_witness:
  "\<exists>a. hd_answer (handle (\<lambda>_. JNull) demo_peer demo_router demo_observer None (JInt 1) demo_write) = Inr a \<and>
     \<not> an_ok a \<and> map_option pl_retryable (an_error a) = Some True \<and>
     list_ex changing (hd_sent (handle (\<lambda>_. JNull) demo_peer demo_router demo_observer None (JInt 1) demo_write))"
proof -
  let ?tr = "\<lparr>tr_arguments = JObj [(''path'', JStr ''a.txt''), (''contentBase64'', JStr ''QQ=='')], tr_call = ''c1'',
    tr_tool = ''workspace_write_file''\<rparr>"
  let ?args = "[(''path'', JStr ''a.txt''), (''contentBase64'', JStr ''QQ=='')]"
  let ?r = "hd (config_scopes demo_router)"
  let ?data = "JObj [(''canonicalPath'', JStr ''/srv/app/a.txt''), (''hash'', JStr ''h'')]"
  let ?sent = "[Workspace PrimarySeat
    (WriteFile ''a.txt'' ''QQ=='' \<lparr>co_hash = None, co_key = Some ''key-1'', co_signal = True\<rparr>)]"
  have call: "checked_call demo_router demo_observer demo_write = Inr (?tr, ?args, ?r)" by code_simp
  have ran: "execute_tool demo_peer demo_router demo_observer ?r (tr_tool ?tr) ?args [] = (Inr ?data, ?sent)" by code_simp
  have path: "attach_path demo_router (tr_tool ?tr) ?data = Some ''/srv/app/a.txt''" by code_simp
  have lost: "pe_answer demo_peer ?sent (ToController ''registerWorkspaceResource'' (sc_id ?r)
      ((''path'', JStr ''/srv/app/a.txt'') # thread_field demo_observer)) = Inl (ThrownError ''window closed'')"
    by (simp add: demo_peer_def)
  have start: "\<not> pe_aborted demo_peer []" by (simp add: demo_peer_def)
  from completed_change_reported_failed [OF call ran _ path lost start, of "\<lambda>_. JNull" None "JInt 1"]
  show ?thesis by (simp add: failure_answer_def retryable_def retryable_codes_def)
qed

section \<open>What the window makes of a local call\<close>

fun arrived :: "controller_policy \<Rightarrow> workspace_call \<Rightarrow> executor_call" where
  "arrived pol (CanonicalPath p) = ExCanonicalPath p"
| "arrived pol (ReadFile p n) = ExReadFile p (case n of None \<Rightarrow> cp_max_output pol div 2 | Some k \<Rightarrow> k)"
| "arrived pol (ListDirectory p) = ExListDirectory p"
| "arrived pol (ListTree p d n) = ExListTree p d n"
| "arrived pol (Search q ps n) = ExSearch q ps n"
| "arrived pol GitStatus = ExGitStatus"
| "arrived pol (WriteFile p c co) = ExWrite p c (co_hash co)"
| "arrived pol (ApplyPatch p rs co) = ExPatch p (map (\<lambda>v. the (replacement_of v)) rs) (co_hash co)"
| "arrived pol (CreateDirectory p co) = ExMkdir p"
| "arrived pol (RenamePath p d co) = ExRename p d (co_hash co)"
| "arrived pol (DeletePath p co) = ExDelete p (co_hash co)"

text \<open>The request as it reaches the window: \<open>requestControllerWorkspace\<close> adds the root.\<close>

definition window_request :: "string \<Rightarrow> controller_policy \<Rightarrow> string \<Rightarrow> string \<Rightarrow> workspace_call \<Rightarrow> controller_request" where
  "window_request i pol rid tid c =
     \<lparr>cq_id = i, cq_operation = fst (controller_call c), cq_policy = pol,
      cq_params = jm_set (controller_params tid c) ''rootId'' (JStr rid)\<rparr>"

lemma option_fields_get:
  "oget (option_fields co) k =
     (if k = ''expectedHash'' then map_option JStr (co_hash co)
      else if k = ''idempotencyKey'' then map_option JStr (co_key co)
      else if k = ''signal'' \<and> co_signal co then Some (JObj []) else None)"
  by (auto simp: option_fields_def oget_append oget_opt split: option.split)

lemma params_get:
  "oget (cq_params (window_request i pol rid tid c)) k =
     (if k = ''rootId'' then Some (JStr rid) else if k = ''threadId'' then Some (JStr tid)
      else oget (snd (controller_call c)) k)"
  by (simp add: window_request_def controller_params_def)

lemma all_some_texts: "all_some (map string_of (map JStr ps)) = Some ps"
  by (induction ps) simp_all

lemma all_some_replacements:
  "list_all is_replacement rs \<Longrightarrow> all_some (map replacement_of rs) = Some (map (\<lambda>v. the (replacement_of v)) rs)"
proof (induction rs)
  case (Cons v rs)
  then have "\<exists>x. replacement_of v = Some x"
    by (cases v) (auto simp: is_replacement_def split: option.splits elim!: as_string.elims)
  with Cons show ?case by auto
qed simp

text \<open>What the dispatcher reads in the parameters is what the router was asked.\<close>

lemma window_request_sel [simp]:
  "cq_operation (window_request i pol rid tid c) = fst (controller_call c)"
  "cq_policy (window_request i pol rid tid c) = pol"
  by (simp_all add: window_request_def)

lemmas window_simps = dispatch_operation_def params_get option_fields_get oget_append oget_opt oget_Cons' oget_Nil'
  required_string_def mutation_options_def optional_string_def number_value_def search_paths_def all_some_texts
  all_some_replacements

lemma window_arguments:
  assumes "call_bounded ob c"
  shows "dispatch_operation digest le rid (window_request i pol rid tid c) =
    (if call_changes c
     then run_mutation digest le rid (window_request i pol rid tid c) (Inr (arrived pol c))
     else Inr (Direct (arrived pol c)))"
proof (cases c)
  case (ReadFile p n)
  then show ?thesis by (cases n) (simp_all add: window_simps)
next
  case (Search q ps n)
  then show ?thesis using assms all_some_texts [of ps] by (simp add: window_simps del: map_map)
next
  case (WriteFile p t co)
  then show ?thesis by (cases "co_hash co"; cases "co_key co") (simp_all add: window_simps)
next
  case (ApplyPatch p rs co)
  then have "list_all is_replacement rs" using assms by simp
  with ApplyPatch show ?thesis by (cases "co_hash co"; cases "co_key co") (simp_all add: window_simps)
next
  case (CreateDirectory p co)
  then show ?thesis by (cases "co_key co") (simp_all add: window_simps)
next
  case (RenamePath p d co)
  then show ?thesis by (cases "co_hash co"; cases "co_key co") (simp_all add: window_simps)
next
  case (DeletePath p co)
  then show ?thesis by (cases "co_hash co"; cases "co_key co") (simp_all add: window_simps)
qed (simp_all add: window_simps)

definition key_ok :: "observer \<Rightarrow> bool" where
  "key_ok ob \<longleftrightarrow> (case ob_key ob of None \<Rightarrow> False | Some k \<Rightarrow> 1 \<le> length k \<and> length k \<le> 256 \<and> NUL \<notin> set k)"

lemma window_key:
  "call_bounded ob c \<Longrightarrow> call_changes c \<Longrightarrow> ob_key ob = Some k \<Longrightarrow>
   oget (cq_params (window_request i pol rid tid c)) ''idempotencyKey'' = Some (JStr k)"
  by (cases c) (simp_all add: params_get option_fields_get oget_append oget_Cons' oget_Nil')

text \<open>C14. The window does with a local call what the router was asked: the dispatcher of the window, given the request that the
  executor of the router makes of a call, runs exactly that call, with its path, its bounds, its content and its expected hash, once the
  root is authorised for the thread; a change is run under the key of the tool call, and a resource shared
  with the conversation accepts every call that only reads, except for the status of Git.
\<close>

theorem local_call_arrives:
  assumes call: "call_bounded ob c" and key: "call_changes c \<longrightarrow> key_ok ob"
    and ids: "rid \<noteq> []" "tid \<noteq> []" and cfg: "dc_vscode_remote cfg"
    and root: "authorized_local_root cfg lookup tid rid \<noteq> None \<and> authorized_conversation lookup tid rid = None \<or>
      authorized_conversation lookup tid rid \<noteq> None \<and> \<not> call_changes c \<and> c \<noteq> GitStatus"
  shows "dispatch digest le (Some cfg) lookup (window_request i pol rid tid c) =
    (if call_changes c
     then Inr (Mutation (rid @ [NUL] @ the (ob_key ob))
       (mutation_fingerprint digest le (window_request i pol rid tid c)) (Inr (arrived pol c)))
     else Inr (Direct (arrived pol c)))"
proof -
  let ?rq = "window_request i pol rid tid c"
  have reads: "nonempty_string (cq_params ?rq) ''rootId'' = Inr rid" "nonempty_string (cq_params ?rq) ''threadId'' = Inr tid"
    using ids by (simp_all add: nonempty_string_def params_get)
  have role: "authorized_conversation lookup tid rid = None \<or> \<not> read_only_refuses (cq_operation ?rq)"
    using root by (cases c) auto
  have "dispatch digest le (Some cfg) lookup ?rq = dispatch_operation digest le rid ?rq"
    using root role cfg by (auto simp: dispatch_def reads)
  moreover have "run_mutation digest le rid ?rq q =
      Inr (Mutation (rid @ [NUL] @ the (ob_key ob)) (mutation_fingerprint digest le ?rq) q)" if "call_changes c" for q
    using key that window_key [OF call that, of _ i pol rid tid]
    by (auto simp: key_ok_def run_mutation_def idempotency_key_def split: option.splits)
  ultimately show ?thesis using window_arguments [OF call, of digest le rid i pol tid] by simp
qed

theorem local_call_arrives_witness:
  "dispatch (\<lambda>_. ''d'') (\<lambda>a b. True) (Some \<lparr>dc_vscode_remote = True, dc_roots = []\<rparr>) (\<lambda>t r. Some demo_resource)
     (window_request ''q'' \<lparr>cp_timeout = 1000, cp_max_output = 4096\<rparr> ''drop-1'' ''t1'' (ReadFile ''.'' (Some 100))) =
   Inr (Direct (ExReadFile ''.'' 100))"
  using local_call_arrives [of demo_observer "ReadFile ''.'' (Some 100)" "''drop-1''" "''t1''"
      "\<lparr>dc_vscode_remote = True, dc_roots = []\<rparr>" "\<lambda>t r. Some demo_resource"]
  by (simp add: authorized_conversation_def demo_resource_def)

section \<open>The audit log\<close>

text \<open>The properties of a tool call and of its result that an entry may hold.\<close>

definition audited_keys :: "string list" where
  "audited_keys =
     [''rpcId'', ''error'', ''path'', ''destinationPath'', ''expectedHash'', ''beforeHash'', ''title'', ''line'',
      ''resourceUri'', ''workspaceUri'', ''taskId'', ''taskStatus'', ''cursor'', ''limitBytes'', ''coordinationWaitMs'',
      ''remoteDurationMs'', ''transportTiming'', ''bytesWritten'', ''idempotencyOutcome'', ''newHash'']"

definition keys_within :: "string list \<Rightarrow> jobj \<Rightarrow> bool" where
  "keys_within ks ob \<longleftrightarrow> list_all (\<lambda>e. fst e \<in> set ks) ob"

lemma keys_within_append [simp]: "keys_within ks (a @ b) \<longleftrightarrow> keys_within ks a \<and> keys_within ks b"
  by (simp add: keys_within_def)

lemma keys_within_Cons [simp]: "keys_within ks ((k, v) # a) \<longleftrightarrow> k \<in> set ks \<and> keys_within ks a"
  by (simp add: keys_within_def)

lemma keys_within_Nil [simp]: "keys_within ks []"
  by (simp add: keys_within_def)

lemma keys_within_opt [simp]: "k \<in> set ks \<Longrightarrow> keys_within ks (opt_field k v)"
  by (auto simp: opt_field_def split: option.split)

lemma keys_within_fields [simp]:
  "list_all (\<lambda>k. k \<in> set ks) fs \<Longrightarrow> keys_within ks (text_fields args fs)"
  "list_all (\<lambda>k. k \<in> set ks) fs \<Longrightarrow> keys_within ks (number_fields args fs)"
  by (induction fs) (simp_all add: text_fields_def number_fields_def)

lemma audit_details_within:
  "keys_within audited_keys (started_details rpc tool args)"
  "keys_within audited_keys (succeeded_details wait tool args data)"
  "keys_within audited_keys (failed_details tool args payload)"
  by (simp_all add: started_details_def succeeded_details_def failed_details_def call_audit_def mutation_audit_def
      resource_audit_def background_audit_def audited_keys_def Let_def split: option.split)

text \<open>Every tool call that is run is in the audit log twice, first as started and then with its outcome, which
  is success exactly when the answer is one; a call whose parameters are refused is not in it. An entry
  never holds more of the call than its paths, hashes, title, line, cursor and task: no content of a file, no text that is searched for, no
  command and no variable of its environment.
\<close>

theorem handled_call_audited:
  "case hd_answer (handle json_of pe ro ob wait rpc params) of
     Inl e \<Rightarrow> hd_audit (handle json_of pe ro ob wait rpc params) = []
   | Inr a \<Rightarrow>
       \<exists>outcome. map au_outcome (hd_audit (handle json_of pe ro ob wait rpc params)) = [AuStarted, outcome] \<and>
         outcome \<noteq> AuStarted \<and> (outcome = AuSucceeded) = an_ok a \<and>
         list_all (\<lambda>x. keys_within audited_keys (au_details x)) (hd_audit (handle json_of pe ro ob wait rpc params))"
  by (auto simp: handle_def Let_def audit_of_def success_answer_def failure_answer_def failure_outcome_def
      audit_details_within split: sum.splits prod.splits)

end
