(* ===== verification/RemoteClient.thy ===== *)
theory RemoteClient
  imports ToolRouter TransportServer
begin

text \<open>
  \<^verbatim>\<open>src/core/vscode-remote-executor.ts\<close>: the executor of the agent within a window of the editor. A call
  becomes one line on a socket of its own; the events of that socket, of the timer and of the abort signal settle it.
  A command whose outcome is lost is looked up in the ledger of the remote side. Identifiers made by
  \<open>randomUUID\<close> are arguments, and the frames of the socket are parsed JSON, or nothing when the line is not JSON.
\<close>

section \<open>The line of a call\<close>

text \<open>\<open>maxOutputBytes / 2\<close>.\<close>

definition half :: "int \<Rightarrow> json" where
  "half n = (if even n then JInt (n div 2) else JFrac (int_text (n div 2) @ ''.5''))"

definition env_object :: "(string \<times> string option) list \<Rightarrow> json" where
  "env_object es = JObj (map (\<lambda>(k, v). (k, case v of None \<Rightarrow> JNull | Some s \<Rightarrow> JStr s)) es)"

definition exec_fields :: "exec_args \<Rightarrow> jobj" where
  "exec_fields x =
     opt_field ''cwd'' (map_option JStr (xa_cwd x)) @ opt_field ''env'' (map_option env_object (xa_env x)) @
     opt_field ''timeoutMs'' (map_option JInt (xa_timeout x))"

definition exec_key :: "string \<Rightarrow> string option \<Rightarrow> string" where
  "exec_key fresh k = (case k of None \<Rightarrow> ''exec_'' @ fresh | Some s \<Rightarrow> s)"

text \<open>The operation and the parameters of a call. The status of Git and the changes of remote files are not operations of
  the transport: they are commands.\<close>

fun remote_params :: "bridge_config \<Rightarrow> string \<Rightarrow> outbound \<Rightarrow> (string \<times> jobj) option" where
  "remote_params c fresh (Workspace s (CanonicalPath p)) = Some (''canonicalPath'', [(''path'', JStr p)])"
| "remote_params c fresh (Workspace s (ReadFile p n)) =
     Some (''readFile'',
       [(''limitBytes'', case n of None \<Rightarrow> half (bc_max_output c) | Some k \<Rightarrow> JInt k), (''path'', JStr p)])"
| "remote_params c fresh (Workspace s (ListDirectory p)) = Some (''listDirectory'', [(''path'', JStr p)])"
| "remote_params c fresh (Workspace s (ListTree p d n)) =
     Some (''listTree'', [(''depth'', JInt d), (''maxEntries'', JInt n), (''path'', JStr p)])"
| "remote_params c fresh (Workspace s (Search q ps n)) =
     Some (''search'', [(''maxResults'', JInt n), (''paths'', JArr (map JStr ps)), (''query'', JStr q)])"
| "remote_params c fresh (Workspace s _) = None"
| "remote_params c fresh (Execute s x k) =
     Some (''execute'',
       [(''argv'', JArr (map JStr (xa_argv x))), (''idempotencyKey'', JStr (exec_key fresh k)),
        (''options'', JObj (exec_fields x @ [(''sideEffect'', JBool True)]))])"
| "remote_params c fresh (StartTask i x k) =
     Some (''backgroundStart'', [(''argv'', JArr (map JStr (xa_argv x))), (''taskId'', JStr i)] @ exec_fields x)"
| "remote_params c fresh (TaskStatus i) = Some (''backgroundStatus'', [(''taskId'', JStr i)])"
| "remote_params c fresh (TaskLog i n m) =
     Some (''backgroundLog'', [(''cursor'', JInt n), (''limitBytes'', JInt m), (''taskId'', JStr i)])"
| "remote_params c fresh (CancelTask i) = Some (''backgroundCancel'', [(''taskId'', JStr i)])"
| "remote_params c fresh (ToController operation rid ps) = Some (operation, jm_set ps ''rootId'' (JStr rid))"

definition output_command :: string where
  "output_command = ''codexRemoteBridge.transport.output''"

text \<open>An executor: its configuration and the root of the window it is reached through.\<close>

record remote_client =
  rc_config :: bridge_config
  rc_transport_root :: string
  rc_closed :: bool

definition new_client :: "bridge_config \<Rightarrow> string \<Rightarrow> bridge_error + remote_client" where
  "new_client c root =
     bind_res (ensure (bc_vscode c \<and> bc_transport c \<noteq> None) (BridgeError INVALID_CONFIG
       ''VS Code remote execution requires a window-scoped transport descriptor'' None)) (\<lambda>_.
     Inr \<lparr>rc_config = c, rc_transport_root = root, rc_closed = False\<rparr>)"

definition transport_line :: "remote_client \<Rightarrow> string \<Rightarrow> string \<Rightarrow> string \<Rightarrow> jobj \<Rightarrow> jobj" where
  "transport_line rc token fresh operation params =
     [(''hostId'', JStr (bc_host (rc_config rc))), (''id'', JStr (''vscode_'' @ fresh)), (''operation'', JStr operation),
      (''outputCommand'', JStr output_command),
      (''params'', JObj (if rc_transport_root rc = bc_workspace_root (rc_config rc) then params
         else jm_set params ''scopeRoot'' (JStr (bc_workspace_root (rc_config rc))))),
      (''policy'', JObj [(''commandTimeoutMs'', JInt (bc_command_timeout (rc_config rc))),
         (''maxOutputBytes'', JInt (bc_max_output (rc_config rc)))]),
      (''token'', JStr token), (''workspaceRoot'', JStr (rc_transport_root rc))]"

definition begin_request ::
  "remote_client \<Rightarrow> bool \<Rightarrow> string \<Rightarrow> string \<Rightarrow> jobj \<Rightarrow> bridge_error + jobj" where
  "begin_request rc aborted fresh operation params =
     (if rc_closed rc
      then throw REMOTE_TRANSPORT_DISCONNECTED ''VS Code remote executor is closed''
      else
        (case bc_transport (rc_config rc) of
           None \<Rightarrow> throw INVALID_CONFIG ''VS Code transport descriptor is missing''
         | Some (endpoint, session, token) \<Rightarrow>
             if aborted then throw CANCELLED ''VS Code remote request was cancelled before it started''
             else Inr (transport_line rc token fresh operation params)))"

section \<open>The life of a request\<close>

text \<open>
  \<open>Done\<close> is the settled promise. What the request does meanwhile is write its line, pass on output, ask the remote side to
  cancel, and close its socket.
\<close>

datatype settled = AnsweredWith "json option" | FailedWith bridge_error

record pending =
  pn_id :: string
  pn_side_effect :: bool
  pn_sent :: bool
  pn_cancelling :: bool
  pn_settled :: "settled option"

datatype client_effect =
    WriteLine
  | PassOutput bool json
  | SendCancel
  | CloseSocket
  | Uncaught

datatype client_event =
    Connected
  | SocketError string
  | SocketEnd
  | SocketClose
  | TimerFires
  | AbortSignal
  | CancelRejected string
  | LineRead "json option"

definition new_pending :: "string \<Rightarrow> bool \<Rightarrow> pending" where
  "new_pending i side =
     \<lparr>pn_id = i, pn_side_effect = side, pn_sent = False, pn_cancelling = False, pn_settled = None\<rparr>"

definition finish :: "settled \<Rightarrow> pending \<Rightarrow> pending \<times> client_effect list" where
  "finish r p = (case pn_settled p of Some _ \<Rightarrow> (p, []) | None \<Rightarrow> (p\<lparr>pn_settled := Some r\<rparr>, [CloseSocket]))"

definition disconnect_error :: "pending \<Rightarrow> string \<Rightarrow> bridge_error" where
  "disconnect_error p msg =
     (if pn_side_effect p then BridgeError RESULT_UNKNOWN (msg @ ''; the remote side effect is unknown'') None
      else BridgeError REMOTE_TRANSPORT_DISCONNECTED msg None)"

definition abort_request :: "pending \<Rightarrow> pending \<times> client_effect list" where
  "abort_request p =
     (if pn_settled p \<noteq> None \<or> pn_cancelling p then (p, [])
      else if \<not> pn_sent p
      then finish (FailedWith (BridgeError CANCELLED ''VS Code remote request was cancelled before it was sent'' None)) p
      else (p\<lparr>pn_cancelling := True\<rparr>, [SendCancel]))"

definition cancel_rejected :: "string \<Rightarrow> pending \<Rightarrow> pending \<times> client_effect list" where
  "cancel_rejected cause p =
     finish (FailedWith (BridgeError (if pn_side_effect p then RESULT_UNKNOWN else REMOTE_TRANSPORT_DISCONNECTED)
       ''VS Code remote cancellation could not be confirmed''
       (Some [(''cause'', JStr cause), (''operationId'', JStr (pn_id p))]))) p"

text \<open>\<open>errorCode\<close>: a code that is not one of the bridge stands for a lost transport.\<close>

definition error_codes :: "(string \<times> error_code) list" where
  "error_codes =
     [(''BRIDGE_NOT_READY'', BRIDGE_NOT_READY), (''SSH_DISCONNECTED'', SSH_DISCONNECTED),
      (''HOST_KEY_MISMATCH'', HOST_KEY_MISMATCH), (''PATH_OUTSIDE_ROOT'', PATH_OUTSIDE_ROOT),
      (''FILE_CONFLICT'', FILE_CONFLICT), (''COMMAND_DENIED'', COMMAND_DENIED),
      (''LOCAL_EXECUTION_BLOCKED'', LOCAL_EXECUTION_BLOCKED), (''TIMEOUT'', TIMEOUT), (''CANCELLED'', CANCELLED),
      (''PROTOCOL_MISMATCH'', PROTOCOL_MISMATCH), (''OUTPUT_TRUNCATED'', OUTPUT_TRUNCATED),
      (''RESULT_UNKNOWN'', RESULT_UNKNOWN), (''INVALID_CONFIG'', INVALID_CONFIG),
      (''REMOTE_TRANSPORT_DISCONNECTED'', REMOTE_TRANSPORT_DISCONNECTED)]"

definition error_code_of :: "string option \<Rightarrow> error_code" where
  "error_code_of c =
     (case (case c of None \<Rightarrow> None | Some s \<Rightarrow> map_of error_codes s) of
        None \<Rightarrow> REMOTE_TRANSPORT_DISCONNECTED | Some e \<Rightarrow> e)"

text \<open>The error of a response, as the other side serialised it.\<close>

definition error_text :: "jobj \<Rightarrow> string" where
  "error_text err = (case sprop err ''message'' of None \<Rightarrow> [] | Some m \<Rightarrow> m)"

definition response_error :: "bool \<Rightarrow> jobj \<Rightarrow> bridge_error" where
  "response_error side err =
     (let code = error_code_of (sprop err ''code'');
          details = rprop err ''details'' in
      if side \<and> (code = REMOTE_TRANSPORT_DISCONNECTED \<or> code = SSH_DISCONNECTED)
      then BridgeError RESULT_UNKNOWN (error_text err @ ''; the remote side effect is unknown'')
        (Some (jm_set (case details of None \<Rightarrow> [] | Some d \<Rightarrow> d) ''transportErrorCode''
          (JStr (if code = SSH_DISCONNECTED then ''SSH_DISCONNECTED'' else ''REMOTE_TRANSPORT_DISCONNECTED''))))
      else BridgeError code (error_text err) details)"

definition bad_frame :: "string \<Rightarrow> settled" where
  "bad_frame msg = FailedWith (BridgeError PROTOCOL_MISMATCH msg None)"

definition client_frame :: "jobj \<Rightarrow> pending \<Rightarrow> pending \<times> client_effect list" where
  "client_frame m p =
     (if sprop m ''id'' \<noteq> Some (pn_id p)
      then finish (bad_frame ''VS Code remote transport returned a mismatched request id'') p
      else if sprop m ''type'' = Some ''output''
      then (p, [PassOutput (sprop m ''channel'' = Some ''stdout'') (case oget m ''chunk'' of None \<Rightarrow> JNull | Some c \<Rightarrow> c)])
      else if sprop m ''type'' \<noteq> Some ''response''
      then finish (bad_frame ''VS Code remote transport returned an unexpected stream frame'') p
      else if truthy (oget m ''error'')
      then finish (FailedWith (response_error (pn_side_effect p) (case oget m ''error'' of None \<Rightarrow> [] | Some e \<Rightarrow> fields_of e))) p
      else finish (AnsweredWith (oget m ''result'')) p)"

definition client_line :: "json option \<Rightarrow> pending \<Rightarrow> pending \<times> client_effect list" where
  "client_line line p =
     (case line of
        None \<Rightarrow> finish (bad_frame ''VS Code remote transport returned invalid JSON'') p
      | Some v \<Rightarrow> if v = JNull then (p, [Uncaught]) else client_frame (fields_of v) p)"

text \<open>After a request has settled its lines are no longer read.\<close>

fun client_step :: "client_event \<Rightarrow> pending \<Rightarrow> pending \<times> client_effect list" where
  "client_step Connected p = (if pn_settled p \<noteq> None then (p, []) else (p\<lparr>pn_sent := True\<rparr>, [WriteLine]))"
| "client_step (SocketError msg) p =
     finish (FailedWith (disconnect_error p (''Unable to connect to the VS Code remote transport: '' @ msg))) p"
| "client_step SocketEnd p = finish (FailedWith (disconnect_error p ''VS Code remote transport closed unexpectedly'')) p"
| "client_step SocketClose p = finish (FailedWith (disconnect_error p ''VS Code remote transport socket closed unexpectedly'')) p"
| "client_step TimerFires p = finish (FailedWith (disconnect_error p ''VS Code remote transport timed out'')) p"
| "client_step AbortSignal p = abort_request p"
| "client_step (CancelRejected cause) p = cancel_rejected cause p"
| "client_step (LineRead v) p = (if pn_settled p \<noteq> None then (p, []) else client_line v p)"

fun client_run :: "client_event list \<Rightarrow> pending \<Rightarrow> pending \<times> client_effect list" where
  "client_run [] p = (p, [])"
| "client_run (e # es) p =
     (case client_step e p of (p1, xs) \<Rightarrow> case client_run es p1 of (p2, ys) \<Rightarrow> (p2, xs @ ys))"

section \<open>Recovery of a lost result\<close>

text \<open>Each poll asks the remote ledger for the state of the operation; the list ends at the deadline or
  when the executor is closed.\<close>

datatype poll = PollFailed bridge_error | Snapshot jobj

definition replayed :: "jobj \<Rightarrow> jobj" where
  "replayed r = jm_set r ''idempotencyOutcome'' (JStr ''replayed'')"

definition recovery_failed :: "bridge_error \<Rightarrow> string \<Rightarrow> nat \<Rightarrow> string \<Rightarrow> string option \<Rightarrow> bridge_error" where
  "recovery_failed original key attempts latest status_error =
     BridgeError RESULT_UNKNOWN ''Remote operation result could not be confirmed after the transport disconnected''
       (Some ([(''cause'', JStr (err_message original)), (''idempotencyKey'', JStr key), (''lastStatus'', JStr latest),
          (''recoveryAttempts'', JInt (int attempts))] @ opt_field ''statusError'' (map_option JStr status_error)))"

definition snapshot_details :: "jobj option \<Rightarrow> jobj" where
  "snapshot_details err =
     (case err of None \<Rightarrow> [] | Some e \<Rightarrow> (case rprop e ''details'' of None \<Rightarrow> [] | Some d \<Rightarrow> d))"

definition recorded_failure :: "nat \<Rightarrow> jobj \<Rightarrow> bridge_error" where
  "recorded_failure attempts err =
     BridgeError (error_code_of (sprop err ''code'')) (error_text err)
       (Some (spread (snapshot_details (Some err))
          [(''idempotencyOutcome'', JStr ''replayed''), (''recoveryAttempts'', JInt (int attempts))]))"

definition unknown_operation :: "string \<Rightarrow> nat \<Rightarrow> jobj option \<Rightarrow> bridge_error" where
  "unknown_operation key attempts err =
     BridgeError RESULT_UNKNOWN
       (case err of
          None \<Rightarrow> ''Remote operation is absent from the current result ledger''
        | Some e \<Rightarrow> (case sprop e ''message'' of
            None \<Rightarrow> ''Remote operation is absent from the current result ledger'' | Some m \<Rightarrow> m))
       (Some (spread (snapshot_details err)
          [(''idempotencyKey'', JStr key), (''recoveryAttempts'', JInt (int attempts)), (''recoveryStatus'', JStr ''unknown'')]))"

fun recover :: "bridge_error \<Rightarrow> string \<Rightarrow> nat \<Rightarrow> string \<Rightarrow> string option \<Rightarrow> poll list \<Rightarrow> bridge_error + jobj" where
  "recover original key n latest status_error [] = Inl (recovery_failed original key n latest status_error)"
| "recover original key n latest status_error (PollFailed e # ps) =
     (if \<not> retryable e then Inl (recovery_failed original key (Suc n) ''unreachable'' (Some (err_message e)))
      else recover original key (Suc n) ''unreachable'' (Some (err_message e)) ps)"
| "recover original key n latest status_error (Snapshot sn # ps) =
     (let status = (case sprop sn ''status'' of None \<Rightarrow> [] | Some s \<Rightarrow> s);
          stop = Inl (recovery_failed original key (Suc n) status None) in
      if status = ''completed''
      then (case rprop sn ''result'' of None \<Rightarrow> stop | Some r \<Rightarrow> Inr (replayed r))
      else if status = ''cancelled'' \<or> status = ''failed''
      then (case rprop sn ''error'' of None \<Rightarrow> stop | Some e \<Rightarrow> Inl (recorded_failure (Suc n) e))
      else if status = ''unknown'' then Inl (unknown_operation key (Suc n) (rprop sn ''error''))
      else if status \<noteq> ''running'' then stop
      else recover original key (Suc n) status None ps)"

definition timed_result :: "int \<Rightarrow> jobj \<Rightarrow> jobj" where
  "timed_result elapsed r =
     jm_set r ''transportTiming''
       (JObj (jm_set
          (case oget r ''transportTiming'' of
             Some (JObj t) \<Rightarrow> t
           | _ \<Rightarrow> [(''controllerCommandAckMs'', JNull), (''controllerCompletionMs'', JInt elapsed), (''controllerOutputEvents'', JInt 0)])
          ''shimTransportTotalMs'' (JInt elapsed)))"

definition execute_outcome ::
  "int \<Rightarrow> bool \<Rightarrow> string \<Rightarrow> thrown + jobj \<Rightarrow> poll list \<Rightarrow> bridge_error + jobj" where
  "execute_outcome elapsed side key first polls =
     bind_res
       (case first of
          Inr r \<Rightarrow> Inr r
        | Inl t \<Rightarrow>
            let e = as_bridge_error t RESULT_UNKNOWN in
            if \<not> side \<or> err_code e \<noteq> RESULT_UNKNOWN then Inl e else recover e key 0 ''unreachable'' None polls)
       (\<lambda>r. Inr (timed_result elapsed r))"

text \<open>The start of a background task, with one look at its state when the answer was lost.\<close>

definition start_outcome_of :: "string \<Rightarrow> thrown + jobj \<Rightarrow> thrown + jobj \<Rightarrow> bridge_error + jobj" where
  "start_outcome_of i first status =
     (case first of
        Inr r \<Rightarrow> Inr r
      | Inl t \<Rightarrow>
          let e = as_bridge_error t RESULT_UNKNOWN;
              lost = throw_with RESULT_UNKNOWN ''Background task start could not be confirmed after transport disconnect''
                [(''cause'', JStr (err_message e)), (''taskId'', JStr i)] in
          if err_code e \<noteq> RESULT_UNKNOWN then Inl e
          else (case status of
              Inl _ \<Rightarrow> lost
            | Inr s \<Rightarrow> if sprop s ''status'' \<noteq> Some ''unknown'' then Inr (replayed s) else lost))"

section \<open>Properties of a request\<close>

lemma finish_settles: "pn_settled (fst (finish r p)) \<noteq> None"
  by (simp add: finish_def split: option.split)

lemma settled_stays: "pn_settled p = Some r \<Longrightarrow> pn_settled (fst (client_step e p)) = Some r"
  by (cases e) (simp_all add: finish_def abort_request_def cancel_rejected_def)

lemma settled_quiet: "pn_settled p = Some r \<Longrightarrow> snd (client_step e p) = []"
  by (cases e) (simp_all add: finish_def abort_request_def cancel_rejected_def)

lemma client_run_Cons:
  "client_run (e # es) p =
   (fst (client_run es (fst (client_step e p))), snd (client_step e p) @ snd (client_run es (fst (client_step e p))))"
  by (simp split: prod.split)

lemma client_run_append:
  "client_run (es @ fs) p =
   (fst (client_run fs (fst (client_run es p))), snd (client_run es p) @ snd (client_run fs (fst (client_run es p))))"
  by (induction es arbitrary: p) (simp_all add: client_run_Cons del: client_run.simps(2))

lemma settled_run: "pn_settled p = Some r \<Longrightarrow> client_run es p = (fst (client_run es p), []) \<and> pn_settled (fst (client_run es p)) = Some r"
  by (induction es arbitrary: p) (simp_all add: client_run_Cons settled_quiet settled_stays del: client_run.simps(2))

definition ends_request :: "client_event \<Rightarrow> bool" where
  "ends_request e \<longleftrightarrow>
     (case e of SocketError m \<Rightarrow> True | SocketEnd \<Rightarrow> True | SocketClose \<Rightarrow> True | TimerFires \<Rightarrow> True | _ \<Rightarrow> False)"

lemma ends_request_settles: "ends_request e \<Longrightarrow> pn_settled (fst (client_step e p)) \<noteq> None"
  by (cases e) (simp_all add: ends_request_def finish_def split: option.split)

definition closings :: "client_effect list \<Rightarrow> nat" where
  "closings xs = length (filter (\<lambda>x. x = CloseSocket) xs)"

lemma closings_append [simp]: "closings (xs @ ys) = closings xs + closings ys"
  by (simp add: closings_def)

definition line_outcome :: "pending \<Rightarrow> settled \<Rightarrow> bool" where
  "line_outcome p r \<longleftrightarrow>
     (case r of AnsweredWith v \<Rightarrow> True
      | FailedWith e \<Rightarrow> err_code e = PROTOCOL_MISMATCH \<or> (\<exists>err. e = response_error (pn_side_effect p) err))"

definition line_effect :: "pending \<Rightarrow> pending \<times> client_effect list \<Rightarrow> bool" where
  "line_effect p z \<longleftrightarrow> (\<exists>x. z = (p, [x]) \<and> x \<noteq> CloseSocket) \<or> (\<exists>r. z = finish r p \<and> line_outcome p r)"

lemma line_effect_intros:
  "x \<noteq> CloseSocket \<Longrightarrow> line_effect p (p, [x])"
  "line_outcome p r \<Longrightarrow> line_effect p (finish r p)"
  "line_effect p z \<Longrightarrow> line_effect p z' \<Longrightarrow> line_effect p (if b then z else z')"
  by (auto simp: line_effect_def)

lemma line_outcome_intros:
  "line_outcome p (bad_frame msg)"
  "line_outcome p (AnsweredWith v)"
  "line_outcome p (FailedWith (response_error (pn_side_effect p) err))"
  unfolding line_outcome_def bad_frame_def settled.case by auto

lemma client_line_effect: "line_effect p (client_line v p)"
proof -
  have "line_effect p (client_frame m p)" for m
    unfolding client_frame_def by (intro line_effect_intros line_outcome_intros) simp
  then show ?thesis
    by (cases v) (auto simp: client_line_def intro: line_effect_intros line_outcome_intros)
qed

lemma step_closes:
  "pn_settled p = None \<Longrightarrow>
   closings (snd (client_step e p)) = (if pn_settled (fst (client_step e p)) = None then 0 else 1)"
proof (cases e)
  case (LineRead v)
  assume "pn_settled p = None"
  then show ?thesis using client_line_effect [of p v]
    by (auto simp: LineRead line_effect_def closings_def finish_def)
qed (auto simp: finish_def abort_request_def cancel_rejected_def closings_def)

lemma run_closes:
  "pn_settled p = None \<Longrightarrow>
   closings (snd (client_run es p)) = (if pn_settled (fst (client_run es p)) = None then 0 else 1)"
proof (induction es arbitrary: p)
  case Nil
  then show ?case by (simp add: closings_def)
next
  case (Cons e es)
  let ?q = "fst (client_step e p)"
  show ?case
  proof (cases "pn_settled ?q")
    case None
    then show ?thesis using Cons.IH [OF None] step_closes [OF Cons.prems, of e]
      by (simp add: client_run_Cons del: client_run.simps)
  next
    case (Some r)
    then have "snd (client_run es ?q) = []" using settled_run [OF Some, of es] by (metis snd_conv)
    then show ?thesis using Some settled_run [OF Some, of es] step_closes [OF Cons.prems, of e]
      by (simp add: client_run_Cons closings_def del: client_run.simps)
  qed
qed

lemma run_ends: "list_ex ends_request es \<Longrightarrow> pn_settled (fst (client_run es p)) \<noteq> None"
proof (induction es arbitrary: p)
  case (Cons e es)
  show ?case
  proof (cases "ends_request e")
    case True
    then obtain r where "pn_settled (fst (client_step e p)) = Some r" using ends_request_settles [of e p] by auto
    then show ?thesis using settled_run [of "fst (client_step e p)" r es] by (simp add: client_run_Cons del: client_run.simps)
  next
    case False
    with Cons show ?thesis by (simp add: client_run_Cons del: client_run.simps)
  qed
qed simp

text \<open>C35. A request on the transport is answered, once and for all. Whatever happens on its socket and in whatever
  order, when the socket fails or ends or the timer fires the request is settled, the first outcome stays,
  and the socket is destroyed exactly once.
\<close>

theorem request_settles_once:
  assumes "list_ex ends_request es"
  shows "\<exists>r. pn_settled (fst (client_run es (new_pending i side))) = Some r \<and>
    pn_settled (fst (client_run (es @ later) (new_pending i side))) = Some r \<and>
    closings (snd (client_run (es @ later) (new_pending i side))) = 1"
proof -
  let ?p = "new_pending i side"
  obtain r where r: "pn_settled (fst (client_run es ?p)) = Some r" using run_ends [OF assms, of ?p] by auto
  have later: "pn_settled (fst (client_run (es @ later) ?p)) = Some r"
    using settled_run [OF r, of later] by (simp add: client_run_append)
  have "closings (snd (client_run (es @ later) ?p)) = 1"
    using run_closes [of ?p "es @ later"] later by (simp add: new_pending_def)
  with r later show ?thesis by blast
qed

theorem request_settles_once_witness:
  "\<exists>r. pn_settled (fst (client_run [Connected, TimerFires] (new_pending ''q'' True))) = Some r \<and>
    pn_settled (fst (client_run ([Connected, TimerFires] @ [SocketClose]) (new_pending ''q'' True))) = Some r \<and>
    closings (snd (client_run ([Connected, TimerFires] @ [SocketClose]) (new_pending ''q'' True))) = 1"
  by (rule request_settles_once) (simp add: ends_request_def)

text \<open>A request with a side effect never fails with a code that says that only the connection was lost.\<close>

definition connection_lost :: "error_code set" where
  "connection_lost = {REMOTE_TRANSPORT_DISCONNECTED, SSH_DISCONNECTED}"

definition outcome_known :: "pending \<Rightarrow> bool" where
  "outcome_known p \<longleftrightarrow>
     pn_side_effect p \<and> (case pn_settled p of Some (FailedWith e) \<Rightarrow> err_code e \<notin> connection_lost | _ \<Rightarrow> True)"

lemma finish_known: "outcome_known p \<Longrightarrow> err_code e \<notin> connection_lost \<Longrightarrow> outcome_known (fst (finish (FailedWith e) p))"
  by (auto simp: outcome_known_def finish_def split: option.split)

lemma response_error_known: "err_code (response_error True err) \<notin> connection_lost"
  by (auto simp: response_error_def connection_lost_def Let_def)

lemma client_line_known:
  assumes known: "outcome_known p"
  shows "outcome_known (fst (client_line v p))"
proof -
  have "outcome_known (fst (finish r p))" if r: "line_outcome p r" for r
  proof (cases r)
    case (FailedWith e)
    have "err_code e \<notin> connection_lost"
      using r known response_error_known
      by (auto simp: FailedWith line_outcome_def outcome_known_def) (simp add: connection_lost_def)
    then show ?thesis using known by (simp add: FailedWith finish_known)
  next
    case (AnsweredWith v)
    then show ?thesis using known by (cases "pn_settled p") (simp_all add: outcome_known_def finish_def)
  qed
  then show ?thesis using client_line_effect [of p v] known by (auto simp: line_effect_def)
qed

lemma client_step_known: "outcome_known p \<Longrightarrow> outcome_known (fst (client_step e p))"
proof (cases e)
  case Connected
  then show "outcome_known p \<Longrightarrow> ?thesis" by (simp add: outcome_known_def)
next
  case AbortSignal
  then show "outcome_known p \<Longrightarrow> ?thesis"
    by (auto simp: abort_request_def intro!: finish_known) (auto simp: outcome_known_def connection_lost_def)
next
  case (LineRead v)
  then show "outcome_known p \<Longrightarrow> ?thesis" using client_line_known by simp
qed (auto simp: cancel_rejected_def disconnect_error_def outcome_known_def connection_lost_def finish_def split: option.split)

lemma client_run_known: "outcome_known p \<Longrightarrow> outcome_known (fst (client_run es p))"
  by (induction es arbitrary: p) (simp_all add: client_run_Cons client_step_known del: client_run.simps(2))

text \<open>C36. The loss of the connection is never mistaken for a failure of a side effect: whatever happens on its
  socket, a request with a side effect fails neither with the code of a lost transport nor with that of a lost
  connection, both of which say that it can be tried again; its outcome is then unknown.
\<close>

theorem lost_side_effect_unknown:
  assumes "pn_settled (fst (client_run es (new_pending i True))) = Some (FailedWith e)"
  shows "err_code e \<noteq> REMOTE_TRANSPORT_DISCONNECTED \<and> err_code e \<noteq> SSH_DISCONNECTED"
proof -
  have "outcome_known (fst (client_run es (new_pending i True)))"
    by (rule client_run_known) (simp add: outcome_known_def new_pending_def)
  with assms show ?thesis by (simp add: outcome_known_def connection_lost_def)
qed

theorem lost_side_effect_unknown_witness:
  "err_code (BridgeError RESULT_UNKNOWN (''gone'' @ ''; the remote side effect is unknown'')
     (Some [(''transportErrorCode'', JStr ''SSH_DISCONNECTED'')])) \<noteq> REMOTE_TRANSPORT_DISCONNECTED \<and>
   err_code (BridgeError RESULT_UNKNOWN (''gone'' @ ''; the remote side effect is unknown'')
     (Some [(''transportErrorCode'', JStr ''SSH_DISCONNECTED'')])) \<noteq> SSH_DISCONNECTED"
  by (rule lost_side_effect_unknown
      [of "[Connected, LineRead (Some (JObj [(''id'', JStr ''q''), (''type'', JStr ''response''),
         (''error'', JObj [(''code'', JStr ''SSH_DISCONNECTED''), (''message'', JStr ''gone'')])]))]" "''q''"]) code_simp

section \<open>Properties of the recovery\<close>

definition undecided :: "poll \<Rightarrow> bool" where
  "undecided x \<longleftrightarrow>
     (case x of PollFailed e \<Rightarrow> retryable e | Snapshot sn \<Rightarrow> sprop sn ''status'' = Some ''running'')"

definition recorded :: "poll list \<Rightarrow> string \<Rightarrow> string \<Rightarrow> jobj \<Rightarrow> bool" where
  "recorded ps status field v \<longleftrightarrow>
     (\<exists>sn rest. dropWhile undecided ps = Snapshot sn # rest \<and> sprop sn ''status'' = Some status \<and> rprop sn field = Some v)"

lemma recorded_Cons: "undecided x \<Longrightarrow> recorded (x # ps) st f v \<longleftrightarrow> recorded ps st f v"
  by (simp add: recorded_def)

lemma recorded_here:
  "\<not> undecided (Snapshot sn) \<Longrightarrow>
   recorded (Snapshot sn # ps) st f v \<longleftrightarrow> sprop sn ''status'' = Some st \<and> rprop sn f = Some v"
  by (simp add: recorded_def)

lemma not_recorded: "\<not> undecided (PollFailed e) \<Longrightarrow> \<not> recorded (PollFailed e # ps) st f v"
  by (simp add: recorded_def)

definition follows_ledger :: "poll list \<Rightarrow> bridge_error + jobj \<Rightarrow> bool" where
  "follows_ledger ps q \<longleftrightarrow>
     (case q of
        Inr r \<Rightarrow> \<exists>v. recorded ps ''completed'' ''result'' v \<and> r = replayed v
      | Inl e \<Rightarrow> err_code e = RESULT_UNKNOWN \<or>
          (\<exists>v n. (recorded ps ''cancelled'' ''error'' v \<or> recorded ps ''failed'' ''error'' v) \<and> e = recorded_failure n v))"

lemma follows_unknown: "err_code e = RESULT_UNKNOWN \<Longrightarrow> follows_ledger ps (Inl e)"
  by (simp add: follows_ledger_def)

lemma follows_Cons: "undecided x \<Longrightarrow> follows_ledger ps q \<Longrightarrow> follows_ledger (x # ps) q"
  by (cases q) (simp_all add: follows_ledger_def recorded_Cons)

lemma unknown_codes [simp]:
  "err_code (recovery_failed original key n latest status_error) = RESULT_UNKNOWN"
  "err_code (unknown_operation key n err) = RESULT_UNKNOWN"
  by (simp_all add: recovery_failed_def unknown_operation_def)

lemma recover_follows: "follows_ledger ps (recover original key n latest status_error ps)"
proof (induction original key n latest status_error ps rule: recover.induct)
  case (2 original key n latest status_error e ps)
  then show ?case by (cases "retryable e") (auto intro: follows_Cons follows_unknown simp: undecided_def)
next
  case (3 original key n latest status_error sn ps)
  define status where "status = (case sprop sn ''status'' of None \<Rightarrow> [] | Some s \<Rightarrow> s)"
  have st: "sprop sn ''status'' = Some s" if "status = s" "s \<noteq> []" for s
    using that by (auto simp: status_def split: option.splits)
  consider "status = ''completed''" | "status = ''cancelled'' \<or> status = ''failed''" | "status = ''running''"
    | (other) "status \<notin> {''completed'', ''cancelled'', ''failed'', ''running''}"
    by blast
  then show ?case
  proof cases
    case 1
    then have "sprop sn ''status'' = Some ''completed''" by (rule st) simp
    then show ?thesis
      by (cases "rprop sn ''result''") (auto simp: follows_ledger_def recorded_here undecided_def)
  next
    case 2
    then have s: "sprop sn ''status'' = Some status" using st [of status] by auto
    have "follows_ledger (Snapshot sn # ps)
        (case rprop sn ''error'' of None \<Rightarrow> Inl (recovery_failed original key (Suc n) status None)
         | Some v \<Rightarrow> Inl (recorded_failure (Suc n) v))"
      using 2 s by (cases "rprop sn ''error''") (auto simp: follows_ledger_def recorded_here undecided_def)
    then show ?thesis using 2 s by (auto simp: Let_def)
  next
    case 3
    then have "sprop sn ''status'' = Some ''running''" by (rule st) simp
    then show ?thesis using "3.IH" [OF refl refl] by (auto intro!: follows_Cons simp: undecided_def Let_def)
  next
    case other
    then show ?thesis by (auto intro!: follows_unknown simp: Let_def status_def)
  qed
qed (simp add: follows_unknown)


end
