(* ===== verification/RemoteHost.thy ===== *)
theory RemoteHost
  imports RemoteClient PathPolicy StdioSessions
begin

text \<open>
  \<^verbatim>\<open>src/remote-extension/extension.ts\<close>: the entry point of the remote side. \<open>executeRequest\<close> checks a request and
  decides what is done with it: an answer, an operation of the ledger, the end of everything that runs for
  a workspace, or a call of an executor, which for a command goes through the ledger. The ledger, the
  background tasks and the stdio sessions have theories of their own. The editor, the home directory and
  the digest are parameters.
\<close>

section \<open>Requests\<close>

record host_request =
  hq_id :: string
  hq_host :: string
  hq_root :: string
  hq_operation :: string
  hq_params :: "json option"
  hq_timeout :: int
  hq_max_output :: int

record host_env =
  he_remote :: "string option"
  he_folders :: "(string \<times> string) list"
  he_home :: string

definition protocol :: "string \<Rightarrow> bridge_error + 'a" where
  "protocol msg = throw PROTOCOL_MISMATCH msg"

definition host_record :: "json option \<Rightarrow> string \<Rightarrow> bridge_error + jobj" where
  "host_record v name =
     (case as_record v of None \<Rightarrow> protocol (name @ '' must be an object'') | Some ob \<Rightarrow> Inr ob)"

definition host_string :: "json option \<Rightarrow> string \<Rightarrow> bridge_error + string" where
  "host_string v name =
     (case as_string v of None \<Rightarrow> protocol (name @ '' must be a string'') | Some s \<Rightarrow> Inr s)"

definition host_key :: "json option \<Rightarrow> bridge_error + string" where
  "host_key v =
     bind_res (host_string v ''params.idempotencyKey'') (\<lambda>k.
     if k = [] \<or> length k > 256 \<or> NUL \<in> set k
     then protocol ''params.idempotencyKey must contain 1 to 256 NUL-free characters'' else Inr k)"

definition host_number :: "json option \<Rightarrow> int \<Rightarrow> string \<Rightarrow> bridge_error + int" where
  "host_number v fallback name =
     (if v = None then Inr fallback
      else (case as_integer v of None \<Rightarrow> protocol (name @ '' must be an integer'') | Some n \<Rightarrow> Inr n))"

definition host_strings :: "json option \<Rightarrow> string \<Rightarrow> bridge_error + string list" where
  "host_strings v name =
     (case (case as_array v of None \<Rightarrow> None | Some vs \<Rightarrow> texts_of vs) of
        None \<Rightarrow> protocol (name @ '' must be a string array'') | Some ss \<Rightarrow> Inr ss)"

definition host_env_value :: "json option \<Rightarrow> string \<Rightarrow> bridge_error + jobj option" where
  "host_env_value v name =
     (if v = None then Inr None
      else
        bind_res (host_record v name) (\<lambda>e.
        case List.find (\<lambda>x. text_of (snd x) = None \<and> snd x \<noteq> JNull) e of
          Some (k, _) \<Rightarrow> protocol (name @ ''.'' @ k @ '' must be a string or null'')
        | None \<Rightarrow> Inr (Some e)))"

definition check_host_request :: "json \<Rightarrow> bridge_error + host_request" where
  "check_host_request v =
     (let ob = fields_of v; policy = (case oget ob ''policy'' of None \<Rightarrow> [] | Some p \<Rightarrow> fields_of p) in
      case (is_record v, sprop ob ''id'', sprop ob ''hostId'', sprop ob ''workspaceRoot'',
            as_integer (oget policy ''commandTimeoutMs''), as_integer (oget policy ''maxOutputBytes'')) of
        (Some _, Some i, Some h, Some w, Some t, Some m) \<Rightarrow>
          if sprop ob ''outputCommand'' \<noteq> Some output_command then protocol ''Invalid remote executor request''
          else Inr \<lparr>hq_id = i, hq_host = h, hq_root = w,
            hq_operation = (case sprop ob ''operation'' of None \<Rightarrow> [] | Some s \<Rightarrow> s),
            hq_params = oget ob ''params'', hq_timeout = t, hq_max_output = m\<rparr>
      | _ \<Rightarrow> protocol ''Invalid remote executor request'')"

definition validate_workspace :: "host_env \<Rightarrow> host_request \<Rightarrow> bridge_error + unit" where
  "validate_workspace env rq =
     (if he_remote env \<noteq> Some ''ssh-remote''
      then throw REMOTE_TRANSPORT_DISCONNECTED ''Codex Bridge executor is not running in a Remote SSH extension host''
      else if \<not> list_ex (\<lambda>(scheme, path). matches_remote_workspace_root scheme path (hq_root rq)) (he_folders env)
      then throw_with PATH_OUTSIDE_ROOT ''Executor request does not match an open Remote SSH workspace root''
        [(''workspaceRoot'', JStr (hq_root rq))]
      else Inr ())"

section \<open>Keys\<close>

definition workspace_key :: "host_request \<Rightarrow> string" where
  "workspace_key rq = hq_host rq @ [NUL] @ hq_root rq"

definition operation_key :: "host_request \<Rightarrow> string \<Rightarrow> string" where
  "operation_key rq i = hq_host rq @ [NUL] @ hq_root rq @ [NUL] @ i"

definition executor_key :: "host_request \<Rightarrow> string \<Rightarrow> string" where
  "executor_key rq root = workspace_key rq @ [NUL] @ root"

definition operation_fingerprint :: "(json \<Rightarrow> string) \<Rightarrow> (string \<Rightarrow> string \<Rightarrow> bool) \<Rightarrow> host_request \<Rightarrow> string" where
  "operation_fingerprint digest le rq =
     digest (canonical_value le (JObj
       [(''params'', JObj (jm_del (case hq_params rq of None \<Rightarrow> [] | Some p \<Rightarrow> fields_of p) ''idempotencyKey'')),
        (''policy'', JObj [(''commandTimeoutMs'', JInt (hq_timeout rq)), (''maxOutputBytes'', JInt (hq_max_output rq))])]))"

section \<open>Executors\<close>

text \<open>An executor is what the configuration says it was made from.\<close>

type_synonym executors = "(string, bridge_config) jsmap"

definition host_config :: "host_request \<Rightarrow> string \<Rightarrow> json" where
  "host_config rq root = JObj
     [(''version'', JInt 2), (''host'', JStr (hq_host rq)), (''workspaceRoot'', JStr root),
      (''roots'', JArr [json_of_root (default_primary_root root)]), (''connectionMode'', JStr ''vscode-remote''),
      (''localExecution'', JStr ''deny''), (''remoteHelper'', JStr ''vscode-extension''), (''sshExecutable'', JStr ''ssh''),
      (''remoteMcpRouting'', JStr ''local''), (''remoteMcpAccess'', JStr ''enabled''),
      (''commandTimeoutMs'', JInt (hq_timeout rq)), (''maxOutputBytes'', JInt (hq_max_output rq)),
      (''maxParallelReads'', JInt 8), (''maxParallelWrites'', JInt 1), (''connectTimeoutSeconds'', JInt 10)]"

definition params_field :: "host_request \<Rightarrow> string \<Rightarrow> json option" where
  "params_field rq k = oget (case hq_params rq of None \<Rightarrow> [] | Some p \<Rightarrow> fields_of p) k"

definition executor_for :: "host_env \<Rightarrow> host_request \<Rightarrow> executors \<Rightarrow> executors \<times> (bridge_error + bridge_config)" where
  "executor_for env rq exs =
     (case bind_res (validate_workspace env rq) (\<lambda>_.
             remote_execution_root (hq_root rq) (params_field rq ''scopeRoot'') (he_home env)) of
        Inl e \<Rightarrow> (exs, Inl e)
      | Inr root \<Rightarrow>
          (case jm_get exs (executor_key rq root) of
             Some c \<Rightarrow> (exs, Inr c)
           | None \<Rightarrow>
               (case parse_bridge_config (host_config rq root) of
                  Inl e \<Rightarrow> (exs, Inl e)
                | Inr c \<Rightarrow> (jm_set exs (executor_key rq root) c, Inr c))))"

section \<open>Dispatch\<close>

record host_start =
  hs_argv :: "string list"
  hs_cwd :: "string option"
  hs_env :: "jobj option"
  hs_id :: string
  hs_timeout :: "int option"

record host_exec =
  hx_argv :: "string list"
  hx_cwd :: "string option"
  hx_env :: "jobj option"
  hx_timeout :: "json option"
  hx_side_effect :: bool
  hx_stdin :: "byte list option"

datatype host_call =
    HostStart host_start
  | HostStatus string
  | HostLog string int int
  | HostCancel string
  | HostProbe
  | HostCanonicalPath string
  | HostReadFile string "int option"
  | HostListDirectory string
  | HostListTree string int int
  | HostSearch string "string list" int
  | HostExecute host_exec
  | HostStdioStart stdio_start
  | HostStdioWrite string string int
  | HostStdioEnd string
  | HostStdioStop string
  | HostNothing

definition frame_bytes :: "host_request \<Rightarrow> int" where
  "frame_bytes rq = min (hq_max_output rq) (256 * 1024)"

definition optional_text :: "json option \<Rightarrow> string \<Rightarrow> bridge_error + string option" where
  "optional_text v name =
     (if nullish v then Inr None else bind_res (host_string v name) (\<lambda>s. Inr (Some s)))"

definition start_call_of :: "jobj \<Rightarrow> bridge_error + host_call" where
  "start_call_of params =
     bind_res (host_env_value (oget params ''env'') ''params.env'') (\<lambda>env.
     bind_res (host_strings (oget params ''argv'') ''params.argv'') (\<lambda>argv.
     bind_res (host_string (oget params ''taskId'') ''params.taskId'') (\<lambda>i.
     bind_res (if is_number (oget params ''timeoutMs'')
               then bind_res (host_number (oget params ''timeoutMs'') (60 * 60000) ''params.timeoutMs'') (\<lambda>t. Inr (Some t))
               else Inr None) (\<lambda>timeout.
     Inr (HostStart \<lparr>hs_argv = argv, hs_cwd = sprop params ''cwd'', hs_env = env, hs_id = i, hs_timeout = timeout\<rparr>)))))"

definition read_call_of :: "jobj \<Rightarrow> bridge_error + host_call" where
  "read_call_of params =
     bind_res (host_string (oget params ''path'') ''params.path'') (\<lambda>p.
     bind_res (if oget params ''limitBytes'' = None then Inr None
               else bind_res (host_number (oget params ''limitBytes'') 0 ''params.limitBytes'') (\<lambda>n. Inr (Some n))) (\<lambda>n.
     Inr (HostReadFile p n)))"

definition search_call_of :: "jobj \<Rightarrow> bridge_error + host_call" where
  "search_call_of params =
     bind_res (case as_array (oget params ''paths'') of
         None \<Rightarrow> Inr [''.'']
       | Some vs \<Rightarrow> (case texts_of vs of None \<Rightarrow> protocol ''params.paths[] must be a string'' | Some ps \<Rightarrow> Inr ps)) (\<lambda>ps.
     bind_res (host_string (oget params ''query'') ''params.query'') (\<lambda>q.
     bind_res (host_number (oget params ''maxResults'') 200 ''params.maxResults'') (\<lambda>n.
     Inr (HostSearch q ps n))))"

definition tree_call_of :: "jobj \<Rightarrow> bridge_error + host_call" where
  "tree_call_of params =
     bind_res (host_string (oget params ''path'') ''params.path'') (\<lambda>p.
     bind_res (host_number (oget params ''depth'') 2 ''params.depth'') (\<lambda>d.
     bind_res (host_number (oget params ''maxEntries'') 400 ''params.maxEntries'') (\<lambda>n.
     Inr (HostListTree p d n))))"

definition log_call_of :: "jobj \<Rightarrow> bridge_error + host_call" where
  "log_call_of params =
     bind_res (host_string (oget params ''taskId'') ''params.taskId'') (\<lambda>i.
     bind_res (host_number (oget params ''cursor'') 0 ''params.cursor'') (\<lambda>n.
     bind_res (host_number (oget params ''limitBytes'') (256 * 1024) ''params.limitBytes'') (\<lambda>m.
     Inr (HostLog i n m))))"

definition exec_call_of :: "jobj \<Rightarrow> bridge_error + host_call" where
  "exec_call_of params =
     (case as_array (oget params ''argv'') of
        None \<Rightarrow> protocol ''params.argv must be an array''
      | Some vs \<Rightarrow>
          (case texts_of vs of
             None \<Rightarrow> protocol ''params.argv[] must be a string''
           | Some argv \<Rightarrow>
               bind_res (if oget params ''options'' = None then Inr [] else host_record (oget params ''options'') ''params.options'')
                 (\<lambda>options.
               bind_res (if oget options ''stdinBase64'' = None then Inr None
                 else bind_res (host_string (oget options ''stdinBase64'') ''params.options.stdinBase64'') (\<lambda>s.
                   bind_res (decode_workspace_content (Some s) (1024 * 1024)) (\<lambda>b. Inr (Some b)))) (\<lambda>stdin.
               Inr (HostExecute \<lparr>hx_argv = argv, hx_cwd = sprop options ''cwd'', hx_env = rprop options ''env'',
                 hx_timeout = (if is_number (oget options ''timeoutMs'') then oget options ''timeoutMs'' else None),
                 hx_side_effect = (oget options ''sideEffect'' = Some (JBool True)), hx_stdin = stdin\<rparr>)))))"

definition stdio_call_of :: "host_request \<Rightarrow> jobj \<Rightarrow> bridge_error + host_call" where
  "stdio_call_of rq params =
     bind_res (optional_text (oget params ''adapterId'') ''params.adapterId'') (\<lambda>adapter.
     bind_res (host_strings (oget params ''args'') ''params.args'') (\<lambda>args.
     bind_res (host_string (oget params ''executable'') ''params.executable'') (\<lambda>executable.
     bind_res (optional_text (oget params ''serverName'') ''params.serverName'') (\<lambda>name.
     Inr (HostStdioStart \<lparr>st_adapter = adapter, st_args = args, st_executable = executable, st_id = hq_id rq,
       st_frame = frame_bytes rq, st_server = name, st_root = hq_root rq\<rparr>)))))"

definition path_call_of :: "(string \<Rightarrow> host_call) \<Rightarrow> jobj \<Rightarrow> string \<Rightarrow> bridge_error + host_call" where
  "path_call_of f params k = bind_res (host_string (oget params k) (''params.'' @ k)) (\<lambda>p. Inr (f p))"

text \<open>An operation the switch does not know is answered with nothing.\<close>

definition dispatch_host :: "host_request \<Rightarrow> bridge_error + host_call" where
  "dispatch_host rq =
     bind_res (host_record (hq_params rq) ''params'') (\<lambda>params.
     let op = hq_operation rq in
     if op = ''backgroundStart'' then start_call_of params
     else if op = ''backgroundStatus'' then path_call_of HostStatus params ''taskId''
     else if op = ''backgroundLog'' then log_call_of params
     else if op = ''backgroundCancel'' then path_call_of HostCancel params ''taskId''
     else if op = ''probe'' then Inr HostProbe
     else if op = ''canonicalPath'' then path_call_of HostCanonicalPath params ''path''
     else if op = ''readFile'' then read_call_of params
     else if op = ''listDirectory'' then path_call_of HostListDirectory params ''path''
     else if op = ''listTree'' then tree_call_of params
     else if op = ''search'' then search_call_of params
     else if op = ''execute'' then exec_call_of params
     else if op = ''stdioStart'' then stdio_call_of rq params
     else if op = ''stdioWrite'' then path_call_of (\<lambda>c. HostStdioWrite (hq_id rq) c (frame_bytes rq)) params ''chunk''
     else if op = ''stdioEnd'' then Inr (HostStdioEnd (hq_id rq))
     else if op = ''stdioStop'' then Inr (HostStdioStop (hq_id rq))
     else if op = ''cancel'' \<or> op = ''resultStatus''
     then protocol ''Operation control requests must be handled before operation dispatch''
     else Inr HostNothing)"

section \<open>A request from its check to what is done\<close>

text \<open>
  A direct call is run with the executor; a tracked one is given to the ledger under its key, its
  operation and its fingerprint, and dispatched when the ledger runs it. The end of a workspace names the
  prefix of the keys of its operations and its root.
\<close>

datatype host_action =
    RefuseRequest bridge_error
  | CancelOperation string string
  | ReportStatus string
  | StopWorkspace string string
  | RunDirect bridge_config host_call
  | RunTracked bridge_config string string string "bridge_error + host_call"

definition close_workspace :: "host_request \<Rightarrow> executors \<Rightarrow> executors" where
  "close_workspace rq exs = filter (\<lambda>(k, c). \<not> starts_with k (workspace_key rq @ [NUL])) exs"

definition refuse_or :: "bridge_error + host_action \<Rightarrow> host_action" where
  "refuse_or r = (case r of Inl e \<Rightarrow> RefuseRequest e | Inr a \<Rightarrow> a)"

definition cancel_action :: "host_env \<Rightarrow> host_request \<Rightarrow> bridge_error + host_action" where
  "cancel_action env rq =
     bind_res (validate_workspace env rq) (\<lambda>_.
     bind_res (host_record (hq_params rq) ''params'') (\<lambda>params.
     bind_res (host_string (oget params ''operationId'') ''params.operationId'') (\<lambda>i.
     Inr (CancelOperation (operation_key rq i) i))))"

definition status_action :: "host_env \<Rightarrow> host_request \<Rightarrow> bridge_error + host_action" where
  "status_action env rq =
     bind_res (validate_workspace env rq) (\<lambda>_.
     bind_res (host_record (hq_params rq) ''params'') (\<lambda>params.
     bind_res (host_key (oget params ''idempotencyKey'')) (\<lambda>k.
     Inr (ReportStatus (operation_key rq k)))))"

definition run_action ::
  "(json \<Rightarrow> string) \<Rightarrow> (string \<Rightarrow> string \<Rightarrow> bool) \<Rightarrow> host_request \<Rightarrow> bridge_config \<Rightarrow> bridge_error + host_action" where
  "run_action digest le rq c =
     (if hq_operation rq \<noteq> ''execute'' then bind_res (dispatch_host rq) (\<lambda>call. Inr (RunDirect c call))
      else
        bind_res (host_record (hq_params rq) ''params'') (\<lambda>params.
        bind_res (host_key (oget params ''idempotencyKey'')) (\<lambda>k.
        Inr (RunTracked c (operation_key rq k) (operation_key rq (hq_id rq)) (operation_fingerprint digest le rq)
          (dispatch_host rq)))))"

definition execute_request ::
  "(json \<Rightarrow> string) \<Rightarrow> (string \<Rightarrow> string \<Rightarrow> bool) \<Rightarrow> host_env \<Rightarrow> json \<Rightarrow> executors \<Rightarrow> executors \<times> host_action" where
  "execute_request digest le env v exs =
     (case check_host_request v of
        Inl e \<Rightarrow> (exs, RefuseRequest e)
      | Inr rq \<Rightarrow>
          if hq_operation rq = ''cancel'' then (exs, refuse_or (cancel_action env rq))
          else if hq_operation rq = ''resultStatus'' then (exs, refuse_or (status_action env rq))
          else if hq_operation rq = ''workspaceStop''
          then (case validate_workspace env rq of
              Inl e \<Rightarrow> (exs, RefuseRequest e)
            | Inr _ \<Rightarrow> (close_workspace rq exs, StopWorkspace (workspace_key rq @ [NUL]) (hq_root rq)))
          else
            (case executor_for env rq exs of
               (exs', Inl e) \<Rightarrow> (exs', RefuseRequest e)
             | (exs', Inr c) \<Rightarrow> (exs', refuse_or (run_action digest le rq c))))"

section \<open>Authority of the remote side\<close>

text \<open>Every executor that is kept was made for the root its key names.\<close>

definition executors_ok :: "executors \<Rightarrow> bool" where
  "executors_ok exs \<longleftrightarrow>
     (\<forall>k c. jm_get exs k = Some c \<longrightarrow> (\<exists>h w. k = h @ [NUL] @ w @ [NUL] @ bc_workspace_root c) \<and> config_ok c)"

lemma jm_get_filter_keys: "jm_get (filter (\<lambda>(k, v). P k) m) k = (if P k then jm_get m k else None)"
  by (induction m) (auto simp: jm_get_Cons jm_get_def)

lemma parsed_root_path:
  assumes "parse_workspace_root (JObj ob) i = Inr r"
  shows "oget ob ''path'' = Some (JStr (wr_path r))"
proof -
  from assms obtain remote name b p where
    "(if remote then normalized_remote_root (oget ob ''path'') name else normalized_local_root (oget ob ''path'') name b) = Inr p"
    "wr_path r = p"
    unfolding parse_workspace_root_def Let_def by auto
  then show ?thesis by (cases remote) (simp_all add: parse_Inr)
qed

lemma host_config_parsed:
  assumes "parse_bridge_config (host_config rq root) = Inr c"
  shows "config_ok c \<and> bc_workspace_root c = root \<and> bc_host c = trim (hq_host rq) \<and>
    bc_command_timeout c = hq_timeout rq \<and> bc_max_output c = hq_max_output rq"
proof -
  define input where "input = (case host_config rq root of JObj ob \<Rightarrow> ob | _ \<Rightarrow> [])"
  have input: "host_config rq root = JObj input" by (simp add: input_def host_config_def)
  have fields: "oget input ''version'' = Some (JInt 2)" "oget input ''host'' = Some (JStr (hq_host rq))"
    "oget input ''roots'' = Some (JArr [json_of_root (default_primary_root root)])"
    "oget input ''commandTimeoutMs'' = Some (JInt (hq_timeout rq))" "oget input ''maxOutputBytes'' = Some (JInt (hq_max_output rq))"
    by (simp_all add: input_def host_config_def oget_Cons')
  from assms obtain v2 u where p: "parse_version input = Inr v2" "parse_host input = Inr (bc_host c)"
    "parse_workspace_roots input v2 = Inr (bc_roots c, bc_workspace_root c)"
    "parse_limits input = Inr (bc_command_timeout c, bc_max_output c, bc_max_reads c, bc_connect_timeout c)"
    unfolding parse_bridge_config_Inr input by (elim exE conjE) simp
  have v2: "v2" using parse_version_Inr [OF p(1)] fields by simp
  have one: "wr_path r = root" if "parse_workspace_root (json_of_root (default_primary_root root)) 0 = Inr r" for r
    using parsed_root_path [OF that [unfolded json_of_root_def]]
    by (simp add: oget_Cons' default_primary_root_def remote_primary_root_def)
  have roots: "bc_workspace_root c = root"
  proof -
    from p(3) v2 obtain r where r: "bc_roots c = [r]" "primary_path (bc_roots c) = Some (bc_workspace_root c)"
      "parse_workspace_root (json_of_root (default_primary_root root)) 0 = Inr r"
      by (auto simp: parse_workspace_roots_v2 fields) (metis)+
    then show ?thesis using one [OF r(3)] by (auto simp: primary_path_def split: if_splits)
  qed
  have "config_ok c" using p(3) v2 parsed_settings_ok [OF assms] parse_workspace_roots_ok by (auto simp: config_ok_def)
  moreover have "bc_host c = trim (hq_host rq)" using p(2) by (auto simp: parse_host_def fields parse_Inr)
  moreover have "bc_command_timeout c = hq_timeout rq \<and> bc_max_output c = hq_max_output rq"
    using p(4) by (auto simp: parse_limits_def fields parse_Inr nullish_def)
  ultimately show ?thesis using roots by simp
qed

lemma executors_ok_empty: "executors_ok []"
  by (simp add: executors_ok_def)

lemma close_workspace_get:
  "jm_get (close_workspace rq exs) k = (if starts_with k (workspace_key rq @ [NUL]) then None else jm_get exs k)"
  using jm_get_filter_keys [of "\<lambda>k. \<not> starts_with k (workspace_key rq @ [NUL])" exs k]
  by (simp add: close_workspace_def)

lemma close_workspace_ok: "executors_ok exs \<Longrightarrow> executors_ok (close_workspace rq exs)"
  by (simp add: executors_ok_def close_workspace_get)

text \<open>The executor that is found or made for a request, and its key.\<close>

lemma executor_for_cases:
  assumes "executor_for env rq exs = (exs', r)"
  obtains (refused) e where "exs' = exs" "r = Inl e"
  | (found) root c where "validate_workspace env rq = Inr ()"
      "remote_execution_root (hq_root rq) (params_field rq ''scopeRoot'') (he_home env) = Inr root"
      "jm_get exs (executor_key rq root) = Some c" "exs' = exs" "r = Inr c"
  | (made) root c where "validate_workspace env rq = Inr ()"
      "remote_execution_root (hq_root rq) (params_field rq ''scopeRoot'') (he_home env) = Inr root"
      "parse_bridge_config (host_config rq root) = Inr c" "exs' = jm_set exs (executor_key rq root) c" "r = Inr c"
proof (cases "validate_workspace env rq")
  case (Inl e)
  then have "exs' = exs" "r = Inl e" using assms by (simp_all add: executor_for_def)
  then show thesis by (rule refused)
next
  case valid: (Inr u)
  show thesis
  proof (cases "remote_execution_root (hq_root rq) (params_field rq ''scopeRoot'') (he_home env)")
    case (Inl e)
    then have "exs' = exs" "r = Inl e" using assms valid by (simp_all add: executor_for_def)
    then show thesis by (rule refused)
  next
    case root: (Inr root)
    show thesis
    proof (cases "jm_get exs (executor_key rq root)")
      case (Some c)
      then have "exs' = exs" "r = Inr c" using assms valid root by (simp_all add: executor_for_def)
      then show thesis using found [OF _ root Some] valid by simp
    next
      case none: None
      show thesis
      proof (cases "parse_bridge_config (host_config rq root)")
        case (Inl e)
        then have "exs' = exs" "r = Inl e" using assms valid root none by (simp_all add: executor_for_def)
        then show thesis by (rule refused)
      next
        case (Inr c)
        then have "exs' = jm_set exs (executor_key rq root) c" "r = Inr c"
          using assms valid root none by (simp_all add: executor_for_def)
        then show thesis using made [OF _ root Inr] valid by simp
      qed
    qed
  qed
qed

lemma executor_for_ok:
  assumes "executors_ok exs" "executor_for env rq exs = (exs', r)"
  shows "executors_ok exs'"
  using assms(2)
proof (cases rule: executor_for_cases)
  case (made root c)
  have "\<exists>h w. executor_key rq root = h @ [NUL] @ w @ [NUL] @ bc_workspace_root c"
    using host_config_parsed [OF made(3)] by (auto simp: executor_key_def workspace_key_def)
  then show ?thesis using assms(1) made host_config_parsed [OF made(3)] by (auto simp: executors_ok_def)
qed (use assms(1) in simp_all)

lemma execute_request_ok:
  assumes "executors_ok exs" "execute_request digest le env v exs = (exs', a)"
  shows "executors_ok exs'"
proof (cases "check_host_request v")
  case (Inl e)
  then show ?thesis using assms by (simp add: execute_request_def)
next
  case (Inr rq)
  obtain exs1 r where ex: "executor_for env rq exs = (exs1, r)" by fastforce
  have "exs' = exs \<or> exs' = close_workspace rq exs \<or> exs' = exs1"
    using assms(2) Inr ex by (auto simp: execute_request_def split: if_splits sum.splits)
  then show ?thesis using assms(1) executor_for_ok [OF assms(1) ex] close_workspace_ok by auto
qed

text \<open>What the remote side has served.\<close>

fun host_run ::
  "(json \<Rightarrow> string) \<Rightarrow> (string \<Rightarrow> string \<Rightarrow> bool) \<Rightarrow> (host_env \<times> json) list \<Rightarrow> executors \<Rightarrow> executors" where
  "host_run digest le [] exs = exs"
| "host_run digest le ((env, v) # es) exs = host_run digest le es (fst (execute_request digest le env v exs))"

lemma host_run_ok: "executors_ok exs \<Longrightarrow> executors_ok (host_run digest le es exs)"
  by (induction digest le es exs rule: host_run.induct) (auto intro: execute_request_ok [OF _ prod.collapse [symmetric]])

fun action_executor :: "host_action \<Rightarrow> bridge_config option" where
  "action_executor (RunDirect c call) = Some c"
| "action_executor (RunTracked c k op fp call) = Some c"
| "action_executor _ = None"

lemma last_segment:
  assumes "a @ [NUL] @ b = a' @ [NUL] @ b'" "NUL \<notin> set b" "NUL \<notin> set b'"
  shows "b = b'"
proof -
  have tw: "takeWhile (\<lambda>x. x \<noteq> NUL) (rev b @ NUL # xs) = rev b" if "NUL \<notin> set b" for b :: string and xs
    using that by (subst takeWhile_append2) auto
  have "rev b @ NUL # rev a = rev b' @ NUL # rev a'" using assms(1) by (metis append.assoc append_Cons append_Nil rev.simps(2) rev_append)
  then have "rev b = rev b'" using tw [OF assms(2)] tw [OF assms(3)] by metis
  then show ?thesis by simp
qed

lemma action_executor_found:
  assumes "check_host_request v = Inr rq" "execute_request digest le env v exs = (exs', a)" "action_executor a = Some c"
  shows "executor_for env rq exs = (exs', Inr c)"
proof -
  have refuse: "action_executor (refuse_or r) = None" if "\<And>x. r = Inr x \<Longrightarrow> action_executor x = None" for r
    using that by (cases r) (simp_all add: refuse_or_def)
  have cancel: "action_executor (refuse_or (cancel_action env rq)) = None"
    "action_executor (refuse_or (status_action env rq)) = None"
    by (rule refuse, auto simp: cancel_action_def status_action_def)+
  obtain exs1 r where ex: "executor_for env rq exs = (exs1, r)" by fastforce
  have run: "action_executor (refuse_or (run_action digest le rq d)) = Some c \<Longrightarrow> d = c" for d
    by (cases "run_action digest le rq d")
      (auto simp: refuse_or_def run_action_def split: if_splits)
  show ?thesis
    using assms cancel ex run
    by (cases r) (auto simp: execute_request_def split: if_splits sum.splits)
qed

lemma validate_workspace_Inr:
  "validate_workspace env rq = Inr u \<longleftrightarrow> he_remote env = Some ''ssh-remote'' \<and>
     list_ex (\<lambda>(scheme, path). matches_remote_workspace_root scheme path (hq_root rq)) (he_folders env)"
  by (simp add: validate_workspace_def)

lemma execution_root_cases:
  "remote_execution_root ws scope home = Inr root \<Longrightarrow>
   scope = None \<and> root = ws \<or> scope = Some (JStr home) \<and> root = home \<and> home \<noteq> ''/''"
  by (auto simp: remote_execution_root_def split: option.splits if_splits)

lemma config_root_plain: "config_ok c \<Longrightarrow> NUL \<notin> set (bc_workspace_root c)"
  using primary_path_ok [of "bc_roots c" "bc_workspace_root c"]
  by (auto simp: config_ok_def workspace_roots_ok_def remote_path_ok_def plain_text_def)

text \<open>C9. Whatever requests the remote side has served before, it runs a call only in a window that is connected over SSH, with
  an executor whose root is either the root that the request names, which then is a folder that is open
  in that window, or, when the request asks for exactly that, the home directory of the user, unless that is the root of the
  file system; and the configuration of the executor is valid.
\<close>

theorem host_stays_within_roots:
  assumes request: "check_host_request v = Inr rq"
    and paths: "NUL \<notin> set (hq_root rq)" "NUL \<notin> set (he_home env)"
    and run: "execute_request digest le env v (host_run digest le served []) = (exs', a)" "action_executor a = Some c"
  shows "he_remote env = Some ''ssh-remote'' \<and>
    list_ex (\<lambda>(scheme, path). matches_remote_workspace_root scheme path (hq_root rq)) (he_folders env) \<and> config_ok c \<and>
    (bc_workspace_root c = hq_root rq \<or>
     params_field rq ''scopeRoot'' = Some (JStr (he_home env)) \<and> bc_workspace_root c = he_home env \<and> he_home env \<noteq> ''/'')"
proof -
  let ?exs = "host_run digest le served []"
  have ok: "executors_ok ?exs" by (rule host_run_ok [OF executors_ok_empty])
  have "executor_for env rq ?exs = (exs', Inr c)" by (rule action_executor_found [OF request run])
  then obtain root where root: "validate_workspace env rq = Inr ()"
    "remote_execution_root (hq_root rq) (params_field rq ''scopeRoot'') (he_home env) = Inr root"
    and c: "config_ok c \<and> bc_workspace_root c = root"
  proof (cases rule: executor_for_cases)
    case (found root d)
    then obtain h w where k: "executor_key rq root = h @ [NUL] @ w @ [NUL] @ bc_workspace_root d" and d: "config_ok d"
      using ok [unfolded executors_ok_def, rule_format, OF found(3)] by blast
    have "NUL \<notin> set root" using execution_root_cases [OF found(2)] paths by auto
    moreover have "workspace_key rq @ [NUL] @ root = (h @ [NUL] @ w) @ [NUL] @ bc_workspace_root d"
      using k by (simp add: executor_key_def)
    ultimately have "root = bc_workspace_root d" using last_segment config_root_plain [OF d] by blast
    then show thesis using that found d by simp
  next
    case (made root d)
    then show thesis using that host_config_parsed [OF made(3)] by simp
  qed simp
  then show ?thesis using execution_root_cases [OF root(2)] by (auto simp: validate_workspace_Inr)
qed

text \<open>An executor of the remote side keeps the limits of the first request it was made for: a later request for the same
  workspace and the same scope is run by that executor, with the old limit of time and of
  output, although the policy it carries is part of what identifies the operation.
\<close>

theorem first_policy_kept:
  assumes first: "executor_for env rq exs = (exs', Inr c)"
    and same: "hq_host later = hq_host rq" "hq_root later = hq_root rq"
      "params_field later ''scopeRoot'' = params_field rq ''scopeRoot''"
  shows "executor_for env later exs' = (exs', Inr c)"
proof -
  have valid: "validate_workspace env later = validate_workspace env rq" by (simp add: validate_workspace_def same)
  have key: "executor_key later root = executor_key rq root" for root by (simp add: executor_key_def workspace_key_def same)
  show ?thesis using first
    by (cases rule: executor_for_cases) (simp_all add: executor_for_def valid key same)
qed

lemma segment_unique:
  "NUL \<notin> set a \<Longrightarrow> NUL \<notin> set a' \<Longrightarrow> a @ NUL # b = a' @ NUL # b' \<Longrightarrow> a = a' \<and> b = b'"
proof (induction a arbitrary: a')
  case Nil
  then show ?case by (cases a') auto
next
  case (Cons x a)
  then show ?case by (cases a') auto
qed

definition plain_names :: "host_request \<Rightarrow> bool" where
  "plain_names rq \<longleftrightarrow> NUL \<notin> set (hq_host rq) \<and> NUL \<notin> set (hq_root rq)"

definition same_workspace :: "host_request \<Rightarrow> host_request \<Rightarrow> bool" where
  "same_workspace rq rq' \<longleftrightarrow> hq_host rq = hq_host rq' \<and> hq_root rq = hq_root rq'"

lemma key_in_workspace:
  assumes "plain_names rq" "plain_names rq'"
  shows "starts_with (workspace_key rq' @ [NUL] @ x) (workspace_key rq @ [NUL]) \<longleftrightarrow> same_workspace rq rq'"
proof
  assume "starts_with (workspace_key rq' @ [NUL] @ x) (workspace_key rq @ [NUL])"
  then obtain y where "workspace_key rq' @ [NUL] @ x = (workspace_key rq @ [NUL]) @ y"
    unfolding starts_with_def by (metis append_take_drop_id)
  then have "hq_host rq' @ NUL # (hq_root rq' @ NUL # x) = hq_host rq @ NUL # (hq_root rq @ NUL # y)"
    by (simp add: workspace_key_def)
  then show "same_workspace rq rq'"
    using assms segment_unique unfolding plain_names_def same_workspace_def by metis
next
  assume "same_workspace rq rq'"
  then have "workspace_key rq' @ [NUL] @ x = (workspace_key rq @ [NUL]) @ x"
    by (simp add: workspace_key_def same_workspace_def)
  then show "starts_with (workspace_key rq' @ [NUL] @ x) (workspace_key rq @ [NUL])" by (metis starts_with_append)
qed

text \<open>The end of a workspace ends what belongs to it and nothing else: of all executors and operations, whatever their
  scope and identifier are, exactly those are removed whose host and root are those of the request, also when the
  path of one workspace is the beginning of the path of another.
\<close>

theorem workspace_stop_exact:
  assumes "plain_names rq" "plain_names other"
  shows "jm_get (close_workspace rq exs) (executor_key other root) =
      (if same_workspace rq other then None else jm_get exs (executor_key other root)) \<and>
    starts_with (operation_key other i) (workspace_key rq @ [NUL]) = same_workspace rq other"
proof -
  have "operation_key other i = workspace_key other @ [NUL] @ i" by (simp add: operation_key_def workspace_key_def)
  then show ?thesis using key_in_workspace [OF assms] by (simp add: close_workspace_get executor_key_def)
qed

section \<open>From the agent to the remote side\<close>

text \<open>What the window hands to the remote side for an accepted request.\<close>

definition command_json :: "exec_request \<Rightarrow> json" where
  "command_json er = JObj
     [(''hostId'', JStr (er_host er)), (''id'', JStr (er_id er)), (''operation'', JStr (er_operation er)),
      (''outputCommand'', JStr output_command), (''params'', JObj (er_params er)),
      (''policy'', JObj [(''commandTimeoutMs'', JInt (er_timeout er)), (''maxOutputBytes'', JInt (er_max_output er))]),
      (''workspaceRoot'', JStr (er_root er))]"

definition host_request_of :: "exec_request \<Rightarrow> host_request" where
  "host_request_of er =
     \<lparr>hq_id = er_id er, hq_host = er_host er, hq_root = er_root er, hq_operation = er_operation er,
      hq_params = Some (JObj (er_params er)), hq_timeout = er_timeout er, hq_max_output = er_max_output er\<rparr>"

lemma command_checked: "check_host_request (command_json er) = Inr (host_request_of er)"
  by (simp add: check_host_request_def command_json_def host_request_of_def oget_Cons')

fun env_entries_json :: "(string \<times> string option) list \<Rightarrow> jobj" where
  "env_entries_json es = map (\<lambda>(k, v). (k, case v of None \<Rightarrow> JNull | Some s \<Rightarrow> JStr s)) es"

text \<open>The call of the remote side that each call of the router stands for. A read without a limit is refused
  when half of the limit of output is not an integer.\<close>

fun remote_call :: "int \<Rightarrow> outbound \<Rightarrow> bridge_error + host_call" where
  "remote_call out (Workspace s (CanonicalPath p)) = Inr (HostCanonicalPath p)"
| "remote_call out (Workspace s (ReadFile p n)) =
     (case n of
        Some k \<Rightarrow> Inr (HostReadFile p (Some k))
      | None \<Rightarrow> if even out then Inr (HostReadFile p (Some (out div 2))) else protocol ''params.limitBytes must be an integer'')"
| "remote_call out (Workspace s (ListDirectory p)) = Inr (HostListDirectory p)"
| "remote_call out (Workspace s (ListTree p d n)) = Inr (HostListTree p d n)"
| "remote_call out (Workspace s (Search q ps n)) = Inr (HostSearch q ps n)"
| "remote_call out (Execute s x k) =
     Inr (HostExecute \<lparr>hx_argv = xa_argv x, hx_cwd = xa_cwd x, hx_env = map_option env_entries_json (xa_env x),
       hx_timeout = map_option JInt (xa_timeout x), hx_side_effect = True, hx_stdin = None\<rparr>)"
| "remote_call out (StartTask i x k) =
     Inr (HostStart \<lparr>hs_argv = xa_argv x, hs_cwd = xa_cwd x, hs_env = map_option env_entries_json (xa_env x), hs_id = i,
       hs_timeout = xa_timeout x\<rparr>)"
| "remote_call out (TaskStatus i) = Inr (HostStatus i)"
| "remote_call out (TaskLog i n m) = Inr (HostLog i n m)"
| "remote_call out (CancelTask i) = Inr (HostCancel i)"
| "remote_call out _ = Inr HostNothing"

definition scoped :: "string option \<Rightarrow> jobj \<Rightarrow> jobj" where
  "scoped scope ps = (case scope of None \<Rightarrow> ps | Some s \<Rightarrow> jm_set ps ''scopeRoot'' (JStr s))"

lemma scoped_get: "oget (scoped scope ps) k = (if k = ''scopeRoot'' \<and> scope \<noteq> None then map_option JStr scope else oget ps k)"
  by (simp add: scoped_def split: option.split)

lemma texts_of_strings: "texts_of (map JStr ss) = Some ss"
  by (induction ss) simp_all

lemma exec_fields_get:
  "oget (exec_fields x) k =
     (if k = ''cwd'' then map_option JStr (xa_cwd x) else if k = ''env'' then map_option env_object (xa_env x)
      else if k = ''timeoutMs'' then map_option JInt (xa_timeout x) else None)"
  by (auto simp: exec_fields_def oget_append oget_opt split: option.split)

fun to_window :: "outbound \<Rightarrow> bool" where
  "to_window (ToController operation rid ps) = True"
| "to_window _ = False"

lemma env_checked:
  "host_env_value (map_option env_object e) name = Inr (map_option env_entries_json e)"
proof (cases e)
  case None
  then show ?thesis by (simp add: host_env_value_def)
next
  case (Some es)
  have "List.find (\<lambda>x. text_of (snd x) = None \<and> snd x \<noteq> JNull) (env_entries_json es) = None"
    by (auto simp: find_None_iff split: option.splits)
  then show ?thesis by (simp add: Some host_env_value_def host_record_def env_object_def del: env_entries_json.simps)
     (simp add: env_entries_json.simps)
qed

lemmas host_reads = dispatch_host_def host_record_def path_call_of_def host_string_def host_number_def host_strings_def
  scoped_get oget_Cons' oget_Nil' oget_append texts_of_strings

lemma dispatch_start:
  "start_call_of (scoped scope ([(''argv'', JArr (map JStr (xa_argv x))), (''taskId'', JStr i)] @ exec_fields x)) =
   remote_call out (StartTask i x k)"
  unfolding start_call_of_def
  by (cases "xa_cwd x"; cases "xa_timeout x")
    (simp_all add: env_checked exec_fields_get host_reads texts_of_strings [simplified])

lemma dispatch_exec:
  "exec_call_of (scoped scope [(''argv'', JArr (map JStr (xa_argv x))), (''idempotencyKey'', JStr key),
     (''options'', JObj (exec_fields x @ [(''sideEffect'', JBool True)]))]) = remote_call out (Execute s x k)"
  unfolding exec_call_of_def
  by (cases "xa_cwd x"; cases "xa_timeout x"; cases "xa_env x")
    (simp_all add: exec_fields_get host_reads env_object_def)

lemma dispatch_decodes:
  assumes "remote_params c fresh out = Some (op, ps)" "\<not> to_window out"
    and rq: "hq_operation rq = op" "hq_params rq = Some (JObj (scoped scope ps))"
  shows "dispatch_host rq = remote_call (bc_max_output c) out"
proof (cases out)
  case (Workspace s wc)
  show ?thesis
  proof (cases wc)
    case (ReadFile p n)
    with assms Workspace show ?thesis
      by (cases n) (auto simp: host_reads read_call_of_def half_def protocol_def)
  next
    case (Search q ps' n)
    with assms Workspace show ?thesis by (auto simp: host_reads search_call_of_def)
  qed (use assms Workspace in \<open>auto simp: host_reads tree_call_of_def\<close>)
next
  case (Execute s x k)
  then show ?thesis using assms dispatch_exec [of scope x "exec_key fresh k" "bc_max_output c" s k]
    by (auto simp: dispatch_host_def host_record_def)
next
  case (StartTask i x k)
  then show ?thesis using assms dispatch_start [of scope x i "bc_max_output c" k]
    by (auto simp: dispatch_host_def host_record_def)
next
  case (TaskLog i n m)
  then show ?thesis using assms by (auto simp: host_reads log_call_of_def)
qed (use assms in \<open>auto simp: host_reads\<close>)

text \<open>The line of a client is accepted by the window it names.\<close>

definition serves :: "transport_config \<Rightarrow> remote_client \<Rightarrow> bool" where
  "serves tg rc \<longleftrightarrow>
     tg_mode tg = ''vscode-remote'' \<and> tg_host tg = bc_host (rc_config rc) \<and> tg_root tg = rc_transport_root rc \<and>
     tg_timeout tg = bc_command_timeout (rc_config rc) \<and> tg_max_output tg = bc_max_output (rc_config rc)"

definition scope_of :: "remote_client \<Rightarrow> string option" where
  "scope_of rc =
     (if rc_transport_root rc = bc_workspace_root (rc_config rc) then None else Some (bc_workspace_root (rc_config rc)))"

definition accepted_request :: "remote_client \<Rightarrow> string \<Rightarrow> string \<Rightarrow> jobj \<Rightarrow> exec_request" where
  "accepted_request rc i op ps =
     \<lparr>er_id = ''vscode_'' @ i, er_host = bc_host (rc_config rc), er_root = rc_transport_root rc, er_operation = op,
      er_params = scoped (scope_of rc) ps, er_timeout = bc_command_timeout (rc_config rc),
      er_max_output = bc_max_output (rc_config rc)\<rparr>"

lemma remote_operation: "remote_params c fresh out = Some (op, ps) \<Longrightarrow> \<not> to_window out \<Longrightarrow> op \<in> set request_operations"
  by (induction c fresh out rule: remote_params.induct) (auto simp: request_operations_def)

lemma line_accepted:
  assumes params: "remote_params (rc_config rc) fresh out = Some (op, ps)" "\<not> to_window out"
    and begun: "begin_request rc aborted i op ps = Inr line"
    and window: "serves tg rc" "bc_transport (rc_config rc) = Some (e, s, tp_token tp)"
    and id: "jm_get (tp_pending tp) (''vscode_'' @ i) = None"
  shows "check_line (Some (JObj line)) (Some tg) tp = Inr (accepted_request rc i op ps)"
proof -
  from begun window(2) have line: "line = transport_line rc (tp_token tp) i op ps"
    by (auto simp: begin_request_def split: if_splits)
  have get: "oget line ''hostId'' = Some (JStr (bc_host (rc_config rc)))" "oget line ''id'' = Some (JStr (''vscode_'' @ i))"
    "oget line ''operation'' = Some (JStr op)" "oget line ''outputCommand'' = Some (JStr output_command)"
    "oget line ''params'' = Some (JObj (scoped (scope_of rc) ps))" "oget line ''token'' = Some (JStr (tp_token tp))"
    "oget line ''workspaceRoot'' = Some (JStr (rc_transport_root rc))"
    "oget line ''policy'' = Some (JObj [(''commandTimeoutMs'', JInt (bc_command_timeout (rc_config rc))),
         (''maxOutputBytes'', JInt (bc_max_output (rc_config rc)))])"
    unfolding line transport_line_def by (simp_all add: oget_Cons' scoped_def scope_of_def)
  have "is_transport_request (JObj line)"
    using remote_operation [OF params] get by (simp add: is_transport_request_def has_string_def oget_Cons' oget_Nil')
  then show ?thesis using window(1) id get
    by (simp add: check_line_def str_of_def matches_config_def serves_def request_of_def Let_def accepted_request_def)
qed

text \<open>What the remote side does with a call: a command goes to the ledger, everything else is run at once.\<close>

definition asked_action ::
  "(json \<Rightarrow> string) \<Rightarrow> (string \<Rightarrow> string \<Rightarrow> bool) \<Rightarrow> host_request \<Rightarrow> bridge_config \<Rightarrow> string \<Rightarrow> int \<Rightarrow> outbound \<Rightarrow> host_action" where
  "asked_action digest le rq d fresh limit out =
     (case out of
        Execute s x k \<Rightarrow>
          RunTracked d (operation_key rq (exec_key fresh k)) (operation_key rq (hq_id rq)) (operation_fingerprint digest le rq)
            (remote_call limit out)
      | _ \<Rightarrow> refuse_or (bind_res (remote_call limit out) (\<lambda>call. Inr (RunDirect d call))))"

definition key_fits :: "string \<Rightarrow> outbound \<Rightarrow> bool" where
  "key_fits fresh out \<longleftrightarrow>
     (case out of
        Execute s x k \<Rightarrow>
          exec_key fresh k \<noteq> [] \<and> length (exec_key fresh k) \<le> 256 \<and> NUL \<notin> set (exec_key fresh k)
      | _ \<Rightarrow> True)"

lemma remote_params_operation:
  "remote_params c fresh out = Some (op, ps) \<Longrightarrow> \<not> to_window out \<Longrightarrow>
   op \<notin> {''cancel'', ''resultStatus'', ''workspaceStop''} \<and>
   (op = ''execute'' \<longleftrightarrow> (\<exists>s x k. out = Execute s x k)) \<and>
   (\<forall>s x k. out = Execute s x k \<longrightarrow> oget ps ''idempotencyKey'' = Some (JStr (exec_key fresh k)))"
  by (induction c fresh out rule: remote_params.induct) (auto simp: oget_Cons')

text \<open>C2. The remote side does with a call what the router was asked. The line that the executor of the router writes for a call is
  accepted by the window it names, and from the request that the window hands on, the entry point of the remote side
  reads exactly that call, with its paths, its argument vector, its variables and its
  limits; a command is given to the ledger under the key of the tool call, everything else is run at once. One
  call does not arrive: a read without a limit, when the configured limit of output is odd, is refused.
\<close>

theorem remote_call_arrives:
  assumes params: "remote_params (rc_config rc) fresh out = Some (op, ps)" "\<not> to_window out" "key_fits fresh out"
    and begun: "begin_request rc aborted i op ps = Inr line"
    and window: "serves tg rc" "bc_transport (rc_config rc) = Some (e, s, tp_token tp)"
      "jm_get (tp_pending tp) (''vscode_'' @ i) = None"
    and executor: "executor_for env (host_request_of (accepted_request rc i op ps)) exs = (exs', Inr d)"
  shows "check_line (Some (JObj line)) (Some tg) tp = Inr (accepted_request rc i op ps) \<and>
    execute_request digest le env (command_json (accepted_request rc i op ps)) exs =
      (exs', asked_action digest le (host_request_of (accepted_request rc i op ps)) d fresh (bc_max_output (rc_config rc)) out)"
proof -
  let ?rq = "host_request_of (accepted_request rc i op ps)"
  have rq: "hq_operation ?rq = op" "hq_params ?rq = Some (JObj (scoped (scope_of rc) ps))"
    by (simp_all add: host_request_of_def accepted_request_def)
  note op = remote_params_operation [OF params(1,2), THEN conjunct1]
    and exec = remote_params_operation [OF params(1,2), THEN conjunct2, THEN conjunct1]
    and key = remote_params_operation [OF params(1,2), THEN conjunct2, THEN conjunct2, rule_format]
  note call = dispatch_decodes [OF params(1,2) rq]
  have run: "refuse_or (run_action digest le ?rq d) =
      asked_action digest le ?rq d fresh (bc_max_output (rc_config rc)) out"
  proof (cases "op = ''execute''")
    case True
    with exec obtain t x k where out: "out = Execute t x k" by auto
    have "host_key (oget (scoped (scope_of rc) ps) ''idempotencyKey'') = Inr (exec_key fresh k)"
    proof -
      have "oget ps ''idempotencyKey'' = Some (JStr (exec_key fresh k))" by (rule key [OF out])
      then have "oget (scoped (scope_of rc) ps) ''idempotencyKey'' = Some (JStr (exec_key fresh k))" by (simp add: scoped_get)
      then show ?thesis using params(3) by (simp add: out host_key_def host_string_def key_fits_def)
    qed
    then show ?thesis using call True
      by (simp add: run_action_def rq [unfolded True] host_record_def asked_action_def out refuse_or_def)
  next
    case False
    with exec have "\<not> (\<exists>t x k. out = Execute t x k)" by simp
    then have "asked_action digest le ?rq d fresh (bc_max_output (rc_config rc)) out =
        refuse_or (bind_res (remote_call (bc_max_output (rc_config rc)) out) (\<lambda>call. Inr (RunDirect d call)))"
      by (cases out) (simp_all add: asked_action_def)
    then show ?thesis using False by (simp add: run_action_def rq call)
  qed
  have "execute_request digest le env (command_json (accepted_request rc i op ps)) exs =
      (exs', refuse_or (run_action digest le ?rq d))"
    using op executor by (simp add: execute_request_def command_checked rq)
  then show ?thesis using line_accepted [OF params(1,2) begun window] run by simp
qed

section \<open>Concrete requests\<close>

definition demo_client :: remote_client where
  "demo_client =
     \<lparr>rc_config = (ro_config demo_router), rc_transport_root = ''/srv/app'', rc_closed = False\<rparr>"

definition demo_env :: host_env where
  "demo_env = \<lparr>he_remote = Some ''ssh-remote'', he_folders = [(''vscode-remote'', ''/srv/app'')], he_home = ''/home/u''\<rparr>"

definition demo_window :: transport_config where
  "demo_window = \<lparr>tg_mode = ''vscode-remote'', tg_host = ''build-1'', tg_root = ''/srv/app'', tg_timeout = 120000,
     tg_max_output = 10 * 1024 * 1024\<rparr>"

definition demo_out :: outbound where
  "demo_out = TaskLog ''bg_1'' 0 100"

definition demo_params :: jobj where
  "demo_params = [(''cursor'', JInt 0), (''limitBytes'', JInt 100), (''taskId'', JStr ''bg_1'')]"

definition demo_accepted :: exec_request where
  "demo_accepted = accepted_request demo_client ''1'' ''backgroundLog'' demo_params"

definition demo_host_config :: bridge_config where
  "demo_host_config =
     \<lparr>bc_host = ''build-1'', bc_roots = [default_primary_root ''/srv/app''], bc_workspace_root = ''/srv/app'', bc_vscode = True,
      bc_user = None, bc_port = None, bc_identity = None, bc_ssh = ''ssh'', bc_mcp_local = True, bc_mcp_all = False,
      bc_command_timeout = 120000, bc_max_output = 10 * 1024 * 1024, bc_max_reads = 8, bc_connect_timeout = 10,
      bc_transport = None\<rparr>"

lemma demo_host_config_for:
  "executor_for demo_env (host_request_of demo_accepted) [] =
   ([(''build-1'' @ [NUL] @ ''/srv/app'' @ [NUL] @ ''/srv/app'', demo_host_config)], Inr demo_host_config)"
  by code_simp

theorem remote_call_arrives_witness:
  "check_line (Some (JObj (transport_line demo_client (replicate 32 (CHR ''k'')) ''1'' ''backgroundLog'' demo_params)))
     (Some demo_window) (new_transport (replicate 32 (CHR ''k''))) = Inr demo_accepted \<and>
   execute_request (\<lambda>_. ''d'') (\<lambda>a b. True) demo_env (command_json demo_accepted) [] =
     ([(''build-1'' @ [NUL] @ ''/srv/app'' @ [NUL] @ ''/srv/app'', demo_host_config)],
      asked_action (\<lambda>_. ''d'') (\<lambda>a b. True) (host_request_of demo_accepted) demo_host_config ''f''
        (bc_max_output (rc_config demo_client)) demo_out)"
  unfolding demo_accepted_def
proof (rule remote_call_arrives)
  show "remote_params (rc_config demo_client) ''f'' demo_out = Some (''backgroundLog'', demo_params)"
    by (simp add: demo_out_def demo_params_def)
  show "\<not> to_window demo_out" "key_fits ''f'' demo_out" by (simp_all add: demo_out_def key_fits_def)
  show "begin_request demo_client False ''1'' ''backgroundLog'' demo_params =
      Inr (transport_line demo_client (replicate 32 (CHR ''k'')) ''1'' ''backgroundLog'' demo_params)"
    by (simp add: begin_request_def demo_client_def demo_router_def)
  show "serves demo_window demo_client"
    by (simp add: serves_def demo_window_def demo_client_def demo_router_def demo_parsed_def)
  show "bc_transport (rc_config demo_client) =
      Some (''/tmp/s'', ''s1'', tp_token (new_transport (replicate 32 (CHR ''k''))))"
    by (simp add: demo_client_def demo_router_def new_transport_def)
  show "jm_get (tp_pending (new_transport (replicate 32 (CHR ''k'')))) (''vscode_'' @ ''1'') = None"
    by (simp add: new_transport_def)
  show "executor_for demo_env (host_request_of (accepted_request demo_client ''1'' ''backgroundLog'' demo_params)) [] =
      ([(''build-1'' @ [NUL] @ ''/srv/app'' @ [NUL] @ ''/srv/app'', demo_host_config)], Inr demo_host_config)"
    using demo_host_config_for by (simp add: demo_accepted_def)
qed

theorem host_stays_within_roots_witness:
  "he_remote demo_env = Some ''ssh-remote'' \<and>
   list_ex (\<lambda>(scheme, path). matches_remote_workspace_root scheme path (hq_root (host_request_of demo_accepted)))
     (he_folders demo_env) \<and> config_ok demo_host_config \<and>
   (bc_workspace_root demo_host_config = hq_root (host_request_of demo_accepted) \<or>
    params_field (host_request_of demo_accepted) ''scopeRoot'' = Some (JStr (he_home demo_env)) \<and>
    bc_workspace_root demo_host_config = he_home demo_env \<and> he_home demo_env \<noteq> ''/'')"
proof (rule host_stays_within_roots)
  show "check_host_request (command_json demo_accepted) = Inr (host_request_of demo_accepted)" by (rule command_checked)
  show "NUL \<notin> set (hq_root (host_request_of demo_accepted))" "NUL \<notin> set (he_home demo_env)"
    by (simp_all add: demo_accepted_def accepted_request_def host_request_of_def demo_client_def demo_env_def)
  show "execute_request (\<lambda>_. ''d'') (\<lambda>a b. True) demo_env (command_json demo_accepted)
      (host_run (\<lambda>_. ''d'') (\<lambda>a b. True) [] []) =
    ([(''build-1'' @ [NUL] @ ''/srv/app'' @ [NUL] @ ''/srv/app'', demo_host_config)],
     RunDirect demo_host_config (HostLog ''bg_1'' 0 100))"
    by code_simp
  show "action_executor (RunDirect demo_host_config (HostLog ''bg_1'' 0 100)) = Some demo_host_config" by simp
qed

theorem first_policy_kept_witness:
  "executor_for demo_env ((host_request_of demo_accepted)\<lparr>hq_timeout := 5000\<rparr>)
     [(''build-1'' @ [NUL] @ ''/srv/app'' @ [NUL] @ ''/srv/app'', demo_host_config)] =
   ([(''build-1'' @ [NUL] @ ''/srv/app'' @ [NUL] @ ''/srv/app'', demo_host_config)], Inr demo_host_config)"
  by (rule first_policy_kept [OF demo_host_config_for]) (simp_all add: params_field_def)

theorem workspace_stop_exact_witness:
  "jm_get (close_workspace (host_request_of demo_accepted) [(''build-1'' @ [NUL] @ ''/srv/apps'' @ [NUL] @ ''/x'', demo_host_config)])
      (executor_key ((host_request_of demo_accepted)\<lparr>hq_root := ''/srv/apps''\<rparr>) ''/x'') = Some demo_host_config"
proof -
  let ?rq = "host_request_of demo_accepted" and ?other = "(host_request_of demo_accepted)\<lparr>hq_root := ''/srv/apps''\<rparr>"
  have "plain_names ?rq" "plain_names ?other"
    by (simp_all add: plain_names_def demo_accepted_def accepted_request_def host_request_of_def demo_client_def demo_router_def
        demo_parsed_def)
  from workspace_stop_exact [OF this, of "[(''build-1'' @ [NUL] @ ''/srv/apps'' @ [NUL] @ ''/x'', demo_host_config)]" "''/x''"]
  show ?thesis
    by (simp add: same_workspace_def demo_accepted_def accepted_request_def host_request_of_def demo_client_def demo_router_def
        demo_parsed_def executor_key_def workspace_key_def jm_get_Cons)
qed

end
