(* ===== verification/ToolSchemas.thy ===== *)
theory ToolSchemas
  imports ToolRouter
begin

text \<open>
  The dynamic tools as they are advertised to the agent, \<^verbatim>\<open>REMOTE_DYNAMIC_TOOLS\<close> of
  \<^verbatim>\<open>src/shim/dynamic-tools.ts\<close>, and what their input schemas promise of the router. The
  meaning of a schema is that of JSON Schema for the keywords that occur; how a \<open>pattern\<close> is
  matched is a parameter.
\<close>

section \<open>The advertised tools\<close>

definition root_input_properties :: jobj where
  "root_input_properties =
     [(''target'', JObj [(''type'', JStr ''string''),
        (''enum'', JArr [JStr ''local'', JStr ''remote'']),
        (''description'', JStr ''Explicit workspace target. Defaults to the remote primary root.'')]),
      (''rootId'', JObj [(''type'', JStr ''string''),
        (''minLength'', JInt 1),
        (''maxLength'', JInt 64),
        (''pattern'', JStr ''^[A-Za-z0-9][A-Za-z0-9._-]{0,63}$''),
        (''description'', JStr ''Configured root ID. Required when target is local.'')])]"

definition remote_root_input_properties :: jobj where
  "remote_root_input_properties =
     [(''target'', JObj [(''type'', JStr ''string''),
        (''enum'', JArr [JStr ''remote'']),
        (''description'', JStr ''Remote command target.'')]),
      (''rootId'', JObj [(''type'', JStr ''string''),
        (''minLength'', JInt 1),
        (''maxLength'', JInt 64),
        (''pattern'', JStr ''^[A-Za-z0-9][A-Za-z0-9._-]{0,63}$''),
        (''description'', JStr ''Configured remote root ID. Background tasks require the primary root.'')])]"

definition remote_background_start_schema :: jobj where
  "remote_background_start_schema =
     [(''type'', JStr ''object''),
      (''additionalProperties'', JBool False),
      (''required'', JArr [JStr ''argv'']),
      (''properties'', JObj (remote_root_input_properties @
       [(''argv'', JObj [(''type'', JStr ''array''),
          (''minItems'', JInt 1),
          (''maxItems'', JInt 256),
          (''items'', JObj [(''type'', JStr ''string'')])]),
        (''cwd'', JObj [(''type'', JStr ''string''),
          (''description'', JStr ''Optional workspace-relative remote working directory.'')]),
        (''env'', JObj [(''type'', JStr ''object''),
          (''additionalProperties'', JObj [(''type'', JArr [JStr ''string'', JStr ''null''])])]),
        (''timeoutMs'', JObj [(''type'', JStr ''integer''),
          (''minimum'', JInt 1000),
          (''maximum'', JInt 86400000),
          (''description'', JStr ''Tracked task lifetime, up to 24 hours. Defaults to 1 hour.'')])]))]"

definition remote_background_start_tool :: jobj where
  "remote_background_start_tool =
     [(''type'', JStr ''function''),
      (''name'', JStr ''remote_background_start''),
      (''description'', JStr ''Start one tracked non-interactive command in the remote primary workspace. Returns a taskId for status, log, and cancellation. Requires the active VS Code Remote transport.''),
      (''inputSchema'', JObj remote_background_start_schema)]"

definition remote_background_status_schema :: jobj where
  "remote_background_status_schema =
     [(''type'', JStr ''object''),
      (''additionalProperties'', JBool False),
      (''required'', JArr [JStr ''taskId'']),
      (''properties'', JObj (remote_root_input_properties @
       [(''taskId'', JObj [(''type'', JStr ''string''), (''minLength'', JInt 1), (''maxLength'', JInt 64)])]))]"

definition remote_background_status_tool :: jobj where
  "remote_background_status_tool =
     [(''type'', JStr ''function''),
      (''name'', JStr ''remote_background_status''),
      (''description'', JStr ''Read the current state and log cursors of a tracked remote background task.''),
      (''inputSchema'', JObj remote_background_status_schema)]"

definition remote_background_log_schema :: jobj where
  "remote_background_log_schema =
     [(''type'', JStr ''object''),
      (''additionalProperties'', JBool False),
      (''required'', JArr [JStr ''taskId'']),
      (''properties'', JObj (remote_root_input_properties @
       [(''taskId'', JObj [(''type'', JStr ''string''), (''minLength'', JInt 1), (''maxLength'', JInt 64)]),
        (''cursor'', JObj [(''type'', JStr ''integer''), (''minimum'', JInt 0)]),
        (''limitBytes'', JObj [(''type'', JStr ''integer''), (''minimum'', JInt 1), (''maximum'', JInt 262144)])]))]"

definition remote_background_log_tool :: jobj where
  "remote_background_log_tool =
     [(''type'', JStr ''function''),
      (''name'', JStr ''remote_background_log''),
      (''description'', JStr ''Read a bounded stdout/stderr page from a tracked remote background task using a byte cursor.''),
      (''inputSchema'', JObj remote_background_log_schema)]"

definition remote_background_cancel_schema :: jobj where
  "remote_background_cancel_schema =
     [(''type'', JStr ''object''),
      (''additionalProperties'', JBool False),
      (''required'', JArr [JStr ''taskId'']),
      (''properties'', JObj (remote_root_input_properties @
       [(''taskId'', JObj [(''type'', JStr ''string''), (''minLength'', JInt 1), (''maxLength'', JInt 64)])]))]"

definition remote_background_cancel_tool :: jobj where
  "remote_background_cancel_tool =
     [(''type'', JStr ''function''),
      (''name'', JStr ''remote_background_cancel''),
      (''description'', JStr ''Cancel a tracked remote background task and its POSIX process group.''),
      (''inputSchema'', JObj remote_background_cancel_schema)]"

definition workspace_write_file_schema :: jobj where
  "workspace_write_file_schema =
     [(''type'', JStr ''object''),
      (''additionalProperties'', JBool False),
      (''required'', JArr [JStr ''path'', JStr ''contentBase64'']),
      (''properties'', JObj (root_input_properties @
       [(''path'', JObj [(''type'', JStr ''string''),
          (''description'', JStr ''File path within the selected root.'')]),
        (''contentBase64'', JObj [(''type'', JStr ''string''),
          (''description'', JStr ''Complete replacement content encoded as base64, up to 1 MiB.'')]),
        (''expectedHash'', JObj [(''type'', JStr ''string''),
          (''pattern'', JStr ''^[0-9a-f]{64}$''),
          (''description'', JStr ''Required for replacement and forbidden for creation. Must match the latest read.'')])]))]"

definition workspace_write_file_tool :: jobj where
  "workspace_write_file_tool =
     [(''type'', JStr ''function''),
      (''name'', JStr ''workspace_write_file''),
      (''description'', JStr ''Atomically create or replace a bounded file in an explicitly selected workspace root. Existing files require the SHA-256 expectedHash returned by workspace_read_file.''),
      (''inputSchema'', JObj workspace_write_file_schema)]"

definition workspace_apply_patch_schema :: jobj where
  "workspace_apply_patch_schema =
     [(''type'', JStr ''object''),
      (''additionalProperties'', JBool False),
      (''required'', JArr [JStr ''path'', JStr ''expectedHash'', JStr ''replacements'']),
      (''properties'', JObj (root_input_properties @
       [(''path'', JObj [(''type'', JStr ''string''),
          (''description'', JStr ''Text file path within the selected root.'')]),
        (''expectedHash'', JObj [(''type'', JStr ''string''), (''pattern'', JStr ''^[0-9a-f]{64}$'')]),
        (''replacements'', JObj [(''type'', JStr ''array''),
          (''minItems'', JInt 1),
          (''maxItems'', JInt 64),
          (''items'', JObj [(''type'', JStr ''object''),
            (''additionalProperties'', JBool False),
            (''required'', JArr [JStr ''oldText'', JStr ''newText'']),
            (''properties'', JObj [(''oldText'', JObj [(''type'', JStr ''string''), (''minLength'', JInt 1)]),
              (''newText'', JObj [(''type'', JStr ''string'')])])])])]))]"

definition workspace_apply_patch_tool :: jobj where
  "workspace_apply_patch_tool =
     [(''type'', JStr ''function''),
      (''name'', JStr ''workspace_apply_patch''),
      (''description'', JStr ''Apply bounded, exact, unambiguous UTF-8 text replacements and atomically replace the file. Always requires expectedHash.''),
      (''inputSchema'', JObj workspace_apply_patch_schema)]"

definition workspace_create_directory_schema :: jobj where
  "workspace_create_directory_schema =
     [(''type'', JStr ''object''),
      (''additionalProperties'', JBool False),
      (''required'', JArr [JStr ''path'']),
      (''properties'', JObj (root_input_properties @
       [(''path'', JObj [(''type'', JStr ''string''),
          (''description'', JStr ''New directory path within the selected root.'')])]))]"

definition workspace_create_directory_tool :: jobj where
  "workspace_create_directory_tool =
     [(''type'', JStr ''function''),
      (''name'', JStr ''workspace_create_directory''),
      (''description'', JStr ''Create one directory below an existing parent in an explicitly selected workspace root.''),
      (''inputSchema'', JObj workspace_create_directory_schema)]"

definition workspace_rename_path_schema :: jobj where
  "workspace_rename_path_schema =
     [(''type'', JStr ''object''),
      (''additionalProperties'', JBool False),
      (''required'', JArr [JStr ''path'', JStr ''destinationPath'']),
      (''properties'', JObj (root_input_properties @
       [(''path'', JObj [(''type'', JStr ''string''), (''description'', JStr ''Existing source path.'')]),
        (''destinationPath'', JObj [(''type'', JStr ''string''), (''description'', JStr ''Nonexistent destination path.'')]),
        (''expectedHash'', JObj [(''type'', JStr ''string''),
          (''pattern'', JStr ''^[0-9a-f]{64}$''),
          (''description'', JStr ''Required when the source is a file.'')])]))]"

definition workspace_rename_path_tool :: jobj where
  "workspace_rename_path_tool =
     [(''type'', JStr ''function''),
      (''name'', JStr ''workspace_rename_path''),
      (''description'', JStr ''Atomically rename a file or directory without overwriting the destination. Files require expectedHash.''),
      (''inputSchema'', JObj workspace_rename_path_schema)]"

definition workspace_delete_path_schema :: jobj where
  "workspace_delete_path_schema =
     [(''type'', JStr ''object''),
      (''additionalProperties'', JBool False),
      (''required'', JArr [JStr ''path'']),
      (''properties'', JObj (root_input_properties @
       [(''path'', JObj [(''type'', JStr ''string''),
          (''description'', JStr ''Existing file or empty directory path.'')]),
        (''expectedHash'', JObj [(''type'', JStr ''string''),
          (''pattern'', JStr ''^[0-9a-f]{64}$''),
          (''description'', JStr ''Required when deleting a file.'')])]))]"

definition workspace_delete_path_tool :: jobj where
  "workspace_delete_path_tool =
     [(''type'', JStr ''function''),
      (''name'', JStr ''workspace_delete_path''),
      (''description'', JStr ''Delete a regular file or empty directory. Files require expectedHash; recursive deletion is not supported.''),
      (''inputSchema'', JObj workspace_delete_path_schema)]"

definition workspace_open_file_schema :: jobj where
  "workspace_open_file_schema =
     [(''type'', JStr ''object''),
      (''additionalProperties'', JBool False),
      (''required'', JArr [JStr ''path'']),
      (''properties'', JObj (root_input_properties @
       [(''path'', JObj [(''type'', JStr ''string''),
          (''description'', JStr ''File path within the selected root.'')]),
        (''line'', JObj [(''type'', JStr ''integer''), (''minimum'', JInt 1)]),
        (''column'', JObj [(''type'', JStr ''integer''), (''minimum'', JInt 1)]),
        (''endLine'', JObj [(''type'', JStr ''integer''), (''minimum'', JInt 1)]),
        (''endColumn'', JObj [(''type'', JStr ''integer''), (''minimum'', JInt 1)])]))]"

definition workspace_open_file_tool :: jobj where
  "workspace_open_file_tool =
     [(''type'', JStr ''function''),
      (''name'', JStr ''workspace_open_file''),
      (''description'', JStr ''Open a verified workspace file in the active VS Code editor, optionally selecting a one-based line and column range. Requires the active VS Code Remote transport.''),
      (''inputSchema'', JObj workspace_open_file_schema)]"

definition workspace_show_diff_schema :: jobj where
  "workspace_show_diff_schema =
     [(''type'', JStr ''object''),
      (''additionalProperties'', JBool False),
      (''required'', JArr [JStr ''path'', JStr ''beforeContentBase64'', JStr ''beforeHash'']),
      (''properties'', JObj (root_input_properties @
       [(''path'', JObj [(''type'', JStr ''string''),
          (''description'', JStr ''File path within the selected root.'')]),
        (''beforeContentBase64'', JObj [(''type'', JStr ''string''),
          (''description'', JStr ''Prior complete UTF-8 file content from workspace_read_file, encoded as base64, up to 1 MiB.'')]),
        (''beforeHash'', JObj [(''type'', JStr ''string''),
          (''pattern'', JStr ''^[0-9a-f]{64}$''),
          (''description'', JStr ''SHA-256 hash returned with the prior file content.'')]),
        (''title'', JObj [(''type'', JStr ''string''),
          (''minLength'', JInt 1),
          (''maxLength'', JInt 200),
          (''description'', JStr ''Optional single-line Diff editor title.'')])]))]"

definition workspace_show_diff_tool :: jobj where
  "workspace_show_diff_tool =
     [(''type'', JStr ''function''),
      (''name'', JStr ''workspace_show_diff''),
      (''description'', JStr ''Open a VS Code Diff between a verified prior UTF-8 snapshot and the current workspace file. Requires the active VS Code Remote transport.''),
      (''inputSchema'', JObj workspace_show_diff_schema)]"

definition workspace_read_file_schema :: jobj where
  "workspace_read_file_schema =
     [(''type'', JStr ''object''),
      (''additionalProperties'', JBool False),
      (''required'', JArr [JStr ''path'']),
      (''properties'', JObj (root_input_properties @
       [(''path'', JObj [(''type'', JStr ''string''),
          (''description'', JStr ''Path within the selected workspace root.'')]),
        (''limitBytes'', JObj [(''type'', JStr ''integer''),
          (''minimum'', JInt 1),
          (''maximum'', JInt 5242880),
          (''description'', JStr ''Maximum raw bytes to return.'')])]))]"

definition workspace_read_file_tool :: jobj where
  "workspace_read_file_tool =
     [(''type'', JStr ''function''),
      (''name'', JStr ''workspace_read_file''),
      (''description'', JStr ''Read a file from an explicitly selected authorized local or remote workspace root. Returns base64 content and verified metadata.''),
      (''inputSchema'', JObj workspace_read_file_schema)]"

definition workspace_list_directory_schema :: jobj where
  "workspace_list_directory_schema =
     [(''type'', JStr ''object''),
      (''additionalProperties'', JBool False),
      (''required'', JArr [JStr ''path'']),
      (''properties'', JObj (root_input_properties @
       [(''path'', JObj [(''type'', JStr ''string''),
          (''description'', JStr ''Directory within the selected workspace root.'')])]))]"

definition workspace_list_directory_tool :: jobj where
  "workspace_list_directory_tool =
     [(''type'', JStr ''function''),
      (''name'', JStr ''workspace_list_directory''),
      (''description'', JStr ''List direct children in an explicitly selected authorized local or remote workspace root.''),
      (''inputSchema'', JObj workspace_list_directory_schema)]"

definition workspace_list_tree_schema :: jobj where
  "workspace_list_tree_schema =
     [(''type'', JStr ''object''),
      (''additionalProperties'', JBool False),
      (''required'', JArr [JStr ''path'']),
      (''properties'', JObj (root_input_properties @
       [(''path'', JObj [(''type'', JStr ''string''),
          (''description'', JStr ''Directory within the selected workspace root.'')]),
        (''depth'', JObj [(''type'', JStr ''integer''),
          (''minimum'', JInt 1),
          (''maximum'', JInt 4),
          (''description'', JStr ''Maximum descendant depth. Defaults to 2.'')]),
        (''maxEntries'', JObj [(''type'', JStr ''integer''),
          (''minimum'', JInt 1),
          (''maximum'', JInt 2000),
          (''description'', JStr ''Maximum returned entries. Defaults to 400.'')])]))]"

definition workspace_list_tree_tool :: jobj where
  "workspace_list_tree_tool =
     [(''type'', JStr ''function''),
      (''name'', JStr ''workspace_list_tree''),
      (''description'', JStr ''Inspect a bounded directory tree in an explicitly selected authorized local or remote workspace root.''),
      (''inputSchema'', JObj workspace_list_tree_schema)]"

definition workspace_search_schema :: jobj where
  "workspace_search_schema =
     [(''type'', JStr ''object''),
      (''additionalProperties'', JBool False),
      (''required'', JArr [JStr ''query'']),
      (''properties'', JObj (root_input_properties @
       [(''query'', JObj [(''type'', JStr ''string''), (''description'', JStr ''Case-sensitive literal text.'')]),
        (''paths'', JObj [(''type'', JStr ''array''),
          (''items'', JObj [(''type'', JStr ''string'')]),
          (''maxItems'', JInt 32)]),
        (''maxResults'', JObj [(''type'', JStr ''integer''), (''minimum'', JInt 1), (''maximum'', JInt 1000)])]))]"

definition workspace_search_tool :: jobj where
  "workspace_search_tool =
     [(''type'', JStr ''function''),
      (''name'', JStr ''workspace_search''),
      (''description'', JStr ''Search for literal text in an explicitly selected authorized local or remote workspace root.''),
      (''inputSchema'', JObj workspace_search_schema)]"

definition workspace_git_status_schema :: jobj where
  "workspace_git_status_schema =
     [(''type'', JStr ''object''),
      (''additionalProperties'', JBool False),
      (''properties'', JObj root_input_properties)]"

definition workspace_git_status_tool :: jobj where
  "workspace_git_status_tool =
     [(''type'', JStr ''function''),
      (''name'', JStr ''workspace_git_status''),
      (''description'', JStr ''Run fixed read-only Git status in an explicitly selected authorized local or remote workspace root.''),
      (''inputSchema'', JObj workspace_git_status_schema)]"

definition remote_exec_schema :: jobj where
  "remote_exec_schema =
     [(''type'', JStr ''object''),
      (''additionalProperties'', JBool False),
      (''required'', JArr [JStr ''argv'']),
      (''properties'', JObj (remote_root_input_properties @
       [(''argv'', JObj [(''type'', JStr ''array''),
          (''minItems'', JInt 1),
          (''maxItems'', JInt 256),
          (''items'', JObj [(''type'', JStr ''string'')]),
          (''description'', JStr (''Structured remote command argv. Use ['' @ [QUOTE] @ ''bash'' @ [QUOTE] @ '','' @ [QUOTE] @ ''-lc'' @ [QUOTE] @ '','' @ [QUOTE] @ ''...'' @ [QUOTE] @ ''] only when shell syntax is required.''))]),
        (''cwd'', JObj [(''type'', JStr ''string''),
          (''description'', JStr ''Optional workspace-relative remote working directory. Defaults to the workspace root.'')]),
        (''env'', JObj [(''type'', JStr ''object''),
          (''additionalProperties'', JObj [(''type'', JArr [JStr ''string'', JStr ''null''])]),
          (''description'', JStr ''Explicit remote environment overrides. Local process variables are not inherited.'')]),
        (''timeoutMs'', JObj [(''type'', JStr ''integer''), (''minimum'', JInt 1000), (''maximum'', JInt 3600000)])]))]"

definition remote_exec_tool :: jobj where
  "remote_exec_tool =
     [(''type'', JStr ''function''),
      (''name'', JStr ''remote_exec''),
      (''description'', JStr ''Run an argv command in the configured remote Ubuntu workspace over SSH. Use for Git, tests, training, diagnostics, and GPU commands. Approval follows the active Codex permission mode; full access runs without an extra prompt.''),
      (''inputSchema'', JObj remote_exec_schema)]"

definition remote_dynamic_tools :: "jobj list" where
  "remote_dynamic_tools =
     [remote_background_start_tool, remote_background_status_tool, remote_background_log_tool,
      remote_background_cancel_tool, workspace_write_file_tool, workspace_apply_patch_tool,
      workspace_create_directory_tool, workspace_rename_path_tool, workspace_delete_path_tool,
      workspace_open_file_tool, workspace_show_diff_tool, workspace_read_file_tool,
      workspace_list_directory_tool, workspace_list_tree_tool, workspace_search_tool,
      workspace_git_status_tool, remote_exec_tool]"

definition advertised :: "string \<Rightarrow> jobj option" where
  "advertised tool = List.find (\<lambda>t. sprop t ''name'' = Some tool) remote_dynamic_tools"

definition input_schema :: "string \<Rightarrow> jobj option" where
  "input_schema tool = (case advertised tool of None \<Rightarrow> None | Some t \<Rightarrow> rprop t ''inputSchema'')"

section \<open>Schemas\<close>

fun type_name :: "json \<Rightarrow> string" where
  "type_name JNull = ''null''"
| "type_name (JBool b) = ''boolean''"
| "type_name (JInt i) = ''integer''"
| "type_name (JFrac f) = ''number''"
| "type_name JNonFinite = ''number''"
| "type_name (JStr s) = ''string''"
| "type_name (JArr xs) = ''array''"
| "type_name (JObj ob) = ''object''"

definition type_ok :: "json option \<Rightarrow> json \<Rightarrow> bool" where
  "type_ok t v \<longleftrightarrow>
     (case t of
        Some (JStr s) \<Rightarrow> type_name v = s
      | Some (JArr ss) \<Rightarrow> JStr (type_name v) \<in> set ss
      | _ \<Rightarrow> True)"

definition at_least :: "json option \<Rightarrow> int \<Rightarrow> bool" where
  "at_least b i \<longleftrightarrow> (case as_integer b of None \<Rightarrow> True | Some m \<Rightarrow> m \<le> i)"

definition at_most :: "json option \<Rightarrow> int \<Rightarrow> bool" where
  "at_most b i \<longleftrightarrow> (case as_integer b of None \<Rightarrow> True | Some m \<Rightarrow> i \<le> m)"

definition within :: "jobj \<Rightarrow> string \<Rightarrow> string \<Rightarrow> int \<Rightarrow> bool" where
  "within s lo hi i \<longleftrightarrow> at_least (oget s lo) i \<and> at_most (oget s hi) i"

definition pattern_ok :: "(string \<Rightarrow> string \<Rightarrow> bool) \<Rightarrow> json option \<Rightarrow> string \<Rightarrow> bool" where
  "pattern_ok matches p s \<longleftrightarrow> (case as_string p of None \<Rightarrow> True | Some re \<Rightarrow> matches re s)"

definition enum_ok :: "json option \<Rightarrow> json \<Rightarrow> bool" where
  "enum_ok e v \<longleftrightarrow> (case as_array e of None \<Rightarrow> True | Some vs \<Rightarrow> v \<in> set vs)"

definition required_ok :: "json option \<Rightarrow> jobj \<Rightarrow> bool" where
  "required_ok r ob \<longleftrightarrow>
     (case as_array r of None \<Rightarrow> True
      | Some ks \<Rightarrow> list_all (\<lambda>k. case text_of k of None \<Rightarrow> True | Some s \<Rightarrow> oget ob s \<noteq> None) ks)"

text \<open>The schema of a property: its own, or \<open>additionalProperties\<close>; \<open>None\<close> means that it is not allowed.\<close>

definition property_schema :: "jobj \<Rightarrow> string \<Rightarrow> jobj option" where
  "property_schema s k =
     (case (case rprop s ''properties'' of None \<Rightarrow> None | Some ps \<Rightarrow> rprop ps k) of
        Some p \<Rightarrow> Some p
      | None \<Rightarrow> (case oget s ''additionalProperties'' of
            Some (JBool False) \<Rightarrow> None
          | Some (JObj p) \<Rightarrow> Some p
          | _ \<Rightarrow> Some []))"

definition item_schema :: "jobj \<Rightarrow> jobj" where
  "item_schema s = (case rprop s ''items'' of None \<Rightarrow> [] | Some p \<Rightarrow> p)"

fun conforms :: "(string \<Rightarrow> string \<Rightarrow> bool) \<Rightarrow> jobj \<Rightarrow> json \<Rightarrow> bool" where
  "conforms ma s v \<longleftrightarrow>
     type_ok (oget s ''type'') v \<and> enum_ok (oget s ''enum'') v \<and>
     (case v of
        JStr t \<Rightarrow> within s ''minLength'' ''maxLength'' (int (length t)) \<and> pattern_ok ma (oget s ''pattern'') t
      | JInt i \<Rightarrow> within s ''minimum'' ''maximum'' i
      | JArr xs \<Rightarrow>
          within s ''minItems'' ''maxItems'' (int (length xs)) \<and> list_all (\<lambda>x. conforms ma (item_schema s) x) xs
      | JObj ob \<Rightarrow>
          required_ok (oget s ''required'') ob \<and>
          list_all (\<lambda>(k, x). case property_schema s k of None \<Rightarrow> False | Some p \<Rightarrow> conforms ma p x) ob
      | _ \<Rightarrow> True)"

declare conforms.simps [simp del]

section \<open>What conforming arguments have\<close>

definition needed :: "jobj \<Rightarrow> string \<Rightarrow> bool" where
  "needed s k \<longleftrightarrow> (case as_array (oget s ''required'') of None \<Rightarrow> False | Some ks \<Rightarrow> JStr k \<in> set ks)"

definition typed :: "jobj \<Rightarrow> string \<Rightarrow> string \<Rightarrow> bool" where
  "typed s k t \<longleftrightarrow> (case property_schema s k of None \<Rightarrow> True | Some p \<Rightarrow> oget p ''type'' = Some (JStr t))"

lemma conforms_object:
  assumes "conforms ma s (JObj args)"
  shows "required_ok (oget s ''required'') args"
    "(k, x) \<in> set args \<Longrightarrow> \<exists>p. property_schema s k = Some p \<and> conforms ma p x"
  using assms by (subst (asm) conforms.simps, force simp: list_all_iff split: option.splits)+

lemma conforms_field:
  assumes "conforms ma s (JObj args)" "oget args k = Some x"
  obtains p where "property_schema s k = Some p" "conforms ma p x"
  using conforms_object(2) [OF assms(1)] jm_get_mem [of args k x] assms(2) by (auto simp: oget_def)

lemma conforms_needed: "conforms ma s (JObj args) \<Longrightarrow> needed s k \<Longrightarrow> oget args k \<noteq> None"
  by (drule conforms_object(1)) (force simp: needed_def required_ok_def list_all_iff split: option.splits)

lemma conforms_type: "conforms ma p x \<Longrightarrow> oget p ''type'' = Some (JStr t) \<Longrightarrow> type_name x = t"
  by (subst (asm) conforms.simps) (simp add: type_ok_def)

lemma type_names:
  "type_name x = ''string'' \<longleftrightarrow> (\<exists>s. x = JStr s)"
  "type_name x = ''array'' \<longleftrightarrow> (\<exists>xs. x = JArr xs)"
  "type_name x = ''object'' \<longleftrightarrow> (\<exists>ob. x = JObj ob)"
  "type_name x = ''null'' \<longleftrightarrow> x = JNull"
  by (cases x; simp)+

lemma conforms_typed:
  assumes "conforms ma s (JObj args)" "typed s k t" "oget args k = Some x"
  shows "type_name x = t"
  by (rule conforms_field [OF assms(1,3)]) (use assms(2) in \<open>auto simp: typed_def intro: conforms_type\<close>)

lemma conforms_text:
  assumes "conforms ma s (JObj args)" "needed s k" "typed s k ''string''"
  shows "\<exists>t. oget args k = Some (JStr t)"
  using conforms_needed [OF assms(1,2)] conforms_typed [OF assms(1,3)] by (auto simp: type_names)

lemma conforms_array:
  assumes "conforms ma p x" "oget p ''type'' = Some (JStr ''array'')"
  obtains xs where "x = JArr xs" "within p ''minItems'' ''maxItems'' (int (length xs))"
    "list_all (conforms ma (item_schema p)) xs"
proof -
  obtain xs where "x = JArr xs" using conforms_type [OF assms] by (auto simp: type_names)
  then show ?thesis using assms(1) that by (subst (asm) conforms.simps) simp
qed

lemma conforms_texts:
  assumes "list_all (conforms ma p) xs" "oget p ''type'' = Some (JStr ''string'')"
  obtains ss where "texts_of xs = Some ss" "xs = map JStr ss"
  using assms(1)
proof (induction xs arbitrary: thesis)
  case (Cons x xs)
  from Cons.prems have x: "conforms ma p x" and xs: "list_all (conforms ma p) xs" by simp_all
  obtain s where "x = JStr s" using conforms_type [OF x assms(2)] by (auto simp: type_names)
  moreover obtain ss where "texts_of xs = Some ss" "xs = map JStr ss" using Cons.IH xs by blast
  ultimately show ?case using Cons.prems(1) [of "s # ss"] by simp
qed simp

section \<open>Errors that are not about the form\<close>

definition proper_error :: "thrown \<Rightarrow> bool" where
  "proper_error e \<longleftrightarrow> err_code (as_bridge_error e SSH_DISCONNECTED) \<noteq> PROTOCOL_MISMATCH"

definition raises :: "'a talk \<Rightarrow> bool" where
  "raises m \<longleftrightarrow> (\<forall>sent e sent'. m sent = (Inl e, sent') \<longrightarrow> proper_error e)"

definition no_mismatch :: "bridge_error + 'a \<Rightarrow> bool" where
  "no_mismatch r \<longleftrightarrow> (\<forall>e. r = Inl e \<longrightarrow> err_code e \<noteq> PROTOCOL_MISMATCH)"

definition well_answering :: "peer \<Rightarrow> bool" where
  "well_answering pe \<longleftrightarrow> (\<forall>sent c e. pe_answer pe sent c = Inl e \<longrightarrow> proper_error e)"

named_theorems raises_intros
named_theorems no_mismatch_intros

lemma no_mismatch_Inr [no_mismatch_intros]: "no_mismatch (Inr x)"
  by (simp add: no_mismatch_def)

lemma no_mismatch_Inl [no_mismatch_intros]: "c \<noteq> PROTOCOL_MISMATCH \<Longrightarrow> no_mismatch (Inl (BridgeError c msg d))"
  by (simp add: no_mismatch_def)

lemma no_mismatch_ensure [no_mismatch_intros]:
  "c \<noteq> PROTOCOL_MISMATCH \<Longrightarrow> no_mismatch (ensure b (BridgeError c msg d))"
  by (simp add: no_mismatch_def ensure_def)

lemma no_mismatch_bind [no_mismatch_intros]:
  "no_mismatch r \<Longrightarrow> (\<And>x. r = Inr x \<Longrightarrow> no_mismatch (f x)) \<Longrightarrow> no_mismatch (bind_res r f)"
  by (cases r) (simp_all add: no_mismatch_def)

lemma raises_give [raises_intros]: "raises (give x)"
  by (simp add: raises_def give_def)

lemma raises_checked [raises_intros]: "no_mismatch r \<Longrightarrow> raises (checked r)"
  by (auto simp: raises_def no_mismatch_def checked_def fail_with_def give_def proper_error_def split: sum.splits)

lemma raises_send [raises_intros]: "well_answering pe \<Longrightarrow> raises (send pe c)"
  by (simp add: raises_def send_def well_answering_def)

lemma raises_aborted [raises_intros]: "raises (unless_aborted pe ob)"
  by (auto simp: raises_def unless_aborted_def fail_with_def give_def cancelled_call_def proper_error_def split: if_splits)

lemma raises_after [raises_intros]: "raises m \<Longrightarrow> (\<And>x. raises (f x)) \<Longrightarrow> raises (after m f)"
  unfolding raises_def after_def by (fastforce split: prod.splits sum.splits)

lemma raises_checked_after: "no_mismatch r \<Longrightarrow> (\<And>x. r = Inr x \<Longrightarrow> raises (f x)) \<Longrightarrow> raises (after (checked r) f)"
  by (cases r) (auto simp: raises_def no_mismatch_def after_def checked_def fail_with_def give_def proper_error_def)

lemma raises_both [raises_intros]: "raises m \<Longrightarrow> raises n \<Longrightarrow> raises (both m n)"
  unfolding raises_def both_def by (fastforce split: prod.splits sum.splits)

lemma raises_if: "(b \<Longrightarrow> raises m) \<Longrightarrow> (\<not> b \<Longrightarrow> raises n) \<Longrightarrow> raises (if b then m else n)"
  by simp

lemma raises_call [raises_intros]: "well_answering pe \<Longrightarrow> raises (call_workspace pe ex c)"
  by (cases ex) (simp_all add: raises_intros)

section \<open>What the router reads\<close>

text \<open>The texts that the router asks of each tool's arguments.\<close>

definition demanded_texts :: "(string \<times> string list) list" where
  "demanded_texts =
     [(''workspace_open_file'', [''path'']), (''workspace_show_diff'', [''beforeContentBase64'', ''beforeHash'', ''path'']),
      (''workspace_read_file'', [''path'']), (''workspace_list_directory'', [''path'']), (''workspace_list_tree'', [''path'']),
      (''workspace_search'', [''query'']), (''workspace_write_file'', [''contentBase64'', ''path'']),
      (''workspace_apply_patch'', [''expectedHash'', ''path'']), (''workspace_create_directory'', [''path'']),
      (''workspace_rename_path'', [''destinationPath'', ''path'']), (''workspace_delete_path'', [''path'']),
      (''remote_background_status'', [''taskId'']), (''remote_background_log'', [''taskId'']),
      (''remote_background_cancel'', [''taskId''])]"

lemma demanded_texts_declared:
  "list_all (\<lambda>(tool, ks). case input_schema tool of None \<Rightarrow> False
     | Some s \<Rightarrow> list_all (\<lambda>k. needed s k \<and> typed s k ''string'') ks) demanded_texts"
  by code_simp

lemma declared_text:
  assumes "input_schema tool = Some s" "conforms ma s (JObj args)" "(tool, ks) \<in> set demanded_texts" "k \<in> set ks"
  shows "\<exists>t. oget args k = Some (JStr t)"
proof -
  have "needed s k \<and> typed s k ''string''"
    using demanded_texts_declared assms(1,3,4) by (fastforce simp: list_all_iff)
  then show ?thesis using conforms_text [OF assms(2)] by blast
qed

lemma text_arg_declared:
  assumes "input_schema tool = Some s" "conforms ma s (JObj args)" "(tool, ks) \<in> set demanded_texts" "k \<in> set ks"
  shows "no_mismatch (text_arg args k)"
  using declared_text [OF assms] by (auto simp: text_arg_def no_mismatch_def)

text \<open>What the schemas leave open although the router insists on it: commands without NUL, the form of the
  identifier of a task, and that a local target names its root.\<close>

definition careful :: "jobj \<Rightarrow> bool" where
  "careful args \<longleftrightarrow>
     (case as_array (oget args ''argv'') of None \<Rightarrow> True
      | Some vs \<Rightarrow> (case texts_of vs of None \<Rightarrow> True | Some ss \<Rightarrow> list_all (\<lambda>s. NUL \<notin> set s) ss)) \<and>
     (case sprop args ''taskId'' of None \<Rightarrow> True | Some i \<Rightarrow> safe_id i) \<and>
     (oget args ''target'' = Some (JStr ''local'') \<longrightarrow> oget args ''rootId'' \<noteq> None)"

lemma task_id_declared:
  assumes "input_schema tool = Some s" "conforms ma s (JObj args)" "(tool, [''taskId'']) \<in> set demanded_texts" "careful args"
  shows "no_mismatch (required_task_id args)"
  using declared_text [OF assms(1-3), of "''taskId''"] assms(4)
  by (auto simp: required_task_id_def no_mismatch_def careful_def)

definition command_schema :: "jobj \<Rightarrow> bool" where
  "command_schema s \<longleftrightarrow>
     needed s ''argv'' \<and>
     (case property_schema s ''argv'' of None \<Rightarrow> False | Some p \<Rightarrow>
        oget p ''type'' = Some (JStr ''array'') \<and> oget p ''minItems'' = Some (JInt 1) \<and>
        oget (item_schema p) ''type'' = Some (JStr ''string'')) \<and>
     (case property_schema s ''env'' of None \<Rightarrow> False | Some p \<Rightarrow>
        oget p ''type'' = Some (JStr ''object'') \<and> oget p ''properties'' = None \<and>
        oget p ''additionalProperties'' = Some (JObj [(''type'', JArr [JStr ''string'', JStr ''null''])]))"

lemma command_schemas: "command_schema remote_exec_schema" "command_schema remote_background_start_schema"
  by code_simp+

lemma env_entries_conform:
  assumes "list_all (\<lambda>(k, x). type_name x = ''string'' \<or> type_name x = ''null'') es"
  shows "env_entries es \<noteq> None"
  using assms by (induction es rule: env_entries.induct) (auto simp: type_names)

lemma conforms_env:
  assumes p: "oget p ''type'' = Some (JStr ''object'')" "oget p ''properties'' = None"
      "oget p ''additionalProperties'' = Some (JObj [(''type'', JArr [JStr ''string'', JStr ''null''])])"
    and v: "conforms ma p v"
  obtains es where "v = JObj es" "env_entries es \<noteq> None"
proof -
  obtain es where es: "v = JObj es" using conforms_type [OF v p(1)] by (auto simp: type_names)
  have "type_name x = ''string'' \<or> type_name x = ''null''" if kx: "(k, x) \<in> set es" for k x
  proof -
    obtain q where "property_schema p k = Some q" "conforms ma q x"
      using conforms_object(2) [OF v [unfolded es] kx] by blast
    then have "conforms ma [(''type'', JArr [JStr ''string'', JStr ''null''])] x"
      by (simp add: property_schema_def p)
    then show ?thesis by (subst (asm) conforms.simps) (auto simp: type_ok_def oget_def jm_get_Cons)
  qed
  then have "env_entries es \<noteq> None" by (intro env_entries_conform) (auto simp: list_all_iff)
  then show ?thesis using es that by blast
qed

lemma exec_declared:
  assumes s: "command_schema s" and c: "conforms ma s (JObj args)" and careful: "careful args"
  shows "no_mismatch (parse_remote_exec hi (JObj args))"
proof -
  obtain v where v: "oget args ''argv'' = Some v"
    using conforms_needed [OF c] s by (fastforce simp: command_schema_def)
  obtain p where p: "property_schema s ''argv'' = Some p" "conforms ma p v" by (rule conforms_field [OF c v])
  then have p': "oget p ''type'' = Some (JStr ''array'')" "oget p ''minItems'' = Some (JInt 1)"
      "oget (item_schema p) ''type'' = Some (JStr ''string'')"
    using s by (simp_all add: command_schema_def)
  obtain xs where xs: "v = JArr xs" "within p ''minItems'' ''maxItems'' (int (length xs))"
      "list_all (conforms ma (item_schema p)) xs"
    by (rule conforms_array [OF p(2) p'(1)])
  obtain ss where ss: "texts_of xs = Some ss" "xs = map JStr ss" by (rule conforms_texts [OF xs(3) p'(3)])
  have "list_all (\<lambda>s. NUL \<notin> set s) ss" using careful v xs(1) ss(1) by (simp add: careful_def)
  moreover have "xs \<noteq> []" using xs(2) p'(2) by (auto simp: within_def at_least_def)
  ultimately have argv: "argv_of (oget args ''argv'') = Inr ss"
    using ss(1) by (simp add: argv_of_def v xs(1) list_ex_iff list_all_iff)
  have env: "no_mismatch (env_of (oget args ''env''))"
  proof (cases "oget args ''env''")
    case None
    then show ?thesis by (simp add: env_of_def no_mismatch_intros)
  next
    case (Some e)
    obtain q where q: "property_schema s ''env'' = Some q" "conforms ma q e" by (rule conforms_field [OF c Some])
    then have q': "oget q ''type'' = Some (JStr ''object'')" "oget q ''properties'' = None"
        "oget q ''additionalProperties'' = Some (JObj [(''type'', JArr [JStr ''string'', JStr ''null''])])"
      using s by (simp_all add: command_schema_def)
    obtain es where "e = JObj es" "env_entries es \<noteq> None" by (rule conforms_env [OF q' q(2)])
    then show ?thesis by (auto simp: Some env_of_def no_mismatch_def)
  qed
  show ?thesis
    unfolding parse_remote_exec_def is_record.simps option.case argv
    by (intro no_mismatch_intros env)
qed

lemma replacements_declared:
  assumes c: "conforms ma workspace_apply_patch_schema (JObj args)"
  shows "no_mismatch (replacements_arg args)"
proof -
  have facts: "needed workspace_apply_patch_schema ''replacements''"
    "case property_schema workspace_apply_patch_schema ''replacements'' of None \<Rightarrow> False | Some p \<Rightarrow>
       oget p ''type'' = Some (JStr ''array'') \<and> oget (item_schema p) ''type'' = Some (JStr ''object'') \<and>
       needed (item_schema p) ''oldText'' \<and> typed (item_schema p) ''oldText'' ''string'' \<and>
       needed (item_schema p) ''newText'' \<and> typed (item_schema p) ''newText'' ''string''"
    by code_simp+
  obtain v where v: "oget args ''replacements'' = Some v" using conforms_needed [OF c facts(1)] by blast
  obtain p where p: "property_schema workspace_apply_patch_schema ''replacements'' = Some p" "conforms ma p v"
    by (rule conforms_field [OF c v])
  have q: "oget p ''type'' = Some (JStr ''array'')" "oget (item_schema p) ''type'' = Some (JStr ''object'')"
    "needed (item_schema p) ''oldText''" "typed (item_schema p) ''oldText'' ''string''"
    "needed (item_schema p) ''newText''" "typed (item_schema p) ''newText'' ''string''"
    using facts(2) p(1) by simp_all
  obtain xs where xs: "v = JArr xs" "list_all (conforms ma (item_schema p)) xs"
    by (rule conforms_array [OF p(2) q(1)])
  have "is_replacement x" if item: "conforms ma (item_schema p) x" for x
  proof -
    obtain e where e: "x = JObj e" using conforms_type [OF item q(2)] by (auto simp: type_names)
    show ?thesis
      using conforms_text [OF item [unfolded e] q(3,4)] conforms_text [OF item [unfolded e] q(5,6)]
      by (auto simp: e is_replacement_def)
  qed
  then have "list_all is_replacement xs" using xs(2) by (simp add: list_all_iff)
  then show ?thesis by (simp add: replacements_arg_def v xs(1) no_mismatch_intros)
qed

lemma search_paths_declared:
  assumes c: "conforms ma workspace_search_schema (JObj args)"
  shows "no_mismatch (search_paths_arg args)"
proof (cases "oget args ''paths''")
  case None
  then show ?thesis by (simp add: search_paths_arg_def no_mismatch_intros)
next
  case (Some v)
  have facts: "case property_schema workspace_search_schema ''paths'' of None \<Rightarrow> False | Some p \<Rightarrow>
       oget p ''type'' = Some (JStr ''array'') \<and> oget p ''maxItems'' = Some (JInt 32) \<and>
       oget (item_schema p) ''type'' = Some (JStr ''string'')"
    by code_simp
  obtain p where p: "property_schema workspace_search_schema ''paths'' = Some p" "conforms ma p v"
    by (rule conforms_field [OF c Some])
  have q: "oget p ''type'' = Some (JStr ''array'')" "oget p ''maxItems'' = Some (JInt 32)"
    "oget (item_schema p) ''type'' = Some (JStr ''string'')"
    using facts p(1) by simp_all
  obtain xs where xs: "v = JArr xs" "within p ''minItems'' ''maxItems'' (int (length xs))"
    "list_all (conforms ma (item_schema p)) xs"
    by (rule conforms_array [OF p(2) q(1)])
  obtain ss where ss: "texts_of xs = Some ss" "xs = map JStr ss" by (rule conforms_texts [OF xs(3) q(3)])
  have "length xs \<le> 32" using xs(2) q(2) by (auto simp: within_def at_most_def)
  then show ?thesis by (simp add: search_paths_arg_def Some xs(1) ss(1) no_mismatch_intros)
qed

text \<open>The configuration is refused for its content only.\<close>

lemma config_fields_no_mismatch [no_mismatch_intros]:
  "no_mismatch (config_string v n)"
  "no_mismatch (integer_in_range v d lo hi n)"
  "no_mismatch (choice v yes no msg)"
  "no_mismatch (one_of input k a b msg)"
  by (auto simp: config_string_def integer_in_range_def choice_def one_of_def no_mismatch_def ensure_def
      split: option.splits if_splits)

lemma config_roots_no_mismatch [no_mismatch_intros]:
  "no_mismatch (normalized_remote_root v n)" "no_mismatch (normalized_local_root v n b)"
  unfolding normalized_remote_root_def normalized_local_root_def by (intro no_mismatch_intros; simp)+

lemma parse_root_no_mismatch [no_mismatch_intros]: "no_mismatch (parse_workspace_root v i)"
  unfolding parse_workspace_root_def Let_def
  by (cases "is_record v"; simp only: option.case; intro no_mismatch_intros; simp add: no_mismatch_intros)

lemma parse_roots_no_mismatch [no_mismatch_intros]: "no_mismatch (parse_roots i vs)"
  by (induction i vs rule: parse_roots.induct) (auto intro!: no_mismatch_intros)

lemma unique_roots_no_mismatch [no_mismatch_intros]: "no_mismatch (unique_roots ids ps rs)"
  by (induction ids ps rs rule: unique_roots.induct) (auto intro: no_mismatch_intros)

lemma parse_workspace_roots_no_mismatch [no_mismatch_intros]: "no_mismatch (parse_workspace_roots input b)"
  unfolding parse_workspace_roots_def
  by (auto intro!: no_mismatch_intros split: option.split)

lemma config_parts_no_mismatch [no_mismatch_intros]:
  "no_mismatch (parse_host input)" "no_mismatch (parse_version input)" "no_mismatch (parse_user input)"
  "no_mismatch (parse_port input)" "no_mismatch (parse_identity input)" "no_mismatch (parse_transport input b)"
  "no_mismatch (parse_choices input)" "no_mismatch (parse_limits input)"
  unfolding parse_host_def parse_version_def parse_user_def parse_port_def parse_identity_def parse_transport_def
    parse_choices_def parse_limits_def Let_def
  by (auto intro!: no_mismatch_intros split: option.split)

lemma parse_config_no_mismatch [no_mismatch_intros]: "no_mismatch (parse_bridge_config v)"
  unfolding parse_bridge_config_def Let_def
  by (cases "is_record v"; simp only: option.case)
    (intro no_mismatch_intros; clarsimp; intro no_mismatch_intros; clarsimp; intro no_mismatch_intros; simp)+

lemma executor_no_mismatch:
  assumes "tid \<noteq> []"
  shows "no_mismatch (remote_executor ro r)" "no_mismatch (executor_of ro r (Some tid))" "no_mismatch (assert_primary ro r)"
proof -
  show rem: "no_mismatch (remote_executor ro r)"
    by (auto simp: remote_executor_def home_seat_def intro!: no_mismatch_intros)
  obtain c cs where "tid = c # cs" using assms by (cases tid) auto
  then show "no_mismatch (executor_of ro r (Some tid))"
    by (auto simp: executor_of_def intro!: no_mismatch_intros rem)
  show "no_mismatch (assert_primary ro r)" by (simp add: assert_primary_def no_mismatch_intros)
qed

section \<open>A conforming call\<close>

definition root_schema :: "jobj \<Rightarrow> bool" where
  "root_schema s \<longleftrightarrow>
     typed s ''rootId'' ''string'' \<and> typed s ''target'' ''string'' \<and>
     (case property_schema s ''rootId'' of None \<Rightarrow> False | Some p \<Rightarrow> oget p ''minLength'' = Some (JInt 1)) \<and>
     (case property_schema s ''target'' of None \<Rightarrow> False | Some p \<Rightarrow>
        case as_array (oget p ''enum'') of None \<Rightarrow> False
        | Some vs \<Rightarrow> list_all (\<lambda>v. v = JStr ''local'' \<or> v = JStr ''remote'') vs)"

lemma root_schemas:
  "list_all (\<lambda>t. case rprop t ''inputSchema'' of None \<Rightarrow> False | Some s \<Rightarrow> root_schema s) remote_dynamic_tools"
  by code_simp

lemma input_schema_root: "input_schema tool = Some s \<Longrightarrow> root_schema s"
  using root_schemas by (fastforce simp: input_schema_def advertised_def find_Some_iff list_all_length split: option.splits)

lemma target_declared:
  assumes s: "root_schema s" and c: "conforms ma s (JObj args)" and v: "oget args ''target'' = Some v"
  shows "v = JStr ''local'' \<or> v = JStr ''remote''"
proof -
  obtain p where p: "property_schema s ''target'' = Some p" "conforms ma p v" by (rule conforms_field [OF c v])
  obtain vs where vs: "as_array (oget p ''enum'') = Some vs" "list_all (\<lambda>v. v = JStr ''local'' \<or> v = JStr ''remote'') vs"
    using s p(1) by (auto simp: root_schema_def split: option.splits)
  have "enum_ok (oget p ''enum'') v" using p(2) by (subst (asm) conforms.simps) simp
  then show ?thesis using vs by (auto simp: enum_ok_def list_all_iff)
qed

lemma root_id_declared:
  assumes s: "root_schema s" and c: "conforms ma s (JObj args)" and v: "oget args ''rootId'' = Some v"
  shows "\<exists>i. v = JStr i \<and> i \<noteq> []"
proof -
  obtain p where p: "property_schema s ''rootId'' = Some p" "conforms ma p v" by (rule conforms_field [OF c v])
  have "type_name v = ''string''" using s conforms_typed [OF c _ v] by (simp add: root_schema_def)
  then obtain i where i: "v = JStr i" by (auto simp: type_names)
  have "oget p ''minLength'' = Some (JInt 1)" using s p(1) by (simp add: root_schema_def)
  moreover have "within p ''minLength'' ''maxLength'' (int (length i))"
    using p(2) unfolding i by (subst (asm) conforms.simps) simp
  ultimately show ?thesis using i by (auto simp: within_def at_least_def)
qed

definition remote_primary_of :: "router \<Rightarrow> scope option" where
  "remote_primary_of ro = List.find (\<lambda>r. \<not> sc_local r \<and> sc_role r = PrimaryRole) (config_scopes ro)"

lemma requested_root_declared:
  assumes s: "root_schema s" and c: "conforms ma s (JObj args)" and careful: "careful args"
    and d: "remote_primary_of ro = Some d" "sc_id d \<noteq> []"
  shows "no_mismatch (requested_root ro rs args)"
proof -
  let ?t = "if nullish (oget args ''target'') then Some (JStr ''remote'') else oget args ''target''"
  let ?i = "as_string (if nullish (oget args ''rootId'') then map_option (\<lambda>r. JStr (sc_id r)) (remote_primary_of ro)
              else oget args ''rootId'')"
  have t: "?t = Some (JStr ''local'') \<or> ?t = Some (JStr ''remote'')"
    using target_declared [OF s c] by (cases "oget args ''target''") (auto simp: nullish_def)
  have l: "\<not> (?t = Some (JStr ''local'') \<and> oget args ''rootId'' = None)"
    using careful by (auto simp: careful_def)
  obtain i where i: "?i = Some i" "i \<noteq> []"
    using root_id_declared [OF s c] d by (cases "oget args ''rootId''") (auto simp: nullish_def)
  have i': "as_string (if nullish (oget args ''rootId'') then map_option (\<lambda>r. JStr (sc_id r))
      (List.find (\<lambda>r. \<not> sc_local r \<and> sc_role r = PrimaryRole) (config_scopes ro))
      else oget args ''rootId'') = Some i"
    using i(1) by (simp only: remote_primary_of_def)
  show ?thesis
    unfolding requested_root_def Let_def i' option.case
    using t l i(2) by (auto simp: no_mismatch_def split: option.splits)
qed

lemma no_mismatch_legacy: "no_mismatch (if b then assert_primary ro r else Inr ())"
  by (simp add: assert_primary_def no_mismatch_intros)

lemma advertised_names: "map (\<lambda>t. sprop t ''name'') remote_dynamic_tools =
  map Some [''remote_background_start'', ''remote_background_status'', ''remote_background_log'', ''remote_background_cancel'',
    ''workspace_write_file'', ''workspace_apply_patch'', ''workspace_create_directory'', ''workspace_rename_path'',
    ''workspace_delete_path'', ''workspace_open_file'', ''workspace_show_diff'', ''workspace_read_file'',
    ''workspace_list_directory'', ''workspace_list_tree'', ''workspace_search'', ''workspace_git_status'', ''remote_exec'']"
  by code_simp

definition advertised_tools :: "string list" where
  "advertised_tools = concat (map (\<lambda>t. case sprop t ''name'' of None \<Rightarrow> [] | Some n \<Rightarrow> [n]) remote_dynamic_tools)"

lemma input_schema_name: "input_schema tool = Some s \<Longrightarrow> tool \<in> set advertised_tools"
  by (auto simp: input_schema_def advertised_def advertised_tools_def find_Some_iff split: option.splits
      intro!: bexI [OF _ nth_mem])

lemma advertised_are_tools: "list_all (\<lambda>t. t \<in> set remote_tools \<and> \<not> is_legacy t) advertised_tools"
  by code_simp

lemma advertised_keeps_name: "input_schema tool = Some s \<Longrightarrow> normalize_tool tool = tool"
proof -
  assume "input_schema tool = Some s"
  then have "tool \<notin> fst ` set legacy_aliases"
    using input_schema_name [of tool s] advertised_are_tools by (simp add: list_all_iff is_legacy_def)
  then have "map_of legacy_aliases tool = None" by (simp add: map_of_eq_None_iff)
  then show ?thesis by (simp add: normalize_tool_def)
qed

lemma workspace_tool_declared:
  assumes schema: "input_schema tool = Some s" "conforms ma s (JObj args)" and pe: "well_answering pe"
  shows "raises (workspace_tool pe ro ob r args ex tool)"
proof -
  note form = text_arg_declared [OF schema]
  have "raises (open_file pe ro ob r args ex)" if "tool = ''workspace_open_file''"
    unfolding open_file_def using that pe
    by (auto intro!: raises_intros no_mismatch_intros form simp: demanded_texts_def)
  moreover have "raises (show_diff pe ro ob r args ex)" if "tool = ''workspace_show_diff''"
    unfolding show_diff_def using that pe
    by (auto intro!: raises_intros no_mismatch_intros form simp: demanded_texts_def)
  moreover have "raises (change_tool pe ob ex tool args)" if mut: "tool \<in> set mutation_tools"
  proof -
    have "input_schema ''workspace_apply_patch'' = Some workspace_apply_patch_schema" by code_simp
    then have rs: "no_mismatch (replacements_arg args)" if "tool = ''workspace_apply_patch''"
      using that schema by (auto intro: replacements_declared)
    have path: "no_mismatch (text_arg args ''path'')"
      by (rule form [of "the (map_of demanded_texts tool)"]) (use mut in \<open>auto simp: mutation_tools_def demanded_texts_def\<close>)
    have content: "no_mismatch (text_arg args ''contentBase64'')" if "tool = ''workspace_write_file''"
      by (rule form [of "[''contentBase64'', ''path'']"]) (use that in \<open>simp_all add: demanded_texts_def\<close>)
    have hash: "no_mismatch (text_arg args ''expectedHash'')" if "tool = ''workspace_apply_patch''"
      by (rule form [of "[''expectedHash'', ''path'']"]) (use that in \<open>simp_all add: demanded_texts_def\<close>)
    have dest: "no_mismatch (text_arg args ''destinationPath'')" if "tool = ''workspace_rename_path''"
      by (rule form [of "[''destinationPath'', ''path'']"]) (use that in \<open>simp_all add: demanded_texts_def\<close>)
    show ?thesis
      unfolding change_tool_def Let_def
      by (intro raises_if raises_after raises_call raises_checked pe path content hash dest rs) simp_all
  qed
  moreover have "raises (read_tool pe ex args)" if "tool = ''workspace_read_file''"
    unfolding read_tool_def Let_def using that pe
    by (auto intro!: raises_intros no_mismatch_intros form simp: demanded_texts_def)
  moreover have "raises (list_tool pe ex lg args)" if "tool = ''workspace_list_directory''" for lg
    unfolding list_tool_def using that pe
    by (auto intro!: raises_intros no_mismatch_intros form simp: demanded_texts_def)
  moreover have "raises (tree_tool pe ex lg args)" if "tool = ''workspace_list_tree''" for lg
    unfolding tree_tool_def Let_def using that pe
    by (auto intro!: raises_intros no_mismatch_intros form simp: demanded_texts_def)
  moreover have "raises (search_tool pe ex lg args)" if tool: "tool = ''workspace_search''" for lg
  proof -
    have "input_schema ''workspace_search'' = Some workspace_search_schema" by code_simp
    then have "s = workspace_search_schema" using schema(1) tool by simp
    then have "no_mismatch (search_paths_arg args)" using schema(2) by (simp add: search_paths_declared)
    then show ?thesis
      unfolding search_tool_def Let_def using tool pe
      by (auto intro!: raises_intros no_mismatch_intros form simp: demanded_texts_def)
  qed
  moreover have "raises (git_tool pe ex)"
    unfolding git_tool_def by (auto intro!: raises_intros no_mismatch_intros pe)
  ultimately show ?thesis
    unfolding workspace_tool_def Let_def advertised_keeps_name [OF schema(1)]
    by (auto intro: raises_intros no_mismatch_intros)
qed

lemma execute_tool_declared:
  assumes schema: "input_schema tool = Some s" "conforms ma s (JObj args)" and careful: "careful args"
    and pe: "well_answering pe" and thread: "ob_thread ob = Some tid" "tid \<noteq> []"
  shows "raises (execute_tool pe ro ob r tool args)"
proof -
  note task = task_id_declared [OF schema _ careful]
  note parts = executor_no_mismatch [OF thread(2)]
  have exec: "no_mismatch (parse_remote_exec hi (JObj args))" if "s = remote_exec_schema \<or> s = remote_background_start_schema" for hi
    using that command_schemas exec_declared [OF _ schema(2) careful] by auto
  have "input_schema ''remote_background_start'' = Some remote_background_start_schema"
    "input_schema ''remote_exec'' = Some remote_exec_schema" by code_simp+
  then have commands:
      "tool = ''remote_background_start'' \<Longrightarrow> s = remote_background_start_schema"
      "tool = ''remote_exec'' \<Longrightarrow> s = remote_exec_schema"
    using schema(1) by simp_all
  have start: "raises (start_background pe ro ob r args)" if "tool = ''remote_background_start''"
    unfolding start_background_def using commands(1) [OF that] pe by (auto intro!: raises_intros parts exec)
  have run: "raises (remote_exec pe ro ob r args)" if "tool = ''remote_exec''"
    unfolding remote_exec_def using commands(2) [OF that] pe by (auto intro!: raises_intros parts exec)
  have status: "raises (background_status pe ro r args)" if "tool = ''remote_background_status''"
    unfolding background_status_def using that pe by (auto intro!: raises_intros parts task simp: demanded_texts_def)
  have log: "raises (background_log pe ro r args)" if "tool = ''remote_background_log''"
    unfolding background_log_def Let_def using that pe by (auto intro!: raises_intros parts task simp: demanded_texts_def)
  have cancel: "raises (background_cancel pe ro r args)" if "tool = ''remote_background_cancel''"
    unfolding background_cancel_def using that pe by (auto intro!: raises_intros parts task simp: demanded_texts_def)
  note files = workspace_tool_declared [OF schema pe]
  show ?thesis
    unfolding execute_tool_def thread(1)
    by (intro raises_if start run status log cancel raises_after raises_checked no_mismatch_legacy
        no_mismatch_ensure parts files) simp_all
qed

lemma attach_resource_raises: "well_answering pe \<Longrightarrow> raises (attach_resource pe ro ob r tool data)"
proof -
  have fail: "raises (case with_resource data x of Inl e \<Rightarrow> fail_with e | Inr d \<Rightarrow> give d)" for x
    by (auto simp: with_resource_def raises_def fail_with_def give_def proper_error_def split: sum.splits if_splits option.splits)
  assume "well_answering pe"
  then show ?thesis
    by (auto simp: attach_resource_def intro!: raises_intros fail split: option.split)
qed

definition call_params :: "string \<Rightarrow> string \<Rightarrow> jobj \<Rightarrow> json" where
  "call_params call tool args =
     JObj [(''callId'', JStr call), (''tool'', JStr tool), (''arguments'', JObj args)]"

definition refused_form :: "handled \<Rightarrow> bool" where
  "refused_form h \<longleftrightarrow>
     (case hd_answer h of
        Inl e \<Rightarrow> err_code e = PROTOCOL_MISMATCH
      | Inr a \<Rightarrow> (case an_error a of None \<Rightarrow> False | Some p \<Rightarrow> pl_code p = PROTOCOL_MISMATCH))"


lemma demo_peer_answers: "well_answering demo_peer"
  by (auto simp: well_answering_def demo_peer_def proper_error_def split: outbound.splits if_splits)


text \<open>One of the three gaps: the identifier of a task is declared as any text of up to 64 characters.\<close>

definition demo_task_args :: jobj where
  "demo_task_args = [(''taskId'', JStr ''bg 1'')]"

lemma task_id_gap:
  "conforms (\<lambda>_ _. True) remote_background_status_schema (JObj demo_task_args) \<and>
   refused_form (handle (\<lambda>_. JNull) demo_peer demo_router demo_observer None (JInt 1)
     (call_params ''c4'' ''remote_background_status'' demo_task_args))"
  by code_simp

end
