(* ===== verification/ToolRoutes.thy ===== *)
theory ToolRoutes
  imports ToolSchemas "HOL-Library.List_Lexorder"
begin

text \<open>
  \<^verbatim>\<open>src/shim/tool-routing.ts\<close>: the inventory of routes that the agent is shown, with where each tool runs.
  Strings are compared by their code units, as JavaScript compares them; both sorts are stable.
\<close>

section \<open>Routes\<close>

datatype location = AtLocal | AtProvider | AtRemote | AtSelectedRoot | AtNone

datatype route_status = Available | DegradedRoute | ProviderManaged | RouteConfigured | Unavailable

datatype provider = AppProvider | BridgeDynamic | ConnectorProvider | McpProvider | WebProvider

datatype binding = ExplicitRoot | NoBinding | ProviderDefined | RemotePrimary

record route =
  rt_capabilities :: "string list"
  rt_detail :: string
  rt_location :: location
  rt_provider :: provider
  rt_selector :: string
  rt_status :: route_status
  rt_binding :: binding

record inventory =
  iv_primary :: string
  iv_routes :: "route list"

record observation =
  on_local :: "string list"
  on_failed :: bool
  on_remote :: "string list"
  on_skipped :: "string list"

definition no_observation :: observation where
  "no_observation = \<lparr>on_local = [], on_failed = False, on_remote = [], on_skipped = []\<rparr>"

definition dynamic_capabilities :: "string \<Rightarrow> string list" where
  "dynamic_capabilities name =
     (if name \<in> set mutation_tools then [''workspace'', ''mutation'']
      else if name \<in> set resource_tools then [''workspace'', ''editor'']
      else if name = ''workspace_git_status'' then [''workspace'', ''git-read'']
      else if name \<in> set workspace_tools then [''workspace'', ''read'']
      else if name \<in> set background_tools then [''command'', ''background'']
      else [''command'', ''foreground''])"

definition dynamic_route :: "string \<Rightarrow> route" where
  "dynamic_route name =
     (let selected = name \<in> set workspace_tools in
      \<lparr>rt_capabilities = dynamic_capabilities name,
       rt_detail = (if selected
         then ''Bridge validates an explicit authorized root; omission selects the remote primary root.''
         else ''Bridge executes through the active Remote SSH transport in the remote primary root.''),
       rt_location = (if selected then AtSelectedRoot else AtRemote), rt_provider = BridgeDynamic, rt_selector = name,
       rt_status = Available, rt_binding = (if selected then ExplicitRoot else RemotePrimary)\<rparr>)"

definition dynamic_routes :: "route list" where
  "dynamic_routes = map dynamic_route advertised_tools"

definition mcp_selector :: "string \<Rightarrow> string" where
  "mcp_selector name = ''mcp:'' @ name @ ''/*''"

definition mcp_route :: "observation \<Rightarrow> string \<Rightarrow> route" where
  "mcp_route on name =
     (let remote = name \<in> set (on_remote on); skipped = name \<in> set (on_skipped on) in
      \<lparr>rt_capabilities = [''provider-tools''],
       rt_detail = (if skipped
         then ''The active app-server rejected the requested access override; existing provider availability is retained without a Bridge access claim.''
         else if remote
         then ''The remote executable probe and app-server route override succeeded; this does not declare that any individual provider tool is present in the current turn.''
         else ''The configured provider transport remains local; Bridge does not grant it remote workspace semantics or declare individual provider-tool availability.''),
       rt_location = (if remote then AtRemote else AtLocal), rt_provider = McpProvider, rt_selector = mcp_selector name,
       rt_status = (if skipped then DegradedRoute else RouteConfigured),
       rt_binding = (if remote then RemotePrimary else NoBinding)\<rparr>)"

definition failed_route :: route where
  "failed_route =
     \<lparr>rt_capabilities = [''provider-tools''],
      rt_detail = ''MCP route discovery failed; inspect the Bridge audit log for the runtime failure.'',
      rt_location = AtNone, rt_provider = McpProvider, rt_selector = ''mcp:*'', rt_status = Unavailable,
      rt_binding = NoBinding\<rparr>"

definition mcp_names :: "observation \<Rightarrow> string list" where
  "mcp_names on = sort (remdups (on_remote on @ on_local on @ on_skipped on))"

definition mcp_routes :: "observation \<Rightarrow> route list" where
  "mcp_routes on = map (mcp_route on) (mcp_names on) @ (if on_failed on then [failed_route] else [])"

definition passthrough_route :: "provider \<Rightarrow> string \<Rightarrow> string \<Rightarrow> binding \<Rightarrow> route" where
  "passthrough_route p selector capability b =
     \<lparr>rt_capabilities = [capability],
      rt_detail = ''The official app-server owns discovery and execution. Bridge preserves the provider location and does not infer workspace access.'',
      rt_location = AtProvider, rt_provider = p, rt_selector = selector, rt_status = ProviderManaged, rt_binding = b\<rparr>"

definition passthrough_routes :: "route list" where
  "passthrough_routes =
     [passthrough_route AppProvider ''app:*'' ''provider-defined'' ProviderDefined,
      passthrough_route ConnectorProvider ''connector:*'' ''provider-defined'' ProviderDefined,
      passthrough_route WebProvider ''web:*'' ''web'' NoBinding]"

definition remote_primary_root_of :: "workspace_root list \<Rightarrow> workspace_root option" where
  "remote_primary_root_of rs = List.find (\<lambda>r. wr_remote r \<and> wr_primary r) rs"

definition create_inventory :: "bridge_config \<Rightarrow> observation \<Rightarrow> thrown + inventory" where
  "create_inventory c on =
     (case remote_primary_root_of (bc_roots c) of
        None \<Rightarrow> Inl (ThrownError ''Bridge configuration has no remote primary root'')
      | Some r \<Rightarrow> Inr
          \<lparr>iv_primary = wr_id r,
           iv_routes = sort_key rt_selector (dynamic_routes @ mcp_routes on @ passthrough_routes)\<rparr>)"

section \<open>The inventory as text\<close>

fun location_text :: "location \<Rightarrow> string" where
  "location_text AtLocal = ''local''"
| "location_text AtProvider = ''provider-defined''"
| "location_text AtRemote = ''remote''"
| "location_text AtSelectedRoot = ''selected-root''"
| "location_text AtNone = ''unavailable''"

fun status_text :: "route_status \<Rightarrow> string" where
  "status_text Available = ''available''"
| "status_text DegradedRoute = ''degraded''"
| "status_text ProviderManaged = ''provider-managed''"
| "status_text RouteConfigured = ''route-configured''"
| "status_text Unavailable = ''unavailable''"

fun provider_text :: "provider \<Rightarrow> string" where
  "provider_text AppProvider = ''app''"
| "provider_text BridgeDynamic = ''bridge-dynamic''"
| "provider_text ConnectorProvider = ''connector''"
| "provider_text McpProvider = ''mcp''"
| "provider_text WebProvider = ''web''"

fun binding_text :: "binding \<Rightarrow> string" where
  "binding_text ExplicitRoot = ''explicit-root''"
| "binding_text NoBinding = ''none''"
| "binding_text ProviderDefined = ''provider-defined''"
| "binding_text RemotePrimary = ''remote-primary''"

abbreviation NEWLINE :: string where
  "NEWLINE \<equiv> [CHR 0x0A]"

definition route_line :: "route \<Rightarrow> string" where
  "route_line r =
     ''- '' @ rt_selector r @ '': provider='' @ provider_text (rt_provider r) @ ''; location='' @
     location_text (rt_location r) @ ''; workspaceBinding='' @ binding_text (rt_binding r) @ ''; status='' @
     status_text (rt_status r) @ ''; capabilities='' @ join_with '','' (rt_capabilities r) @ ''; '' @ rt_detail r"

definition inventory_heading :: "string list" where
  "inventory_heading =
     [''Unified tool route inventory:'',
      ''- Treat this inventory as authoritative for execution location and workspace binding.'',
      ''- Family selectors with status=route-configured describe provider routing only; call an individual provider tool only when it is present in the current turn'' @ [QUOTE] @ ''s tool list.'',
      ''- Never infer a tool'' @ [QUOTE] @ ''s execution location from the presence or absence of target or rootId parameters.'',
      ''- target and rootId select roots only for routes whose workspaceBinding is explicit-root.'']"

definition format_inventory :: "inventory \<Rightarrow> string" where
  "format_inventory iv =
     join_with NEWLINE (inventory_heading @ [''- Remote primary root id: '' @ iv_primary iv @ ''.''] @
       map route_line (iv_routes iv))"

definition route_json :: "route \<Rightarrow> json" where
  "route_json r =
     JObj [(''capabilities'', JArr (map JStr (rt_capabilities r))), (''detail'', JStr (rt_detail r)),
       (''location'', JStr (location_text (rt_location r))), (''provider'', JStr (provider_text (rt_provider r))),
       (''selector'', JStr (rt_selector r)), (''status'', JStr (status_text (rt_status r))),
       (''workspaceBinding'', JStr (binding_text (rt_binding r)))]"

text \<open>\<open>JSON.stringify\<close> of this value.\<close>

definition inventory_json :: "inventory \<Rightarrow> json" where
  "inventory_json iv =
     JObj [(''primaryRootId'', JStr (iv_primary iv)), (''routes'', JArr (map route_json (iv_routes iv))),
       (''schemaVersion'', JInt 1)]"

section \<open>One route for each selector\<close>

lemma advertised_distinct: "distinct advertised_tools"
  by code_simp

lemma passthrough_selectors:
  "list_all (\<lambda>s. s \<notin> set advertised_tools \<and> \<not> starts_with s ''mcp:'') (map rt_selector passthrough_routes)"
  "distinct (map rt_selector passthrough_routes)"
  by code_simp+

lemma advertised_not_mcp: "list_all (\<lambda>s. \<not> starts_with s ''mcp:'') advertised_tools"
  by code_simp

lemma mcp_selectors:
  "map rt_selector (mcp_routes on) = map mcp_selector (mcp_names on) @ (if on_failed on then [''mcp:*''] else [])"
  by (simp add: mcp_routes_def mcp_route_def failed_route_def Let_def comp_def)

lemma mcp_selector_prefix: "s \<in> set (map rt_selector (mcp_routes on)) \<Longrightarrow> starts_with s ''mcp:''"
  by (auto simp: mcp_selectors mcp_selector_def starts_with_iff split: if_splits)

lemma mcp_selectors_distinct: "distinct (map rt_selector (mcp_routes on))"
  by (auto simp: mcp_selectors distinct_map inj_on_def mcp_selector_def mcp_names_def append_eq_Cons_conv)

lemma dynamic_selectors: "map rt_selector dynamic_routes = advertised_tools"
  by (simp add: dynamic_routes_def dynamic_route_def Let_def comp_def)

lemma all_selectors_distinct:
  "distinct (map rt_selector (dynamic_routes @ mcp_routes on @ passthrough_routes))"
proof -
  have "set advertised_tools \<inter> set (map rt_selector (mcp_routes on)) = {}"
    using advertised_not_mcp mcp_selector_prefix by (fastforce simp: list_all_iff)
  moreover have "set (map rt_selector passthrough_routes) \<inter> set (map rt_selector (mcp_routes on)) = {}"
    using passthrough_selectors(1) mcp_selector_prefix by (fastforce simp: list_all_iff)
  moreover have "set (map rt_selector passthrough_routes) \<inter> set advertised_tools = {}"
    using passthrough_selectors(1) by (auto simp: list_all_iff)
  ultimately show ?thesis
    unfolding map_append dynamic_selectors distinct_append
    using advertised_distinct mcp_selectors_distinct [of on] passthrough_selectors(2) by auto
qed

lemma sorted_distinct_strict: "sorted xs \<Longrightarrow> distinct xs \<Longrightarrow> sorted_wrt (<) xs" for xs :: "'a::linorder list"
  by (simp add: strict_sorted_iff)

text \<open>The inventory is a map: its routes are in strict order of their selectors, so each selector
  has one route, and they are the tools that are advertised, the configured servers, whether they were
  routed, left local or skipped, a notice when routing failed, and the families of the official server.
\<close>

theorem inventory_strictly_sorted:
  assumes "create_inventory c on = Inr iv"
  shows "sorted_wrt (<) (map rt_selector (iv_routes iv)) \<and>
    set (map rt_selector (iv_routes iv)) =
      set advertised_tools \<union> mcp_selector ` (set (on_remote on) \<union> set (on_local on) \<union> set (on_skipped on)) \<union>
      (if on_failed on then {''mcp:*''} else {}) \<union> {''app:*'', ''connector:*'', ''web:*''}"
proof -
  let ?rs = "dynamic_routes @ mcp_routes on @ passthrough_routes"
  have routes: "iv_routes iv = sort_key rt_selector ?rs"
    using assms by (auto simp: create_inventory_def split: option.splits)
  have "distinct (map rt_selector (sort_key rt_selector ?rs))"
    using all_selectors_distinct [of on] by (metis distinct_map distinct_sort set_sort)
  then have sorted: "sorted_wrt (<) (map rt_selector (iv_routes iv))"
    unfolding routes by (intro sorted_distinct_strict) simp_all
  have same: "set (map rt_selector (iv_routes iv)) = set (map rt_selector ?rs)"
    by (simp only: routes set_map set_sort)
  have "set (map rt_selector ?rs) = set advertised_tools \<union>
      mcp_selector ` (set (on_remote on) \<union> set (on_local on) \<union> set (on_skipped on)) \<union>
      (if on_failed on then {''mcp:*''} else {}) \<union> {''app:*'', ''connector:*'', ''web:*''}"
    unfolding map_append dynamic_selectors set_append mcp_selectors
    by (auto simp: mcp_names_def passthrough_routes_def passthrough_route_def)
  then show ?thesis unfolding same using sorted by blast
qed

section \<open>What the routes declare of the router\<close>

fun task_call :: "outbound \<Rightarrow> bool" where
  "task_call (StartTask i x k) = True"
| "task_call (TaskStatus i) = True"
| "task_call (TaskLog i n m) = True"
| "task_call (CancelTask i) = True"
| "task_call _ = False"

fun command_call :: "outbound \<Rightarrow> bool" where
  "command_call (Execute s x k) = True"
| "command_call _ = False"

lemma background_sends_tasks:
  "sends task_call (start_background pe ro ob r args)" "sends task_call (background_status pe ro r args)"
  "sends task_call (background_log pe ro r args)" "sends task_call (background_cancel pe ro r args)"
  unfolding start_background_def background_status_def background_log_def background_cancel_def Let_def
  by (intro sends_intros; simp)+

lemma background_tasks_only:
  "tool \<in> set background_tools \<Longrightarrow> sends task_call (run_tool pe ro ob r tool args)"
proof -
  assume tool: "tool \<in> set background_tools"
  have none: "attach_path ro tool data = None" for data
    using tool by (auto simp: attach_path_def attached_tools_def normalize_tool_def legacy_aliases_def background_tools_def split: option.split)
  have "sends task_call (execute_tool pe ro ob r tool args)"
    unfolding execute_tool_def
    by (intro sends_if background_sends_tasks) (use tool in \<open>simp_all add: background_tools_def\<close>)
  then show ?thesis unfolding run_tool_def attach_resource_def none option.case by (intro sends_intros)
qed

lemma commands_only: "sends command_call (run_tool pe ro ob r ''remote_exec'' args)"
proof -
  have none: "attach_path ro ''remote_exec'' data = None" for data
    by (auto simp: attach_path_def attached_tools_def normalize_tool_def legacy_aliases_def split: option.split)
  have "sends command_call (execute_tool pe ro ob r ''remote_exec'' args)"
    by (simp add: execute_tool_def remote_exec_def sends_intros)
  then show ?thesis unfolding run_tool_def attach_resource_def none option.case by (intro sends_intros)
qed

lemma advertised_kinds:
  "list_all (\<lambda>t. t \<in> set workspace_tools \<or> t \<in> set background_tools \<or> t = ''remote_exec'') advertised_tools"
  by code_simp

lemma handle_params:
  assumes "x \<in> set (hd_sent (handle json_of pe ro ob wait rpc (call_params call tool args)))"
  obtains r q sent where "requested_root ro (ob_resources ob) args = Inr r"
    "run_tool pe ro ob r tool args [] = (q, sent)" "x \<in> set sent"
proof (cases "requested_root ro (ob_resources ob) args")
  case (Inl e)
  then show ?thesis using assms
    by (auto simp: handle_def checked_call_def call_params_def parse_tool_call_def argument_object_def oget_def
        jm_get_Cons ensure_def split: if_splits)
next
  case (Inr r)
  obtain q sent where run: "run_tool pe ro ob r tool args [] = (q, sent)" by fastforce
  have "x \<in> set sent" using assms
    by (auto simp: handle_def checked_call_def call_params_def parse_tool_call_def argument_object_def oget_def
        jm_get_Cons ensure_def Inr run Let_def split: if_splits sum.splits)
  then show ?thesis using that Inr run by blast
qed

lemma default_root_primary:
  assumes "requested_root ro rs args = Inr r" "oget args ''target'' = None" "oget args ''rootId'' = None"
    and "remote_primary_root_of (bc_roots (ro_config ro)) = Some d"
  shows "\<not> sc_local r \<and> sc_id r = wr_id d"
proof -
  have "List.find (\<lambda>r. \<not> sc_local r \<and> sc_role r = PrimaryRole) (map scope_of_root xs) =
      map_option scope_of_root (remote_primary_root_of xs)" for xs
    by (induction xs) (auto simp: remote_primary_root_of_def scope_of_root_def)
  then have "List.find (\<lambda>r. \<not> sc_local r \<and> sc_role r = PrimaryRole) (config_scopes ro) = Some (scope_of_root d)"
    using assms(4) by (simp add: config_scopes_def)
  then show ?thesis using assms(1-3)
    by (auto simp: requested_root_def Let_def nullish_def scope_of_root_def dest!: find_scope_Some split: option.splits if_splits)
qed


definition demo_observation :: observation where
  "demo_observation =
     \<lparr>on_local = [''git'', ''codegraph''], on_failed = True, on_remote = [''codegraph''], on_skipped = [''a'']\<rparr>"

definition demo_inventory :: inventory where
  "demo_inventory = (case create_inventory demo_parsed demo_observation of Inl e \<Rightarrow> \<lparr>iv_primary = [], iv_routes = []\<rparr> | Inr iv \<Rightarrow> iv)"

theorem inventory_strictly_sorted_witness:
  "sorted_wrt (<) (map rt_selector (iv_routes demo_inventory)) \<and>
   ''mcp:a/*'' \<in> set (map rt_selector (iv_routes demo_inventory))"
proof -
  have "create_inventory demo_parsed demo_observation = Inr demo_inventory" by code_simp
  from inventory_strictly_sorted [OF this] show ?thesis
    by (auto simp: demo_observation_def mcp_selector_def)
qed


text \<open>The exception is real: with the root of the home directory a command runs there, although its route is
  declared as bound to the primary root.\<close>

definition home_router :: router where
  "home_router =
     \<lparr>ro_config = (ro_config demo_router)\<lparr>bc_roots := bc_roots (ro_config demo_router) @
        [\<lparr>wr_id = home_access_id, wr_remote = True, wr_primary = False, wr_path = ''/home/u'', wr_name = ''Remote user home''\<rparr>]\<rparr>,
      ro_controller = True\<rparr>"

lemma remote_exec_leaves_primary:
  "(case hd_sent (handle (\<lambda>_. JNull) demo_peer home_router demo_observer None (JInt 1)
     (call_params ''c'' ''remote_exec'' [(''argv'', JArr [JStr ''pwd'']), (''rootId'', JStr home_access_id)])) of
    [Execute (HomeSeat p) y k] \<Rightarrow> p = ''/home/u'' | _ \<Rightarrow> False) \<and>
   rt_binding (dynamic_route ''remote_exec'') = RemotePrimary"
  by code_simp

end
