(* ===== verification/Spec2Isabelle.thy ===== *)
theory Spec2Isabelle
  imports StateMachine OperationLedger PathPolicy BackgroundTasks StdioSessions
    Mutations LocalRoots ConversationResources LocalWrites Dispatcher ApprovalPolicy SharedServer TransportServer RemoteHost Rewrite
begin

text \<open>
  \<^bold>\<open>A verification development for the Codex Remote Bridge.\<close>

  The program connects the official Codex client in a local editor to a project on a remote
  host. A controller (\<^verbatim>\<open>src/extension\<close>) runs in the local window, a shim (\<^verbatim>\<open>src/shim\<close>) sits
  between the client and the app server and rewrites what they exchange, and a remote extension
  (\<^verbatim>\<open>src/remote-extension\<close>) executes commands, tasks and file operations on the host. What they
  share is in \<^verbatim>\<open>src/core\<close>. The model is shallow: a class is a record, a mutable object is an
  entry of a store, a method is a function from state to state, an exception is the left side of
  a sum, and asynchronous code is cut at its \<open>await\<close>s into steps that others may interleave.

  \<^bold>\<open>Foundations.\<close> \<open>Prelude\<close> holds results as sums, JavaScript maps and sets as association lists
  (the locale \<open>js_map\<close>), runs of a step function with the locales \<open>guarded_machine\<close> and
  \<open>invariant_machine\<close>, and strings. \<open>Json\<close> holds JSON values and the message guards of
  \<^verbatim>\<open>src/shim/rpc.ts\<close>, \<open>Errors\<close> the errors of \<^verbatim>\<open>src/core/errors.ts\<close>, \<open>NodePath\<close> the functions of
  \<open>path.posix\<close>, \<open>Bytes\<close> base64 and bytes, \<open>Memento\<close> the store of the editor and the canonical
  containment check, \<open>HostFs\<close> a POSIX file system with links, inodes, interference by others
  between any two calls, and calls that fail.

  \<^bold>\<open>Shared components.\<close> \<open>StateMachine\<close> is \<^verbatim>\<open>src/core/state-machine.ts\<close>. \<open>OperationLedger\<close> is
  \<^verbatim>\<open>src/core/operation-ledger.ts\<close>: entries are objects in a store, the promises of an operation
  are named by the entry, time is an argument. \<open>PathPolicy\<close> is \<^verbatim>\<open>src/core/path-policy.ts\<close> and
  \<^verbatim>\<open>src/remote-extension/workspace.ts\<close>. \<open>Mutations\<close> is \<^verbatim>\<open>src/core/workspace-mutations.ts\<close>, with
  the UTF-8 codec. \<open>RemoteMcp\<close> is \<^verbatim>\<open>src/core/remote-mcp-policy.ts\<close> and its adapters.

  \<^bold>\<open>The remote side.\<close> \<open>TaskLog\<close> and \<open>BackgroundTasks\<close> are
  \<^verbatim>\<open>src/remote-extension/background-tasks.ts\<close>: the bounded log as a window of the stream that
  was appended, the tasks as objects that child processes and timers change. \<open>StdioSessions\<close> is
  \<^verbatim>\<open>src/remote-extension/stdio-sessions.ts\<close>.

  \<^bold>\<open>The local side.\<close> \<open>LocalRoots\<close> and \<open>ConversationResources\<close> are the two authorities of
  \<^verbatim>\<open>src/extension\<close> that record what the user allowed. \<open>LocalWorkspace\<close> and \<open>LocalListing\<close> are the
  operations of \<^verbatim>\<open>src/extension/local-workspace-executor.ts\<close> over \<open>HostFs\<close>; \<open>LocalSafety\<close> has a small
  calculus of invariants under interference and what it shows of them, \<open>LocalReads\<close> that the
  reading operations change nothing, \<open>LocalWrites\<close> what an undisturbed write does. \<open>Dispatcher\<close> is
  \<^verbatim>\<open>src/extension/controller-workspace-dispatcher.ts\<close>, which decides on authorisation and joins the
  ledger and the executor.

  \<^bold>\<open>The shim.\<close> \<open>LocalCorePolicy\<close> is \<^verbatim>\<open>src/shim/local-core-policy.ts\<close>, \<open>ApprovalPolicy\<close> is
  \<^verbatim>\<open>src/shim/remote-approval-policy.ts\<close>, \<open>Requests\<close> is \<^verbatim>\<open>src/shim/service-requests.ts\<close> and
  \<^verbatim>\<open>src/shim/request-callback-queue.ts\<close> (the locales \<open>answer_once\<close> and \<open>answer_all\<close>), \<open>ToolCalls\<close>
  has the coordinator of tool calls and the turn tracker of \<^verbatim>\<open>src/shim/proxy.ts\<close>.

  \<^bold>\<open>What is shown.\<close> Each theory proves an invariant of its state that every operation keeps and
  then what the operations promise: at most one execution of an operation (ledger, coordinator,
  callbacks), that nothing is reached that was not authorised (authorities, dispatcher, executor,
  paths, attachments), that data survives (log, sessions, patches, writes), what the client is
  shown (approval policy), and where the code falls short of what it means to do, as a run that
  shows it. The properties that join components are in \<open>Dispatcher\<close> and at the end of this theory.

  \<^bold>\<open>Bounds.\<close> Symbolic links are followed at most 40 times, as Linux does. A world carries a list
  of what others do before each of the next calls; when it is used up they do nothing more.
  Listing, search, pagination and framing are total functions with termination proofs, no fuel.
  Strings are lists of 8-bit characters, so texts are covered whose code units fit one; patches
  work on lists of code points instead. Numbers that JavaScript keeps exactly are integers.

  \<^bold>\<open>Not modelled.\<close> Hashing, \<open>JSON.parse\<close> and \<open>JSON.stringify\<close>, \<open>localeCompare\<close>, random identifiers,
  \<open>git\<close> and shells are arguments. Windows paths, permissions and the umask are left out. The
  editor's user interface, sockets, process start-up, the patches applied to other products and
  the scripts run over SSH are input and output around decisions taken elsewhere or by programs
  that are not in the repository. Planned next are the remaining tables of the shim and of the
  transport between the windows, the configuration and the rewriting of messages.
\<close>

section \<open>Properties across components\<close>

lemma slash_root_inside:
  assumes "\<forall>s\<in>set cs. clean_seg s"
  shows "is_path_inside (abs_path []) (abs_path cs) \<longleftrightarrow> cs = []"
proof (cases cs)
  case (Cons s ss)
  with assms have "s \<noteq> []" "SLASH \<notin> set s" by (auto simp: clean_seg_def)
  with Cons show ?thesis
    by (cases s; cases ss) (auto simp: is_path_inside_def starts_with_iff abs_path_def path_join_def)
qed (simp add: is_path_inside_def)



end
